(* ===== verification/Prelude.thy ===== *)
theory Prelude
  imports Main "HOL-Library.Word" "HOL-Library.Monad_Syntax"
begin

text \<open>
  The vocabulary every component shares: the machine types of the kernel, the success codes
  of its \<open>bool\<close> (a signed byte in \<open>stdint.h\<close>), arrays with checked reads and writes,
  and the generic facts about lists, options and words that the component proofs use.

  The value \<open>None\<close> of a result means that the C function does not come back with a defined
  result: it has left an object, divided by zero, halted in \<open>die\<close> or waits for ever.
  Failure that the code reports with a return code is a value inside \<open>Some\<close>.
\<close>

unbundle bit_operations_syntax

section \<open>Machine types and return codes\<close>

type_synonym byte = "8 word"
type_synonym u16 = "16 word"
type_synonym u32 = "32 word"

text \<open>
  \<open>system.h\<close>: SUCCESS is 1 and FAILURE is -1, both of them true in a C condition.
  Return codes are integers; \<open>c_true\<close> is the test a C \<open>if\<close> makes.
\<close>

definition SUCCESS :: int where
  "SUCCESS = 1"

definition FAILURE :: int where
  "FAILURE = - 1"

definition c_true :: "int \<Rightarrow> bool" where
  "c_true r \<longleftrightarrow> r \<noteq> 0"

lemma codes [simp]:
  "SUCCESS \<noteq> FAILURE" "FAILURE \<noteq> SUCCESS" "SUCCESS \<noteq> 0" "FAILURE \<noteq> 0"
  "0 < SUCCESS" "FAILURE < 0" "\<not> FAILURE > 0" "\<not> SUCCESS < 0" "c_true SUCCESS" "c_true FAILURE"
  by (simp_all add: SUCCESS_def FAILURE_def c_true_def)

text \<open>The bytes of a string literal, without its terminator.\<close>

definition str :: "string \<Rightarrow> byte list" where
  "str s = map of_char s"

lemma length_str [simp]: "length (str s) = length s"
  by (simp add: str_def)

section \<open>Rule collections\<close>

text \<open>
  \<open>in_bounds\<close> holds the facts that say when a checked access is defined, \<open>frame\<close> those
  that say what an operation leaves alone.
\<close>

named_theorems in_bounds
named_theorems frame

section \<open>Arrays with checked accesses\<close>

definition rd :: "'a list \<Rightarrow> nat \<Rightarrow> 'a option" where
  "rd xs i = (if i < length xs then Some (xs ! i) else None)"

definition wr :: "'a list \<Rightarrow> nat \<Rightarrow> 'a \<Rightarrow> 'a list option" where
  "wr xs i x = (if i < length xs then Some (xs[i := x]) else None)"

lemma rd_in [in_bounds, simp]: "i < length xs \<Longrightarrow> rd xs i = Some (xs ! i)"
  by (simp add: rd_def)

lemma wr_in [in_bounds, simp]: "i < length xs \<Longrightarrow> wr xs i x = Some (xs[i := x])"
  by (simp add: wr_def)

lemma rd_None_iff [simp]: "rd xs i = None \<longleftrightarrow> length xs \<le> i"
  by (auto simp: rd_def)

lemma wr_None_iff [simp]: "wr xs i x = None \<longleftrightarrow> length xs \<le> i"
  by (auto simp: wr_def)

lemma rd_Some_iff: "rd xs i = Some x \<longleftrightarrow> i < length xs \<and> xs ! i = x"
  by (auto simp: rd_def)

lemma wr_Some_iff: "wr xs i x = Some ys \<longleftrightarrow> i < length xs \<and> ys = xs[i := x]"
  by (auto simp: wr_def)

lemma wr_length [frame]: "wr xs i x = Some ys \<Longrightarrow> length ys = length xs"
  by (auto simp: wr_def split: if_splits)

lemma ball_list_update: "\<forall>x \<in> set xs. P x \<Longrightarrow> P y \<Longrightarrow> \<forall>x \<in> set (xs[i := y]). P x"
  using set_update_subset_insert [of xs i y] by blast

lemma rd_wr_same: "wr xs i x = Some ys \<Longrightarrow> rd ys i = Some x"
  by (auto simp: wr_Some_iff)

lemma rd_wr_other [frame]: "wr xs i x = Some ys \<Longrightarrow> j \<noteq> i \<Longrightarrow> rd ys j = rd xs j"
  by (auto simp: wr_Some_iff rd_def)

text \<open>
  A block copy into an array at an offset: the outcome of a sequence of single writes.
\<close>

definition blit :: "'a list \<Rightarrow> nat \<Rightarrow> 'a list \<Rightarrow> 'a list option" where
  "blit xs i ys =
     (if i + length ys \<le> length xs
      then Some (take i xs @ ys @ drop (i + length ys) xs) else None)"

lemma blit_in [in_bounds]:
  "i + length ys \<le> length xs \<Longrightarrow> blit xs i ys = Some (take i xs @ ys @ drop (i + length ys) xs)"
  by (simp add: blit_def)

lemma blit_Some_iff:
  "blit xs i ys = Some zs \<longleftrightarrow>
     i + length ys \<le> length xs \<and> zs = take i xs @ ys @ drop (i + length ys) xs"
  by (auto simp: blit_def)

lemma blit_length [frame]: "blit xs i ys = Some zs \<Longrightarrow> length zs = length xs"
  by (auto simp: blit_Some_iff)

section \<open>Loops over an index\<close>

text \<open>
  \<open>for_loop f [a..<b] s\<close> is the C loop whose body \<open>f i\<close> may fail and changes \<open>s\<close>.
\<close>

fun for_loop :: "('i \<Rightarrow> 's \<Rightarrow> 's option) \<Rightarrow> 'i list \<Rightarrow> 's \<Rightarrow> 's option" where
  "for_loop f [] s = Some s"
| "for_loop f (i # is) s = do { s' \<leftarrow> f i s; for_loop f is s' }"

lemma for_loop_append:
  "for_loop f (is @ js) s = do { s' \<leftarrow> for_loop f is s; for_loop f js s' }"
  by (induction "is" arbitrary: s) (auto split: bind_splits)

lemma for_loop_invariant:
  assumes "for_loop f is s = Some s'" and "I s"
    and "\<And>i s s'. i \<in> set is \<Longrightarrow> I s \<Longrightarrow> f i s = Some s' \<Longrightarrow> I s'"
  shows "I s'"
  using assms
proof (induction "is" arbitrary: s)
  case Nil
  then show ?case by simp
next
  case (Cons i "is")
  from Cons.prems(1) obtain t where t: "f i s = Some t" "for_loop f is t = Some s'"
    by (auto simp: bind_eq_Some_conv)
  have "I t" using Cons.prems(2,3) t(1) by (metis list.set_intros(1))
  with t(2) show ?case using Cons.IH Cons.prems(3) by (metis list.set_intros(2))
qed

lemma for_loop_total:
  assumes "I s"
    and "\<And>i s. i \<in> set is \<Longrightarrow> I s \<Longrightarrow> \<exists>s'. f i s = Some s' \<and> I s'"
  shows "\<exists>s'. for_loop f is s = Some s' \<and> I s'"
  using assms
proof (induction "is" arbitrary: s)
  case Nil
  then show ?case by simp
next
  case (Cons i "is")
  then obtain t where "f i s = Some t" "I t" by fastforce
  with Cons show ?case by fastforce
qed

lemma for_loop_cong [fundef_cong]:
  assumes "is = js" and "s = t" and "\<And>i s. i \<in> set js \<Longrightarrow> f i s = h i s"
  shows "for_loop f is s = for_loop h js t"
proof -
  have "for_loop f js t = for_loop h js t" using assms(3)
    by (induction js arbitrary: t) (auto split: bind_splits)
  then show ?thesis using assms(1,2) by simp
qed

text \<open>A loop that counts the indices with a property.\<close>

lemma for_loop_count:
  assumes "\<And>i c. i < n \<Longrightarrow> f i c = Some (if P i then c + 1 else c)"
  shows "for_loop f [0..<n] c = Some (c + length (filter P [0..<n]))"
  using assms
proof (induction n arbitrary: c)
  case 0
  then show ?case by simp
next
  case (Suc n)
  then show ?case by (simp add: for_loop_append)
qed

lemma filter_upt_nth: "length (filter (\<lambda>i. P (xs ! i)) [0..<length xs]) = length (filter P xs)"
  by (metis (mono_tags, lifting) filter_map length_map map_nth o_def filter_cong)

text \<open>Small indices, one by one: rules for the tables of the code.\<close>

lemma less_10_cases: "k < 10 \<Longrightarrow> k \<in> {0, 1, 2, 3, 4, 5, 6, 7, 8, 9 :: nat}"
  by (simp only: insert_iff empty_iff) presburger

lemma less_16_cases:
  "k < 16 \<Longrightarrow> k \<in> {0, 1, 2, 3, 4, 5, 6, 7, 8, 9, 10, 11, 12, 13, 14, 15 :: nat}"
  by (simp only: insert_iff empty_iff) presburger

section \<open>Words\<close>

text \<open>The bytes of little-endian integers in memory.\<close>

definition le16 :: "byte \<Rightarrow> byte \<Rightarrow> u16" where
  "le16 b0 b1 = ucast b0 OR push_bit 8 (ucast b1)"

definition le32 :: "byte \<Rightarrow> byte \<Rightarrow> byte \<Rightarrow> byte \<Rightarrow> u32" where
  "le32 b0 b1 b2 b3 =
     ucast b0 OR push_bit 8 (ucast b1) OR push_bit 16 (ucast b2) OR push_bit 24 (ucast b3)"

definition rd16 :: "byte list \<Rightarrow> nat \<Rightarrow> u16 option" where
  "rd16 xs i = do { a \<leftarrow> rd xs i; b \<leftarrow> rd xs (i + 1); Some (le16 a b) }"

definition rd32 :: "byte list \<Rightarrow> nat \<Rightarrow> u32 option" where
  "rd32 xs i = do { a \<leftarrow> rd xs i; b \<leftarrow> rd xs (i + 1); c \<leftarrow> rd xs (i + 2); d \<leftarrow> rd xs (i + 3);
     Some (le32 a b c d) }"

lemma rd16_in [in_bounds]:
  "i + 1 < length xs \<Longrightarrow> rd16 xs i = Some (le16 (xs ! i) (xs ! (i + 1)))"
  by (simp add: rd16_def)

lemma rd32_in [in_bounds]:
  "i + 3 < length xs \<Longrightarrow>
     rd32 xs i = Some (le32 (xs ! i) (xs ! (i + 1)) (xs ! (i + 2)) (xs ! (i + 3)))"
  by (simp add: rd32_def)

lemma unat_lt_pow: "unat (w :: 'a :: len word) < 2 ^ LENGTH('a)"
  by simp

lemma unat_u16_lt [simp]: "unat (w :: u16) < 65536"
  using unat_lt_pow [of w] by simp

lemma unat_u32_lt [simp]: "unat (w :: u32) < 4294967296"
  using unat_lt_pow [of w] by simp

lemma unat_u32_le [simp]: "unat (w :: u32) \<le> 4294967296"
  using unat_u32_lt [of w] by linarith

lemma unat_byte_lt [simp]: "unat (b :: byte) < 256"
  using unat_lt_pow [of b] by simp

lemma sint_small_byte: "unat (b :: byte) < 128 \<Longrightarrow> sint b = int (unat b)"
proof -
  assume "unat b < 128"
  moreover have "int (unat b) = uint b" by simp
  ultimately have "uint b < 128" "- 128 \<le> uint b" by linarith+
  then show ?thesis by (simp add: sint_uint signed_take_bit_int_eq_self)
qed

lemma unat_drop_bit: "unat (drop_bit k w) = unat w div 2 ^ k"
  by (simp only: unat_drop_bit_eq drop_bit_eq_div [where ?'a = nat])

lemma unat_or_disjoint: "a AND b = 0 \<Longrightarrow> unat (a OR b) = unat a + unat (b :: 'a :: len word)"
  by (metis disjunctive_add_eq_or unsigned_0 unsigned_and_eq unsigned_or_eq)

lemma unat_add_small: "unat x + n < 2 ^ LENGTH('a) \<Longrightarrow> unat (x + of_nat n :: 'a :: len word) = unat x + n"
proof -
  assume "unat x + n < 2 ^ LENGTH('a)"
  then have "unat (of_nat (unat x + n) :: 'a word) = unat x + n"
    by (simp only: unat_of_nat mod_less)
  then show ?thesis by simp
qed

lemma unat_u16_add: "unat (x :: u16) + n \<le> unat (y :: u16) \<Longrightarrow> unat (x + of_nat n) = unat x + n"
  using unat_u16_lt [of y] by (intro unat_add_small) (simp del: unat_u16_lt)

lemma unat_push_bit_less:
  assumes "unat b < 2 ^ k" and "k + n \<le> LENGTH('a)"
  shows "unat (push_bit n b :: 'a :: len word) = 2 ^ n * unat b"
proof -
  have "2 ^ n * unat b < 2 ^ n * 2 ^ k" using assms(1) by simp
  also have "\<dots> \<le> 2 ^ LENGTH('a)" using assms(2)
    by (simp flip: power_add add: add.commute)
  finally have "take_bit LENGTH('a) (push_bit n (unat b)) = push_bit n (unat b)"
    by (intro take_bit_nat_eq_self) (simp add: push_bit_eq_mult mult.commute)
  moreover have "unat (push_bit n b) = take_bit LENGTH('a) (push_bit n (unat b))"
    by (rule unsigned_push_bit_eq)
  ultimately show ?thesis by (simp only: push_bit_eq_mult mult.commute)
qed

lemma unat_ucast_byte [simp]: "8 \<le> LENGTH('a) \<Longrightarrow> unat (ucast (b :: byte) :: 'a :: len word) = unat b"
proof -
  assume "8 \<le> LENGTH('a)"
  then have "(2 :: nat) ^ 8 \<le> 2 ^ LENGTH('a)" by (rule power_increasing) simp
  then have "unat b < 2 ^ LENGTH('a)" by (intro less_le_trans [OF unat_byte_lt]) simp
  then show ?thesis by (simp add: unsigned_ucast_eq take_bit_nat_eq_self)
qed

lemma unat_ucast_small:
  "unat (w :: 'a :: len word) < 2 ^ LENGTH('b) \<Longrightarrow> unat (ucast w :: 'b :: len word) = unat w"
  by (simp add: unsigned_ucast_eq take_bit_nat_eq_self)

lemma unat_le16: "unat (le16 a b) = unat a + 256 * unat b"
proof -
  have "(ucast a :: 16 word) AND push_bit 8 (ucast b) = 0"
    by (rule bit_word_eqI) (auto simp: bit_simps dest: bit_imp_le_length)
  moreover have "unat (push_bit 8 (ucast b :: 16 word)) = 2 ^ 8 * unat (ucast b :: 16 word)"
    by (intro unat_push_bit_less [where k = 8]) simp_all
  ultimately show ?thesis by (simp add: le16_def unat_or_disjoint)
qed

lemma unat_le32: "unat (le32 a b c d) = unat a + 256 * unat b + 65536 * unat c + 16777216 * unat d"
proof -
  let ?a = "ucast a :: 32 word" and ?b = "push_bit 8 (ucast b) :: 32 word"
    and ?c = "push_bit 16 (ucast c) :: 32 word" and ?d = "push_bit 24 (ucast d) :: 32 word"
  have dis: "?c AND ?d = 0" "?b AND (?c OR ?d) = 0" "?a AND (?b OR (?c OR ?d)) = 0"
    by (rule bit_word_eqI; auto simp: bit_simps dest: bit_imp_le_length)+
  have "unat ?b = 2 ^ 8 * unat (ucast b :: 32 word)" "unat ?c = 2 ^ 16 * unat (ucast c :: 32 word)"
    "unat ?d = 2 ^ 24 * unat (ucast d :: 32 word)"
    by (rule unat_push_bit_less [where k = 8]; simp)+
  then show ?thesis unfolding le32_def or.assoc by (simp add: unat_or_disjoint dis)
qed

lemma unat_field:
  assumes k: "k + n = 8" and l: "8 \<le> LENGTH('a)"
  shows "unat ((ucast (b :: byte) :: 'a :: len word) AND push_bit k (mask n)) = unat b div 2 ^ k * 2 ^ k"
proof -
  have "(ucast b :: 'a word) AND push_bit k (mask n) = push_bit k (ucast (drop_bit k b))"
    using k by (intro bit_word_eqI) (auto simp: bit_simps dest: bit_imp_le_length)
  moreover have "unat b div 2 ^ k < 2 ^ n"
    using unat_byte_lt [of b] by (subst div_less_iff_less_mult) (simp_all flip: power_add add: k add.commute)
  then have "unat (push_bit k (ucast (drop_bit k b) :: 'a word)) = 2 ^ k * unat (ucast (drop_bit k b) :: 'a word)"
    using k l by (intro unat_push_bit_less [where k = n]) (simp_all add: unat_drop_bit)
  ultimately show ?thesis using l by (simp add: unat_drop_bit)
qed

lemma bit_less_pow:
  assumes "unat (w :: 'a :: len word) < 2 ^ k" and "bit w n"
  shows "n < k"
proof -
  have "bit (take_bit k (unat w)) n"
    using assms by (simp add: take_bit_nat_eq_self bit_unsigned_iff bit_imp_le_length)
  then show ?thesis by (simp add: bit_take_bit_iff)
qed

text \<open>The bytes of an integer, and reading them back.\<close>

definition bytes16 :: "u16 \<Rightarrow> byte list" where
  "bytes16 w = [ucast w, ucast (drop_bit 8 w)]"

definition bytes32 :: "u32 \<Rightarrow> byte list" where
  "bytes32 w = [ucast w, ucast (drop_bit 8 w), ucast (drop_bit 16 w), ucast (drop_bit 24 w)]"

lemma le16_bytes: "le16 (ucast w) (ucast (drop_bit 8 w)) = w"
  by (rule bit_word_eqI) (auto simp: le16_def bit_simps)

lemma le32_bytes_of:
  "le32 (ucast w) (ucast (drop_bit 8 w)) (ucast (drop_bit 16 w)) (ucast (drop_bit 24 w)) = w"
proof (rule bit_word_eqI)
  fix n assume "n < LENGTH(32)"
  then consider "n < 8" | "8 \<le> n" "n < 16" | "16 \<le> n" "n < 24" | "24 \<le> n" "n < 32" by force
  then show "bit (le32 (ucast w) (ucast (drop_bit 8 w)) (ucast (drop_bit 16 w)) (ucast (drop_bit 24 w))) n = bit w n"
    by cases (auto simp: le32_def bit_simps)
qed

lemma le32_bytes:
  "ucast (le32 a b c d) = a" "ucast (drop_bit 8 (le32 a b c d)) = b"
  "ucast (drop_bit 16 (le32 a b c d)) = c" "ucast (drop_bit 24 (le32 a b c d)) = d"
  by (rule bit_word_eqI; simp add: le32_def bit_simps; fastforce dest: bit_imp_le_length)+

lemma rd_at: "length a = i \<Longrightarrow> rd (a @ x # r) i = Some x"
  by (auto simp: rd_def)

lemma rd16_at: "length a = i \<Longrightarrow> rd16 (a @ bytes16 w @ r) i = Some w"
  by (auto simp: rd16_def rd_def bytes16_def nth_append le16_bytes)

lemma rd32_at: "length a = i \<Longrightarrow> rd32 (a @ bytes32 w @ r) i = Some w"
  by (auto simp: rd32_def rd_def bytes32_def nth_append le32_bytes_of)

text \<open>A byte array as one little-endian number.\<close>

fun le_value :: "byte list \<Rightarrow> nat" where
  "le_value [] = 0"
| "le_value (b # bs) = unat b + 256 * le_value bs"

lemma le_value_div: "le_value bs div 2 ^ (8 * k) = le_value (drop k bs)"
proof (induction k arbitrary: bs)
  case (Suc k)
  have "le_value bs div 2 ^ (8 * Suc k) = le_value bs div 256 div 2 ^ (8 * k)"
    by (simp add: power_add div_mult2_eq mult.commute)
  also have "le_value bs div 256 = le_value (drop 1 bs)" by (cases bs) simp_all
  finally show ?case using Suc.IH by simp
qed simp

end
