(* ===== verification/CString.thy ===== *)
theory CString
  imports Prelude
begin

text \<open>
  The string routines of \<open>32bit/src/kernel/core/string.c\<close>.

  A \<open>char *\<close> is the rest of the object it points to, from the byte it points at to the
  object's last byte: \<open>*p\<close> is the head, \<open>p++\<close> the tail, and reading or writing past the
  object is \<open>None\<close>. A routine that writes through \<open>dest\<close> returns the new contents of
  that rest. Source and destination are different objects, as in every call of the kernel.
  The answers of \<open>strcmp\<close> (1 for equal, 0 for different) are truth values.
\<close>

section \<open>The routines\<close>

fun strlen :: "byte list \<Rightarrow> nat option" where
  "strlen [] = None"
| "strlen (c # cs) = (if c \<noteq> 0 then map_option Suc (strlen cs) else Some 0)"

fun strcmp_wl :: "byte list \<Rightarrow> byte list \<Rightarrow> nat \<Rightarrow> bool option" where
  "strcmp_wl (a # as) (b # bs) n =
     (if 0 < n then
        (if a = 0 \<and> b = 0 then Some True
         else if a \<noteq> b then Some False
         else strcmp_wl as bs (n - 1))
      else Some True)"
| "strcmp_wl _ _ n = (if 0 < n then None else Some True)"

definition UINT32_T_MAX :: nat where
  "UINT32_T_MAX = 0xFFFFFFFF"

definition strcmp :: "byte list \<Rightarrow> byte list \<Rightarrow> bool option" where
  "strcmp string1 string2 = strcmp_wl string1 string2 UINT32_T_MAX"

fun strcpy :: "byte list \<Rightarrow> byte list \<Rightarrow> byte list option" where
  "strcpy (c # src) (x # dest) =
     (if c \<noteq> 0 then map_option ((#) c) (strcpy src dest) else Some (0 # dest))"
| "strcpy _ _ = None"

text \<open>The third argument is what is left of \<open>length\<close>: \<open>length - index\<close>.\<close>

fun strncpy :: "byte list \<Rightarrow> byte list \<Rightarrow> int \<Rightarrow> byte list option" where
  "strncpy (c # src) (x # dest) n =
     (if c \<noteq> 0 \<and> 0 < n then map_option ((#) c) (strncpy src dest (n - 1))
      else Some (0 # dest))"
| "strncpy _ _ n = None"

definition upcase :: "byte \<Rightarrow> byte" where
  "upcase c = (if 97 \<le> sint c \<and> sint c \<le> 122 then c + (65 - 97) else c)"

fun strupr :: "byte list \<Rightarrow> byte list option" where
  "strupr [] = None"
| "strupr (c # cs) = (if c \<noteq> 0 then map_option ((#) (upcase c)) (strupr cs) else Some (c # cs))"

definition strcat :: "byte list \<Rightarrow> byte list \<Rightarrow> byte list option" where
  "strcat dest src = do {
     n \<leftarrow> strlen dest;
     d \<leftarrow> strcpy src (drop n dest);
     Some (take n dest @ d) }"

text \<open>
  \<open>utf16to8\<close> takes a string descriptor: its text starts at byte 2, two bytes a character.
  A negative length makes the last assignment write before the object.
\<close>

definition utf16to8 :: "byte list \<Rightarrow> byte list \<Rightarrow> int \<Rightarrow> byte list option" where
  "utf16to8 src dest len = do {
     d \<leftarrow> for_loop (\<lambda>j d. do { c \<leftarrow> rd src (j * 2 + 2); wr d j c }) [0..<nat len] dest;
     if len < 0 then None else wr d (nat len) 0 }"

section \<open>Strings and the objects that hold them\<close>

text \<open>
  \<open>is_cstr s\<close>: the bytes of a string, without its terminator. \<open>holds o s\<close>: the object
  \<open>o\<close> holds the string \<open>s\<close>, followed by a terminator.
\<close>

definition is_cstr :: "byte list \<Rightarrow> bool" where
  "is_cstr s \<longleftrightarrow> 0 \<notin> set s"

definition holds :: "byte list \<Rightarrow> byte list \<Rightarrow> bool" where
  "holds ob s \<longleftrightarrow> is_cstr s \<and> (\<exists>r. ob = s @ 0 # r)"

lemma is_cstr_simps [simp]:
  "is_cstr []" "is_cstr (c # s) \<longleftrightarrow> c \<noteq> 0 \<and> is_cstr s" "is_cstr (s @ t) \<longleftrightarrow> is_cstr s \<and> is_cstr t"
  by (auto simp: is_cstr_def)

lemma is_cstr_take: "is_cstr s \<Longrightarrow> is_cstr (take n s)"
  by (auto simp: is_cstr_def dest: in_set_takeD)

lemma holds_Cons [simp]:
  "holds (c # ob) s \<longleftrightarrow> (if c = 0 then s = [] else (\<exists>s'. s = c # s' \<and> holds ob s'))"
  by (cases s) (auto simp: holds_def)

lemma holds_Nil [simp]: "\<not> holds [] s"
  by (simp add: holds_def)

lemma holds_intro [intro]: "is_cstr s \<Longrightarrow> holds (s @ 0 # r) s"
  by (auto simp: holds_def)

lemma holds_cstr: "holds ob s \<Longrightarrow> is_cstr s"
  by (simp add: holds_def)

lemma holds_length: "holds ob s \<Longrightarrow> length s < length ob"
  by (auto simp: holds_def)

lemma holds_unique: "holds ob s \<Longrightarrow> holds ob t \<Longrightarrow> s = t"
  by (induction ob arbitrary: s t) (auto split: if_splits)

lemma holds_take: "holds ob s \<Longrightarrow> take (length s) ob = s"
  by (auto simp: holds_def)

lemma strlen_holds: "strlen ob = Some n \<longleftrightarrow> (\<exists>s. holds ob s \<and> length s = n)"
proof (induction ob arbitrary: n)
  case Nil
  then show ?case by simp
next
  case (Cons c ob)
  then show ?case by (cases n) auto
qed

lemma strlen_of_holds [in_bounds]: "holds ob s \<Longrightarrow> strlen ob = Some (length s)"
  using strlen_holds by blast

lemma strlen_None: "strlen ob = None \<longleftrightarrow> 0 \<notin> set ob"
  by (induction ob) auto

lemma strcpy_of_holds [in_bounds]:
  "holds src s \<Longrightarrow> length s < length dest \<Longrightarrow>
     strcpy src dest = Some (s @ 0 # drop (Suc (length s)) dest)"
proof (induction src dest arbitrary: s rule: strcpy.induct)
  case (1 c src x dest)
  then show ?case by (auto split: if_splits)
qed auto

lemma strcpy_overrun:
  "holds src s \<Longrightarrow> length dest \<le> length s \<Longrightarrow> strcpy src dest = None"
proof (induction src dest arbitrary: s rule: strcpy.induct)
  case (1 c src x dest)
  then show ?case by (auto split: if_splits)
qed auto

lemma strcpy_Some_iff:
  "strcpy src dest = Some d \<longleftrightarrow>
     (\<exists>s. holds src s \<and> length s < length dest \<and> d = s @ 0 # drop (Suc (length s)) dest)"
proof (cases "\<exists>s. holds src s")
  case True
  then obtain s where "holds src s" by blast
  then show ?thesis
    by (cases "length s < length dest")
       (auto simp: strcpy_of_holds strcpy_overrun dest: holds_unique)
next
  case False
  have "strcpy src dest = None" if "\<not> (\<exists>s. holds src s)" for src dest
    using that
  proof (induction src dest rule: strcpy.induct)
    case (1 c src x dest)
    show ?case
    proof (cases "c = 0")
      case True
      with 1 have "holds (c # src) []" by simp
      with 1 show ?thesis by blast
    next
      case False
      have "\<not> (\<exists>s. holds src s)"
      proof
        assume "\<exists>s. holds src s"
        then obtain s where "holds src s" ..
        with False have "holds (c # src) (c # s)" by simp
        with 1 show False by blast
      qed
      with 1 False show ?thesis by simp
    qed
  qed auto
  with False show ?thesis by auto
qed

lemma strcpy_length [frame]: "strcpy src dest = Some d \<Longrightarrow> length d = length dest"
  by (auto simp: strcpy_Some_iff)

lemma strcmp_wl_of_holds:
  "holds x s \<Longrightarrow> holds y t \<Longrightarrow>
     strcmp_wl x y n = Some (take n (s @ [0]) = take n (t @ [0]))"
proof (induction x y n arbitrary: s t rule: strcmp_wl.induct)
  case (1 a as b bs n)
  then show ?case
    by (cases n) (auto split: if_splits)
qed auto

lemma strcmp_of_holds [in_bounds]:
  assumes "holds x s" and "holds y t" and "length s < UINT32_T_MAX" and "length t < UINT32_T_MAX"
  shows "strcmp x y = Some (s = t)"
proof -
  have "take UINT32_T_MAX (s @ [0]) = s @ [0]" "take UINT32_T_MAX (t @ [0]) = t @ [0]"
    using assms(3,4) by auto
  with strcmp_wl_of_holds [OF assms(1,2)] show ?thesis by (simp add: strcmp_def)
qed

text \<open>A prefix test, when the limit is the length of the second string.\<close>

lemma strcmp_wl_prefix [in_bounds]:
  assumes "holds x s" and "holds y t"
  shows "strcmp_wl x y (length t) = Some (take (length t) s = t)"
proof -
  have "take (length t) (s @ [0]) = t \<longleftrightarrow> take (length t) s = t"
  proof (cases "length t \<le> length s")
    case True
    then show ?thesis by simp
  next
    case False
    have t: "0 \<notin> set t" using assms(2) by (auto simp: holds_def is_cstr_def)
    have "take (length t) (s @ [0]) = s @ [0]" using False by simp
    moreover have "s @ [0] \<noteq> t" using t by auto
    moreover have "take (length t) s \<noteq> t"
    proof
      assume "take (length t) s = t"
      then have "min (length s) (length t) = length t" by (metis length_take)
      with False show False by simp
    qed
    ultimately show ?thesis by simp
  qed
  with strcmp_wl_of_holds [OF assms] show ?thesis by simp
qed

lemma strncpy_of_holds [in_bounds]:
  "holds src s \<Longrightarrow> min (length s) (nat n) < length dest \<Longrightarrow>
     strncpy src dest n =
       Some (take (nat n) s @ 0 # drop (Suc (min (length s) (nat n))) dest)"
proof (induction src dest n arbitrary: s rule: strncpy.induct)
  case (1 c src x dest n)
  show ?case
  proof (cases "c \<noteq> 0 \<and> 0 < n")
    case True
    with "1.prems" obtain s' where s': "s = c # s'" "holds src s'" by auto
    have m: "nat n = Suc (nat (n - 1))" using True by arith
    show ?thesis using "1.IH" [OF True s'(2)] "1.prems"(2) True s' by (simp add: m)
  next
    case False
    then show ?thesis using "1.prems" by (auto split: if_splits)
  qed
qed auto

lemma upcase_nonzero [simp]: "upcase c = 0 \<longleftrightarrow> c = 0"
proof -
  have "c \<noteq> 32" if "97 \<le> sint c" using that by auto
  then show ?thesis by (auto simp: upcase_def)
qed

lemma strupr_of_holds [in_bounds]:
  "holds ob s \<Longrightarrow> strupr ob = Some (map upcase s @ drop (length s) ob)"
  by (induction ob arbitrary: s) (auto split: if_splits)

lemma strupr_holds:
  assumes "holds ob s" and "strupr ob = Some ob'"
  shows "holds ob' (map upcase s)" and "length ob' = length ob"
proof -
  from assms(1) obtain r where r: "ob = s @ 0 # r" "is_cstr s" by (auto simp: holds_def)
  then have "ob' = map upcase s @ 0 # r" using assms by (simp add: strupr_of_holds)
  moreover have "is_cstr (map upcase s)" using r(2) by (auto simp: is_cstr_def)
  ultimately show "holds ob' (map upcase s)" "length ob' = length ob" using r(1) by auto
qed

lemma strcat_of_holds [in_bounds]:
  assumes "holds dest d" and "holds src s" and "length d + length s < length dest"
  shows "strcat dest src = Some (d @ s @ 0 # drop (Suc (length d + length s)) dest)"
proof -
  have "strcpy src (drop (length d) dest) =
      Some (s @ 0 # drop (Suc (length s)) (drop (length d) dest))"
    using assms by (intro strcpy_of_holds) auto
  then show ?thesis
    using assms by (simp add: strcat_def strlen_of_holds holds_take add.commute)
qed

lemma upcase_idem: "upcase (upcase c) = upcase c"
proof (cases "97 \<le> sint c \<and> sint c \<le> 122")
  case True
  then have "c \<in> (\<lambda>k. word_of_int k) ` {97..122::int}"
    by (metis atLeastAtMost_iff image_eqI scast_eq scast_id)
  moreover have "{97..122::int} = set [97..122]" by (simp only: set_upto)
  ultimately show ?thesis by (auto simp: upcase_def upto.simps)
next
  case False
  then show ?thesis by (simp add: upcase_def)
qed

text \<open>The string an object holds: its bytes up to the first zero.\<close>

definition cstring_of :: "byte list \<Rightarrow> byte list" where
  "cstring_of ob = takeWhile (\<lambda>c. c \<noteq> 0) ob"

lemma cstring_of_holds [simp]: "holds ob s \<Longrightarrow> cstring_of ob = s"
  by (auto simp: cstring_of_def holds_def is_cstr_def)
     (metis (mono_tags, lifting) append_Nil2 takeWhile.simps(2) takeWhile_append2 neq0_conv)

lemma holds_cstring_of: "0 \<in> set ob \<Longrightarrow> holds ob (cstring_of ob)"
  by (induction ob) (auto simp: cstring_of_def)

section \<open>Properties\<close>

text \<open>
  A copy is defined exactly when the source holds a string that fits into the destination
  with its terminator; then the destination begins with the string and the terminator and is
  unchanged behind them.
\<close>

theorem strcpy_exact:
  "strcpy src dest = Some d \<longleftrightarrow>
     (\<exists>s. holds src s \<and> length s < length dest \<and> d = s @ 0 # drop (Suc (length s)) dest)"
  by (rule strcpy_Some_iff)

end
