(* ===== verification/Registry.thy ===== *)
theory Registry
  imports CString
begin

text \<open>
  Two parts of the kernel hand out numbered names: \<open>register_block_device\<close> (usb0, usb1,
  usb0.0, ...) and \<open>mount_fs\<close> (fd0, hd1, ...). Both append one digit to a type name, and
  each chooses the digit in its own way. This theory states what a choice must satisfy for the
  names to be unique, once for both.
\<close>

text \<open>The digit is the character \<open>'0' + index\<close>, so an index stays below 16.\<close>

definition digit :: "nat \<Rightarrow> byte" where
  "digit k = 48 + of_nat k"

definition numbered :: "byte list \<Rightarrow> nat \<Rightarrow> byte list" where
  "numbered t k = t @ [digit k]"

lemma unat_digit: "k < 16 \<Longrightarrow> unat (digit k) = 48 + k"
  by (simp add: digit_def unat_word_ariths unat_of_nat)

lemma digit_inj: "j < 16 \<Longrightarrow> k < 16 \<Longrightarrow> digit j = digit k \<longleftrightarrow> j = k"
  using unat_digit by (metis add_left_cancel)

lemma digit_nonzero [simp]: "k < 16 \<Longrightarrow> digit k \<noteq> 0"
  using unat_digit [of k] by (metis add_is_0 unat_0 zero_neq_numeral)

lemma numbered_inj: "j < 16 \<Longrightarrow> k < 16 \<Longrightarrow> numbered s j = numbered t k \<longleftrightarrow> s = t \<and> j = k"
  by (auto simp: numbered_def digit_inj)

lemma numbered_cstr [simp]: "k < 16 \<Longrightarrow> is_cstr (numbered t k) \<longleftrightarrow> is_cstr t"
  by (simp add: numbered_def)

lemma length_numbered [simp]: "length (numbered t k) = Suc (length t)"
  by (simp add: numbered_def)

text \<open>
  The contract: \<open>next_index ns t\<close> is the number given to a new name of type \<open>t\<close> when the
  names \<open>ns\<close> are in use, \<open>invar\<close> what the names in use satisfy.
\<close>

locale numbered_registry =
  fixes next_index :: "byte list list \<Rightarrow> byte list \<Rightarrow> nat"
    and invar :: "byte list list \<Rightarrow> bool"
  assumes invar_Nil: "invar []"
    and invar_add: "invar ns \<Longrightarrow> next_index ns t < 16 \<Longrightarrow>
      invar (ns @ [numbered t (next_index ns t)])"
    and fresh: "invar ns \<Longrightarrow> next_index ns t < 16 \<Longrightarrow>
      numbered t (next_index ns t) \<notin> set ns"
begin

text \<open>The names after a sequence of registrations; those that get no number are refused.\<close>

fun names_after :: "byte list list \<Rightarrow> byte list list \<Rightarrow> byte list list" where
  "names_after ns [] = ns"
| "names_after ns (t # ts) =
     (if next_index ns t < 16 then names_after (ns @ [numbered t (next_index ns t)]) ts
      else names_after ns ts)"

lemma add_distinct:
  "invar ns \<Longrightarrow> distinct ns \<Longrightarrow> next_index ns t < 16 \<Longrightarrow>
     distinct (ns @ [numbered t (next_index ns t)])"
  using fresh by simp

lemma names_after_invar:
  "invar ns \<Longrightarrow> distinct ns \<Longrightarrow> invar (names_after ns ts) \<and> distinct (names_after ns ts)"
  by (induction ns ts rule: names_after.induct) (auto simp: invar_add fresh)

lemma names_distinct: "distinct (names_after [] ts)"
  using names_after_invar [OF invar_Nil] by simp

end

end
