(* ===== verification/BlockDev.thy ===== *)
theory BlockDev
  imports Registry
begin

text \<open>
  Disk devices (\<open>include/system.h\<close>), the sector reader of \<open>fs.c\<close> and the table of block
  devices of \<open>drivers/block/blockdev.c\<close>.

  A driver is a function that is given the device, the first sector, the number of sectors,
  the rest of the buffer object and the state of the hardware, and returns its return code, the
  new contents of the buffer and the new hardware state. The kernel calls it through
  \<open>device->driver->read_sectors\<close>, so the code that reads disks takes it as a parameter.
\<close>

section \<open>Devices and drivers\<close>

datatype disk_device_type = FLOPPY | HARD_DISK

datatype disk_driver = Floppy_Driver | Ata_Driver | Usb_Msd_Driver

text \<open>\<open>enum PartitionType\<close> and the struct \<open>DiskDevice\<close>.\<close>

definition UNPARTITIONED :: int where
  "UNPARTITIONED = - 1"

definition RAW_DEVICE :: int where
  "RAW_DEVICE = - 2"

record disk_device =
  dev_type :: disk_device_type
  device_num :: byte
  partition :: int
  offset :: u32
  block_size :: u32
  driver :: disk_driver
  driver_specific_data :: nat

type_synonym 'h read_sectors =
  "disk_device \<Rightarrow> u32 \<Rightarrow> u32 \<Rightarrow> byte list \<Rightarrow> 'h \<Rightarrow> (int \<times> byte list \<times> 'h) option"

text \<open>
  What a caller of a sector reader relies on, whatever the hardware does: it answers SUCCESS
  or FAILURE and, asked for at least one sector, changes at most \<open>count\<close> sectors of 512 bytes of
  the buffer. A
  \<open>block_driver\<close> is a driver that promises this.
\<close>

locale sector_reader =
  fixes read_sectors :: "'h read_sectors"
  assumes code: "read_sectors d lba count buf h = Some (r, buf', h') \<Longrightarrow> r = SUCCESS \<or> r = FAILURE"
    and len: "read_sectors d lba count buf h = Some (r, buf', h') \<Longrightarrow> length buf' = length buf"
    and rest: "read_sectors d lba count buf h = Some (r, buf', h') \<Longrightarrow>
      0 < count \<Longrightarrow> drop (512 * unat count) buf' = drop (512 * unat count) buf"

locale block_driver = sector_reader read_sectors
  for read_sectors :: "'h read_sectors"

section \<open>\<open>read_sectors_lba\<close>\<close>

text \<open>The loop of the floppy branch, from sector \<open>i\<close> on.\<close>

fun read_floppy_sectors ::
  "'h read_sectors \<Rightarrow> disk_device \<Rightarrow> u32 \<Rightarrow> nat list \<Rightarrow> byte list \<Rightarrow> 'h \<Rightarrow>
     (int \<times> byte list \<times> 'h) option" where
  "read_floppy_sectors drv device lba [] buf h = Some (SUCCESS, buf, h)"
| "read_floppy_sectors drv device lba (i # is) buf h = do {
     (r, b, h) \<leftarrow> drv device (lba + of_nat i) 1 (drop (512 * i) buf) h;
     let buf' = take (512 * i) buf @ b;
     if r = FAILURE then Some (FAILURE, buf', h)
     else read_floppy_sectors drv device lba is buf' h }"

definition read_sectors_lba :: "'h read_sectors \<Rightarrow> 'h read_sectors" where
  "read_sectors_lba drv device lba count buf h =
     (if dev_type device = FLOPPY then read_floppy_sectors drv device lba [0..<unat count] buf h
      else drv device lba count buf h)"

text \<open>The sector reader keeps the contract of the driver it calls.\<close>

context block_driver
begin

lemma floppy_loop:
  assumes "read_floppy_sectors read_sectors d lba is buf h = Some (r, buf', h')"
    and "\<And>i. i \<in> set is \<Longrightarrow> i < n"
  shows "(r = SUCCESS \<or> r = FAILURE) \<and> length buf' = length buf \<and>
    drop (512 * n) buf' = drop (512 * n) buf"
  using assms
proof (induction "is" arbitrary: buf h)
  case Nil
  then show ?case by simp
next
  case (Cons i "is")
  from Cons.prems(1) obtain r1 b h1 where
    step: "read_sectors d (lba + of_nat i) 1 (drop (512 * i) buf) h = Some (r1, b, h1)"
    by (auto simp: bind_eq_Some_conv)
  let ?buf = "take (512 * i) buf @ b"
  have lb: "length b = length buf - 512 * i" using len [OF step] by simp
  have le: "512 * i + 512 \<le> 512 * n" using Cons.prems(2) [of i] by simp
  have "drop 512 b = drop (512 * i + 512) buf" using rest [OF step] by (simp add: add.commute)
  moreover obtain k where k: "512 * n = (512 * i + 512) + k" using le le_Suc_ex by blast
  ultimately have "drop k (drop 512 b) = drop k (drop (512 * i + 512) buf)" by simp
  then have eq: "drop (512 + k) b = drop (512 * n) buf" by (simp add: k add.commute)
  have fr: "drop (512 * n) ?buf = drop (512 * n) buf"
  proof (cases "512 * i \<le> length buf")
    case True
    then have "drop (512 * n) ?buf = drop (512 + k) b" by (simp add: k)
    with eq show ?thesis by simp
  next
    case False
    then show ?thesis using lb k by simp
  qed
  have ll: "length ?buf = length buf" using lb by auto
  show ?case
  proof (cases "r1 = FAILURE")
    case True
    with Cons.prems(1) step have "r = FAILURE" "buf' = ?buf" by (auto simp: Let_def)
    with fr ll show ?thesis by simp
  next
    case False
    with Cons.prems(1) step have "read_floppy_sectors read_sectors d lba is ?buf h1 = Some (r, buf', h')"
      by (auto simp: Let_def)
    from Cons.IH [OF this] Cons.prems(2) fr ll show ?thesis by simp
  qed
qed

end

sublocale block_driver \<subseteq> lba: sector_reader "read_sectors_lba read_sectors"
proof
  fix d lba count buf h r buf' h'
  assume a: "read_sectors_lba read_sectors d lba count buf h = Some (r, buf', h')"
  have *: "(r = SUCCESS \<or> r = FAILURE) \<and> length buf' = length buf \<and>
    (0 < count \<longrightarrow> drop (512 * unat count) buf' = drop (512 * unat count) buf)"
  proof (cases "dev_type d = FLOPPY")
    case True
    with a have "read_floppy_sectors read_sectors d lba [0..<unat count] buf h = Some (r, buf', h')"
      by (simp add: read_sectors_lba_def)
    from floppy_loop [OF this, of "unat count"] show ?thesis by simp
  next
    case False
    with a show ?thesis by (auto simp: read_sectors_lba_def dest: code len rest)
  qed
  from * show "r = SUCCESS \<or> r = FAILURE" "length buf' = length buf" by blast+
  assume "0 < count"
  with * show "drop (512 * unat count) buf' = drop (512 * unat count) buf" by blast
qed

context block_driver
begin

lemma lba_reader: "sector_reader (read_sectors_lba read_sectors)"
  by (rule lba.sector_reader_axioms)

end

lemmas lba_length = sector_reader.len [OF block_driver.lba_reader]

end
