(* ===== verification/BlockTable.thy ===== *)
theory BlockTable
  imports BlockDev
begin

text \<open>
  The table of block devices of \<open>drivers/block/blockdev.c\<close>: registration under a numbered
  name, and the partitions of a disk.
\<close>

section \<open>State and operations\<close>

definition MAX_BLOCK_DEVICES :: nat where
  "MAX_BLOCK_DEVICES = 16"

definition BLOCK_DEVICE_NAME_LENGTH :: nat where
  "BLOCK_DEVICE_NAME_LENGTH = 64"

record block_device_file =
  device_name :: "byte list"
  dev :: disk_device

record block_table =
  block_devices :: "block_device_file list"
  block_devices_count :: nat

definition get_next_index_for_block_dev_type :: "byte list \<Rightarrow> block_table \<Rightarrow> nat option" where
  "get_next_index_for_block_dev_type type st = do {
     length \<leftarrow> strlen type;
     for_loop (\<lambda>i count. do {
         e \<leftarrow> rd (block_devices st) i;
         same \<leftarrow> strcmp_wl (device_name e) type length;
         Some (if same then count + 1 else count) })
       [0..<block_devices_count st] 0 }"

definition register_block_device ::
  "disk_device \<Rightarrow> byte list \<Rightarrow> block_table \<Rightarrow> (int \<times> block_table) option" where
  "register_block_device d type st = do {
     let n = block_devices_count st;
     length \<leftarrow> strlen type;
     e \<leftarrow> rd (block_devices st) n;
     name \<leftarrow> strcpy type (device_name e);
     bds \<leftarrow> wr (block_devices st) n (e\<lparr>dev := d, device_name := name\<rparr>);
     let st = st\<lparr>block_devices := bds\<rparr>;
     index \<leftarrow> get_next_index_for_block_dev_type type st;
     if index \<ge> MAX_BLOCK_DEVICES then Some (FAILURE, st)
     else do {
       name \<leftarrow> wr name length (digit index);
       name \<leftarrow> wr name (length + 1) 0;
       bds \<leftarrow> wr bds n (e\<lparr>dev := d, device_name := name\<rparr>);
       Some (SUCCESS, st\<lparr>block_devices := bds, block_devices_count := n + 1\<rparr>) } }"

text \<open>
  \<open>struct PartitionTable\<close>: four entries of 16 bytes from byte 0x1BE of the first sector,
  with the type at 4, the first sector at 8 and the number of sectors at 12. \<open>find_partitions\<close>
  is given the index of its device in the table; the local buffer \<open>buffer\<close> has whatever the
  stack held, \<open>stack\<close>, before the driver fills it.
\<close>

definition register_partition ::
  "byte list \<Rightarrow> nat \<Rightarrow> nat \<Rightarrow> block_table \<Rightarrow> block_table option" where
  "register_partition buffer k i st = do {
     partition_type \<leftarrow> rd buffer (0x1BE + 16 * i + 4);
     if partition_type = 0 then Some st
     else do {
       lba_partition_start \<leftarrow> rd32 buffer (0x1BE + 16 * i + 8);
       e \<leftarrow> rd (block_devices st) k;
       let disk_device = (dev e)\<lparr>partition := int i + 1, offset := lba_partition_start\<rparr>;
       name \<leftarrow> strcpy (device_name e) (replicate 128 0);
       name \<leftarrow> strcat name (str ''.'' @ [0]);
       (_, st) \<leftarrow> register_block_device disk_device name st;
       Some st } }"

definition find_partitions ::
  "'h read_sectors \<Rightarrow> byte list \<Rightarrow> nat \<Rightarrow> block_table \<Rightarrow> 'h \<Rightarrow> (int \<times> block_table \<times> 'h) option" where
  "find_partitions drv stack k st h = do {
     e \<leftarrow> rd (block_devices st) k;
     if partition (dev e) \<noteq> RAW_DEVICE then Some (FAILURE, st, h)
     else do {
       (r, buffer, h) \<leftarrow> read_sectors_lba drv (dev e) 0 1 stack h;
       if r = FAILURE then Some (FAILURE, st, h)
       else do {
         st \<leftarrow> for_loop (register_partition buffer k) [0..<4] st;
         Some (SUCCESS, st, h) } } }"

section \<open>The names in use\<close>

definition dev_names :: "block_table \<Rightarrow> byte list list" where
  "dev_names st = map (\<lambda>e. cstring_of (device_name e)) (take (block_devices_count st) (block_devices st))"

text \<open>The number of names that begin with the type: what the code counts.\<close>

definition prefixed :: "byte list \<Rightarrow> byte list \<Rightarrow> bool" where
  "prefixed t n \<longleftrightarrow> take (length t) n = t"

definition block_index :: "byte list list \<Rightarrow> byte list \<Rightarrow> nat" where
  "block_index ns t = length (filter (prefixed t) ns)"

definition block_names_ok :: "byte list list \<Rightarrow> bool" where
  "block_names_ok ns \<longleftrightarrow>
     (\<forall>i < length ns. \<exists>t k. k < 16 \<and> ns ! i = numbered t k \<and> k = block_index (take i ns) t)"

lemma prefixed_numbered [simp]: "prefixed t (numbered t k)"
  by (simp add: prefixed_def numbered_def)

lemma block_index_mono: "i \<le> j \<Longrightarrow> block_index (take i ns) t \<le> block_index (take j ns) t"
  by (metis block_index_def filter_append length_append le_add1 le_add_diff_inverse take_add)

lemma block_names_add:
  assumes "block_names_ok ns" and "block_index ns t < 16"
  shows "block_names_ok (ns @ [numbered t (block_index ns t)])"
  unfolding block_names_ok_def
proof (intro allI impI)
  fix i assume i: "i < length (ns @ [numbered t (block_index ns t)])"
  show "\<exists>t' k. k < 16 \<and> (ns @ [numbered t (block_index ns t)]) ! i = numbered t' k \<and>
    k = block_index (take i (ns @ [numbered t (block_index ns t)])) t'"
  proof (cases "i < length ns")
    case True
    then show ?thesis using assms(1) by (auto simp: block_names_ok_def nth_append)
  next
    case False
    then have "i = length ns" using i by simp
    then show ?thesis using assms(2) by auto
  qed
qed

lemma block_names_fresh:
  assumes "block_names_ok ns" and "block_index ns t < 16"
  shows "numbered t (block_index ns t) \<notin> set ns"
proof
  assume "numbered t (block_index ns t) \<in> set ns"
  then obtain i where i: "i < length ns" "ns ! i = numbered t (block_index ns t)"
    by (metis in_set_conv_nth)
  then obtain t' k where k: "k < 16" "ns ! i = numbered t' k" "k = block_index (take i ns) t'"
    using assms(1) by (auto simp: block_names_ok_def)
  with i assms(2) have eq: "t' = t" "k = block_index ns t" by (auto simp: numbered_inj)
  have "block_index (take (Suc i) ns) t = Suc (block_index (take i ns) t)"
    using i by (simp add: block_index_def take_Suc_conv_app_nth)
  moreover have "block_index (take (Suc i) ns) t \<le> block_index ns t"
    using block_index_mono [of "Suc i" "length ns" ns t] i(1) by simp
  ultimately show False using k(3) eq by simp
qed

interpretation blocks: numbered_registry block_index block_names_ok
proof
  show "block_names_ok []" by (simp add: block_names_ok_def)
qed (auto intro: block_names_add dest: block_names_fresh)

section \<open>The invariant of the table and what the operations do\<close>

definition table_ok :: "block_table \<Rightarrow> bool" where
  "table_ok st \<longleftrightarrow>
     length (block_devices st) = MAX_BLOCK_DEVICES \<and>
     block_devices_count st \<le> MAX_BLOCK_DEVICES \<and>
     (\<forall>e \<in> set (block_devices st). length (device_name e) = BLOCK_DEVICE_NAME_LENGTH) \<and>
     (\<forall>i < block_devices_count st. 0 \<in> set (device_name (block_devices st ! i))) \<and>
     block_names_ok (dev_names st)"

definition empty_table :: "disk_device \<Rightarrow> block_table" where
  "empty_table d = \<lparr>block_devices = replicate 16 \<lparr>device_name = replicate 64 0, dev = d\<rparr>,
     block_devices_count = 0\<rparr>"

lemma table_ok_empty: "table_ok (empty_table d)"
  by (simp add: table_ok_def empty_table_def dev_names_def block_names_ok_def
      MAX_BLOCK_DEVICES_def BLOCK_DEVICE_NAME_LENGTH_def)

lemma length_dev_names [simp]: "table_ok st \<Longrightarrow> length (dev_names st) = block_devices_count st"
  by (simp add: dev_names_def table_ok_def)

lemma nth_dev_names:
  "table_ok st \<Longrightarrow> i < block_devices_count st \<Longrightarrow>
     dev_names st ! i = cstring_of (device_name (block_devices st ! i))"
  by (simp add: dev_names_def table_ok_def)

lemma holds_dev_names:
  "table_ok st \<Longrightarrow> i < block_devices_count st \<Longrightarrow>
     holds (device_name (block_devices st ! i)) (dev_names st ! i)"
  by (auto simp: nth_dev_names table_ok_def intro: holds_cstring_of)

lemma next_index_counts:
  assumes "length (dev_names st) = block_devices_count st"
    and "\<And>i. i < block_devices_count st \<Longrightarrow> i < length (block_devices st) \<and>
      holds (device_name (block_devices st ! i)) (dev_names st ! i)"
    and "holds type t"
  shows "get_next_index_for_block_dev_type type st = Some (block_index (dev_names st) t)"
proof -
  let ?P = "\<lambda>i. prefixed t (dev_names st ! i)"
  have "for_loop (\<lambda>i count. do {
         e \<leftarrow> rd (block_devices st) i;
         same \<leftarrow> strcmp_wl (device_name e) type (length t);
         Some (if same then count + 1 else count) }) [0..<block_devices_count st] 0
      = Some (0 + length (filter ?P [0..<block_devices_count st]))"
  proof (rule for_loop_count)
    fix i and c :: nat
    assume i: "i < block_devices_count st"
    then have "strcmp_wl (device_name (block_devices st ! i)) type (length t) =
        Some (prefixed t (dev_names st ! i))"
      using assms(2,3) strcmp_wl_prefix by (simp add: prefixed_def)
    with assms(2) i show "do { e \<leftarrow> rd (block_devices st) i;
        same \<leftarrow> strcmp_wl (device_name e) type (length t);
        Some (if same then c + 1 else c) } = Some (if ?P i then c + 1 else c)" by simp
  qed
  also have "length (filter ?P [0..<block_devices_count st]) = block_index (dev_names st) t"
    using filter_upt_nth [of "prefixed t" "dev_names st"] assms(1) by (simp add: block_index_def)
  finally show ?thesis
    using assms(3) by (simp add: get_next_index_for_block_dev_type_def strlen_of_holds)
qed

text \<open>A registration while there is room: what it answers and the table it leaves.\<close>

definition new_entry :: "disk_device \<Rightarrow> byte list \<Rightarrow> block_table \<Rightarrow> block_device_file" where
  "new_entry d t st =
     (let e = block_devices st ! block_devices_count st
      in e\<lparr>dev := d, device_name := numbered t (block_index (dev_names st) t) @
            0 # drop (Suc (Suc (length t))) (device_name e)\<rparr>)"

definition add_entry :: "disk_device \<Rightarrow> byte list \<Rightarrow> block_table \<Rightarrow> block_table" where
  "add_entry d t st =
     st\<lparr>block_devices := (block_devices st)[block_devices_count st := new_entry d t st],
        block_devices_count := block_devices_count st + 1\<rparr>"

lemma new_entry_simps [simp]:
  "dev (new_entry d t st) = d"
  "device_name (new_entry d t st) = numbered t (block_index (dev_names st) t) @
     0 # drop (Suc (Suc (length t))) (device_name (block_devices st ! block_devices_count st))"
  by (simp_all add: new_entry_def Let_def)

lemma add_entry_simps [simp]:
  "block_devices (add_entry d t st) = (block_devices st)[block_devices_count st := new_entry d t st]"
  "block_devices_count (add_entry d t st) = Suc (block_devices_count st)"
  by (simp_all add: add_entry_def)

lemma block_index_le: "block_index ns t \<le> length ns"
  by (simp add: block_index_def)

lemma register_block_device_eq:
  assumes ok: "table_ok st" and type: "holds type t" and "length t \<le> 62"
    and room: "block_devices_count st < MAX_BLOCK_DEVICES"
  shows "register_block_device d type st = Some (SUCCESS, add_entry d t st)"
proof -
  let ?n = "block_devices_count st" and ?e = "block_devices st ! block_devices_count st"
  let ?k = "block_index (dev_names st) t"
  let ?name = "t @ 0 # drop (Suc (length t)) (device_name ?e)"
  let ?st = "st\<lparr>block_devices := (block_devices st)[?n := ?e\<lparr>dev := d, device_name := ?name\<rparr>]\<rparr>"
  have n: "?n < length (block_devices st)" using ok room by (simp add: table_ok_def)
  have le: "length (device_name ?e) = 64"
    using ok n by (simp add: table_ok_def BLOCK_DEVICE_NAME_LENGTH_def)
  have cpy: "strcpy type (device_name ?e) = Some ?name"
    using type assms(3) le by (intro strcpy_of_holds) auto
  have names: "dev_names ?st = dev_names st"
    by (simp add: dev_names_def)
  have idx: "get_next_index_for_block_dev_type type ?st = Some ?k"
  proof -
    have "get_next_index_for_block_dev_type type ?st = Some (block_index (dev_names ?st) t)"
      using ok n holds_dev_names [OF ok] type
      by (intro next_index_counts) (auto simp: names)
    then show ?thesis by (simp add: names)
  qed
  have k: "?k < 16"
    using block_index_le [of "dev_names st" t] ok room by (simp add: MAX_BLOCK_DEVICES_def)
  have w: "wr ?name (length t) (digit ?k) = Some (t @ digit ?k # drop (Suc (length t)) (device_name ?e))"
    by (simp add: wr_def)
  have w2: "wr (t @ digit ?k # drop (Suc (length t)) (device_name ?e)) (Suc (length t)) 0 =
      Some (numbered t ?k @ 0 # drop (Suc (Suc (length t))) (device_name ?e))"
    using assms(3) le by (simp add: wr_def numbered_def list_update_append Cons_nth_drop_Suc [symmetric])
  show ?thesis
    using n k type
    by (simp add: register_block_device_def strlen_of_holds cpy idx w w2 MAX_BLOCK_DEVICES_def
        add_entry_def new_entry_def Let_def)
qed

lemma register_block_device_full:
  assumes "table_ok st" and "block_devices_count st = MAX_BLOCK_DEVICES"
  shows "register_block_device d type st = None"
  using assms by (simp add: register_block_device_def table_ok_def rd_def Let_def split: bind_splits)

lemma add_entry_names:
  assumes "table_ok st" and "is_cstr t" and "block_devices_count st < MAX_BLOCK_DEVICES"
  shows "dev_names (add_entry d t st) = dev_names st @ [numbered t (block_index (dev_names st) t)]"
proof -
  have n: "block_devices_count st < length (block_devices st)"
    using assms(1,3) by (simp add: table_ok_def)
  have "block_index (dev_names st) t < 16"
    using block_index_le [of "dev_names st" t] assms by (simp add: MAX_BLOCK_DEVICES_def)
  then have "cstring_of (numbered t (block_index (dev_names st) t) @ 0 # r) =
      numbered t (block_index (dev_names st) t)" for r
    using assms(2) by (intro cstring_of_holds holds_intro) simp
  with n show ?thesis
    by (simp add: dev_names_def take_Suc_conv_app_nth)
qed

lemma add_entry_ok:
  assumes ok: "table_ok st" and t: "is_cstr t" "length t \<le> 62"
    and room: "block_devices_count st < MAX_BLOCK_DEVICES"
  shows "table_ok (add_entry d t st)"
proof -
  let ?n = "block_devices_count st"
  have n: "?n < length (block_devices st)" using ok room by (simp add: table_ok_def)
  have idx: "block_index (dev_names st) t < 16"
    using block_index_le [of "dev_names st" t] ok room by (simp add: MAX_BLOCK_DEVICES_def)
  have "block_names_ok (dev_names (add_entry d t st))"
    using ok t room idx by (simp add: add_entry_names block_names_add table_ok_def)
  moreover have "0 \<in> set (device_name (block_devices (add_entry d t st) ! i))"
    if "i < block_devices_count (add_entry d t st)" for i
    using that ok n by (cases "i = ?n") (auto simp: table_ok_def)
  moreover have "\<forall>e \<in> set (block_devices (add_entry d t st)). length (device_name e) = 64"
  proof -
    have all: "\<forall>e \<in> set (block_devices st). length (device_name e) = 64"
      using ok by (simp add: table_ok_def BLOCK_DEVICE_NAME_LENGTH_def)
    then have "length (device_name (block_devices st ! ?n)) = 64" using n by simp
    then have "length (device_name (new_entry d t st)) = 64" using t(2) by simp
    then show ?thesis
      unfolding add_entry_simps by (rule ball_list_update [OF all])
  qed
  ultimately show ?thesis
    using ok room
    by (simp add: table_ok_def BLOCK_DEVICE_NAME_LENGTH_def)
qed

section \<open>Sequences of registrations\<close>

text \<open>Registrations in a row, as the drivers make them at start-up; the answers are not looked at.\<close>

fun register_all :: "(disk_device \<times> byte list) list \<Rightarrow> block_table \<Rightarrow> block_table option" where
  "register_all [] st = Some st"
| "register_all ((d, type) # rs) st = do {
     (_, st) \<leftarrow> register_block_device d type st;
     register_all rs st }"

lemma register_all_spec:
  assumes "table_ok st" and "distinct (dev_names st)"
    and "\<forall>(d, type) \<in> set rs. holds type (cstring_of type) \<and> length (cstring_of type) \<le> 62"
    and "block_devices_count st + length rs \<le> MAX_BLOCK_DEVICES"
  shows "\<exists>st'. register_all rs st = Some st' \<and> table_ok st' \<and> distinct (dev_names st') \<and>
    dev_names st' = blocks.names_after (dev_names st) (map (\<lambda>(d, type). cstring_of type) rs) \<and>
    map dev (take (block_devices_count st') (block_devices st')) =
      map dev (take (block_devices_count st) (block_devices st)) @ map fst rs"
  using assms
proof (induction rs arbitrary: st)
  case Nil
  then show ?case by simp
next
  case (Cons r rs)
  obtain d type where r: "r = (d, type)" by (cases r)
  let ?t = "cstring_of type" and ?n = "block_devices_count st"
  have type: "holds type ?t" "length ?t \<le> 62" using Cons.prems(3) r by simp_all
  have cstr: "is_cstr ?t" using type(1) by (rule holds_cstr)
  have room: "?n < MAX_BLOCK_DEVICES" using Cons.prems(4) by simp
  have n: "?n < length (block_devices st)" using Cons.prems(1) room by (simp add: table_ok_def)
  let ?st = "add_entry d ?t st"
  have idx: "block_index (dev_names st) ?t < 16"
    using block_index_le [of "dev_names st" ?t] Cons.prems(1) room by (simp add: MAX_BLOCK_DEVICES_def)
  have inv: "block_names_ok (dev_names st)" using Cons.prems(1) by (simp add: table_ok_def)
  have names: "dev_names ?st = dev_names st @ [numbered ?t (block_index (dev_names st) ?t)]"
    using add_entry_names [OF Cons.prems(1) cstr room] .
  have ok: "table_ok ?st" using add_entry_ok [OF Cons.prems(1) cstr type(2) room] .
  have dist: "distinct (dev_names ?st)"
    using blocks.add_distinct [OF inv Cons.prems(2) idx] by (simp add: names)
  have devs: "map dev (take (block_devices_count ?st) (block_devices ?st)) =
      map dev (take ?n (block_devices st)) @ [d]"
    using n by (simp add: take_Suc_conv_app_nth)
  obtain st' where "register_all rs ?st = Some st'" "table_ok st'" "distinct (dev_names st')"
    "dev_names st' = blocks.names_after (dev_names ?st) (map (\<lambda>(d, type). cstring_of type) rs)"
    "map dev (take (block_devices_count st') (block_devices st')) =
      map dev (take (block_devices_count ?st) (block_devices ?st)) @ map fst rs"
  proof -
    have "\<forall>(d, type) \<in> set rs. holds type (cstring_of type) \<and> length (cstring_of type) \<le> 62"
      using Cons.prems(3) by simp
    moreover have "block_devices_count ?st + length rs \<le> MAX_BLOCK_DEVICES"
      using Cons.prems(4) by simp
    ultimately show ?thesis using Cons.IH [OF ok dist] that by blast
  qed
  then show ?case
    using register_block_device_eq [OF Cons.prems(1) type(1,2) room] names devs r idx by simp
qed

section \<open>Partitions\<close>

text \<open>The used entries of a partition table and the device each one describes.\<close>

definition used_entries :: "byte list \<Rightarrow> nat list" where
  "used_entries buffer = filter (\<lambda>i. buffer ! (0x1BE + 16 * i + 4) \<noteq> 0) [0..<4]"

definition partition_start :: "byte list \<Rightarrow> nat \<Rightarrow> u32" where
  "partition_start buffer i = (let p = 0x1BE + 16 * i + 8
     in le32 (buffer ! p) (buffer ! (p + 1)) (buffer ! (p + 2)) (buffer ! (p + 3)))"

definition partition_device :: "disk_device \<Rightarrow> byte list \<Rightarrow> nat \<Rightarrow> disk_device" where
  "partition_device d buffer i = d\<lparr>partition := int i + 1, offset := partition_start buffer i\<rparr>"

text \<open>The table after the entries \<open>is\<close> have been registered under the type \<open>t\<close>.\<close>

definition add_partitions ::
  "byte list \<Rightarrow> disk_device \<Rightarrow> byte list \<Rightarrow> nat list \<Rightarrow> block_table \<Rightarrow> block_table" where
  "add_partitions buffer d t is st = fold (\<lambda>i. add_entry (partition_device d buffer i) t) is st"

lemma add_partitions_simps [simp]:
  "add_partitions buffer d t [] st = st"
  "add_partitions buffer d t (i # is) st =
     add_partitions buffer d t is (add_entry (partition_device d buffer i) t st)"
  by (simp_all add: add_partitions_def)

lemma block_index_append:
  "block_index (ns @ [numbered t k]) t = Suc (block_index ns t)"
  by (simp add: block_index_def)

lemma add_partitions_spec:
  assumes "table_ok st" and "is_cstr t" and "length t \<le> 62"
    and "block_devices_count st + length is \<le> MAX_BLOCK_DEVICES"
  shows "table_ok (add_partitions buffer d t is st)"
    and "block_devices_count (add_partitions buffer d t is st) = block_devices_count st + length is"
    and "dev_names (add_partitions buffer d t is st) =
      dev_names st @ map (\<lambda>j. numbered t (block_index (dev_names st) t + j)) [0..<length is]"
    and "j < block_devices_count st \<Longrightarrow>
      block_devices (add_partitions buffer d t is st) ! j = block_devices st ! j"
    and "map dev (take (block_devices_count st + length is)
        (block_devices (add_partitions buffer d t is st))) =
      map dev (take (block_devices_count st) (block_devices st)) @ map (partition_device d buffer) is"
  using assms
proof (induction "is" arbitrary: st)
  case Nil
  {
    case 1 then show ?case by simp
  next
    case 2 then show ?case by simp
  next
    case 3 then show ?case by simp
  next
    case 4 then show ?case by simp
  next
    case 5 then show ?case by simp
  }
next
  case (Cons i "is")
  {
    case (1 st)
    let ?st = "add_entry (partition_device d buffer i) t st"
    from 1 have room: "block_devices_count st < MAX_BLOCK_DEVICES" by simp
    have "table_ok ?st" by (rule add_entry_ok [OF 1(1-3) room])
    with 1 show ?case using Cons.IH(1) [of ?st] by simp
  next
    case (2 st)
    let ?st = "add_entry (partition_device d buffer i) t st"
    from 2 show ?case using Cons.IH(2) [of ?st] by (simp add: add_entry_ok)
  next
    case (3 st)
    let ?st = "add_entry (partition_device d buffer i) t st"
    from 3 have "dev_names ?st = dev_names st @ [numbered t (block_index (dev_names st) t)]"
      by (simp add: add_entry_names)
    with 3 show ?case using Cons.IH(3) [of ?st]
      by (simp add: add_entry_ok block_index_append upt_conv_Cons map_Suc_upt [symmetric] o_def
          del: upt_Suc)
  next
    case (4 st)
    let ?st = "add_entry (partition_device d buffer i) t st"
    from 4 show ?case using Cons.IH(4) [of ?st] by (simp add: add_entry_ok)
  next
    case (5 st)
    let ?st = "add_entry (partition_device d buffer i) t st"
    from 5 have "block_devices_count st < length (block_devices st)" by (simp add: table_ok_def)
    with 5 show ?case using Cons.IH(5) [of ?st]
      by (simp add: add_entry_ok take_Suc_conv_app_nth)
  }
qed

lemma register_partition_eq:
  assumes ok: "table_ok st" and k: "k < block_devices_count st"
    and name: "dev_names st ! k = p" "length p \<le> 61" and buf: "length buffer = 512" "i < 4"
    and room: "buffer ! (0x1BE + 16 * i + 4) \<noteq> 0 \<Longrightarrow> block_devices_count st < MAX_BLOCK_DEVICES"
  shows "register_partition buffer k i st = Some
     (if buffer ! (0x1BE + 16 * i + 4) = 0 then st
      else add_entry (partition_device (dev (block_devices st ! k)) buffer i) (p @ str ''.'') st)"
proof (cases "buffer ! (0x1BE + 16 * i + 4) = 0")
  case True
  then show ?thesis using buf by (simp add: register_partition_def)
next
  case False
  have kk: "k < length (block_devices st)" using ok k by (simp add: table_ok_def)
  have h: "holds (device_name (block_devices st ! k)) p"
    using holds_dev_names [OF ok k] name(1) by simp
  obtain o1 where o1: "strcpy (device_name (block_devices st ! k)) (replicate 128 0) = Some o1"
    "holds o1 p" "length o1 = 128"
    using strcpy_of_holds [OF h, of "replicate 128 0"] name(2) holds_intro [OF holds_cstr [OF h]]
    by auto
  have dot: "holds (str ''.'' @ [0]) (str ''.'')" by (simp add: str_def)
  obtain o2 where o2: "strcat o1 (str ''.'' @ [0]) = Some o2" "holds o2 (p @ str ''.'')"
    using strcat_of_holds [OF o1(2) dot] o1(3) name(2) holds_intro [of "p @ str ''.''"]
      holds_cstr [OF h] holds_cstr [OF dot] by auto
  have "register_block_device d o2 st = Some (SUCCESS, add_entry d (p @ str ''.'') st)" for d
    using register_block_device_eq [OF ok o2(2)] name(2) room [OF False] by simp
  then show ?thesis
    using False buf kk
    by (simp add: register_partition_def rd32_in o1(1) o2(1) Let_def partition_device_def
        partition_start_def)
qed

lemma partitions_loop:
  assumes "table_ok st" and "k < block_devices_count st" and "dev_names st ! k = p" "length p \<le> 61"
    and "length buffer = 512" and "\<forall>i \<in> set is. i < 4"
    and "block_devices_count st + length (filter (\<lambda>i. buffer ! (0x1BE + 16 * i + 4) \<noteq> 0) is)
      \<le> MAX_BLOCK_DEVICES"
  shows "for_loop (register_partition buffer k) is st = Some
     (add_partitions buffer (dev (block_devices st ! k)) (p @ str ''.'')
        (filter (\<lambda>i. buffer ! (0x1BE + 16 * i + 4) \<noteq> 0) is) st)"
  using assms
proof (induction "is" arbitrary: st)
  case Nil
  then show ?case by simp
next
  case (Cons i "is")
  let ?d = "dev (block_devices st ! k)" and ?t = "p @ str ''.''"
  have cstr: "is_cstr ?t"
    using holds_cstr [OF holds_dev_names [OF Cons.prems(1,2)]] Cons.prems(3) by (simp add: str_def)
  note eq = register_partition_eq [OF Cons.prems(1-5), of i]
  show ?case
  proof (cases "buffer ! (0x1BE + 16 * i + 4) = 0")
    case True
    then show ?thesis using eq Cons.prems by (simp add: Cons.IH)
  next
    case False
    let ?st = "add_entry (partition_device ?d buffer i) ?t st"
    have room: "block_devices_count st < MAX_BLOCK_DEVICES" using Cons.prems(7) False by simp
    have ok: "table_ok ?st" using add_entry_ok [OF Cons.prems(1) cstr _ room] Cons.prems(4) by simp
    have k: "dev_names ?st ! k = p" "dev (block_devices ?st ! k) = ?d"
      using Cons.prems(1-3) add_entry_names [OF Cons.prems(1) cstr room]
      by (simp_all add: nth_append)
    have "for_loop (register_partition buffer k) is ?st = Some
        (add_partitions buffer ?d ?t (filter (\<lambda>i. buffer ! (0x1BE + 16 * i + 4) \<noteq> 0) is) ?st)"
      using Cons.IH [OF ok _ k(1)] Cons.prems False k(2) by simp
    then show ?thesis using eq Cons.prems(6) room False by simp
  qed
qed

lemma find_partitions_eq:
  assumes "table_ok st" and "k < block_devices_count st" and "length (dev_names st ! k) \<le> 61"
    and "partition (dev (block_devices st ! k)) = RAW_DEVICE"
    and "read_sectors_lba drv (dev (block_devices st ! k)) 0 1 stack h = Some (SUCCESS, buffer, h')"
    and "length buffer = 512"
    and "block_devices_count st + length (used_entries buffer) \<le> MAX_BLOCK_DEVICES"
  shows "find_partitions drv stack k st h = Some (SUCCESS,
     add_partitions buffer (dev (block_devices st ! k)) (dev_names st ! k @ str ''.'')
       (used_entries buffer) st, h')"
proof -
  have "k < length (block_devices st)" using assms(1,2) by (simp add: table_ok_def)
  moreover have "for_loop (register_partition buffer k) [0..<4] st = Some
     (add_partitions buffer (dev (block_devices st ! k)) (dev_names st ! k @ str ''.'')
       (used_entries buffer) st)"
    using partitions_loop [OF assms(1,2) refl assms(3,6), of "[0..<4]"] assms(7)
    by (simp add: used_entries_def del: upt_Suc)
  ultimately show ?thesis using assms(4,5) by (simp add: find_partitions_def)
qed

section \<open>Properties\<close>

text \<open>
  C7: Up to sixteen registrations in a row all succeed in giving every device a name of its
  own: the table stays well-formed, the names are the type names with the numbers the registry
  contract describes, no two are equal, and the devices stand in the order of registration.
\<close>

theorem registrations_unique:
  assumes "\<forall>(d, type) \<in> set rs. holds type (cstring_of type) \<and> length (cstring_of type) \<le> 62"
    and "length rs \<le> MAX_BLOCK_DEVICES"
  shows "\<exists>st. register_all rs (empty_table d0) = Some st \<and> table_ok st \<and> distinct (dev_names st) \<and>
    dev_names st = blocks.names_after [] (map (\<lambda>(d, type). cstring_of type) rs) \<and>
    map dev (take (block_devices_count st) (block_devices st)) = map fst rs"
proof -
  have "dev_names (empty_table d0) = []" "block_devices_count (empty_table d0) = 0"
    by (simp_all add: dev_names_def empty_table_def)
  then show ?thesis
    using register_all_spec [OF table_ok_empty [of d0] _ assms(1)] assms(2) by simp
qed

definition usb_disk :: disk_device where
  "usb_disk = \<lparr>dev_type = HARD_DISK, device_num = 0, partition = RAW_DEVICE, offset = 0,
     block_size = 512, driver = Usb_Msd_Driver, driver_specific_data = 0\<rparr>"

theorem registrations_unique_witness:
  "\<exists>st. register_all [(usb_disk, str ''usb'' @ [0]), (usb_disk, str ''fd'' @ [0]), (usb_disk, str ''usb'' @ [0])]
      (empty_table usb_disk) = Some st \<and> table_ok st \<and> distinct (dev_names st) \<and>
    dev_names st = [str ''usb0'', str ''fd0'', str ''usb1''] \<and>
    map dev (take (block_devices_count st) (block_devices st)) = [usb_disk, usb_disk, usb_disk]"
proof -
  let ?rs = "[(usb_disk, str ''usb'' @ [0]), (usb_disk, str ''fd'' @ [0]), (usb_disk, str ''usb'' @ [0])]"
  have "blocks.names_after [] (map (\<lambda>(d, type). cstring_of type) ?rs) = [str ''usb0'', str ''fd0'', str ''usb1'']"
    by (simp add: blocks.names_after.simps block_index_def prefixed_def numbered_def digit_def
        cstring_of_def str_def)
  moreover have "\<exists>st. register_all ?rs (empty_table usb_disk) = Some st \<and> table_ok st \<and> distinct (dev_names st) \<and>
    dev_names st = blocks.names_after [] (map (\<lambda>(d, type). cstring_of type) ?rs) \<and>
    map dev (take (block_devices_count st) (block_devices st)) = map fst ?rs"
    by (rule registrations_unique) (simp_all add: cstring_of_def str_def MAX_BLOCK_DEVICES_def)
  ultimately show ?thesis by simp
qed

text \<open>
  With sixteen devices in the table a further registration does not report FAILURE: its
  first assignment is to the slot behind the last one, since the bound is tested later, and on
  the number in the name.
\<close>

theorem register_when_full:
  assumes "table_ok st" and "block_devices_count st = MAX_BLOCK_DEVICES"
  shows "register_block_device d type st = None"
  using assms by (rule register_block_device_full)

lemma table_ok_sixteen:
  "table_ok (add_partitions [] usb_disk (str ''hd'') (replicate 16 0) (empty_table usb_disk))"
  "block_devices_count (add_partitions [] usb_disk (str ''hd'') (replicate 16 0) (empty_table usb_disk)) = 16"
proof -
  have "block_devices_count (empty_table usb_disk) + length (replicate 16 (0 :: nat)) \<le> MAX_BLOCK_DEVICES"
    by (simp add: empty_table_def MAX_BLOCK_DEVICES_def)
  moreover have "is_cstr (str ''hd'')" by (simp add: str_def)
  ultimately show
    "table_ok (add_partitions [] usb_disk (str ''hd'') (replicate 16 0) (empty_table usb_disk))"
    "block_devices_count (add_partitions [] usb_disk (str ''hd'') (replicate 16 0) (empty_table usb_disk)) = 16"
    using add_partitions_spec(1,2) [OF table_ok_empty [of usb_disk], of "str ''hd''" "replicate 16 0" "[]" usb_disk]
    by (simp_all add: empty_table_def)
qed

theorem register_when_full_witness:
  "register_block_device usb_disk (str ''usb'' @ [0])
     (add_partitions [] usb_disk (str ''hd'') (replicate 16 0) (empty_table usb_disk)) = None"
  using table_ok_sixteen by (intro register_when_full) (simp_all add: MAX_BLOCK_DEVICES_def)

text \<open>
  C23: \<open>find_partitions\<close> on a raw disk registers one device for every used entry of the
  partition table, in order, with the partition number and the first sector of its entry; the
  names are the disk's name, a dot and consecutive numbers, and the table stays well-formed and
  the older entries as they were.
\<close>

theorem find_partitions_registers:
  assumes "table_ok st" and "k < block_devices_count st" and "length (dev_names st ! k) \<le> 61"
    and "partition (dev (block_devices st ! k)) = RAW_DEVICE"
    and "read_sectors_lba drv (dev (block_devices st ! k)) 0 1 stack h = Some (SUCCESS, buffer, h')"
    and "length buffer = 512"
    and "block_devices_count st + length (used_entries buffer) \<le> MAX_BLOCK_DEVICES"
  shows "\<exists>st'. find_partitions drv stack k st h = Some (SUCCESS, st', h') \<and> table_ok st' \<and>
    dev_names st' = dev_names st @ map (\<lambda>j. numbered (dev_names st ! k @ str ''.'')
       (block_index (dev_names st) (dev_names st ! k @ str ''.'') + j)) [0..<length (used_entries buffer)] \<and>
    map dev (take (block_devices_count st') (block_devices st')) =
      map dev (take (block_devices_count st) (block_devices st)) @
      map (partition_device (dev (block_devices st ! k)) buffer) (used_entries buffer)"
proof -
  let ?p = "dev_names st ! k" and ?d = "dev (block_devices st ! k)"
  have cstr: "is_cstr (?p @ str ''.'')"
    using holds_cstr [OF holds_dev_names [OF assms(1,2)]] by (simp add: str_def)
  have len: "length (?p @ str ''.'') \<le> 62" using assms(3) by simp
  note spec = add_partitions_spec [OF assms(1) cstr len assms(7), where buffer = buffer and d = ?d]
  show ?thesis
    using find_partitions_eq [OF assms] spec by simp
qed

definition sample_mbr :: "byte list" where
  "sample_mbr = replicate 450 0 @ [6, 0, 0, 0, 63, 0, 0, 0] @ replicate 24 0 @
     [11, 0, 0, 0, 0, 1, 2, 0] @ replicate 22 0"

theorem find_partitions_registers_witness:
  "\<exists>st'. find_partitions (\<lambda>d lba count buf h. Some (SUCCESS, sample_mbr, h)) (replicate 512 0) 0
      (add_entry usb_disk (str ''usb'') (empty_table usb_disk)) () = Some (SUCCESS, st', ()) \<and>
    table_ok st' \<and> dev_names st' = [str ''usb0'', str ''usb0.0'', str ''usb0.1''] \<and>
    map (\<lambda>d. (partition d, offset d)) (map dev (take (block_devices_count st') (block_devices st'))) =
      [(RAW_DEVICE, 0), (1, 63), (3, 0x20100)]"
proof -
  let ?st = "add_entry usb_disk (str ''usb'') (empty_table usb_disk)"
  let ?drv = "\<lambda>d lba count buf h. Some (SUCCESS, sample_mbr, h)"
  have e: "table_ok (empty_table usb_disk)" "is_cstr (str ''usb'')" "length (str ''usb'') \<le> 62"
    "block_devices_count (empty_table usb_disk) < MAX_BLOCK_DEVICES"
    by (rule table_ok_empty) (simp_all add: str_def empty_table_def MAX_BLOCK_DEVICES_def)
  have ok: "table_ok ?st" by (rule add_entry_ok [OF e])
  have names: "dev_names ?st = [str ''usb0'']"
    by (simp add: add_entry_names [OF e(1,2,4)])
       (simp add: dev_names_def empty_table_def block_index_def numbered_def digit_def str_def)
  have n: "block_devices_count ?st = 1" "dev (block_devices ?st ! 0) = usb_disk"
    "map dev (take 1 (block_devices ?st)) = [usb_disk]"
    by (simp_all add: empty_table_def take_Suc_conv_app_nth)
  have mbr: "used_entries sample_mbr = [0, 2]" "map (partition_start sample_mbr) [0, 2] = [63, 0x20100]"
    "length sample_mbr = 512"
    by code_simp+
  have "\<exists>st'. find_partitions ?drv (replicate 512 0) 0 ?st () = Some (SUCCESS, st', ()) \<and> table_ok st' \<and>
    dev_names st' = dev_names ?st @ map (\<lambda>j. numbered (dev_names ?st ! 0 @ str ''.'')
       (block_index (dev_names ?st) (dev_names ?st ! 0 @ str ''.'') + j)) [0..<length (used_entries sample_mbr)] \<and>
    map dev (take (block_devices_count st') (block_devices st')) =
      map dev (take (block_devices_count ?st) (block_devices ?st)) @
      map (partition_device (dev (block_devices ?st ! 0)) sample_mbr) (used_entries sample_mbr)"
  proof (rule find_partitions_registers)
    show "partition (dev (block_devices ?st ! 0)) = RAW_DEVICE" unfolding n by (simp add: usb_disk_def)
    show "read_sectors_lba ?drv (dev (block_devices ?st ! 0)) 0 1 (replicate 512 0) () =
        Some (SUCCESS, sample_mbr, ())"
      unfolding n by (simp add: usb_disk_def read_sectors_lba_def)
    show "block_devices_count ?st + length (used_entries sample_mbr) \<le> MAX_BLOCK_DEVICES"
      unfolding n mbr by (simp add: MAX_BLOCK_DEVICES_def)
  qed (simp_all only: ok n names mbr, simp_all)
  then show ?thesis
    unfolding names n mbr
    using mbr(2)
    by (elim exE conjE)
       (simp add: n numbered_def digit_def str_def block_index_def prefixed_def partition_device_def
         usb_disk_def del: map_map)
qed

end
