(* ===== verification/Memory.thy ===== *)
theory Memory
  imports Prelude
begin

text \<open>
  The allocator and the block operations of \<open>core/memory.c\<close>. The memory is a function from
  32-bit addresses to bytes, and addresses wrap as the machine's do; the only state of the
  allocator is \<open>free_memory_start\<close>.
\<close>

section \<open>The watermark allocator\<close>

record heap =
  free_memory_start :: u32

definition HEAP_START :: u32 where
  "HEAP_START = 0x1000000"

definition malloc :: "u32 \<Rightarrow> heap \<Rightarrow> u32 \<times> heap" where
  "malloc sz hp =
     (let block_to_allocate = free_memory_start hp
      in (block_to_allocate, hp\<lparr>free_memory_start := free_memory_start hp + sz\<rparr>))"

definition memalign :: "u32 \<Rightarrow> u32 \<Rightarrow> heap \<Rightarrow> u32 \<times> heap" where
  "memalign alignment sz hp =
     (let diff = free_memory_start hp AND (alignment - 1)
      in if diff = 0 then malloc sz hp
         else let waste = alignment - diff; (allocation, hp') = malloc (sz + waste) hp
              in (allocation + waste, hp'))"

definition free :: "u32 \<Rightarrow> heap \<Rightarrow> heap" where
  "free ptr hp = hp"

section \<open>Filling and copying\<close>

type_synonym memory = "u32 \<Rightarrow> byte"

definition memset :: "u32 \<Rightarrow> byte \<Rightarrow> u32 \<Rightarrow> memory \<Rightarrow> memory" where
  "memset dest value len m = fold (\<lambda>i m. m(dest + of_nat i := value)) [0..<unat len] m"

definition load32 :: "memory \<Rightarrow> u32 \<Rightarrow> u32" where
  "load32 m a = le32 (m a) (m (a + 1)) (m (a + 2)) (m (a + 3))"

definition store32 :: "u32 \<Rightarrow> u32 \<Rightarrow> memory \<Rightarrow> memory" where
  "store32 a v m = m(a := ucast v, a + 1 := ucast (drop_bit 8 v),
     a + 2 := ucast (drop_bit 16 v), a + 3 := ucast (drop_bit 24 v))"

definition memcpy :: "u32 \<Rightarrow> u32 \<Rightarrow> u32 \<Rightarrow> memory \<Rightarrow> memory" where
  "memcpy source dest len m =
     (let num_dwords = len div 4; num_bytes = len mod 4;
          dest8 = dest + num_dwords * 4; src8 = source + num_dwords * 4;
          m1 = fold (\<lambda>i m. store32 (dest + 4 * of_nat i) (load32 m (source + 4 * of_nat i)) m)
                 [0..<unat num_dwords] m
      in fold (\<lambda>i m. m(dest8 + of_nat i := m (src8 + of_nat i))) [0..<unat num_bytes] m1)"

section \<open>Facts about the allocator\<close>

lemma malloc_simps [simp]:
  "fst (malloc sz hp) = free_memory_start hp"
  "free_memory_start (snd (malloc sz hp)) = free_memory_start hp + sz"
  by (simp_all add: malloc_def Let_def)

text \<open>An alignment is a power of two; the bits below it are the remainder.\<close>

lemma and_mask_remainder: "unat (x AND (2 ^ k - 1) :: u32) = unat x mod 2 ^ k"
proof -
  have "x AND (2 ^ k - 1) = take_bit k x"
    by (simp add: take_bit_eq_mask mask_eq_exp_minus_1)
  then have "unat (x AND (2 ^ k - 1)) = take_bit k (unat x)"
    by (simp only: unsigned_take_bit_eq)
  then show ?thesis by (simp only: take_bit_eq_mod)
qed

lemma unat_add_no_wrap: "unat (a :: u32) + unat b < 2 ^ 32 \<Longrightarrow> unat (a + b) = unat a + unat b"
  by (simp add: unat_word_ariths)

lemma unat_pow32: "k < 32 \<Longrightarrow> unat (2 ^ k :: u32) = 2 ^ k"
proof -
  assume "k < 32"
  then have "(2 :: nat) ^ k < 2 ^ 32" by (rule power_strict_increasing) simp
  moreover have "unat (2 ^ k :: u32) = unat (of_nat (2 ^ k) :: u32)" by simp
  ultimately show ?thesis by (simp add: unat_of_nat del: of_nat_power)
qed

text \<open>
  The number of bytes \<open>memalign\<close> skips, and what it returns when the watermark does not run
  over the end of the address space.
\<close>

definition align_gap :: "nat \<Rightarrow> nat \<Rightarrow> nat" where
  "align_gap a s = (if s mod a = 0 then 0 else a - s mod a)"

lemma align_gap_aligned: "0 < a \<Longrightarrow> (s + align_gap a s) mod a = 0"
proof -
  assume a: "0 < a"
  have "s + align_gap a s = a * (s div a) + (s mod a + align_gap a s)"
    by (simp add: mult_div_mod_eq flip: add.assoc)
  moreover have "s mod a + align_gap a s = 0 \<or> s mod a + align_gap a s = a"
    using a by (auto simp: align_gap_def less_imp_le)
  ultimately show ?thesis by (metis add.right_neutral mod_add_self2 mod_mult_self1_is_0)
qed

lemma align_gap_less: "0 < a \<Longrightarrow> align_gap a s < a"
  by (auto simp: align_gap_def)

lemma memalign_nat:
  assumes "k < 32"
    and "unat (free_memory_start hp) + align_gap (2 ^ k) (unat (free_memory_start hp)) + unat sz < 2 ^ 32"
  shows "unat (fst (memalign (2 ^ k) sz hp)) =
      unat (free_memory_start hp) + align_gap (2 ^ k) (unat (free_memory_start hp))" (is ?A)
    and "unat (free_memory_start (snd (memalign (2 ^ k) sz hp))) =
      unat (fst (memalign (2 ^ k) sz hp)) + unat sz" (is ?B)
proof -
  let ?s = "free_memory_start hp" and ?diff = "free_memory_start hp AND (2 ^ k - 1)"
  have diff: "unat ?diff = unat ?s mod 2 ^ k" by (rule and_mask_remainder)
  have waste: "unat (2 ^ k - ?diff) = 2 ^ k - unat ?s mod 2 ^ k"
  proof -
    have "?diff \<le> 2 ^ k" using diff unat_pow32 [OF assms(1)]
      by (simp add: word_le_nat_alt less_imp_le)
    then show ?thesis by (simp add: unat_sub diff unat_pow32 [OF assms(1)])
  qed
  have "?A \<and> ?B"
  proof (cases "?diff = 0")
    case True
    then have "unat ?s mod 2 ^ k = 0" using diff by simp
    then show ?thesis
      using True assms(2) by (simp add: memalign_def malloc_def align_gap_def unat_add_no_wrap)
  next
    case False
    then have "unat ?s mod 2 ^ k \<noteq> 0" using diff by (metis unat_eq_zero)
    then have gap: "align_gap (2 ^ k) (unat ?s) = unat (2 ^ k - ?diff)"
      by (simp add: align_gap_def waste)
    have a: "unat (?s + (2 ^ k - ?diff)) = unat ?s + unat (2 ^ k - ?diff)"
      using assms(2) gap by (intro unat_add_no_wrap) simp
    moreover have "unat (?s + (sz + (2 ^ k - ?diff))) = unat ?s + unat (2 ^ k - ?diff) + unat sz"
      using assms(2) gap a unat_add_no_wrap [of "?s + (2 ^ k - ?diff)" sz]
      by (simp add: add.assoc add.commute add.left_commute)
    ultimately show ?thesis
      using False gap by (simp add: memalign_def malloc_def Let_def)
  qed
  then show ?A and ?B by blast+
qed

section \<open>What filling and copying leave in memory\<close>

text \<open>Addresses count from \<open>dest\<close>, so the facts hold across the end of the address space too.\<close>

lemma addr_eq_iff: "n < 2 ^ 32 \<Longrightarrow> a = d + of_nat n \<longleftrightarrow> unat (a - d) = n" for a d :: u32
proof -
  assume "n < 2 ^ 32"
  then have "unat (of_nat n :: u32) = n" by (simp add: unat_of_nat)
  then have "of_nat n = a - d \<longleftrightarrow> unat (a - d) = n" by (metis word_unat_eq_iff)
  moreover have "a = d + of_nat n \<longleftrightarrow> of_nat n = a - d" by (auto simp: algebra_simps)
  ultimately show ?thesis by simp
qed

lemma memset_loop:
  "n \<le> 2 ^ 32 \<Longrightarrow> fold (\<lambda>i m. m(dest + of_nat i := value)) [0..<n] m =
     (\<lambda>a :: u32. if unat (a - dest) < n then value else m a)"
proof (induction n)
  case 0
  then show ?case by simp
next
  case (Suc n)
  let ?f = "\<lambda>i m. m(dest + of_nat i := value)"
  have "fold ?f [0..<Suc n] m = ?f n (fold ?f [0..<n] m)" by simp
  also have "fold ?f [0..<n] m = (\<lambda>a. if unat (a - dest) < n then value else m a)"
    using Suc.prems by (intro Suc.IH) simp
  finally have eq: "fold ?f [0..<Suc n] m =
      (\<lambda>a. if unat (a - dest) < n then value else m a)(dest + of_nat n := value)" .
  have "a = dest + of_nat n \<longleftrightarrow> unat (a - dest) = n" for a
    using Suc.prems by (intro addr_eq_iff) simp
  then show ?case unfolding eq by (auto simp: fun_eq_iff less_Suc_eq)
qed

lemma memset_eq: "memset dest value len m a = (if unat (a - dest) < unat len then value else m a)"
  by (simp add: memset_def memset_loop)

definition copied :: "u32 \<Rightarrow> u32 \<Rightarrow> nat \<Rightarrow> memory \<Rightarrow> memory" where
  "copied source dest n m a = (if unat (a - dest) < n then m (source + (a - dest)) else m a)"

lemma copied_0 [simp]: "copied source dest 0 m = m"
  by (simp add: copied_def fun_eq_iff)

lemma copied_Suc:
  assumes "n < 2 ^ 32"
  shows "copied source dest (Suc n) m =
    (copied source dest n m)(dest + of_nat n := m (source + of_nat n))"
proof
  fix a
  have "a = dest + of_nat n \<longleftrightarrow> unat (a - dest) = n" using assms by (rule addr_eq_iff)
  then show "copied source dest (Suc n) m a =
    ((copied source dest n m)(dest + of_nat n := m (source + of_nat n))) a"
    by (auto simp: copied_def less_Suc_eq)
qed

text \<open>
  A byte not copied yet can still be read at its source, unless the destination begins inside
  the source block.
\<close>

lemma copied_ahead:
  assumes "dest = source \<or> len \<le> unat (dest - source)" and "n \<le> j" and "j < len" and "len \<le> 2 ^ 32"
  shows "copied source dest n m (source + of_nat j) = m (source + of_nat j)"
proof (cases "dest = source")
  case True
  then show ?thesis using assms(2-4) by (simp add: copied_def unat_of_nat)
next
  case False
  let ?d = "dest - source"
  have d: "len \<le> unat ?d" using assms(1) False by simp
  have j: "unat (of_nat j :: u32) = j" using assms(3,4) by (simp add: unat_of_nat)
  have "unat (of_nat j - ?d) = j + 2 ^ 32 - unat ?d"
    using d assms(3) j by (simp add: unat_sub_if')
  moreover have "unat ?d < 2 ^ 32" by simp
  ultimately have ge: "\<not> unat (of_nat j - ?d) < n" using assms(2) by linarith
  have "source + of_nat j - dest = of_nat j - ?d" by simp
  with ge show ?thesis by (simp only: copied_def if_False)
qed

lemma copied_dword:
  assumes "dest = source \<or> len \<le> unat (dest - source)" and "n + 4 \<le> len" and "len \<le> 2 ^ 32"
  shows "store32 (dest + of_nat n) (load32 (copied source dest n m) (source + of_nat n))
      (copied source dest n m) = copied source dest (n + 4) m"
proof -
  let ?m = "copied source dest n m"
  have rd: "?m (source + of_nat (n + k)) = m (source + of_nat (n + k))" if "k < 4" for k
    using assms that by (intro copied_ahead [where len = len]) auto
  have "load32 ?m (source + of_nat n) =
      le32 (m (source + of_nat n)) (m (source + of_nat (Suc n)))
        (m (source + of_nat (Suc (Suc n)))) (m (source + of_nat (Suc (Suc (Suc n)))))"
    using rd [of 0] rd [of 1] rd [of 2] rd [of 3]
    by (simp add: load32_def add.assoc numeral_eq_Suc add.commute add.left_commute)
  moreover have "copied source dest (n + 4) m =
      ?m(dest + of_nat n := m (source + of_nat n),
         dest + of_nat (Suc n) := m (source + of_nat (Suc n)),
         dest + of_nat (Suc (Suc n)) := m (source + of_nat (Suc (Suc n))),
         dest + of_nat (Suc (Suc (Suc n))) := m (source + of_nat (Suc (Suc (Suc n)))))"
  proof -
    have "n + 4 = Suc (Suc (Suc (Suc n)))" by simp
    then show ?thesis using assms(2,3) by (simp only: copied_Suc)
  qed
  ultimately show ?thesis
    by (simp add: store32_def le32_bytes add.assoc add.commute add.left_commute)
qed

lemma copied_dwords:
  assumes "dest = source \<or> len \<le> unat (dest - source)" and "len \<le> 2 ^ 32" and "4 * n \<le> len"
  shows "fold (\<lambda>i m. store32 (dest + 4 * of_nat i) (load32 m (source + 4 * of_nat i)) m) [0..<n] m =
    copied source dest (4 * n) m"
  using assms(3)
proof (induction n)
  case 0
  then show ?case by simp
next
  case (Suc n)
  let ?f = "\<lambda>i m. store32 (dest + 4 * of_nat i) (load32 m (source + 4 * of_nat i)) m"
  have "fold ?f [0..<Suc n] m = ?f n (fold ?f [0..<n] m)" by simp
  also have "fold ?f [0..<n] m = copied source dest (4 * n) m"
    using Suc.prems by (intro Suc.IH) simp
  also have "?f n (copied source dest (4 * n) m) = copied source dest (4 * n + 4) m"
    using copied_dword [OF assms(1) _ assms(2), of "4 * n" m] Suc.prems by simp
  finally show ?case by (simp add: add.commute)
qed

lemma copied_bytes:
  assumes "dest = source \<or> len \<le> unat (dest - source)" and "len \<le> 2 ^ 32" and "k + n \<le> len"
  shows "fold (\<lambda>i m. m(dest + of_nat k + of_nat i := m (source + of_nat k + of_nat i))) [0..<n]
      (copied source dest k m) = copied source dest (k + n) m"
  using assms(3)
proof (induction n)
  case 0
  then show ?case by simp
next
  case (Suc n)
  let ?f = "\<lambda>i m. m(dest + of_nat k + of_nat i := m (source + of_nat k + of_nat i))"
  have "fold ?f [0..<Suc n] (copied source dest k m) = ?f n (fold ?f [0..<n] (copied source dest k m))"
    by simp
  also have "fold ?f [0..<n] (copied source dest k m) = copied source dest (k + n) m"
    using Suc.prems by (intro Suc.IH) simp
  also have "?f n (copied source dest (k + n) m) = copied source dest (Suc (k + n)) m"
  proof -
    have "copied source dest (k + n) m (source + of_nat (k + n)) = m (source + of_nat (k + n))"
      using assms(1,2) Suc.prems by (intro copied_ahead [where len = len]) auto
    moreover have "k + n < 2 ^ 32" using assms(2) Suc.prems by simp
    ultimately show ?thesis by (simp add: copied_Suc add.assoc)
  qed
  finally show ?case by simp
qed

lemma memcpy_copied:
  assumes "dest = source \<or> unat len \<le> unat (dest - source)"
  shows "memcpy source dest len m = copied source dest (unat len) m"
proof -
  have q: "unat (len div 4) = unat len div 4" "unat (len mod 4) = unat len mod 4"
    by (simp_all add: unat_div_distrib unat_mod_distrib)
  have w: "len div 4 * 4 = of_nat (4 * unat (len div 4))" by simp
  have "fold (\<lambda>i m. store32 (dest + 4 * of_nat i) (load32 m (source + 4 * of_nat i)) m)
      [0..<unat (len div 4)] m = copied source dest (4 * unat (len div 4)) m"
    using q(1) by (intro copied_dwords [OF assms]) (simp_all add: less_imp_le)
  moreover have "fold (\<lambda>i m. m(dest + of_nat (4 * unat (len div 4)) + of_nat i :=
        m (source + of_nat (4 * unat (len div 4)) + of_nat i))) [0..<unat (len mod 4)]
      (copied source dest (4 * unat (len div 4)) m) =
      copied source dest (4 * unat (len div 4) + unat (len mod 4)) m"
    using q by (intro copied_bytes [OF assms]) (simp_all add: less_imp_le)
  moreover have "4 * unat (len div 4) + unat (len mod 4) = unat len" using q by simp
  ultimately show ?thesis unfolding memcpy_def Let_def w by (simp only:)
qed

section \<open>Allocators\<close>

text \<open>
  What the drivers rely on when they ask for memory: the blocks are aligned, and each one lies
  above everything handed out before, as long as the address space lasts.
\<close>

locale allocator =
  fixes alloc :: "u32 \<Rightarrow> heap \<Rightarrow> u32 \<times> heap"
    and alignment :: nat
  assumes above: "unat (free_memory_start hp) + alignment + unat sz < 2 ^ 32 \<Longrightarrow>
      unat (free_memory_start hp) \<le> unat (fst (alloc sz hp))"
    and aligned: "unat (free_memory_start hp) + alignment + unat sz < 2 ^ 32 \<Longrightarrow>
      unat (fst (alloc sz hp)) mod alignment = 0"
    and watermark: "unat (free_memory_start hp) + alignment + unat sz < 2 ^ 32 \<Longrightarrow>
      unat (free_memory_start (snd (alloc sz hp))) = unat (fst (alloc sz hp)) + unat sz"
    and waste: "unat (free_memory_start hp) + alignment + unat sz < 2 ^ 32 \<Longrightarrow>
      unat (fst (alloc sz hp)) \<le> unat (free_memory_start hp) + alignment"
begin

text \<open>A run of requests: the blocks, as pairs of an address and a size, and the heap after it.\<close>

fun allocs :: "u32 list \<Rightarrow> heap \<Rightarrow> (u32 \<times> u32) list \<times> heap" where
  "allocs [] hp = ([], hp)"
| "allocs (sz # szs) hp =
     (let (p, hp1) = alloc sz hp; (bs, hp2) = allocs szs hp1 in ((p, sz) # bs, hp2))"

lemma allocs_above:
  "unat (free_memory_start hp) + (\<Sum>sz \<leftarrow> szs. alignment + unat sz) < 2 ^ 32 \<Longrightarrow>
     (p, n) \<in> set (fst (allocs szs hp)) \<Longrightarrow>
     unat (free_memory_start hp) \<le> unat p \<and> unat p mod alignment = 0"
proof (induction szs arbitrary: hp)
  case Nil
  then show ?case by simp
next
  case (Cons sz szs)
  have now: "unat (free_memory_start hp) + alignment + unat sz < 2 ^ 32" using Cons.prems(1) by simp
  let ?hp = "snd (alloc sz hp)"
  have "unat (free_memory_start ?hp) + (\<Sum>sz \<leftarrow> szs. alignment + unat sz) < 2 ^ 32"
    using watermark [OF now] waste [OF now] Cons.prems(1) by simp
  note IH = Cons.IH [OF this]
  from Cons.prems(2) consider "p = fst (alloc sz hp)" | "(p, n) \<in> set (fst (allocs szs ?hp))"
    by (auto simp: Let_def split: prod.splits)
  then show ?case
  proof cases
    case 1
    then show ?thesis using above [OF now] aligned [OF now] by simp
  next
    case 2
    from IH [OF this] show ?thesis using watermark [OF now] above [OF now] by linarith
  qed
qed

lemma allocs_ordered:
  "unat (free_memory_start hp) + (\<Sum>sz \<leftarrow> szs. alignment + unat sz) < 2 ^ 32 \<Longrightarrow>
     sorted_wrt (\<lambda>x y. unat (fst x) + unat (snd x) \<le> unat (fst y)) (fst (allocs szs hp))"
proof (induction szs arbitrary: hp)
  case Nil
  then show ?case by simp
next
  case (Cons sz szs)
  have now: "unat (free_memory_start hp) + alignment + unat sz < 2 ^ 32" using Cons.prems by simp
  let ?hp = "snd (alloc sz hp)"
  have rest: "unat (free_memory_start ?hp) + (\<Sum>sz \<leftarrow> szs. alignment + unat sz) < 2 ^ 32"
    using watermark [OF now] waste [OF now] Cons.prems by simp
  have "unat (fst (alloc sz hp)) + unat sz \<le> unat q" if "(q, k) \<in> set (fst (allocs szs ?hp))" for q k
    using allocs_above [OF rest that] watermark [OF now] by simp
  with Cons.IH [OF rest] show ?case by (auto simp: Let_def split: prod.splits)
qed

end

lemma memalign_allocator:
  assumes "k < 32" and "(2 :: nat) ^ k = a" and "(2 :: u32) ^ k = w"
  shows "allocator (memalign w) a"
proof -
  have a: "0 < a" using assms(2) by auto
  have eq: "align_gap a (unat (free_memory_start hp)) < a" for hp :: heap
    using a by (rule align_gap_less)
  have no: "unat (free_memory_start hp) + align_gap (2 ^ k) (unat (free_memory_start hp)) + unat sz < 2 ^ 32"
    if "unat (free_memory_start hp) + a + unat sz < 2 ^ 32" for hp :: heap and sz :: u32
    using that eq [of hp] assms(2) by simp
  show ?thesis
  proof
    fix hp :: heap and sz :: u32
    assume h: "unat (free_memory_start hp) + a + unat sz < 2 ^ 32"
    note m = memalign_nat [OF assms(1) no [OF h], unfolded assms(2,3)]
    show "unat (free_memory_start hp) \<le> unat (fst (memalign w sz hp))" using m(1) by simp
    show "unat (fst (memalign w sz hp)) mod a = 0"
      using m(1) align_gap_aligned [of a] a by simp
    show "unat (free_memory_start (snd (memalign w sz hp))) =
        unat (fst (memalign w sz hp)) + unat sz" using m(2) .
    show "unat (fst (memalign w sz hp)) \<le> unat (free_memory_start hp) + a"
      using m(1) eq [of hp] by simp
  qed
qed

interpretation memalign16: allocator "memalign 16" 16
  by (rule memalign_allocator [of 4]) simp_all

interpretation memalign4096: allocator "memalign 4096" 4096
  by (rule memalign_allocator [of 12]) simp_all

lemma memalign_1: "memalign 1 = malloc"
  by (simp add: fun_eq_iff memalign_def)

interpretation malloc: allocator malloc 1
  using memalign_allocator [of 0 1 1] by (simp add: memalign_1)

section \<open>Properties\<close>

text \<open>
  C22: The blocks a run of \<open>memalign(4096, ...)\<close> calls hands out are aligned to 4096 bytes, and
  each one ends before the next one begins, as long as the watermark stays inside the address
  space.
\<close>

theorem memalign_blocks:
  assumes "unat (free_memory_start hp) + (\<Sum>sz \<leftarrow> szs. 4096 + unat sz) < 2 ^ 32"
  shows "sorted_wrt (\<lambda>x y. unat (fst x) + unat (snd x) \<le> unat (fst y)) (fst (memalign4096.allocs szs hp)) \<and>
    list_all (\<lambda>(p, n). unat p mod 4096 = 0) (fst (memalign4096.allocs szs hp))"
  using memalign4096.allocs_ordered [of hp szs] memalign4096.allocs_above [of hp szs] assms
  by (fastforce simp: list_all_iff)

theorem memalign_blocks_witness:
  "sorted_wrt (\<lambda>x y. unat (fst x) + unat (snd x) \<le> unat (fst y))
      (fst (memalign4096.allocs [100, 5000, 8] \<lparr>free_memory_start = HEAP_START\<rparr>)) \<and>
    list_all (\<lambda>(p, n). unat p mod 4096 = 0)
      (fst (memalign4096.allocs [100, 5000, 8] \<lparr>free_memory_start = HEAP_START\<rparr>))"
  by (rule memalign_blocks) (simp add: HEAP_START_def)

text \<open>
  C21: \<open>memcpy\<close>, which copies double words and then the bytes that are left, copies exactly the
  \<open>len\<close> bytes of the source and changes nothing else, also for overlapping blocks, unless the
  destination begins inside the source.
\<close>

theorem memcpy_copies:
  assumes "dest = source \<or> unat len \<le> unat (dest - source)"
  shows "memcpy source dest len m =
    (\<lambda>a. if unat (a - dest) < unat len then m (source + (a - dest)) else m a)"
  unfolding memcpy_copied [OF assms] by (simp add: copied_def fun_eq_iff)

theorem memcpy_copies_witness:
  "memcpy 104 100 7 (\<lambda>a. ucast a) = (\<lambda>a. if unat (a - 100) < 7 then ucast (104 + (a - 100)) else ucast a)"
  using memcpy_copies [of 100 104 7 "\<lambda>a. ucast a"] by simp

end
