(* ===== verification/Format.thy ===== *)
theory Format
  imports CString
begin

text \<open>
  Numbers as text and the formatter behind every \<open>printf\<close> of the kernel:
  \<open>int_to_string\<close>, \<open>string_to_int\<close> and \<open>vsprintf\<close> of \<open>core/stream.c\<close>.

  The arguments of a format are a list of \<open>vararg\<close>: an \<open>int\<close> (or an address), or the
  object a \<open>char *\<close> points to. The output buffer is an array and the write position in it.
\<close>

section \<open>Numbers as text\<close>

definition bchars :: "byte list" where
  "bchars = str ''0123456789ABCDEF''"

text \<open>
  The loop that fills \<open>tbuf\<close>, an array of 32 characters, lowest digit first; \<open>tbuf\<close> is what
  has been written of it.
\<close>

function digit_loop :: "nat \<Rightarrow> nat \<Rightarrow> byte list \<Rightarrow> byte list option" where
  "digit_loop base i tbuf =
     (if i \<noteq> 0 then
        (if base = 0 \<or> 32 \<le> length tbuf then None
         else digit_loop base (i div base) (tbuf @ [bchars ! (i mod base)]))
      else Some tbuf)"
  by pat_completeness auto
termination
  by (relation "measure (\<lambda>(base, i, tbuf). 32 - length tbuf)") auto

declare digit_loop.simps [simp del]

definition int_to_string :: "u32 \<Rightarrow> byte \<Rightarrow> byte list \<Rightarrow> byte list option" where
  "int_to_string i base buffer =
     (if i = 0 \<or> 16 < base then do { b \<leftarrow> wr buffer 0 48; wr b 1 0 }
      else do {
        tbuf \<leftarrow> digit_loop (unat base) (unat i) [];
        blit buffer 0 (rev tbuf @ [0]) })"

text \<open>The arithmetic of \<open>string_to_int\<close> is that of a 32-bit \<open>int\<close>.\<close>

definition string_to_int :: "byte list \<Rightarrow> u32 option" where
  "string_to_int string = do {
     len \<leftarrow> strlen string;
     (value, _) \<leftarrow> for_loop (\<lambda>i (value, multiplier). do {
         chr \<leftarrow> rd string (len - (i + 1));
         let digit_val = chr - 48;
         Some (value + ucast digit_val * multiplier, multiplier * 10) }) [0..<len] (0, 1);
     Some value }"

section \<open>The formatter\<close>

datatype vararg = ArgInt u32 | ArgStr "byte list"

definition is_digit :: "byte \<Rightarrow> bool" where
  "is_digit c \<longleftrightarrow> 48 \<le> sint c \<and> sint c \<le> 57"

fun scan_digits :: "byte list \<Rightarrow> (byte list \<times> byte list) option" where
  "scan_digits [] = None"
| "scan_digits (c # cs) =
     (if is_digit c then map_option (\<lambda>(ds, r). (c # ds, r)) (scan_digits cs)
      else Some ([], c # cs))"

text \<open>
  A number in the format is copied to an array of 8 characters, so more than seven digits run
  over it; the value is cut to a byte.
\<close>

definition small_number :: "byte list \<Rightarrow> byte \<Rightarrow> byte option" where
  "small_number ds dflt =
     (if ds = [] then Some dflt
      else if length ds \<le> 7 then map_option ucast (string_to_int (ds @ [0]))
      else None)"

text \<open>
  What stands between \<open>%\<close> and the conversion: the width, and after a dot the precision.
  The precision keeps its old value when there is none.
\<close>

definition parse_spec :: "byte list \<Rightarrow> byte \<Rightarrow> (byte \<times> byte \<times> byte list) option" where
  "parse_spec string precision = do {
     (ds, string) \<leftarrow> scan_digits string;
     width \<leftarrow> small_number ds 0;
     c \<leftarrow> rd string 0;
     if c = 46 then do {
       (ds, string) \<leftarrow> scan_digits (tl string);
       precision \<leftarrow> small_number ds precision;
       Some (width, precision, string) }
     else Some (width, precision, string) }"

definition emit_spec ::
  "byte \<Rightarrow> byte \<Rightarrow> byte \<Rightarrow> vararg list \<Rightarrow> byte list \<Rightarrow> nat \<Rightarrow>
     (vararg list \<times> byte list \<times> nat) option" where
  "emit_spec c width precision args buffer pos =
     (if c = 37 then do {
        b \<leftarrow> wr buffer pos c;
        Some (args, b, pos + 1) }
      else if c = 115 then
        (case args of
           ArgStr s # args \<Rightarrow> do {
             copylen \<leftarrow> (if 0 < precision then Some (unat precision) else strlen s);
             b \<leftarrow> strncpy s (drop pos buffer) (int copylen);
             Some (args, take pos buffer @ b, pos + copylen) }
         | _ \<Rightarrow> None)
      else if c = 100 \<or> c = 120 then
        (case args of
           ArgInt number # args \<Rightarrow> do {
             num_string \<leftarrow> int_to_string number (if c = 100 then 10 else 16) (replicate 16 0);
             num_digits \<leftarrow> strlen num_string;
             let padding = unat width - num_digits;
             b \<leftarrow> blit buffer pos (replicate padding 48);
             let pos = pos + padding;
             d \<leftarrow> strcpy num_string (drop pos b);
             Some (args, take pos b @ d, pos + num_digits) }
         | _ \<Rightarrow> None)
      else Some (args, buffer, pos))"

lemma scan_digits_length: "scan_digits s = Some (ds, r) \<Longrightarrow> length r \<le> length s"
proof (induction s arbitrary: ds)
  case (Cons c s)
  then show ?case by (cases "is_digit c") auto
qed simp

lemma parse_spec_length:
  "parse_spec s p = Some (w, q, r) \<Longrightarrow> length r \<le> length s"
  by (fastforce simp: parse_spec_def bind_eq_Some_conv split: if_splits dest: scan_digits_length)

text \<open>
  The loop over the format. The format's terminator ends it; a format that ends inside a
  specification is read past its terminator.
\<close>

function vsprintf_loop ::
  "byte list \<Rightarrow> vararg list \<Rightarrow> byte \<Rightarrow> byte list \<Rightarrow> nat \<Rightarrow> byte list option" where
  "vsprintf_loop [] args precision buffer pos = None"
| "vsprintf_loop (c # string) args precision buffer pos =
     (if c \<noteq> 0 then
        (if c = 37 then
           (case parse_spec string precision of
              None \<Rightarrow> None
            | Some (width, precision, string') \<Rightarrow>
                (case string' of
                   [] \<Rightarrow> None
                 | k # string'' \<Rightarrow>
                     (case emit_spec k width precision args buffer pos of
                        None \<Rightarrow> None
                      | Some (args, buffer, pos) \<Rightarrow> vsprintf_loop string'' args precision buffer pos)))
         else
           (case wr buffer pos c of
              None \<Rightarrow> None
            | Some buffer \<Rightarrow> vsprintf_loop string args precision buffer (pos + 1)))
      else wr buffer pos 0)"
  by pat_completeness auto
termination
  by (relation "measure (\<lambda>(string, _). length string)") (auto dest!: parse_spec_length)

definition vsprintf :: "byte list \<Rightarrow> byte list \<Rightarrow> vararg list \<Rightarrow> byte list option" where
  "vsprintf buffer string args = vsprintf_loop string args 0 buffer 0"

section \<open>Digits and their value\<close>

text \<open>The value of a decimal text that is read from its last digit: the weights are 1, 10, 100, ...\<close>

fun dec_value :: "byte list \<Rightarrow> u32" where
  "dec_value [] = 0"
| "dec_value (c # cs) = ucast (c - 48) + 10 * dec_value cs"

lemma dec_value_snoc: "dec_value (cs @ [c]) = dec_value cs + ucast (c - 48) * 10 ^ length cs"
  by (induction cs) (simp_all add: algebra_simps)

lemma string_to_int_holds:
  assumes "holds ob s"
  shows "string_to_int ob = Some (dec_value (rev s))"
proof -
  let ?f = "\<lambda>i (value, multiplier). do {
         chr \<leftarrow> rd ob (length s - (i + 1));
         let digit_val = chr - 48;
         Some (value + ucast digit_val * multiplier, multiplier * (10 :: u32)) }"
  have "n \<le> length s \<Longrightarrow>
      for_loop ?f [0..<n] (0, 1) = Some (dec_value (take n (rev s)), 10 ^ n)" for n
  proof (induction n)
    case 0
    then show ?case by simp
  next
    case (Suc n)
    have i: "length s - Suc n < length ob" "ob ! (length s - Suc n) = rev s ! n"
      using assms Suc.prems by (auto simp: holds_def nth_append rev_nth)
    have "take (Suc n) (rev s) = take n (rev s) @ [rev s ! n]"
      using Suc.prems by (simp add: take_Suc_conv_app_nth)
    with Suc i show ?case by (simp add: for_loop_append dec_value_snoc min_def mult.commute)
  qed
  from this [of "length s"] show ?thesis
    using assms by (simp add: string_to_int_def strlen_of_holds)
qed

text \<open>
  The digits of a number in a base, lowest first: what \<open>digit_loop\<close> appends.
\<close>

fun digits :: "nat \<Rightarrow> nat \<Rightarrow> byte list" where
  "digits base i = (if i = 0 \<or> base < 2 then [] else bchars ! (i mod base) # digits base (i div base))"

declare digits.simps [simp del]

lemma digits_0 [simp]: "digits base 0 = []"
  by (simp add: digits.simps)

lemma digits_step: "0 < i \<Longrightarrow> 2 \<le> base \<Longrightarrow>
  digits base i = bchars ! (i mod base) # digits base (i div base)"
  by (simp add: digits.simps)

lemma length_digits: "2 \<le> base \<Longrightarrow> i < base ^ n \<Longrightarrow> length (digits base i) \<le> n"
proof (induction n arbitrary: i)
  case 0
  then show ?case by simp
next
  case (Suc n)
  show ?case
  proof (cases "i = 0")
    case False
    have "i div base < base ^ n" using Suc.prems by (simp add: less_mult_imp_div_less mult.commute)
    with Suc False show ?thesis by (simp add: digits_step)
  qed simp
qed

lemma digit_loop_digits:
  "2 \<le> base \<Longrightarrow> length tbuf + length (digits base i) \<le> 32 \<Longrightarrow>
     digit_loop base i tbuf = Some (tbuf @ digits base i)"
proof (induction base i tbuf rule: digit_loop.induct)
  case (1 base i tbuf)
  show ?case
  proof (cases "i = 0")
    case True
    then show ?thesis by (simp add: digit_loop.simps)
  next
    case False
    then have d: "digits base i = bchars ! (i mod base) # digits base (i div base)"
      using 1 by (simp add: digits_step)
    with 1 False show ?thesis by (simp add: digit_loop.simps [of base i])
  qed
qed

text \<open>The text \<open>int_to_string\<close> writes, without its terminator.\<close>

definition numeral_text :: "nat \<Rightarrow> nat \<Rightarrow> byte list" where
  "numeral_text base i = (if i = 0 then [48] else rev (digits base i))"

lemma length_digits_u32: "2 \<le> base \<Longrightarrow> length (digits base (unat (i :: u32))) \<le> 32"
proof -
  assume "2 \<le> base"
  moreover have "(2 :: nat) ^ 32 \<le> base ^ 32" using \<open>2 \<le> base\<close> by (rule power_mono) simp
  ultimately have "unat i < base ^ 32"
    using less_le_trans [OF unat_u32_lt [of i]] by simp
  with \<open>2 \<le> base\<close> show ?thesis by (rule length_digits)
qed

lemma int_to_string_eq:
  assumes "2 \<le> unat base" and "base \<le> 16"
    and "length (numeral_text (unat base) (unat i)) < length buffer"
  shows "int_to_string i base buffer =
    Some (numeral_text (unat base) (unat i) @
      0 # drop (Suc (length (numeral_text (unat base) (unat i)))) buffer)"
proof (cases "i = 0")
  case True
  then have "2 \<le> length buffer" using assms(3) by (simp add: numeral_text_def)
  then obtain a b r where "buffer = a # b # r"
    by (metis One_nat_def Suc_1 Suc_le_length_iff)
  with True show ?thesis by (simp add: int_to_string_def numeral_text_def wr_def)
next
  case False
  then have "unat i \<noteq> 0" by (simp add: unat_eq_zero)
  moreover have "digit_loop (unat base) (unat i) [] = Some (digits (unat base) (unat i))"
    using digit_loop_digits [of "unat base" "[]" "unat i"] length_digits_u32 [of "unat base" i] assms(1)
    by simp
  moreover have "\<not> 16 < base" using assms(2) by simp
  ultimately show ?thesis using assms(3) False
    by (simp add: int_to_string_def numeral_text_def blit_def)
qed

lemma bchars_eq: "bchars = [48, 49, 50, 51, 52, 53, 54, 55, 56, 57, 65, 66, 67, 68, 69, 70]"
  by (simp add: bchars_def str_def)

lemma bchars_decimal: "k < 10 \<Longrightarrow> bchars ! k = 48 + of_nat k"
  by (drule less_10_cases) (auto simp: bchars_eq)

lemma bchars_nonzero: "k < 16 \<Longrightarrow> bchars ! k \<noteq> 0"
  by (drule less_16_cases) (auto simp: bchars_eq)

lemma is_digit_decimal: "k < 10 \<Longrightarrow> is_digit (48 + of_nat k)"
  by (drule less_10_cases) (auto simp: is_digit_def)

lemma ucast_of_nat_small: "k < 10 \<Longrightarrow> (ucast (of_nat k :: byte) :: u32) = of_nat k"
  by (drule less_10_cases) auto

lemma dec_value_digits: "dec_value (digits 10 i) = of_nat i"
proof (induction i rule: less_induct)
  case (less i)
  show ?case
  proof (cases "i = 0")
    case False
    have "dec_value (digits 10 i) = of_nat (i mod 10) + 10 * of_nat (i div 10)"
      using less [of "i div 10"] False
      by (simp add: digits_step bchars_decimal ucast_of_nat_small)
    also have "\<dots> = of_nat (i mod 10 + 10 * (i div 10))"
      by (simp only: of_nat_add of_nat_mult of_nat_numeral)
    also have "\<dots> = (of_nat i :: u32)" by (simp only: mod_mult_div_eq)
    finally show ?thesis .
  qed simp
qed

lemma digits_cstr: "base \<le> 16 \<Longrightarrow> is_cstr (digits base i)"
proof (induction i rule: less_induct)
  case (less i)
  show ?case
  proof (cases "i = 0 \<or> base < 2")
    case False
    then have "i div base < i" "i mod base < 16"
      using less.prems by (auto intro: order.strict_trans2 [OF mod_less_divisor])
    with less False show ?thesis by (simp add: digits_step bchars_nonzero)
  qed (auto simp: digits.simps)
qed

lemma numeral_text_cstr: "base \<le> 16 \<Longrightarrow> is_cstr (numeral_text base i)"
  using digits_cstr [of base i] by (auto simp: numeral_text_def is_cstr_def)

lemma length_numeral_text:
  "2 \<le> base \<Longrightarrow> i < base ^ n \<Longrightarrow> 0 < n \<Longrightarrow> length (numeral_text base i) \<le> n"
  using length_digits [of base i n] by (auto simp: numeral_text_def)

lemma dec_value_numeral: "dec_value (rev (numeral_text 10 i)) = of_nat i"
  by (simp add: numeral_text_def dec_value_digits)

section \<open>What the formatter writes\<close>

text \<open>
  A well-formed format is a list of items: plain characters, \<open>%%\<close>, \<open>%s\<close>, and \<open>%d\<close> or
  \<open>%x\<close> with the digits of an optional width. \<open>unparse\<close> is the format as the code reads it,
  \<open>render\<close> the text it stands for.
\<close>

datatype item = Lit byte | Percent | Str | Num "byte list" bool

fun unparse :: "item \<Rightarrow> byte list" where
  "unparse (Lit c) = [c]"
| "unparse Percent = [37, 37]"
| "unparse Str = [37, 115]"
| "unparse (Num ds hex) = 37 # ds @ [if hex then 120 else 100]"

fun item_ok :: "item \<Rightarrow> bool" where
  "item_ok (Lit c) \<longleftrightarrow> c \<noteq> 0 \<and> c \<noteq> 37"
| "item_ok (Num ds hex) \<longleftrightarrow> list_all is_digit ds \<and> length ds \<le> 7"
| "item_ok _ \<longleftrightarrow> True"

definition padded :: "byte list \<Rightarrow> byte list \<Rightarrow> byte list" where
  "padded ds text =
     replicate (unat (ucast (dec_value (rev ds)) :: byte) - length text) 48 @ text"

fun render :: "item list \<Rightarrow> vararg list \<Rightarrow> byte list option" where
  "render [] args = Some []"
| "render (Lit c # is) args = map_option ((#) c) (render is args)"
| "render (Percent # is) args = map_option ((#) 37) (render is args)"
| "render (Str # is) (ArgStr s # args) =
     (if 0 \<in> set s then map_option ((@) (takeWhile (\<lambda>c. c \<noteq> 0) s)) (render is args) else None)"
| "render (Num ds hex # is) (ArgInt i # args) =
     map_option ((@) (padded ds (numeral_text (if hex then 16 else 10) (unat i)))) (render is args)"
| "render _ _ = None"

text \<open>
  \<open>wrote buf pos p buf'\<close>: \<open>buf'\<close> is \<open>buf\<close> with \<open>p\<close> at \<open>pos\<close>; the byte after it, where the
  string routines put a terminator, may have changed.
\<close>

definition wrote :: "byte list \<Rightarrow> nat \<Rightarrow> byte list \<Rightarrow> byte list \<Rightarrow> bool" where
  "wrote buf pos p buf' \<longleftrightarrow> length buf' = length buf \<and>
     take (pos + length p) buf' = take pos buf @ p \<and>
     drop (Suc (pos + length p)) buf' = drop (Suc (pos + length p)) buf"

lemma wroteI:
  "pos + length p < length buf \<Longrightarrow>
     buf' = take pos buf @ p @ c # drop (Suc (pos + length p)) buf \<Longrightarrow> wrote buf pos p buf'"
  by (auto simp: wrote_def)

lemma wrote_update:
  "pos < length buf \<Longrightarrow> wrote buf pos [c] (buf[pos := c])"
  by (simp add: wrote_def take_Suc_conv_app_nth)

lemma wrote_then:
  assumes "wrote buf pos p buf'"
  shows "take (pos + length p) buf' @ q @ 0 # drop (Suc (pos + length p + length q)) buf' =
    take pos buf @ (p @ q) @ 0 # drop (Suc (pos + length (p @ q))) buf"
proof -
  have "drop (length q) (drop (Suc (pos + length p)) buf') = drop (length q) (drop (Suc (pos + length p)) buf)"
    using assms by (simp add: wrote_def)
  then show ?thesis using assms by (simp add: wrote_def ac_simps)
qed

lemma small_number_digits:
  assumes "list_all is_digit ds" and "length ds \<le> 7"
  shows "small_number ds 0 = Some (ucast (dec_value (rev ds)))"
proof (cases "ds = []")
  case False
  have "is_cstr ds" using assms(1) by (auto simp: is_cstr_def list_all_iff is_digit_def)
  then have "holds (ds @ [0]) ds" by (rule holds_intro)
  with False assms(2) show ?thesis by (simp add: small_number_def string_to_int_holds)
qed (simp add: small_number_def)

lemma scan_digits_append:
  "list_all is_digit ds \<Longrightarrow> \<not> is_digit k \<Longrightarrow> scan_digits (ds @ k # r) = Some (ds, k # r)"
  by (induction ds) auto

lemma parse_spec_plain:
  assumes "list_all is_digit ds" and "length ds \<le> 7" and "\<not> is_digit k" and "k \<noteq> 46"
  shows "parse_spec (ds @ k # r) p = Some (ucast (dec_value (rev ds)), p, k # r)"
  using assms by (simp add: parse_spec_def scan_digits_append small_number_digits)

lemma emit_percent:
  "pos + 1 < length buf \<Longrightarrow>
     emit_spec 37 w p args buf pos = Some (args, buf[pos := 37], pos + 1)"
  by (simp add: emit_spec_def)

lemma emit_str:
  assumes "holds ob s" and "pos + length s < length buf"
  shows "\<exists>buf'. emit_spec 115 w 0 (ArgStr ob # args) buf pos = Some (args, buf', pos + length s) \<and>
    wrote buf pos s buf'"
proof -
  have "strncpy ob (drop pos buf) (int (length s)) =
      Some (s @ 0 # drop (Suc (length s)) (drop pos buf))"
    using strncpy_of_holds [OF assms(1), of "int (length s)" "drop pos buf"] assms(2) by simp
  then have "emit_spec 115 w 0 (ArgStr ob # args) buf pos =
      Some (args, take pos buf @ s @ 0 # drop (Suc (pos + length s)) buf, pos + length s)"
    using assms(1) by (simp add: emit_spec_def strlen_of_holds add.commute [of pos "length s"])
  moreover have "wrote buf pos s (take pos buf @ s @ 0 # drop (Suc (pos + length s)) buf)"
    using assms(2) by (rule wroteI) simp
  ultimately show ?thesis by blast
qed

lemma emit_num:
  fixes i :: u32 and w :: byte
  assumes k: "k = (if hex then 120 else 100)"
    and out: "out = replicate (unat w - length body) 48 @ body"
    and body: "body = numeral_text (if hex then 16 else 10) (unat i)"
    and room: "pos + length out < length buf"
  shows "\<exists>buf'. emit_spec k w 0 (ArgInt i # args) buf pos = Some (args, buf', pos + length out) \<and>
    wrote buf pos out buf'"
proof -
  let ?base = "if k = 100 then 10 else 16 :: byte"
  let ?pad = "unat w - length body"
  have base: "unat ?base = (if hex then 16 else 10)" using k by simp
  have len: "length body \<le> 10"
    unfolding body by (intro length_numeral_text) (auto intro: less_trans [OF unat_u32_lt])
  have num: "int_to_string i ?base (replicate 16 0) = Some (body @ 0 # replicate (15 - length body) 0)"
  proof -
    have "2 \<le> unat ?base" "?base \<le> 16" by auto
    from int_to_string_eq [OF this, of i "replicate 16 0"] show ?thesis
      using len unfolding base body by simp
  qed
  have cstr: "is_cstr body" unfolding body by (rule numeral_text_cstr) simp
  then have h: "holds (body @ 0 # replicate (15 - length body) 0) body" by (rule holds_intro)
  let ?b = "take pos buf @ replicate ?pad 48 @ drop (pos + ?pad) buf"
  have room': "pos + ?pad + length body < length buf" using room out by simp
  have blit: "blit buf pos (replicate ?pad 48) = Some ?b" using room' by (simp add: blit_def)
  have tails: "drop (pos + ?pad) ?b = drop (pos + ?pad) buf"
    "take (pos + ?pad) ?b = take pos buf @ replicate ?pad 48"
    using room' by simp_all
  have "drop (Suc (length body)) (drop (pos + ?pad) buf) = drop (Suc (pos + ?pad + length body)) buf"
    by (simp add: ac_simps)
  moreover have "strcpy (body @ 0 # replicate (15 - length body) 0) (drop (pos + ?pad) buf) =
      Some (body @ 0 # drop (Suc (length body)) (drop (pos + ?pad) buf))"
    using h room' by (intro strcpy_of_holds) auto
  ultimately have cpy: "strcpy (body @ 0 # replicate (15 - length body) 0) (drop (pos + ?pad) ?b) =
      Some (body @ 0 # drop (Suc (pos + ?pad + length body)) buf)"
    unfolding tails by simp
  let ?buf' = "take pos buf @ out @ 0 # drop (Suc (pos + length out)) buf"
  have "wrote buf pos out ?buf'" using room by (intro wroteI) simp_all
  moreover have "emit_spec k w 0 (ArgInt i # args) buf pos = Some (args, ?buf', pos + length out)"
  proof -
    have "emit_spec k w 0 (ArgInt i # args) buf pos =
        Some (args, take (pos + ?pad) ?b @ body @ 0 # drop (Suc (pos + ?pad + length body)) buf,
          pos + ?pad + length body)"
      using k num strlen_of_holds [OF h] blit cpy by (cases hex) (simp_all add: emit_spec_def Let_def)
    then show ?thesis unfolding tails out by (simp add: ac_simps)
  qed
  ultimately show ?thesis by blast
qed

lemma wrote_length [frame]: "wrote buf pos p buf' \<Longrightarrow> length buf' = length buf"
  by (simp add: wrote_def)

lemma takeWhile_holds: "0 \<in> set s \<Longrightarrow> holds s (takeWhile (\<lambda>c. c \<noteq> (0 :: byte)) s)"
proof (induction s)
  case (Cons c s)
  then show ?case by (cases "c = 0") auto
qed simp

text \<open>
  One item of the format: the specification is read, its text is written, and the rest of the
  format goes on behind it.
\<close>

lemma vsprintf_loop_spec:
  assumes "parse_spec (sp @ k # r) 0 = Some (w, 0, k # r)"
    and "emit_spec k w 0 args buf pos = Some (args', buf', pos + length p)"
  shows "vsprintf_loop (37 # sp @ k # r) args 0 buf pos = vsprintf_loop r args' 0 buf' (pos + length p)"
  using assms by simp

lemma vsprintf_loop_render:
  "list_all item_ok its \<Longrightarrow> render its args = Some out \<Longrightarrow> pos + length out < length buf \<Longrightarrow>
     vsprintf_loop (concat (map unparse its) @ [0]) args 0 buf pos =
       Some (take pos buf @ out @ 0 # drop (Suc (pos + length out)) buf)"
proof (induction its args arbitrary: buf pos out rule: render.induct)
  case (1 args)
  then show ?case by (simp add: upd_conv_take_nth_drop)
next
  case (2 c its args)
  then obtain out' where o': "render its args = Some out'" "out = c # out'" by auto
  have w: "wrote buf pos [c] (buf[pos := c])" using 2 o' by (intro wrote_update) simp
  have "vsprintf_loop (concat (map unparse its) @ [0]) args 0 (buf[pos := c]) (pos + length [c]) =
      Some (take pos buf @ ([c] @ out') @ 0 # drop (Suc (pos + length ([c] @ out'))) buf)"
    unfolding wrote_then [OF w, of out', symmetric] using 2 o' by (intro "2.IH") auto
  with 2 o' show ?case by simp
next
  case (3 its args)
  then obtain out' where o': "render its args = Some out'" "out = 37 # out'" by auto
  have w: "wrote buf pos [37] (buf[pos := 37])" using 3 o' by (intro wrote_update) simp
  have p: "parse_spec ([] @ 37 # r) 0 = Some (0, 0, 37 # r)" for r
    using parse_spec_plain [of "[]" 37 r 0] by (simp add: is_digit_def)
  have e: "emit_spec 37 0 0 args buf pos = Some (args, buf[pos := 37], pos + length [37 :: byte])"
    using 3 o' by (simp add: emit_spec_def)
  have "vsprintf_loop (concat (map unparse its) @ [0]) args 0 (buf[pos := 37]) (pos + length [37 :: byte]) =
      Some (take pos buf @ ([37] @ out') @ 0 # drop (Suc (pos + length ([37] @ out'))) buf)"
    unfolding wrote_then [OF w, of out', symmetric] using 3 o' by (intro "3.IH") auto
  with o' show ?case using vsprintf_loop_spec [OF p e, of "concat (map unparse its) @ [0]"] by simp
next
  case (4 its s args)
  let ?t = "takeWhile (\<lambda>c. c \<noteq> 0) s"
  from 4 obtain out' where o': "render its args = Some out'" "out = ?t @ out'" and z: "0 \<in> set s"
    by (auto split: if_splits)
  have h: "holds s ?t" using z by (rule takeWhile_holds)
  have p: "parse_spec ([] @ 115 # r) 0 = Some (0, 0, 115 # r)" for r
    using parse_spec_plain [of "[]" 115 r 0] by (simp add: is_digit_def)
  obtain buf' where e: "emit_spec 115 0 0 (ArgStr s # args) buf pos = Some (args, buf', pos + length ?t)"
    and w: "wrote buf pos ?t buf'"
    using emit_str [OF h, of pos buf 0 args] "4.prems"(3) o' by auto
  have "vsprintf_loop (concat (map unparse its) @ [0]) args 0 buf' (pos + length ?t) =
      Some (take pos buf @ (?t @ out') @ 0 # drop (Suc (pos + length (?t @ out'))) buf)"
    unfolding wrote_then [OF w, of out', symmetric]
    using "4.prems" o' z wrote_length [OF w] by (intro "4.IH") auto
  with o' show ?case using vsprintf_loop_spec [OF p e, of "concat (map unparse its) @ [0]"] by simp
next
  case (5 ds hex its i args)
  let ?t = "numeral_text (if hex then 16 else 10) (unat i)"
  from 5 obtain out' where o': "render its args = Some out'" "out = padded ds ?t @ out'" by auto
  let ?k = "if hex then 120 else 100 :: byte"
  let ?w = "ucast (dec_value (rev ds)) :: byte"
  have p: "parse_spec (ds @ ?k # r) 0 = Some (?w, 0, ?k # r)" for r
    using "5.prems"(1) by (intro parse_spec_plain) (auto simp: is_digit_def)
  obtain buf' where e: "emit_spec ?k ?w 0 (ArgInt i # args) buf pos =
      Some (args, buf', pos + length (padded ds ?t))" and w: "wrote buf pos (padded ds ?t) buf'"
    using emit_num [OF refl _ refl, where hex = hex and pos = pos and out = "padded ds ?t" and w = ?w and i = i
        and buf = buf and args = args] "5.prems"(3) o' by (auto simp: padded_def)
  have "vsprintf_loop (concat (map unparse its) @ [0]) args 0 buf' (pos + length (padded ds ?t)) =
      Some (take pos buf @ (padded ds ?t @ out') @ 0 # drop (Suc (pos + length (padded ds ?t @ out'))) buf)"
    unfolding wrote_then [OF w, of out', symmetric]
    using "5.prems" o' wrote_length [OF w] by (intro "5.IH") auto
  with o' show ?case
    using vsprintf_loop_spec [OF p e, of "concat (map unparse its) @ [0]"] by simp
qed simp_all

section \<open>Properties\<close>

text \<open>
  C17: For a format made of plain characters, \<open>%%\<close>, \<open>%s\<close>, \<open>%d\<close> and \<open>%x\<close> with at most
  seven digits of width, and arguments of the kinds it asks for, \<open>vsprintf\<close> writes the text the
  format stands for, each number padded with zeroes to its width, then the terminator, and
  changes no byte of the buffer after it.
\<close>

theorem vsprintf_renders:
  assumes "list_all item_ok items" and "render items args = Some out" and "length out < length buffer"
  shows "vsprintf buffer (concat (map unparse items) @ [0]) args =
    Some (out @ 0 # drop (Suc (length out)) buffer)"
  using vsprintf_loop_render [OF assms(1,2), of 0 buffer] assms(3) by (simp add: vsprintf_def)

theorem vsprintf_renders_witness:
  "vsprintf (replicate 12 7) (str ''sd%d: %2x'' @ [0]) [ArgInt 3, ArgInt 10] =
     Some (str ''sd3: 0A'' @ 0 # replicate 4 7)"
proof -
  let ?items = "[Lit 115, Lit 100, Num [] False, Lit 58, Lit 32, Num [50] True]"
  have "vsprintf (replicate 12 7) (concat (map unparse ?items) @ [0]) [ArgInt 3, ArgInt 10] =
      Some (str ''sd3: 0A'' @ 0 # drop (Suc (length (str ''sd3: 0A''))) (replicate 12 7))"
  proof (rule vsprintf_renders)
    show "list_all item_ok ?items" by (simp add: is_digit_def)
    show "render ?items [ArgInt 3, ArgInt 10] = Some (str ''sd3: 0A'')" by code_simp
    show "length (str ''sd3: 0A'') < length (replicate 12 (7 :: byte))" by simp
  qed
  moreover have "str ''sd%d: %2x'' = concat (map unparse ?items)" by code_simp
  moreover have "drop (Suc (length (str ''sd3: 0A''))) (replicate 12 (7 :: byte)) = replicate 4 7" by simp
  ultimately show ?thesis by (simp only:)
qed

text \<open>
  C20: Reading back what \<open>int_to_string\<close> writes in base 10 gives the number, for every 32-bit
  number and every buffer with room for eleven characters.
\<close>

theorem int_to_string_roundtrip:
  assumes "11 \<le> length buffer"
  shows "do { text \<leftarrow> int_to_string i 10 buffer; string_to_int text } = Some i"
proof -
  have len: "length (numeral_text 10 (unat i)) \<le> 10"
    by (intro length_numeral_text) (auto intro: less_trans [OF unat_u32_lt])
  have "int_to_string i 10 buffer = Some (numeral_text 10 (unat i) @ 0 #
      drop (Suc (length (numeral_text 10 (unat i)))) buffer)"
    using int_to_string_eq [of 10 i buffer] len assms by simp
  moreover have "holds (numeral_text 10 (unat i) @ 0 # r) (numeral_text 10 (unat i))" for r
    by (intro holds_intro numeral_text_cstr) simp
  ultimately show ?thesis
    by (simp add: string_to_int_holds [of _ "numeral_text 10 (unat i)"] dec_value_numeral)
qed

theorem int_to_string_roundtrip_witness:
  "do { text \<leftarrow> int_to_string 4294967295 10 (replicate 11 0); string_to_int text } = Some 4294967295"
  by (rule int_to_string_roundtrip) simp

text \<open>
  The precision of one specification stays in force for the ones after it, where the
  width does not: a plain \<open>%s\<close> after \<open>%.2s\<close> writes two characters of its argument.
\<close>

theorem vsprintf_precision_sticks:
  "vsprintf (replicate 12 7) (str ''%.2s%s'' @ [0]) [ArgStr (str ''abc'' @ [0]), ArgStr (str ''wxyz'' @ [0])] =
     Some (str ''abwx'' @ 0 # replicate 7 7)"
  by code_simp

end
