(* ===== verification/FsDriver.thy ===== *)
theory FsDriver
  imports BlockDev
begin

text \<open>
  The declarations of \<open>include/system.h\<close> that file system drivers and the virtual file
  system share: directory entries, file system instances, and the contract of \<open>list_root\<close>.
\<close>

record dir_entry =
  filename :: "byte list"
  location_on_disk :: u32
  file_size :: u32
  read_only :: bool
  hidden :: bool
  system :: bool
  directory :: bool
  archive :: bool

text \<open>
  An instance of a file system. The pointer \<open>driver\<close> of the struct is always
  \<open>&fs_fat12\<close> and is not kept; the functions behind it are parameters of the code that calls
  them. \<open>instance_data\<close> is the driver's own data.
\<close>

record 'i file_system =
  device :: disk_device
  case_sensitive :: bool
  instance_data :: 'i

type_synonym ('i, 'h) list_root_fn =
  "'i file_system \<Rightarrow> dir_entry list \<Rightarrow> u16 \<Rightarrow> 'h \<Rightarrow> (int \<times> dir_entry list \<times> u16 \<times> 'h) option"

type_synonym ('i, 'h) read_file_fn =
  "'i file_system \<Rightarrow> u32 \<Rightarrow> byte list \<Rightarrow> u32 \<Rightarrow> 'h \<Rightarrow> (int \<times> byte list \<times> u32 \<times> 'h) option"

text \<open>The array \<open>filename\<close> of an entry has 256 characters.\<close>

definition entry_shape :: "dir_entry \<Rightarrow> bool" where
  "entry_shape e \<longleftrightarrow> length (filename e) = 256"

text \<open>
  What the virtual file system relies on: a listing answers SUCCESS or FAILURE, and it changes
  the caller's array of entries in place.
\<close>

locale fs_lister =
  fixes list_root :: "('i, 'h) list_root_fn"
  assumes list_code: "list_root fs out n h = Some (r, out', n', h') \<Longrightarrow> r = SUCCESS \<or> r = FAILURE"
    and list_length: "list_root fs out n h = Some (r, out', n', h') \<Longrightarrow> length out' = length out"
    and list_shape: "list_root fs out n h = Some (r, out', n', h') \<Longrightarrow> list_all entry_shape out \<Longrightarrow>
      list_all entry_shape out'"

end
