(* ===== verification/Fat.thy ===== *)
theory Fat
  imports FsDriver
begin

text \<open>
  The FAT driver, \<open>drivers/fs/fat12.c\<close> with the structs of \<open>include/fs.h\<close>: the boot sector,
  the file allocation table, directories and files. The sector reader of the device is the
  parameter \<open>drv\<close>; uninitialised buffers hold what the caller of the model gives.
\<close>

section \<open>The boot sector\<close>

record dos331_bpb =
  bytes_per_sector :: u16
  sectors_per_cluster :: byte
  num_reserved_sectors :: u16
  num_fats :: byte
  max_root_directory_entries :: u16
  num_sectors :: u16
  media_descriptor :: byte
  sectors_per_fat16 :: u16
  sectors_per_track :: u16
  num_heads :: u16
  num_hidden_sectors :: u32
  total_logical_sectors_large :: u32

definition dos331_at :: "byte list \<Rightarrow> nat \<Rightarrow> dos331_bpb option" where
  "dos331_at b p = do {
     bps \<leftarrow> rd16 b p; spc \<leftarrow> rd b (p + 2); res \<leftarrow> rd16 b (p + 3); nf \<leftarrow> rd b (p + 5);
     mre \<leftarrow> rd16 b (p + 6); ns \<leftarrow> rd16 b (p + 8); md \<leftarrow> rd b (p + 10); spf \<leftarrow> rd16 b (p + 11);
     spt \<leftarrow> rd16 b (p + 13); nh \<leftarrow> rd16 b (p + 15); nhs \<leftarrow> rd32 b (p + 17); tot \<leftarrow> rd32 b (p + 21);
     Some \<lparr>bytes_per_sector = bps, sectors_per_cluster = spc, num_reserved_sectors = res,
       num_fats = nf, max_root_directory_entries = mre, num_sectors = ns, media_descriptor = md,
       sectors_per_fat16 = spf, sectors_per_track = spt, num_heads = nh, num_hidden_sectors = nhs,
       total_logical_sectors_large = tot\<rparr> }"

text \<open>The fields of the two extended blocks that the driver reads, from the start of the block.\<close>

record ebpb =
  volume_id :: u32
  partition_volume_label :: "byte list"

definition ebpb_at :: "byte list \<Rightarrow> nat \<Rightarrow> ebpb option" where
  "ebpb_at b p = do {
     vid \<leftarrow> rd32 b (p + 28);
     if p + 43 \<le> length b
     then Some \<lparr>volume_id = vid, partition_volume_label = take 11 (drop (p + 32) b)\<rparr> else None }"

record fat32_ebpb = ebpb +
  sectors_per_fat32 :: u32
  root_dir_start32 :: u32

definition fat32_ebpb_at :: "byte list \<Rightarrow> nat \<Rightarrow> fat32_ebpb option" where
  "fat32_ebpb_at b p = do {
     spf \<leftarrow> rd32 b (p + 25);
     root \<leftarrow> rd32 b (p + 33);
     vid \<leftarrow> rd32 b (p + 56);
     if p + 71 \<le> length b
     then Some \<lparr>volume_id = vid, partition_volume_label = take 11 (drop (p + 60) b),
       sectors_per_fat32 = spf, root_dir_start32 = root\<rparr> else None }"

datatype fat_kind = FAT12 | FAT16 | FAT32

text \<open>
  \<open>FatInstanceData\<close>. The member \<open>fat\<close> points to the table read from the disk; here it is
  its contents. The member \<open>file_system_type\<close> is never written or read.
\<close>

record fat_instance =
  fat :: "byte list"
  fat_type :: fat_kind
  fi_sectors_per_cluster :: byte
  fi_num_reserved_sectors :: u16
  fi_num_fats :: byte
  fi_sectors_per_fat :: u32
  fi_max_root_directory_entries :: u16
  fi_total_sectors :: u32
  fi_root_dir_start :: u32
  fi_volume_id :: u32
  fi_partition_volume_label :: "byte list"

section \<open>The allocation table\<close>

definition fat12_decode_fat_entry :: "u32 \<Rightarrow> fat_instance file_system \<Rightarrow> u32 option" where
  "fat12_decode_fat_entry cluster_num fs =
     (let f = fat (instance_data fs) in
      case fat_type (instance_data fs) of
        FAT32 \<Rightarrow> rd32 f (4 * unat cluster_num)
      | FAT16 \<Rightarrow> map_option ucast (rd16 f (2 * unat cluster_num))
      | FAT12 \<Rightarrow>
          (let off = unat (3 * (cluster_num div 2))
           in if cluster_num mod 2 = 0 then do {
                b1 \<leftarrow> rd f off;
                b2 \<leftarrow> rd f (off + 1);
                Some (push_bit 8 (0x0f AND ucast b2) OR ucast b1) }
              else do {
                b1 \<leftarrow> rd f (off + 1);
                b2 \<leftarrow> rd f (off + 2);
                Some (push_bit 4 (ucast b2) OR drop_bit 4 (0xf0 AND ucast b1)) }))"

definition first_data_sector :: "fat_instance file_system \<Rightarrow> u32" where
  "first_data_sector fs =
     (let d = instance_data fs in
      ucast (fi_num_reserved_sectors d) + fi_sectors_per_fat d * ucast (fi_num_fats d) +
      ucast (fi_max_root_directory_entries d) * 32 div 512)"

definition cluster_is_end_of_chain :: "u32 \<Rightarrow> fat_instance file_system \<Rightarrow> bool" where
  "cluster_is_end_of_chain cluster fs =
     (case fat_type (instance_data fs) of
        FAT12 \<Rightarrow> cluster \<ge> 0xFF8
      | FAT16 \<Rightarrow> cluster \<ge> 0xFFF8
      | FAT32 \<Rightarrow> cluster AND 0x0FFFFFFF \<ge> 0x0FFFFFF8)"

definition fat12_read_fat ::
  "'h read_sectors \<Rightarrow> disk_device \<Rightarrow> fat_instance \<Rightarrow> byte list \<Rightarrow> 'h \<Rightarrow> (int \<times> byte list \<times> 'h) option" where
  "fat12_read_fat drv dv d f h =
     read_sectors_lba drv dv (ucast (fi_num_reserved_sectors d)) (fi_sectors_per_fat d) f h"

section \<open>Opening a volume\<close>

text \<open>
  The kind of the volume is the text in its boot sector, which stands at another place for
  FAT32.
\<close>

definition fat_kind_of :: "byte list \<Rightarrow> fat_kind option option" where
  "fat_kind_of buffer = do {
     is12 \<leftarrow> strcmp_wl (drop (11 + 43) buffer) (str ''FAT12'' @ [0]) 5;
     if is12 then Some (Some FAT12)
     else do {
       is16 \<leftarrow> strcmp_wl (drop (11 + 43) buffer) (str ''FAT16'' @ [0]) 5;
       if is16 then Some (Some FAT16)
       else do {
         is32 \<leftarrow> strcmp_wl (drop (11 + 71) buffer) (str ''FAT32'' @ [0]) 5;
         Some (if is32 then Some FAT32 else None) } } }"

text \<open>
  The boot sector as instance data; \<open>None\<close> inside \<open>Some\<close> is the failure for a volume
  without a number of sectors. The table itself is read later.
\<close>

definition parse_volume :: "fat_kind \<Rightarrow> byte list \<Rightarrow> fat_instance option option" where
  "parse_volume kind buffer = do {
     bpb \<leftarrow> dos331_at buffer 11;
     let total = (if num_sectors bpb > 0 then ucast (num_sectors bpb) else total_logical_sectors_large bpb);
     if total = 0 then Some None
     else do {
       (spf, root, vid, label) \<leftarrow>
         (if kind = FAT32 then do {
            e \<leftarrow> fat32_ebpb_at buffer 11;
            Some (sectors_per_fat32 e, root_dir_start32 e, volume_id e, partition_volume_label e) }
          else do {
            e \<leftarrow> ebpb_at buffer 11;
            let spf = (ucast (sectors_per_fat16 bpb) :: u32);
            Some (spf, ucast (num_reserved_sectors bpb) + spf * ucast (num_fats bpb),
              volume_id e, partition_volume_label e) });
       Some (Some \<lparr>fat = [], fat_type = kind, fi_sectors_per_cluster = sectors_per_cluster bpb,
         fi_num_reserved_sectors = num_reserved_sectors bpb, fi_num_fats = num_fats bpb,
         fi_sectors_per_fat = spf, fi_max_root_directory_entries = max_root_directory_entries bpb,
         fi_total_sectors = total, fi_root_dir_start = root, fi_volume_id = vid,
         fi_partition_volume_label = label\<rparr>) } }"

text \<open>
  \<open>fs_out\<close> is what the caller's \<open>filesystem_out\<close> holds before; \<open>stack\<close> is the local buffer
  and \<open>junk\<close> the memory \<open>malloc\<close> returns.
\<close>

definition fat12_init ::
  "'h read_sectors \<Rightarrow> byte list \<Rightarrow> (nat \<Rightarrow> byte) \<Rightarrow> disk_device \<Rightarrow> fat_instance file_system \<Rightarrow> 'h \<Rightarrow>
     (int \<times> fat_instance file_system \<times> 'h) option" where
  "fat12_init drv stack junk dv fs_out h = do {
     (_, buffer, h) \<leftarrow> drv dv 0 1 stack h;
     kind \<leftarrow> fat_kind_of buffer;
     (case kind of
        None \<Rightarrow> Some (FAILURE, fs_out, h)
      | Some kind \<Rightarrow> do {
          vol \<leftarrow> parse_volume kind buffer;
          (case vol of
             None \<Rightarrow> Some (FAILURE, fs_out, h)
           | Some d \<Rightarrow> do {
               let f = map junk [0..<unat (fi_sectors_per_fat d * 512)];
               (r, f, h) \<leftarrow> fat12_read_fat drv dv d f h;
               let fs = \<lparr>device = dv, case_sensitive = False, instance_data = d\<lparr>fat := f\<rparr>\<rparr>;
               Some (if r = FAILURE then FAILURE else SUCCESS, fs, h) }) }) }"

section \<open>Directories\<close>

text \<open>
  The copy loops of \<open>fat_parse_dir_entries\<close> run from a character of the entry to the next
  blank or zero, which may lie behind the field; an entry has 32 bytes.
\<close>

fun field_text :: "byte list \<Rightarrow> byte list option" where
  "field_text [] = None"
| "field_text (c # cs) = (if c \<noteq> 32 \<and> c \<noteq> 0 then map_option ((#) c) (field_text cs) else Some [])"

definition parse_dir_entry :: "fat_kind \<Rightarrow> byte list \<Rightarrow> dir_entry \<Rightarrow> dir_entry option" where
  "parse_dir_entry kind entry out = do {
     attr \<leftarrow> rd entry 11;
     name \<leftarrow> field_text entry;
     ext \<leftarrow> (if bit attr 4 then Some [] else map_option (\<lambda>t. 46 # t) (field_text (drop 8 entry)));
     fname \<leftarrow> blit (filename out) 0 (name @ ext @ [0]);
     size \<leftarrow> rd32 entry 28;
     low \<leftarrow> rd16 entry 26;
     high \<leftarrow> rd16 entry 20;
     let high = (if kind = FAT32 then high else 0);
     Some (out\<lparr>filename := fname, archive := bit attr 5, read_only := bit attr 0, directory := bit attr 4,
       hidden := bit attr 1, system := bit attr 2, file_size := size,
       location_on_disk := ucast low + push_bit 16 (ucast high)\<rparr>) }"

fun parse_entries ::
  "fat_kind \<Rightarrow> byte list \<Rightarrow> nat list \<Rightarrow> nat \<Rightarrow> dir_entry list \<Rightarrow> (dir_entry list \<times> nat) option" where
  "parse_entries kind buf [] n out = Some (out, n)"
| "parse_entries kind buf (i # is) n out =
     (if 32 * i + 32 \<le> length buf then
        (let entry = take 32 (drop (32 * i) buf) in
         if entry ! 0 = 0 then Some (out, i)
         else do {
           e \<leftarrow> rd out i;
           e \<leftarrow> parse_dir_entry kind entry e;
           out \<leftarrow> wr out i e;
           parse_entries kind buf is n out })
      else None)"

definition fat_parse_dir_entries ::
  "fat_instance file_system \<Rightarrow> byte list \<Rightarrow> u16 \<Rightarrow> dir_entry list \<Rightarrow> (int \<times> dir_entry list \<times> u16) option" where
  "fat_parse_dir_entries fs buf max_entries out = do {
     (out, n) \<leftarrow> parse_entries (fat_type (instance_data fs)) buf [0..<unat max_entries] (unat max_entries) out;
     Some (SUCCESS, out, of_nat n) }"

section \<open>Files\<close>

text \<open>
  The loop of \<open>fat12_read_file\<close>: \<open>cluster_index\<close> counts the clusters, and each one is read
  at 512 bytes times its index. A chain that does not end is not left, hence the option.
\<close>

partial_function (option) read_clusters ::
  "'h read_sectors \<Rightarrow> fat_instance file_system \<Rightarrow> u32 \<Rightarrow> nat \<Rightarrow> byte list \<Rightarrow> 'h \<Rightarrow>
     (int \<times> byte list \<times> nat \<times> 'h) option" where
  "read_clusters drv fs cluster cluster_index buffer h = do {
     let spc = ucast (fi_sectors_per_cluster (instance_data fs));
     (r, b, h) \<leftarrow> read_sectors_lba drv (device fs) ((cluster - 2) * spc + first_data_sector fs) spc
        (drop (512 * cluster_index) buffer) h;
     let buffer = take (512 * cluster_index) buffer @ b;
     if \<not> c_true r then Some (FAILURE, buffer, cluster_index, h)
     else do {
       cluster \<leftarrow> fat12_decode_fat_entry cluster fs;
       if cluster_is_end_of_chain cluster fs then Some (SUCCESS, buffer, cluster_index, h)
       else if cluster < 2 then Some (FAILURE, buffer, cluster_index, h)
       else read_clusters drv fs cluster (cluster_index + 1) buffer h } }"

definition fat12_read_file :: "'h read_sectors \<Rightarrow> (fat_instance, 'h) read_file_fn" where
  "fat12_read_file drv fs cluster buffer clusters_read h = do {
     (r, buffer, cluster_index, h) \<leftarrow> read_clusters drv fs cluster 0 buffer h;
     Some (r, buffer, if r = SUCCESS then of_nat (cluster_index + 1) else clusters_read, h) }"

definition fat12_list_dir ::
  "'h read_sectors \<Rightarrow> (nat \<Rightarrow> byte) \<Rightarrow> fat_instance file_system \<Rightarrow> u32 \<Rightarrow> dir_entry list \<Rightarrow> u16 \<Rightarrow> 'h \<Rightarrow>
     (int \<times> dir_entry list \<times> u16 \<times> 'h) option" where
  "fat12_list_dir drv junk fs cluster out num h = do {
     let entries_per_cluster = (ucast (fi_sectors_per_cluster (instance_data fs)) * 16 :: u16);
     let buffer = map junk [0..<unat entries_per_cluster * 32];
     (r, buffer, clusters_read, h) \<leftarrow> fat12_read_file drv fs cluster buffer 0 h;
     if r = FAILURE then Some (FAILURE, out, num, h)
     else do {
       (r, out, num) \<leftarrow> fat_parse_dir_entries fs buffer (ucast (clusters_read * ucast entries_per_cluster)) out;
       Some (r, out, num, h) } }"

text \<open>
  The root directory of FAT12 and FAT16, sector by sector. Each sector's entries are written to
  the start of the list.
\<close>

fun list_root_sectors ::
  "'h read_sectors \<Rightarrow> fat_instance file_system \<Rightarrow> nat list \<Rightarrow> byte list \<Rightarrow> nat \<Rightarrow> dir_entry list \<Rightarrow> 'h \<Rightarrow>
     (int \<times> nat \<times> dir_entry list \<times> 'h) option" where
  "list_root_sectors drv fs [] buffer found out h = Some (SUCCESS, found, out, h)"
| "list_root_sectors drv fs (i # is) buffer found out h = do {
     (r, buffer, h) \<leftarrow>
       read_sectors_lba drv (device fs) (fi_root_dir_start (instance_data fs) + of_nat i) 1 buffer h;
     if r = FAILURE then Some (FAILURE, found, out, h)
     else do {
       (_, out, n) \<leftarrow> fat_parse_dir_entries fs buffer 16 out;
       if n < 16 then Some (SUCCESS, found + unat n, out, h)
       else list_root_sectors drv fs is buffer (found + unat n) out h } }"

definition fat12_list_root ::
  "'h read_sectors \<Rightarrow> (nat \<Rightarrow> byte) \<Rightarrow> (fat_instance, 'h) list_root_fn" where
  "fat12_list_root drv junk fs out num h =
     (if fat_type (instance_data fs) = FAT32
      then fat12_list_dir drv junk fs (fi_root_dir_start (instance_data fs)) out num h
      else do {
        let sectors_per_dir = unat (fi_max_root_directory_entries (instance_data fs)) * 32 div 512;
        (r, found, out, h) \<leftarrow> list_root_sectors drv fs [0..<sectors_per_dir] (map junk [0..<512]) 0 out h;
        Some (r, out, if r = FAILURE then num else of_nat found, h) })"

section \<open>Table entries as bit fields\<close>

lemma unat_fat12_even:
  fixes a b :: "byte" shows "unat (push_bit 8 (0x0f AND ucast b) OR ucast a :: 32 word) = unat a + 256 * (unat b mod 16)"
proof -
  have m: "unat (0x0f AND ucast b :: 32 word) = unat b mod 16"
  proof -
    have "(0x0f AND ucast b :: 32 word) = take_bit 4 (ucast b)" by (simp add: take_bit_eq_mask and.commute mask_eq_exp_minus_1)
    from arg_cong [OF this, of unat] show ?thesis
      unfolding unsigned_take_bit_eq by (simp add: take_bit_eq_mod)
  qed
  have "push_bit 8 (0x0f AND ucast b :: 32 word) AND ucast a = 0"
    by (rule bit_word_eqI) (auto simp: bit_simps dest: bit_imp_le_length)
  moreover have "unat (push_bit 8 (0x0f AND ucast b :: 32 word)) = 2 ^ 8 * unat (0x0f AND ucast b :: 32 word)"
    by (rule unat_push_bit_less [where k = 4], simp only: m) simp_all
  ultimately show ?thesis
   using m by (simp add: unat_or_disjoint)
qed

lemma unat_fat12_odd:
  fixes c b :: "byte" shows "unat (push_bit 4 (ucast c) OR drop_bit 4 (0xf0 AND ucast b) :: 32 word) = unat b div 16 + 16 * unat c"
proof -
  have f: "(0xf0 :: 32 word) = push_bit 4 (mask 4)" by (simp add: mask_eq_exp_minus_1)
  have d: "drop_bit 4 (0xf0 AND ucast b :: 32 word) = take_bit 4 (drop_bit 4 (ucast b))"
    unfolding f by (rule bit_word_eqI) (auto simp: bit_simps)
  have s: "unat b div 16 < 16" "unat b mod 4294967296 = unat b"
    using unat_byte_lt [of b] by (simp_all only: less_mult_imp_div_less mod_less)
  have m: "unat (drop_bit 4 (0xf0 AND ucast b :: 32 word)) = unat b div 16"
    using arg_cong [OF d, of unat] unfolding unsigned_take_bit_eq unsigned_drop_bit_eq
    using s by (simp add: take_bit_eq_mod drop_bit_eq_div)
  have "push_bit 4 (ucast c :: 32 word) AND drop_bit 4 (0xf0 AND ucast b) = 0"
    unfolding f by (rule bit_word_eqI) (auto simp: bit_simps)
  moreover have "unat (push_bit 4 (ucast c :: 32 word)) = 2 ^ 4 * unat (ucast c :: 32 word)"
    by (rule unat_push_bit_less [where k = 8]) simp_all
  ultimately show ?thesis
    using m by (simp add: unat_or_disjoint)
qed


lemma low_digit: "a < 4096 \<Longrightarrow> (a + 4096 * x) mod 2 ^ 12 = (a :: nat)"
  and high_digits: "a < 4096 \<Longrightarrow> (a + 4096 * x) div 2 ^ 12 = (x :: nat)"
  by simp_all

lemma drop_three: "k + 2 < length f \<Longrightarrow> drop k f = f ! k # f ! (k + 1) # f ! (k + 2) # drop (k + 3) f"
  by (simp add: Cons_nth_drop_Suc [symmetric] eval_nat_numeral)

lemma drop_two: "k + 1 < length f \<Longrightarrow> drop k f = f ! k # f ! (k + 1) # drop (k + 2) f"
  by (simp add: Cons_nth_drop_Suc [symmetric] eval_nat_numeral)

text \<open>
  An entry of a FAT12 table is the bits from 12 times its number on, of the table as one
  little-endian number.
\<close>

lemma fat12_entry_bits:
  assumes kind: "fat_type (instance_data fs) = FAT12" and "unat c < 2 ^ 30"
    and f: "f = fat (instance_data fs)" and len: "3 * (unat c div 2) + 2 < length f"
  shows "map_option unat (fat12_decode_fat_entry c fs) = Some (le_value f div 2 ^ (12 * unat c) mod 2 ^ 12)"
proof -
  let ?k = "3 * (unat c div 2)"
  have off: "unat (3 * (c div 2)) = ?k"
  proof -
    have "unat (c div 2) = unat c div 2" by (simp add: unat_div_distrib)
    moreover have "3 * (unat c div 2) < 2 ^ 32" using assms(2) by simp
    ultimately show ?thesis by (simp add: unat_word_ariths)
  qed
  define V where "V = le_value (drop ?k f)"
  have V: "le_value f div 2 ^ (8 * ?k) = V" unfolding V_def by (rule le_value_div)
  obtain r where r: "V = unat (f ! ?k) + 256 * (unat (f ! (?k + 1)) + 256 * (unat (f ! (?k + 2)) + 256 * r))"
    unfolding V_def drop_three [OF len] by auto
  have "unat (c mod 2) = unat c mod 2" by (simp add: unat_mod_distrib)
  then have par: "c mod 2 = 0 \<longleftrightarrow> even (unat c)" by (metis even_iff_mod_2_eq_zero unat_eq_zero)
  define b0 b1 b2 where "b0 = unat (f ! ?k)" and "b1 = unat (f ! (?k + 1))" and "b2 = unat (f ! (?k + 2))"
  then have small: "b0 < 256" "b1 < 256" "b2 < 256" by simp_all
  have split: "V = (b0 + 256 * (b1 mod 16)) + 4096 * (b1 div 16 + 16 * b2 + 4096 * r)"
  proof -
    have "V = b0 + 256 * b1 + 65536 * (b2 + 256 * r)"
      using r by (simp add: b0_def b1_def b2_def)
    moreover obtain q m where "b1 div 16 = q" "b1 mod 16 = m" "b1 = 16 * q + m"
      by (metis mult_div_mod_eq)
    ultimately show ?thesis by simp
  qed
  have low: "b0 + 256 * (b1 mod 16) < 4096"
    using small(1) mod_less_divisor [of 16 b1] by linarith
  have high: "b1 div 16 + 16 * b2 < 4096" using small(2,3) by linarith
  show ?thesis
  proof (cases "even (unat c)")
    case True
    then have "12 * unat c = 8 * ?k" by auto
    with V have eq: "le_value f div 2 ^ (12 * unat c) = V" by (simp only:)
    have "V mod 2 ^ 12 = unat (f ! ?k) + 256 * (unat (f ! (?k + 1)) mod 16)"
      unfolding split low_digit [OF low] by (simp add: b0_def b1_def)
    then show ?thesis using kind len True par f off eq
      by (simp add: fat12_decode_fat_entry_def Let_def unat_fat12_even del: push_bit_and)
  next
    case False
    then have "12 * unat c = 8 * ?k + 12" by (auto elim!: oddE)
    then have eq: "le_value f div 2 ^ (12 * unat c) = V div 2 ^ 12"
      using V by (simp only: power_add div_mult2_eq)
    have "V div 2 ^ 12 = b1 div 16 + 16 * b2 + 4096 * r"
      unfolding split by (rule high_digits [OF low])
    then have "V div 2 ^ 12 mod 2 ^ 12 = unat (f ! (?k + 1)) div 16 + 16 * unat (f ! (?k + 2))"
      unfolding b1_def [symmetric] b2_def [symmetric] by (simp only: low_digit [OF high])
    then show ?thesis using kind len False par f off eq
      by (simp add: fat12_decode_fat_entry_def Let_def unat_fat12_odd del: drop_bit_and)
  qed
qed

section \<open>Properties\<close>

text \<open>
  C27: The entry of a cluster in a FAT12 table, which the code puts together from parts of two
  bytes in two ways, is the bits from position 12 times the cluster number on of the table read
  as one little-endian number.
\<close>

theorem fat12_entry_is_bit_field:
  assumes "fat_type (instance_data fs) = FAT12" and "unat c < 2 ^ 30"
    and "3 * (unat c div 2) + 2 < length (fat (instance_data fs))"
  shows "map_option unat (fat12_decode_fat_entry c fs) =
    Some (le_value (fat (instance_data fs)) div 2 ^ (12 * unat c) mod 2 ^ 12)"
  using fat12_entry_bits [OF assms(1,2) refl assms(3)] .

definition two_entries :: "fat_instance file_system" where
  "two_entries = \<lparr>device = \<lparr>dev_type = FLOPPY, device_num = 0, partition = 0, offset = 0,
       block_size = 512, driver = Floppy_Driver, driver_specific_data = 0\<rparr>,
     case_sensitive = False,
     instance_data = \<lparr>fat = [0x34, 0x12, 0xAB, 0x00], fat_type = FAT12,
       fi_sectors_per_cluster = 1, fi_num_reserved_sectors = 1, fi_num_fats = 2,
       fi_sectors_per_fat = 9, fi_max_root_directory_entries = 224, fi_total_sectors = 2880,
       fi_root_dir_start = 19, fi_volume_id = 0, fi_partition_volume_label = []\<rparr>\<rparr>"

theorem fat12_entry_is_bit_field_witness:
  "map_option unat (fat12_decode_fat_entry 1 two_entries) = Some 0xAB1"
  using fat12_entry_is_bit_field [of two_entries 1] by (simp add: two_entries_def)

end
