(* ===== verification/FatFiles.thy ===== *)
theory FatFiles
  imports Fat
begin

text \<open>
  What \<open>fat12_read_file\<close> leaves in the caller's buffer: the chain of a file in the
  allocation table, and the contents of its clusters on a disk.
\<close>

section \<open>A disk with contents\<close>

text \<open>
  \<open>serves drv d disk\<close>: what \<open>read_sectors_lba\<close> reads through the driver are the sectors of
  \<open>disk\<close>, for the device \<open>d\<close>. A driver that delivers them itself, any number at a time, is one of
  those (\<open>delivers\<close>); the floppy driver, which reads one sector at a time, is another.
\<close>

definition sectors_of :: "byte list list \<Rightarrow> nat \<Rightarrow> nat \<Rightarrow> byte list" where
  "sectors_of disk lba n = concat (take n (drop lba disk))"

definition sectors_512 :: "byte list list \<Rightarrow> bool" where
  "sectors_512 disk \<longleftrightarrow> list_all (\<lambda>s. length s = 512) disk"

definition delivers :: "'h read_sectors \<Rightarrow> disk_device \<Rightarrow> byte list list \<Rightarrow> bool" where
  "delivers drv d disk \<longleftrightarrow>
     (\<forall>lba count buf h. unat lba + unat count \<le> length disk \<longrightarrow> 512 * unat count \<le> length buf \<longrightarrow>
        (\<exists>h'. drv d lba count buf h =
           Some (SUCCESS, sectors_of disk (unat lba) (unat count) @ drop (512 * unat count) buf, h')))"

definition serves :: "'h read_sectors \<Rightarrow> disk_device \<Rightarrow> byte list list \<Rightarrow> bool" where
  "serves drv d disk \<longleftrightarrow> delivers (read_sectors_lba drv) d disk"

lemma deliversD:
  "delivers drv d disk \<Longrightarrow> unat lba + unat count \<le> length disk \<Longrightarrow> 512 * unat count \<le> length buf \<Longrightarrow>
     \<exists>h'. drv d lba count buf h =
       Some (SUCCESS, sectors_of disk (unat lba) (unat count) @ drop (512 * unat count) buf, h')"
  by (simp add: delivers_def)

lemmas servesD = deliversD [OF serves_def [THEN iffD1]]

lemma length_sectors_of:
  "sectors_512 disk \<Longrightarrow> lba + n \<le> length disk \<Longrightarrow> length (sectors_of disk lba n) = 512 * n"
proof (induction n)
  case 0
  then show ?case by (simp add: sectors_of_def)
next
  case (Suc n)
  then have "take (Suc n) (drop lba disk) = take n (drop lba disk) @ [disk ! (lba + n)]"
    by (simp add: take_Suc_conv_app_nth)
  moreover have "length (disk ! (lba + n)) = 512"
    using Suc.prems by (simp add: sectors_512_def list_all_length)
  ultimately show ?case using Suc by (simp add: sectors_of_def)
qed

lemma sectors_of_Suc:
  "lba + n < length disk \<Longrightarrow> sectors_of disk lba (Suc n) = sectors_of disk lba n @ sectors_of disk (lba + n) 1"
  by (simp add: sectors_of_def take_Suc_conv_app_nth)

text \<open>Reading sector by sector, as for a floppy, delivers the same.\<close>

lemma floppy_delivers:
  assumes drv: "delivers drv d disk" and img: "sectors_512 disk"
    and "unat lba + n \<le> length disk" and "length disk < 2 ^ 32" and "512 * n \<le> length buf"
  shows "m \<le> n \<Longrightarrow> \<exists>h'. read_floppy_sectors drv d lba [m..<n]
      (sectors_of disk (unat lba) m @ drop (512 * m) buf) h =
    Some (SUCCESS, sectors_of disk (unat lba) n @ drop (512 * n) buf, h')"
proof (induction "n - m" arbitrary: m h)
  case 0
  then show ?case by simp
next
  case (Suc k)
  then have m: "m < n" by simp
  let ?b = "sectors_of disk (unat lba) m @ drop (512 * m) buf"
  have a: "unat (lba + of_nat m) = unat lba + m"
    using m assms(3,4) by (simp add: unat_word_ariths unat_of_nat)
  have l: "length (sectors_of disk (unat lba) m) = 512 * m"
    using length_sectors_of [OF img] m assms(3) by simp
  obtain h1 where "drv d (lba + of_nat m) 1 (drop (512 * m) ?b) h =
      Some (SUCCESS, sectors_of disk (unat lba + m) 1 @ drop (512 * unat (1 :: u32)) (drop (512 * m) ?b), h1)"
  proof -
    have "512 * Suc m \<le> 512 * n" using m by simp
    then have "512 * Suc m \<le> length buf" using assms(5) by (rule le_trans)
    then have "512 * unat (1 :: u32) \<le> length (drop (512 * m) ?b)" using l by simp
    moreover have "unat (lba + of_nat m) + unat (1 :: u32) \<le> length disk" using a m assms(3) by simp
    ultimately show ?thesis using deliversD [OF drv, of "lba + of_nat m" 1 "drop (512 * m) ?b" h] a that by auto
  qed
  moreover have "take (512 * m) ?b @ sectors_of disk (unat lba + m) 1 @ drop (512 * unat (1 :: u32)) (drop (512 * m) ?b) =
      sectors_of disk (unat lba) (Suc m) @ drop (512 * Suc m) buf"
    using l sectors_of_Suc [of "unat lba" m disk] m assms(3) by simp
  moreover have "[m..<n] = m # [Suc m..<n]" using m by (simp add: upt_conv_Cons)
  ultimately show ?case using Suc.hyps(1) [of "Suc m" h1] Suc.hyps(2) m by simp
qed

lemma delivers_serves:
  assumes "delivers drv d disk" and "sectors_512 disk" and "length disk < 2 ^ 32"
  shows "serves drv d disk"
  unfolding serves_def delivers_def
proof (intro allI impI)
  fix lba count :: u32 and buf :: "byte list" and h
  assume "unat lba + unat count \<le> length disk" and "512 * unat count \<le> length buf"
  then show "\<exists>h'. read_sectors_lba drv d lba count buf h =
      Some (SUCCESS, sectors_of disk (unat lba) (unat count) @ drop (512 * unat count) buf, h')"
    using floppy_delivers [OF assms(1,2) _ assms(3), of lba "unat count" buf 0 h]
      deliversD [OF assms(1)] by (simp add: read_sectors_lba_def sectors_of_def)
qed

section \<open>Chains\<close>

text \<open>The clusters of a file, as the table links them.\<close>

fun chain :: "fat_instance file_system \<Rightarrow> u32 list \<Rightarrow> bool" where
  "chain fs [] \<longleftrightarrow> False"
| "chain fs [c] \<longleftrightarrow>
     (case fat12_decode_fat_entry c fs of None \<Rightarrow> False | Some e \<Rightarrow> cluster_is_end_of_chain e fs)"
| "chain fs (c # c' # cs) \<longleftrightarrow>
     fat12_decode_fat_entry c fs = Some c' \<and> \<not> cluster_is_end_of_chain c' fs \<and> 2 \<le> c' \<and>
     chain fs (c' # cs)"

text \<open>The sectors of a cluster and their contents.\<close>

definition cluster_sector :: "fat_instance file_system \<Rightarrow> u32 \<Rightarrow> nat" where
  "cluster_sector fs c =
     unat ((c - 2) * ucast (fi_sectors_per_cluster (instance_data fs)) + first_data_sector fs)"

definition cluster_size :: "fat_instance file_system \<Rightarrow> nat" where
  "cluster_size fs = unat (fi_sectors_per_cluster (instance_data fs))"

definition cluster_data :: "byte list list \<Rightarrow> fat_instance file_system \<Rightarrow> u32 \<Rightarrow> byte list" where
  "cluster_data disk fs c = sectors_of disk (cluster_sector fs c) (cluster_size fs)"

definition on_disk :: "byte list list \<Rightarrow> fat_instance file_system \<Rightarrow> u32 \<Rightarrow> bool" where
  "on_disk disk fs c \<longleftrightarrow> cluster_sector fs c + cluster_size fs \<le> length disk"

text \<open>
  What the buffer gets for a chain: of every cluster but the last its first sector only, since
  the next cluster is read 512 bytes further.
\<close>

definition file_image :: "byte list list \<Rightarrow> fat_instance file_system \<Rightarrow> u32 list \<Rightarrow> byte list" where
  "file_image disk fs cs =
     concat (map (\<lambda>c. take 512 (cluster_data disk fs c)) (butlast cs)) @ cluster_data disk fs (last cs)"

lemma read_cluster_step:
  assumes "serves drv (device fs) disk" and "sectors_512 disk" and "length disk < 2 ^ 32"
    and "on_disk disk fs c" and "512 * k + 512 * cluster_size fs \<le> length buffer"
  shows "\<exists>h'. read_sectors_lba drv (device fs)
      ((c - 2) * ucast (fi_sectors_per_cluster (instance_data fs)) + first_data_sector fs)
      (ucast (fi_sectors_per_cluster (instance_data fs))) (drop (512 * k) buffer) h =
    Some (SUCCESS, cluster_data disk fs c @ drop (512 * k + 512 * cluster_size fs) buffer, h')"
  using servesD [OF assms(1),
      of "(c - 2) * ucast (fi_sectors_per_cluster (instance_data fs)) + first_data_sector fs"
        "ucast (fi_sectors_per_cluster (instance_data fs))" "drop (512 * k) buffer" h] assms(4,5)
  by (simp add: on_disk_def cluster_sector_def cluster_size_def cluster_data_def add.commute)

lemma read_clusters_chain:
  assumes "serves drv (device fs) disk" and "sectors_512 disk" and "length disk < 2 ^ 32"
    and "0 < cluster_size fs"
  shows "chain fs cs \<Longrightarrow> list_all (on_disk disk fs) cs \<Longrightarrow>
    512 * (k + length cs + cluster_size fs) \<le> length buffer + 512 \<Longrightarrow>
    \<exists>h'. read_clusters drv fs (hd cs) k buffer h = Some (SUCCESS,
      take (512 * k) buffer @ file_image disk fs cs @
        drop (512 * (k + length cs - 1 + cluster_size fs)) buffer, k + length cs - 1, h')"
proof (induction cs arbitrary: k buffer h rule: induct_list012)
  case 1
  then show ?case by simp
next
  case (2 c)
  then obtain e where e: "fat12_decode_fat_entry c fs = Some e" "cluster_is_end_of_chain e fs"
    by (auto split: option.splits)
  have "512 * k + 512 * cluster_size fs \<le> length buffer" using "2.prems"(3) by simp
  then obtain h1 where rd: "read_sectors_lba drv (device fs)
      ((c - 2) * ucast (fi_sectors_per_cluster (instance_data fs)) + first_data_sector fs)
      (ucast (fi_sectors_per_cluster (instance_data fs))) (drop (512 * k) buffer) h =
    Some (SUCCESS, cluster_data disk fs c @ drop (512 * k + 512 * cluster_size fs) buffer, h1)"
    using read_cluster_step [OF assms(1-3), of c k buffer h] "2.prems"(2) that by auto
  show ?case using rd e
    by (subst read_clusters.simps) (simp add: Let_def file_image_def add_mult_distrib2)
next
  case (3 c c' cs)
  have nx: "fat12_decode_fat_entry c fs = Some c'" "\<not> cluster_is_end_of_chain c' fs" "\<not> c' < 2"
    using "3.prems"(1) by auto
  have room: "512 * k + 512 * cluster_size fs \<le> length buffer" using "3.prems"(3) by simp
  then obtain h1 where rd: "read_sectors_lba drv (device fs)
      ((c - 2) * ucast (fi_sectors_per_cluster (instance_data fs)) + first_data_sector fs)
      (ucast (fi_sectors_per_cluster (instance_data fs))) (drop (512 * k) buffer) h =
    Some (SUCCESS, cluster_data disk fs c @ drop (512 * k + 512 * cluster_size fs) buffer, h1)"
    using read_cluster_step [OF assms(1-3), of c k buffer h] "3.prems"(2) that by auto
  let ?b = "take (512 * k) buffer @ cluster_data disk fs c @ drop (512 * k + 512 * cluster_size fs) buffer"
  have len: "length (cluster_data disk fs c) = 512 * cluster_size fs"
    using "3.prems"(2) length_sectors_of [OF assms(2)] by (simp add: cluster_data_def on_disk_def)
  have lb: "length ?b = length buffer" using len room by simp
  have "512 \<le> length (cluster_data disk fs c)" using len assms(4) by simp
  then have tk: "take (512 * (k + 1)) ?b = take (512 * k) buffer @ take 512 (cluster_data disk fs c)"
    using room by simp
  let ?j = "length cs + cluster_size fs"
  have dr: "drop (512 * (k + 1 + ?j)) ?b = drop (512 * (k + 1 + ?j)) buffer"
  proof -
    have "512 * (k + 1 + ?j) = (512 * k + 512 * cluster_size fs) + 512 * (1 + length cs)" by simp
    moreover have "length (take (512 * k) buffer @ cluster_data disk fs c) = 512 * k + 512 * cluster_size fs"
      using len room by simp
    ultimately have "drop (512 * (k + 1 + ?j)) ?b =
        drop (512 * (1 + length cs)) (drop (512 * k + 512 * cluster_size fs) buffer)"
      by (simp add: drop_append)
    moreover have "512 * (1 + length cs) + (512 * k + 512 * cluster_size fs) = 512 * (k + 1 + ?j)" by simp
    ultimately show ?thesis by (simp only: drop_drop)
  qed
  have "chain fs (c' # cs)" "list_all (on_disk disk fs) (c' # cs)" using "3.prems" by auto
  moreover have "512 * (k + 1 + length (c' # cs) + cluster_size fs) \<le> length ?b + 512"
    using "3.prems"(3) unfolding lb by simp
  ultimately obtain h2 where "read_clusters drv fs c' (k + 1) ?b h1 = Some (SUCCESS,
      take (512 * (k + 1)) ?b @ file_image disk fs (c' # cs) @ drop (512 * (k + 1 + ?j)) ?b,
      k + 1 + length cs, h2)"
    using "3.IH"(2) [of "k + 1" ?b h1] by (auto simp: add.assoc)
  then show ?case using rd nx
    unfolding tk dr
    by (subst read_clusters.simps) (simp add: Let_def file_image_def add_mult_distrib2 add.assoc)
qed

text \<open>Success is only reported at the end of a chain, and the count is its length.\<close>

definition chained :: "fat_instance file_system \<Rightarrow> u32 \<Rightarrow> nat \<Rightarrow> int \<times> byte list \<times> nat \<times> 'h \<Rightarrow> bool" where
  "chained fs c k y \<longleftrightarrow> fst y = SUCCESS \<longrightarrow> (\<exists>cs. chain fs (c # cs) \<and> fst (snd (snd y)) = k + length cs)"

lemma read_clusters_success:
  fixes drv :: "'h read_sectors"
  shows "read_clusters drv fs c k buffer h = Some y \<Longrightarrow> chained fs c k y"
proof (rule read_clusters.raw_induct [where P = "\<lambda>drv fs c k buffer h y. chained fs c k y"])
  fix rec :: "'h read_sectors \<Rightarrow> fat_instance file_system \<Rightarrow> u32 \<Rightarrow> nat \<Rightarrow> byte list \<Rightarrow> 'h \<Rightarrow>
      (int \<times> byte list \<times> nat \<times> 'h) option"
    and drv :: "'h read_sectors" and fs :: "fat_instance file_system"
    and c :: u32 and k :: nat and buffer :: "byte list" and h :: 'h and y
  assume IH: "\<And>drv fs c k buffer h y. rec drv fs c k buffer h = Some y \<Longrightarrow> chained fs c k y"
  let ?spc = "ucast (fi_sectors_per_cluster (instance_data fs)) :: u32"
  assume step: "do {
     let spc = ucast (fi_sectors_per_cluster (instance_data fs));
     (r, b, h) \<leftarrow> read_sectors_lba drv (device fs) ((c - 2) * spc + first_data_sector fs) spc
        (drop (512 * k) buffer) h;
     let buffer = take (512 * k) buffer @ b;
     if \<not> c_true r then Some (FAILURE, buffer, k, h)
     else do {
       cluster \<leftarrow> fat12_decode_fat_entry c fs;
       if cluster_is_end_of_chain cluster fs then Some (SUCCESS, buffer, k, h)
       else if cluster < 2 then Some (FAILURE, buffer, k, h)
       else rec drv fs cluster (k + 1) buffer h } } = Some y"
  let ?spc = "ucast (fi_sectors_per_cluster (instance_data fs)) :: u32"
  from step obtain r1 b1 g1 where rd: "read_sectors_lba drv (device fs)
      ((c - 2) * ?spc + first_data_sector fs) ?spc (drop (512 * k) buffer) h = Some (r1, b1, g1)"
    by (auto simp: bind_eq_Some_conv Let_def)
  show "chained fs c k y"
    unfolding chained_def
  proof
    assume good: "fst y = SUCCESS"
    have ok: "c_true r1" using step rd good by (cases "c_true r1") (auto simp: Let_def)
    obtain e where e: "fat12_decode_fat_entry c fs = Some e"
      using step rd ok by (auto simp: Let_def bind_eq_Some_conv)
    have tail: "(if cluster_is_end_of_chain e fs then Some (SUCCESS, take (512 * k) buffer @ b1, k, g1)
        else if e < 2 then Some (FAILURE, take (512 * k) buffer @ b1, k, g1)
        else rec drv fs e (k + 1) (take (512 * k) buffer @ b1) g1) = Some y"
      using step rd ok e by (simp add: Let_def)
    show "\<exists>cs. chain fs (c # cs) \<and> fst (snd (snd y)) = k + length cs"
    proof (cases "cluster_is_end_of_chain e fs")
      case True
      with e tail show ?thesis by (intro exI [of _ "[]"]) auto
    next
      case False
      with tail good have e2: "2 \<le> e" by (auto simp: not_less split: if_splits)
      with tail False have "rec drv fs e (k + 1) (take (512 * k) buffer @ b1) g1 = Some y"
        using e2 by (simp only: if_False not_less [THEN iffD2])
      from IH [OF this] good obtain cs where "chain fs (e # cs)" "fst (snd (snd y)) = k + 1 + length cs"
        by (auto simp: chained_def)
      with e False e2 show ?thesis by (intro exI [of _ "e # cs"]) simp
    qed
  qed
qed

text \<open>A driver that fails leaves no trace: the code takes FAILURE, which is -1, for true.\<close>

definition dead_driver :: "'h read_sectors" where
  "dead_driver d lba count buf h = Some (FAILURE, buf, h)"

lemma dead_driver_lba:
  "dev_type d = HARD_DISK \<Longrightarrow> read_sectors_lba dead_driver d lba count buf h = Some (FAILURE, buf, h)"
  by (simp add: read_sectors_lba_def dead_driver_def)

lemma read_clusters_dead:
  "dev_type (device fs) = HARD_DISK \<Longrightarrow> chain fs cs \<Longrightarrow>
     read_clusters dead_driver fs (hd cs) k buffer h = Some (SUCCESS, buffer, k + length cs - 1, h)"
proof (induction cs arbitrary: k rule: induct_list012)
  case (2 c)
  then show ?case
    by (subst read_clusters.simps) (auto simp: dead_driver_lba Let_def split: option.splits)
next
  case (3 c c' cs)
  then show ?case
    by (subst read_clusters.simps) (auto simp: dead_driver_lba Let_def)
qed simp

section \<open>A small disk\<close>

text \<open>A driver over the contents of a disk, and a FAT12 volume with a file in clusters 2 and 3.\<close>

definition image_driver :: "byte list list \<Rightarrow> 'h read_sectors" where
  "image_driver disk d lba count buf h =
     (if unat lba + unat count \<le> length disk \<and> 512 * unat count \<le> length buf
      then Some (SUCCESS, sectors_of disk (unat lba) (unat count) @ drop (512 * unat count) buf, h)
      else Some (FAILURE, buf, h))"

lemma image_driver_delivers: "delivers (image_driver disk) d disk"
  by (simp add: delivers_def image_driver_def)

lemmas image_driver_serves = delivers_serves [OF image_driver_delivers]

definition small_disk :: "byte list list" where
  "small_disk = [replicate 512 0, replicate 512 1, replicate 512 2, replicate 512 3, replicate 512 4,
     replicate 512 5, replicate 512 6]"

definition small_fs :: "byte \<Rightarrow> fat_instance file_system" where
  "small_fs spc = \<lparr>device = \<lparr>dev_type = HARD_DISK, device_num = 0, partition = 1, offset = 0,
       block_size = 512, driver = Ata_Driver, driver_specific_data = 0\<rparr>,
     case_sensitive = False,
     instance_data = \<lparr>fat = [0xF0, 0xFF, 0xFF, 0x03, 0xF0, 0xFF], fat_type = FAT12,
       fi_sectors_per_cluster = spc, fi_num_reserved_sectors = 1, fi_num_fats = 1,
       fi_sectors_per_fat = 1, fi_max_root_directory_entries = 16, fi_total_sectors = 7,
       fi_root_dir_start = 2, fi_volume_id = 0, fi_partition_volume_label = []\<rparr>\<rparr>"

lemma small_disk_ok: "sectors_512 small_disk" "length small_disk = 7" "length small_disk < 2 ^ 32"
  by (simp_all add: sectors_512_def small_disk_def)

lemma small_fs_chain: "chain (small_fs spc) [2, 3]"
  by (simp add: small_fs_def fat12_decode_fat_entry_def cluster_is_end_of_chain_def Let_def)

lemma small_fs_sectors:
  "cluster_size (small_fs spc) = unat spc"
  "cluster_sector (small_fs 1) 2 = 3" "cluster_sector (small_fs 1) 3 = 4"
  "cluster_sector (small_fs 2) 2 = 3" "cluster_sector (small_fs 2) 3 = 5"
  by (simp_all add: small_fs_def cluster_size_def cluster_sector_def first_data_sector_def Let_def)

lemma read_file_one_sector:
  assumes "serves drv (device fs) disk" and "sectors_512 disk" and "length disk < 2 ^ 32"
    and "cluster_size fs = 1" and "chain fs cs" and "list_all (on_disk disk fs) cs"
    and "512 * length cs \<le> length buffer"
  shows "\<exists>h'. fat12_read_file drv fs (hd cs) buffer n h = Some (SUCCESS,
    concat (map (cluster_data disk fs) cs) @ drop (512 * length cs) buffer, of_nat (length cs), h')"
proof -
  have ne: "cs \<noteq> []" using assms(5) by auto
  have "take 512 (cluster_data disk fs c) = cluster_data disk fs c" if "c \<in> set cs" for c
    using that assms(2,4,6) length_sectors_of [of disk "cluster_sector fs c" 1]
    by (simp add: cluster_data_def on_disk_def list_all_iff)
  then have "file_image disk fs cs = concat (map (cluster_data disk fs) (butlast cs)) @ cluster_data disk fs (last cs)"
    by (simp add: file_image_def in_set_butlastD cong: map_cong)
  also have "\<dots> = concat (map (cluster_data disk fs) (butlast cs @ [last cs]))" by simp
  finally have "file_image disk fs cs = concat (map (cluster_data disk fs) cs)" using ne by simp
  moreover have "length cs - 1 + cluster_size fs = length cs" using ne assms(4) by simp
  moreover obtain m where "length cs = Suc m" using ne by (cases cs) auto
  ultimately show ?thesis
    using read_clusters_chain [OF assms(1-3) _ assms(5,6), of 0 buffer h] assms(4,7)
    by (auto simp: fat12_read_file_def)
qed

section \<open>Properties\<close>

text \<open>
  C24: Reading the file that starts at a cluster succeeds for every chain in the allocation table
  that lies on the disk, tells the number of clusters, and fills the buffer from the front with
  their contents. Of a cluster that is not the last only the first sector survives, because the
  buffer advances by 512 bytes for a cluster.
\<close>

theorem read_file_chain:
  assumes "serves drv (device fs) disk" and "sectors_512 disk" and "length disk < 2 ^ 32"
    and "0 < cluster_size fs" and "chain fs cs" and "list_all (on_disk disk fs) cs"
    and "512 * (length cs + cluster_size fs) \<le> length buffer + 512"
  shows "\<exists>h'. fat12_read_file drv fs (hd cs) buffer n h = Some (SUCCESS,
    file_image disk fs cs @ drop (512 * (length cs - 1 + cluster_size fs)) buffer, of_nat (length cs), h')"
proof -
  obtain m where "length cs = Suc m" using assms(5) by (cases cs) auto
  then show ?thesis
    using read_clusters_chain [OF assms(1-6), of 0 buffer h] assms(7)
    by (auto simp: fat12_read_file_def)
qed

theorem read_file_chain_witness:
  "\<exists>h'. fat12_read_file (image_driver small_disk) (small_fs 2) 2 (replicate 1600 9) 0 () =
     Some (SUCCESS, replicate 512 3 @ replicate 512 5 @ replicate 512 6 @ replicate 64 9, 2, h')"
proof -
  have "\<exists>h'. fat12_read_file (image_driver small_disk) (small_fs 2) (hd [2, 3]) (replicate 1600 9) 0 () =
      Some (SUCCESS, file_image small_disk (small_fs 2) [2, 3] @
        drop (512 * (length [2, 3 :: u32] - 1 + cluster_size (small_fs 2))) (replicate 1600 9),
        of_nat (length [2, 3 :: u32]), h')"
    using small_disk_ok small_fs_chain image_driver_serves [OF small_disk_ok(1,3)]
    by (intro read_file_chain) (simp_all add: on_disk_def small_fs_sectors)
  moreover have "file_image small_disk (small_fs 2) [2, 3] = replicate 512 3 @ replicate 512 5 @ replicate 512 6"
    by (simp add: file_image_def cluster_data_def small_fs_sectors sectors_of_def small_disk_def)
  ultimately show ?thesis by (simp add: small_fs_sectors)
qed

text \<open>
  With one sector in a cluster, as on a floppy disk, the buffer holds the contents of the
  file's clusters one after the other and is unchanged behind them.
\<close>

theorem read_file_floppy:
  assumes "serves drv (device fs) disk" and "sectors_512 disk" and "length disk < 2 ^ 32"
    and "cluster_size fs = 1" and "chain fs cs" and "list_all (on_disk disk fs) cs"
    and "512 * length cs \<le> length buffer"
  shows "\<exists>h'. fat12_read_file drv fs (hd cs) buffer n h = Some (SUCCESS,
    concat (map (cluster_data disk fs) cs) @ drop (512 * length cs) buffer, of_nat (length cs), h')"
  by (rule read_file_one_sector [OF assms])

theorem read_file_floppy_witness:
  "\<exists>h'. fat12_read_file (image_driver small_disk) (small_fs 1) 2 (replicate 1600 9) 0 () =
     Some (SUCCESS, replicate 512 3 @ replicate 512 4 @ replicate 576 9, 2, h')"
proof -
  have "\<exists>h'. fat12_read_file (image_driver small_disk) (small_fs 1) (hd [2, 3]) (replicate 1600 9) 0 () =
      Some (SUCCESS, concat (map (cluster_data small_disk (small_fs 1)) [2, 3]) @
        drop (512 * length [2, 3 :: u32]) (replicate 1600 9), of_nat (length [2, 3 :: u32]), h')"
    using small_disk_ok small_fs_chain image_driver_serves [OF small_disk_ok(1,3)]
    by (intro read_file_floppy) (simp_all add: on_disk_def small_fs_sectors)
  moreover have "concat (map (cluster_data small_disk (small_fs 1)) [2, 3]) = replicate 512 3 @ replicate 512 4"
    by (simp add: cluster_data_def small_fs_sectors sectors_of_def small_disk_def)
  ultimately show ?thesis by simp
qed

text \<open>
  C25: A file read that reports SUCCESS has followed a chain of the table from the first cluster
  to an end mark, and the reported number of clusters is the length of that chain, whatever the
  driver does; so a table without such a chain is never read with success.
\<close>

theorem read_file_success_only_at_end:
  assumes "fat12_read_file drv fs c buffer n h = Some (SUCCESS, buffer', m, h')"
  shows "\<exists>cs. chain fs (c # cs) \<and> m = of_nat (Suc (length cs))"
proof -
  obtain i where "read_clusters drv fs c 0 buffer h = Some (SUCCESS, buffer', i, h')" "m = of_nat (i + 1)"
    using assms by (auto simp: fat12_read_file_def bind_eq_Some_conv)
  from read_clusters_success [OF this(1)] this(2) show ?thesis by (auto simp: chained_def)
qed

theorem read_file_success_only_at_end_witness:
  "\<exists>cs. chain (small_fs 1) (2 # cs) \<and> (2 :: u32) = of_nat (Suc (length cs))"
proof -
  have "fat12_read_file dead_driver (small_fs 1) 2 [] 0 () = Some (SUCCESS, [], 2, ())"
    using read_clusters_dead [OF _ small_fs_chain, of 1 0 "[]" "()"]
    by (simp add: fat12_read_file_def small_fs_def)
  then show ?thesis by (rule read_file_success_only_at_end)
qed

text \<open>
  C28: With a hard disk whose driver fails every time, the file read still reports SUCCESS and
  the number of clusters, and leaves the buffer as it was.
\<close>

theorem read_file_ignores_failure:
  assumes "dev_type (device fs) = HARD_DISK" and "chain fs cs"
  shows "fat12_read_file dead_driver fs (hd cs) buffer n h =
    Some (SUCCESS, buffer, of_nat (length cs), h)"
proof -
  obtain m where "length cs = Suc m" using assms(2) by (cases cs) auto
  then show ?thesis using read_clusters_dead [OF assms, of 0 buffer h] by (auto simp: fat12_read_file_def)
qed

theorem read_file_ignores_failure_witness:
  "fat12_read_file dead_driver (small_fs 1) 2 (replicate 1024 9) 0 () = Some (SUCCESS, replicate 1024 9, 2, ())"
  using read_file_ignores_failure [OF _ small_fs_chain, of 1 "replicate 1024 9" 0 "()"]
  by (simp add: small_fs_def)

end
