(* ===== verification/FatDir.thy ===== *)
theory FatDir
  imports FatFiles
begin

text \<open>
  Directories of a FAT volume: what \<open>fat_parse_dir_entries\<close> makes of the 32-byte entries, how
  \<open>fat12_list_root\<close> combines the sectors of a root directory, and the layout of a volume that
  \<open>fat12_init\<close> has opened.
\<close>

section \<open>Directory entries as bytes\<close>

text \<open>A short entry of the FAT format, and the bytes that stand for it.\<close>

record raw_entry =
  r_name :: "byte list"
  r_ext :: "byte list"
  r_attr :: byte
  r_mid :: "byte list"
  r_high :: u16
  r_time :: "byte list"
  r_low :: u16
  r_size :: u32

definition name_char :: "byte \<Rightarrow> bool" where
  "name_char c \<longleftrightarrow> c \<noteq> 32 \<and> c \<noteq> 0"

definition raw_ok :: "raw_entry \<Rightarrow> bool" where
  "raw_ok e \<longleftrightarrow> r_name e \<noteq> [] \<and> length (r_name e) \<le> 8 \<and> length (r_ext e) \<le> 3 \<and>
     list_all name_char (r_name e) \<and> list_all name_char (r_ext e) \<and>
     length (r_mid e) = 8 \<and> length (r_time e) = 4"

definition raw_bytes :: "raw_entry \<Rightarrow> byte list" where
  "raw_bytes e = (r_name e @ replicate (8 - length (r_name e)) 32) @ (r_ext e @ replicate (3 - length (r_ext e)) 32) @
     [r_attr e] @ r_mid e @ bytes16 (r_high e) @ r_time e @ bytes16 (r_low e) @ bytes32 (r_size e)"

text \<open>
  The entries whose text ends inside its fields: a name of eight characters runs on into the
  extension, an extension of three into the attributes, which end it when they are 0x20 or 0.
\<close>

definition ends_in_field :: "raw_entry \<Rightarrow> bool" where
  "ends_in_field e \<longleftrightarrow> (length (r_name e) < 8 \<or> r_ext e = []) \<and>
     (bit (r_attr e) 4 \<or> length (r_ext e) < 3 \<or> r_attr e = 0x20 \<or> r_attr e = 0)"

definition shown_name :: "raw_entry \<Rightarrow> byte list" where
  "shown_name e = r_name e @ (if bit (r_attr e) 4 then [] else 46 # r_ext e)"

definition listed :: "fat_kind \<Rightarrow> raw_entry \<Rightarrow> dir_entry \<Rightarrow> dir_entry" where
  "listed kind e out = out\<lparr>
     filename := shown_name e @ 0 # drop (Suc (length (shown_name e))) (filename out),
     archive := bit (r_attr e) 5, read_only := bit (r_attr e) 0, directory := bit (r_attr e) 4,
     hidden := bit (r_attr e) 1, system := bit (r_attr e) 2, file_size := r_size e,
     location_on_disk := ucast (r_low e) + push_bit 16 (ucast (if kind = FAT32 then r_high e else 0))\<rparr>"

lemma field_text_stop:
  "list_all name_char s \<Longrightarrow> c = 32 \<or> c = 0 \<Longrightarrow> field_text (s @ c # r) = Some s"
  by (induction s) (auto simp: name_char_def)

lemma length_raw_bytes: "raw_ok e \<Longrightarrow> length (raw_bytes e) = 32"
  by (simp add: raw_bytes_def raw_ok_def bytes16_def bytes32_def)

lemma raw_bytes_first: "raw_ok e \<Longrightarrow> raw_bytes e ! 0 \<noteq> 0"
  by (cases "r_name e") (auto simp: raw_bytes_def raw_ok_def name_char_def)

lemma field_name:
  assumes "raw_ok e" and "ends_in_field e"
  shows "field_text (raw_bytes e) = Some (r_name e)"
proof (cases "length (r_name e) < 8")
  case True
  then obtain k where "8 - length (r_name e) = Suc k" by (metis Suc_diff_Suc)
  then show ?thesis using assms(1) field_text_stop [of "r_name e" 32]
    by (simp add: raw_bytes_def raw_ok_def)
next
  case False
  then have "r_ext e = []" "length (r_name e) = 8" using assms by (auto simp: ends_in_field_def raw_ok_def)
  then show ?thesis using assms(1) field_text_stop [of "r_name e" 32]
    by (simp add: raw_bytes_def raw_ok_def numeral_3_eq_3)
qed

lemma field_ext:
  assumes "raw_ok e" and "ends_in_field e" and "\<not> bit (r_attr e) 4"
  shows "field_text (drop 8 (raw_bytes e)) = Some (r_ext e)"
proof -
  have d: "drop 8 (raw_bytes e) = (r_ext e @ replicate (3 - length (r_ext e)) 32) @
     [r_attr e] @ r_mid e @ bytes16 (r_high e) @ r_time e @ bytes16 (r_low e) @ bytes32 (r_size e)"
    using assms(1) unfolding raw_bytes_def by (simp add: raw_ok_def)
  show ?thesis
  proof (cases "length (r_ext e) < 3")
    case True
    then obtain k where "3 - length (r_ext e) = Suc k" by (metis Suc_diff_Suc)
    then show ?thesis using assms(1) field_text_stop [of "r_ext e" 32]
      unfolding d by (simp add: raw_ok_def)
  next
    case False
    then have "r_attr e = 32 \<or> r_attr e = 0" "length (r_ext e) = 3"
      using assms by (auto simp: ends_in_field_def raw_ok_def)
    then show ?thesis using assms(1) field_text_stop [of "r_ext e" "r_attr e"]
      unfolding d by (simp add: raw_ok_def)
  qed
qed

lemma parse_raw:
  assumes ok: "raw_ok e" and fld: "ends_in_field e" and out: "entry_shape out"
  shows "parse_dir_entry kind (raw_bytes e) out = Some (listed kind e out)"
proof -
  let ?n = "r_name e @ replicate (8 - length (r_name e)) 32"
  let ?x = "r_ext e @ replicate (3 - length (r_ext e)) 32"
  have l: "length ?n = 8" "length ?x = 3" "length (r_mid e) = 8" "length (r_time e) = 4"
    "length (bytes16 w) = 2" for w
    using ok by (simp_all add: raw_ok_def bytes16_def)
  have b: "raw_bytes e = (?n @ ?x) @ r_attr e # (r_mid e @ bytes16 (r_high e) @ r_time e @ bytes16 (r_low e) @ bytes32 (r_size e))"
    "raw_bytes e = (?n @ ?x @ [r_attr e] @ r_mid e) @ bytes16 (r_high e) @ (r_time e @ bytes16 (r_low e) @ bytes32 (r_size e))"
    "raw_bytes e = (?n @ ?x @ [r_attr e] @ r_mid e @ bytes16 (r_high e) @ r_time e) @ bytes16 (r_low e) @ bytes32 (r_size e)"
    "raw_bytes e = (?n @ ?x @ [r_attr e] @ r_mid e @ bytes16 (r_high e) @ r_time e @ bytes16 (r_low e)) @ bytes32 (r_size e) @ []"
    by (simp_all add: raw_bytes_def)
  have attr: "rd (raw_bytes e) 11 = Some (r_attr e)" unfolding b(1) using l by (intro rd_at) simp
  have high: "rd16 (raw_bytes e) 20 = Some (r_high e)" unfolding b(2) using l by (intro rd16_at) simp
  have low: "rd16 (raw_bytes e) 26 = Some (r_low e)" unfolding b(3) using l by (intro rd16_at) simp
  have size: "rd32 (raw_bytes e) 28 = Some (r_size e)" unfolding b(4) using l by (intro rd32_at) simp
  have ext: "(if bit (r_attr e) 4 then Some [] else map_option (\<lambda>t. 46 # t) (field_text (drop 8 (raw_bytes e)))) =
      Some (if bit (r_attr e) 4 then [] else 46 # r_ext e)"
    using field_ext [OF ok fld] by simp
  have "length (shown_name e) \<le> 12" using ok by (simp add: shown_name_def raw_ok_def)
  then have fname: "blit (filename out) 0 (r_name e @ (if bit (r_attr e) 4 then [] else 46 # r_ext e) @ [0]) =
      Some (shown_name e @ 0 # drop (Suc (length (shown_name e))) (filename out))"
    using out by (simp add: blit_def shown_name_def entry_shape_def)
  show ?thesis
    by (simp add: parse_dir_entry_def attr high low size field_name [OF ok fld] ext fname listed_def Let_def
        del: blit_in)
qed

lemma listed_shape: "raw_ok e \<Longrightarrow> entry_shape out \<Longrightarrow> entry_shape (listed kind e out)"
  by (auto simp: entry_shape_def listed_def shown_name_def raw_ok_def)

section \<open>A directory in a buffer\<close>

text \<open>A buffer that holds the entries \<open>es\<close>; behind them comes the end mark, or the end of what is looked at.\<close>

definition dir_bytes :: "raw_entry list \<Rightarrow> byte list \<Rightarrow> byte list" where
  "dir_bytes es rest = concat (map raw_bytes es) @ rest"

definition entries_ok :: "raw_entry list \<Rightarrow> bool" where
  "entries_ok es \<longleftrightarrow> list_all raw_ok es \<and> list_all ends_in_field es"

definition stops :: "nat \<Rightarrow> nat \<Rightarrow> byte list \<Rightarrow> bool" where
  "stops n bound rest \<longleftrightarrow> n = bound \<or> n < bound \<and> 32 \<le> length rest \<and> rest ! 0 = 0"

text \<open>The list of entries the caller gets: the parsed ones from the front, then what was there.\<close>

definition listing :: "fat_kind \<Rightarrow> raw_entry list \<Rightarrow> dir_entry list \<Rightarrow> dir_entry list" where
  "listing kind es out =
     map (\<lambda>i. if i < length es then listed kind (es ! i) (out ! i) else out ! i) [0..<length out]"

lemma length_listing [simp]: "length (listing kind es out) = length out"
  by (simp add: listing_def)

lemma nth_listing [simp]:
  "i < length out \<Longrightarrow>
     listing kind es out ! i = (if i < length es then listed kind (es ! i) (out ! i) else out ! i)"
  by (simp add: listing_def)

lemma listing_Nil [simp]: "listing kind [] out = out"
  by (rule nth_equalityI) simp_all

lemma listing_snoc:
  assumes "i < length es" and "i < length out"
  shows "(listing kind (take i es) out)[i := listed kind (es ! i) (out ! i)] = listing kind (take (Suc i) es) out"
  using assms by (intro nth_equalityI) (auto simp: nth_list_update less_Suc_eq)

lemma listing_shape:
  "list_all raw_ok es \<Longrightarrow> list_all entry_shape out \<Longrightarrow> list_all entry_shape (listing kind es out)"
  by (simp add: list_all_length listed_shape)

lemma drop_dir_bytes:
  "list_all raw_ok es \<Longrightarrow> i \<le> length es \<Longrightarrow> drop (32 * i) (dir_bytes es rest) = dir_bytes (drop i es) rest"
proof (induction es arbitrary: i)
  case (Cons e es)
  then show ?case
  proof (cases i)
    case (Suc j)
    then have "drop (32 * i) (dir_bytes (e # es) rest) = drop (32 * j) (drop 32 (dir_bytes (e # es) rest))"
      by (simp add: add.commute)
    also have "drop 32 (dir_bytes (e # es) rest) = dir_bytes es rest"
      using Cons.prems(1) length_raw_bytes [of e] by (simp add: dir_bytes_def)
    finally show ?thesis using Cons Suc by simp
  qed simp
qed simp

lemma length_dir_bytes: "list_all raw_ok es \<Longrightarrow> length (dir_bytes es rest) = 32 * length es + length rest"
  by (induction es) (simp_all add: dir_bytes_def length_raw_bytes)

lemma parse_entries_from:
  assumes "entries_ok es" and "length es \<le> length out" and "list_all entry_shape out"
    and "stops (length es) bound rest" and "i \<le> length es"
  shows "parse_entries kind (dir_bytes es rest) [i..<bound] bound (listing kind (take i es) out) =
    Some (listing kind es out, length es)"
  using assms(5)
proof (induction "length es - i" arbitrary: i)
  case 0
  then have i: "i = length es" by simp
  show ?case
  proof (cases "length es = bound")
    case True
    then show ?thesis using i by simp
  next
    case False
    then have s: "length es < bound" "32 \<le> length rest" "rest ! 0 = 0" using assms(4) by (auto simp: stops_def)
    have "drop (32 * i) (dir_bytes es rest) = rest"
      using drop_dir_bytes [of es i rest] assms(1) i by (simp add: entries_ok_def dir_bytes_def)
    moreover have "length (dir_bytes es rest) = 32 * i + length rest"
      using length_dir_bytes [of es rest] assms(1) i by (simp add: entries_ok_def)
    ultimately show ?thesis using s i by (simp add: upt_conv_Cons Let_def)
  qed
next
  case (Suc k)
  then have i: "i < length es" by simp
  have ok: "raw_ok (es ! i)" "ends_in_field (es ! i)" "list_all raw_ok es"
    using assms(1) i by (simp_all add: entries_ok_def list_all_length)
  have lt: "i < bound" using i assms(4) by (auto simp: stops_def)
  have d: "drop (32 * i) (dir_bytes es rest) = raw_bytes (es ! i) @ dir_bytes (drop (Suc i) es) rest"
    using drop_dir_bytes [OF ok(3), of i rest] i by (simp add: dir_bytes_def Cons_nth_drop_Suc [symmetric])
  have entry: "take 32 (drop (32 * i) (dir_bytes es rest)) = raw_bytes (es ! i)"
    unfolding d using length_raw_bytes [OF ok(1)] by simp
  have len: "32 * i + 32 \<le> length (dir_bytes es rest)"
    using length_dir_bytes [OF ok(3), of rest] i by simp
  let ?out = "listing kind (take i es) out"
  have io: "i < length out" using i assms(2) by simp
  then have shape: "entry_shape (out ! i)" using assms(3) by (simp add: list_all_length)
  have e: "parse_dir_entry kind (raw_bytes (es ! i)) (out ! i) = Some (listed kind (es ! i) (out ! i))"
    by (rule parse_raw [OF ok(1,2) shape])
  have rd: "rd ?out i = Some (out ! i)" using io i by simp
  have wr: "wr ?out i (listed kind (es ! i) (out ! i)) = Some (listing kind (take (Suc i) es) out)"
    using io listing_snoc [OF i io] by simp
  have "parse_entries kind (dir_bytes es rest) (i # [Suc i..<bound]) bound ?out =
      parse_entries kind (dir_bytes es rest) [Suc i..<bound] bound (listing kind (take (Suc i) es) out)"
    using len raw_bytes_first [OF ok(1)] by (simp add: entry rd wr e Let_def del: rd_in wr_in nth_listing)
  moreover have "[i..<bound] = i # [Suc i..<bound]" using lt by (simp add: upt_conv_Cons)
  ultimately show ?case
    using Suc.hyps(1) [of "Suc i"] Suc.hyps(2) i by simp
qed

lemma parse_dir_bytes:
  assumes "entries_ok es" and "length es \<le> length out" and "list_all entry_shape out"
    and "stops (length es) (unat bound) rest"
  shows "fat_parse_dir_entries fs (dir_bytes es rest) bound out =
    Some (SUCCESS, listing (fat_type (instance_data fs)) es out, of_nat (length es))"
  using parse_entries_from [OF assms, of 0] by (simp add: fat_parse_dir_entries_def)

section \<open>The root directory\<close>

lemma root_sector:
  assumes "serves drv d disk" and "sectors_512 disk" and "length disk < 2 ^ 32"
    and "unat lba < length disk" and "length buf = 512"
  shows "\<exists>h'. read_sectors_lba drv d lba 1 buf h = Some (SUCCESS, disk ! unat lba, h')"
proof -
  have "sectors_of disk (unat lba) 1 = disk ! unat lba"
    using assms(4) by (simp add: sectors_of_def take_Suc_conv_app_nth)
  then show ?thesis
    using servesD [OF assms(1), of lba 1 buf h] assms(4,5) by auto
qed

text \<open>
  A root directory: full sectors of sixteen entries, then a sector with fewer. Sector \<open>i\<close> of
  the directory is sector \<open>root + i\<close> of the disk.
\<close>

definition root_dir :: "byte list list \<Rightarrow> nat \<Rightarrow> raw_entry list list \<Rightarrow> raw_entry list \<Rightarrow> byte list \<Rightarrow> bool" where
  "root_dir disk root full es rest \<longleftrightarrow>
     list_all (\<lambda>e. entries_ok e \<and> length e = 16) full \<and> entries_ok es \<and> length es < 16 \<and>
     stops (length es) 16 rest \<and> root + length full < length disk \<and>
     take (Suc (length full)) (drop root disk) = map (\<lambda>e. dir_bytes e []) full @ [dir_bytes es rest]"

lemma root_dir_nth:
  assumes "root_dir disk root full es rest"
  shows "i < length full \<Longrightarrow> disk ! (root + i) = dir_bytes (full ! i) []"
    and "disk ! (root + length full) = dir_bytes es rest"
proof -
  have eq: "take (Suc (length full)) (drop root disk) = map (\<lambda>e. dir_bytes e []) full @ [dir_bytes es rest]"
    and len: "root + length full < length disk"
    using assms by (simp_all add: root_dir_def)
  have nth: "disk ! (root + i) = (map (\<lambda>e. dir_bytes e []) full @ [dir_bytes es rest]) ! i"
    if "i \<le> length full" for i
    using that len by (simp flip: eq)
  show "i < length full \<Longrightarrow> disk ! (root + i) = dir_bytes (full ! i) []"
    using nth [of i] by (simp add: nth_append)
  show "disk ! (root + length full) = dir_bytes es rest"
    using nth [of "length full"] by (simp add: nth_append)
qed

lemma fold_listing_ok:
  "list_all (\<lambda>e. entries_ok e \<and> length e = 16) full \<Longrightarrow> list_all entry_shape out \<Longrightarrow>
     length (fold (listing kind) full out) = length out \<and> list_all entry_shape (fold (listing kind) full out)"
  by (induction full arbitrary: out) (simp_all add: listing_shape entries_ok_def)

lemma list_root_loop:
  assumes drv: "serves drv (device fs) disk" and img: "sectors_512 disk" "length disk < 2 ^ 32"
    and root: "root_dir disk (unat (fi_root_dir_start (instance_data fs))) full es rest"
    and out: "16 \<le> length out" "list_all entry_shape out" and n: "length full < n"
    and kind: "kind = fat_type (instance_data fs)"
  shows "i \<le> length full \<Longrightarrow> length buf = 512 \<Longrightarrow>
    \<exists>h'. list_root_sectors drv fs [i..<n] buf (16 * i) (fold (listing kind) (take i full) out) h =
      Some (SUCCESS, 16 * length full + length es, listing kind es (fold (listing kind) full out), h')"
proof (induction "length full - i" arbitrary: i buf h)
  case 0
  let ?root = "unat (fi_root_dir_start (instance_data fs))"
  let ?out = "fold (listing kind) full out"
  from 0 have i: "i = length full" by simp
  have r: "entries_ok es" "length es < 16" "stops (length es) 16 rest" "?root + length full < length disk"
    using root by (simp_all add: root_dir_def)
  have lba: "unat (fi_root_dir_start (instance_data fs) + of_nat i) = ?root + i"
    using r(4) img(2) i by (simp add: unat_word_ariths unat_of_nat)
  obtain h1 where rd: "read_sectors_lba drv (device fs) (fi_root_dir_start (instance_data fs) + of_nat i) 1 buf h =
      Some (SUCCESS, dir_bytes es rest, h1)"
    using root_sector [OF drv img, of "fi_root_dir_start (instance_data fs) + of_nat i" buf h]
      lba r(4) i 0(3) root_dir_nth(2) [OF root] by auto
  have len: "length ?out = length out \<and> list_all entry_shape ?out"
    using root out(2) by (intro fold_listing_ok) (simp_all add: root_dir_def)
  have "fat_parse_dir_entries fs (dir_bytes es rest) 16 ?out =
      Some (SUCCESS, listing kind es ?out, of_nat (length es))"
    unfolding kind using r(1-3) len out(1) by (intro parse_dir_bytes) (simp_all add: kind)
  moreover have "unat (of_nat (length es) :: u16) = length es" "(of_nat (length es) :: u16) < 16"
    using r(2) by (simp_all add: unat_of_nat word_less_nat_alt)
  ultimately show ?case using rd i n by (simp add: upt_conv_Cons)
next
  case (Suc k)
  let ?root = "unat (fi_root_dir_start (instance_data fs))"
  let ?out = "fold (listing kind) (take i full) out"
  from Suc have i: "i < length full" by simp
  have r: "list_all (\<lambda>e. entries_ok e \<and> length e = 16) full" "?root + length full < length disk"
    using root by (simp_all add: root_dir_def)
  have e: "entries_ok (full ! i)" "length (full ! i) = 16" using r(1) i by (simp_all add: list_all_length)
  have lba: "unat (fi_root_dir_start (instance_data fs) + of_nat i) = ?root + i"
    using r(2) img(2) i by (simp add: unat_word_ariths unat_of_nat)
  obtain h1 where rd: "read_sectors_lba drv (device fs) (fi_root_dir_start (instance_data fs) + of_nat i) 1 buf h =
      Some (SUCCESS, dir_bytes (full ! i) [], h1)"
    using root_sector [OF drv img, of "fi_root_dir_start (instance_data fs) + of_nat i" buf h]
      lba r(2) i Suc.prems(2) root_dir_nth(1) [OF root i] by auto
  have len: "length ?out = length out \<and> list_all entry_shape ?out"
    using r(1) out(2) by (intro fold_listing_ok) (auto simp: list_all_length)
  have "fat_parse_dir_entries fs (dir_bytes (full ! i) []) 16 ?out =
      Some (SUCCESS, listing kind (full ! i) ?out, 16)"
    using parse_dir_bytes [of "full ! i" ?out 16 "[]" fs] e len out(1) by (simp add: kind stops_def)
  moreover have "listing kind (full ! i) ?out = fold (listing kind) (take (Suc i) full) out"
    using i by (simp add: take_Suc_conv_app_nth)
  moreover have "length (dir_bytes (full ! i) []) = 512"
    using length_dir_bytes [of "full ! i" "[]"] e by (simp add: entries_ok_def)
  moreover have "[i..<n] = i # [Suc i..<n]" using i n by (simp add: upt_conv_Cons)
  ultimately have step: "list_root_sectors drv fs [i..<n] buf (16 * i) ?out h =
      list_root_sectors drv fs [Suc i..<n] (dir_bytes (full ! i) []) (16 * i + 16)
        (fold (listing kind) (take (Suc i) full) out) h1" and len': "length (dir_bytes (full ! i) []) = 512"
    using rd by simp_all
  show ?case
    using step i Suc.hyps(2) len' Suc.hyps(1) [of "Suc i" "dir_bytes (full ! i) []" h1]
    by (simp add: add.commute)
qed

section \<open>The contract of a lister\<close>

lemma parse_dir_entry_shape:
  "parse_dir_entry kind entry e = Some e' \<Longrightarrow> entry_shape e \<Longrightarrow> entry_shape e'"
  by (auto simp: parse_dir_entry_def bind_eq_Some_conv Let_def entry_shape_def dest: blit_length)

lemma parse_entries_frame:
  "parse_entries kind buf is n out = Some (out', m) \<Longrightarrow>
     length out' = length out \<and> (list_all entry_shape out \<longrightarrow> list_all entry_shape out')"
proof (induction kind buf "is" n out rule: parse_entries.induct)
  case (2 kind buf i "is" n out)
  show ?case
  proof (cases "32 * i + 32 \<le> length buf \<and> take 32 (drop (32 * i) buf) ! 0 \<noteq> 0")
    case False
    then show ?thesis using "2.prems" by (auto simp: Let_def split: if_splits)
  next
    case True
    then obtain e where i: "i < length out"
      and e: "parse_dir_entry kind (take 32 (drop (32 * i) buf)) (out ! i) = Some e"
      and rest: "parse_entries kind buf is n (out[i := e]) = Some (out', m)"
      using "2.prems" by (auto simp: bind_eq_Some_conv rd_Some_iff wr_Some_iff Let_def)
    have "length out' = length (out[i := e]) \<and> (list_all entry_shape (out[i := e]) \<longrightarrow> list_all entry_shape out')"
      using True i e rest "2.IH" by (auto simp: rd_Some_iff wr_Some_iff)
    moreover have "list_all entry_shape out \<longrightarrow> list_all entry_shape (out[i := e])"
      using i parse_dir_entry_shape [OF e] by (simp add: list_all_length nth_list_update)
    ultimately show ?thesis by simp
  qed
qed simp

lemma fat_parse_frame:
  "fat_parse_dir_entries fs buf n out = Some (r, out', m) \<Longrightarrow>
     r = SUCCESS \<and> length out' = length out \<and> (list_all entry_shape out \<longrightarrow> list_all entry_shape out')"
  by (auto simp: fat_parse_dir_entries_def bind_eq_Some_conv dest: parse_entries_frame)

lemma list_root_sectors_frame:
  "list_root_sectors drv fs is buf t out h = Some (r, t', out', h') \<Longrightarrow>
     (r = SUCCESS \<or> r = FAILURE) \<and> length out' = length out \<and>
     (list_all entry_shape out \<longrightarrow> list_all entry_shape out')"
proof (induction "is" arbitrary: buf t out h)
  case (Cons i "is")
  then obtain r1 b1 h1 where rd: "read_sectors_lba drv (device fs)
      (fi_root_dir_start (instance_data fs) + of_nat i) 1 buf h = Some (r1, b1, h1)"
    by (auto simp: bind_eq_Some_conv)
  show ?case
  proof (cases "r1 = FAILURE")
    case True
    with Cons.prems rd show ?thesis by simp
  next
    case False
    then obtain r2 o2 n2 where p: "fat_parse_dir_entries fs b1 16 out = Some (r2, o2, n2)"
      using Cons.prems rd by (auto simp: bind_eq_Some_conv)
    have f: "length o2 = length out" "list_all entry_shape out \<longrightarrow> list_all entry_shape o2"
      using fat_parse_frame [OF p] by simp_all
    show ?thesis
    proof (cases "n2 < 16")
      case True
      with Cons.prems rd False p f show ?thesis by simp
    next
      case big: False
      with Cons.prems rd False p
      have "list_root_sectors drv fs is b1 (t + unat n2) o2 h1 = Some (r, t', out', h')" by simp
      from Cons.IH [OF this] f show ?thesis by simp
    qed
  qed
qed simp

interpretation fat_lister: fs_lister "fat12_list_root drv junk" for drv :: "'h read_sectors" and junk
proof
  fix fs :: "fat_instance file_system" and out n and h :: 'h and r out' n' h'
  assume a: "fat12_list_root drv junk fs out n h = Some (r, out', n', h')"
  have "(r = SUCCESS \<or> r = FAILURE) \<and> length out' = length out \<and>
    (list_all entry_shape out \<longrightarrow> list_all entry_shape out')"
  proof (cases "fat_type (instance_data fs) = FAT32")
    case True
    with a show ?thesis
      by (auto simp: fat12_list_root_def fat12_list_dir_def bind_eq_Some_conv Let_def split: if_splits
          dest!: fat_parse_frame)
  next
    case False
    with a show ?thesis
      by (auto simp: fat12_list_root_def bind_eq_Some_conv Let_def dest!: list_root_sectors_frame)
  qed
  then show "r = SUCCESS \<or> r = FAILURE" "length out' = length out"
    "list_all entry_shape out \<Longrightarrow> list_all entry_shape out'" by simp_all
qed

section \<open>Opening a volume\<close>

lemma parse_volume_fields:
  assumes "parse_volume kind buffer = Some (Some d)"
  shows "fat_type d = kind \<and> fi_total_sectors d \<noteq> 0 \<and>
    (kind \<noteq> FAT32 \<longrightarrow> fi_root_dir_start d =
       ucast (fi_num_reserved_sectors d) + fi_sectors_per_fat d * ucast (fi_num_fats d))"
  using assms by (auto simp: parse_volume_def bind_eq_Some_conv Let_def split: if_splits)

text \<open>
  The layout of a boot sector, as the FAT specification lists it: single bytes, words and double
  words at their offsets from the start of the sector.
\<close>

definition word_at_byte :: "byte list \<Rightarrow> nat \<Rightarrow> u16" where
  "word_at_byte b i = le16 (b ! i) (b ! (i + 1))"

definition dword_at_byte :: "byte list \<Rightarrow> nat \<Rightarrow> u32" where
  "dword_at_byte b i = le32 (b ! i) (b ! (i + 1)) (b ! (i + 2)) (b ! (i + 3))"

definition describes_volume :: "byte list \<Rightarrow> fat_instance \<Rightarrow> bool" where
  "describes_volume b d \<longleftrightarrow>
     fi_sectors_per_cluster d = b ! 13 \<and> fi_num_reserved_sectors d = word_at_byte b 14 \<and>
     fi_num_fats d = b ! 16 \<and> fi_max_root_directory_entries d = word_at_byte b 17 \<and>
     fi_total_sectors d = (if word_at_byte b 19 \<noteq> 0 then ucast (word_at_byte b 19) else dword_at_byte b 32) \<and>
     fi_total_sectors d \<noteq> 0 \<and>
     (if fat_type d = FAT32
      then take 5 (drop 82 b) = str ''FAT32'' \<and> fi_sectors_per_fat d = dword_at_byte b 36 \<and>
        fi_root_dir_start d = dword_at_byte b 44 \<and> fi_volume_id d = dword_at_byte b 67 \<and>
        fi_partition_volume_label d = take 11 (drop 71 b)
      else take 5 (drop 54 b) = str (if fat_type d = FAT12 then ''FAT12'' else ''FAT16'') \<and>
        fi_sectors_per_fat d = ucast (word_at_byte b 22) \<and>
        fi_root_dir_start d = ucast (word_at_byte b 14) + ucast (word_at_byte b 22) * ucast (b ! 16) \<and>
        fi_volume_id d = dword_at_byte b 39 \<and> fi_partition_volume_label d = take 11 (drop 43 b))"

lemma rd16_word: "rd16 b i = Some w \<Longrightarrow> w = word_at_byte b i"
  by (auto simp: rd16_def bind_eq_Some_conv rd_Some_iff word_at_byte_def)

lemma rd32_dword: "rd32 b i = Some w \<Longrightarrow> w = dword_at_byte b i"
  by (auto simp: rd32_def bind_eq_Some_conv rd_Some_iff dword_at_byte_def)

lemma strcmp_wl_take:
  "strcmp_wl x (t @ [0]) (length t) = Some True \<Longrightarrow> is_cstr t \<Longrightarrow> take (length t) x = t"
proof (induction t arbitrary: x)
  case (Cons c t)
  then show ?case by (cases x) (auto split: if_splits)
qed simp

lemma fat_kind_text:
  assumes "fat_kind_of b = Some (Some kind)"
  shows "(case kind of FAT12 \<Rightarrow> take 5 (drop 54 b) = str ''FAT12'' | FAT16 \<Rightarrow> take 5 (drop 54 b) = str ''FAT16''
    | FAT32 \<Rightarrow> take 5 (drop 82 b) = str ''FAT32'')"
proof -
  have c: "is_cstr (str ''FAT12'')" "is_cstr (str ''FAT16'')" "is_cstr (str ''FAT32'')"
    "length (str ''FAT12'') = 5" "length (str ''FAT16'') = 5" "length (str ''FAT32'') = 5"
    by (simp_all add: is_cstr_def str_def)
  note t = strcmp_wl_take [where t = "str ''FAT12''", OF _ c(1), unfolded c]
    strcmp_wl_take [where t = "str ''FAT16''", OF _ c(2), unfolded c]
    strcmp_wl_take [where t = "str ''FAT32''", OF _ c(3), unfolded c]
  show ?thesis
    using assms by (cases kind) (auto simp: fat_kind_of_def bind_eq_Some_conv split: if_splits dest!: t)
qed

lemma parse_volume_describes:
  assumes "parse_volume kind b = Some (Some d)" and "fat_kind_of b = Some (Some kind)"
  shows "describes_volume b d"
proof -
  have k: "fat_type d = kind" and nz: "fi_total_sectors d \<noteq> 0" using parse_volume_fields [OF assms(1)] by simp_all
  have "word_at_byte b 19 > 0 \<longleftrightarrow> word_at_byte b 19 \<noteq> 0" by (simp add: word_gt_0)
  then show ?thesis
    using assms(1) k nz fat_kind_text [OF assms(2)]
    by (cases kind)
      (auto simp: parse_volume_def describes_volume_def dos331_at_def ebpb_at_def fat32_ebpb_at_def bind_eq_Some_conv
        rd_Some_iff Let_def split: if_splits dest!: rd16_word rd32_dword)
qed

section \<open>Properties\<close>

text \<open>
  C16: Parsing a directory gives back its entries in order, up to the end mark: for every entry
  whose text ends inside its fields the name with a dot and the extension (a directory's name
  alone), its flags, size and first cluster; the entries of the caller's list behind them stay as
  they were.
\<close>

theorem parse_directory:
  assumes "list_all raw_ok es" and "list_all ends_in_field es" and "length es \<le> length out"
    and "list_all entry_shape out" and "stops (length es) (unat bound) rest"
  shows "fat_parse_dir_entries fs (concat (map raw_bytes es) @ rest) bound out =
    Some (SUCCESS, listing (fat_type (instance_data fs)) es out, of_nat (length es))"
  using parse_dir_bytes [of es out bound rest fs] assms by (simp add: entries_ok_def dir_bytes_def)

definition readme :: raw_entry where
  "readme = \<lparr>r_name = str ''README'', r_ext = str ''TXT'', r_attr = 0x20, r_mid = replicate 8 0,
     r_high = 0, r_time = replicate 4 0, r_low = 3, r_size = 700\<rparr>"

definition blank_entry :: dir_entry where
  "blank_entry = \<lparr>filename = replicate 256 0, location_on_disk = 0, file_size = 0, read_only = False,
     hidden = False, system = False, directory = False, archive = False\<rparr>"

lemma readme_ok: "raw_ok readme" "ends_in_field readme"
  by (simp_all add: raw_ok_def ends_in_field_def readme_def str_def name_char_def)

lemma blank_shape: "entry_shape blank_entry"
  by (simp add: entry_shape_def blank_entry_def)

theorem parse_directory_witness:
  "fat_parse_dir_entries (small_fs 1) (concat (map raw_bytes [readme]) @ replicate 32 0) 16 [blank_entry] =
    Some (SUCCESS, [blank_entry\<lparr>filename := str ''README.TXT'' @ replicate 246 0,
      location_on_disk := 3, file_size := 700, archive := True\<rparr>], 1)"
proof -
  have "fat_parse_dir_entries (small_fs 1) (concat (map raw_bytes [readme]) @ replicate 32 0) 16 [blank_entry] =
    Some (SUCCESS, listing (fat_type (instance_data (small_fs 1))) [readme] [blank_entry], of_nat (length [readme]))"
    using readme_ok blank_shape by (intro parse_directory) (simp_all add: stops_def)
  moreover have "listing (fat_type (instance_data (small_fs 1))) [readme] [blank_entry] =
      [blank_entry\<lparr>filename := str ''README.TXT'' @ replicate 246 0,
        location_on_disk := 3, file_size := 700, archive := True\<rparr>]"
  proof -
    have "bit (0x20 :: byte) 5" "\<not> bit (0x20 :: byte) 4" "\<not> bit (0x20 :: byte) 0" "\<not> bit (0x20 :: byte) 1"
      "\<not> bit (0x20 :: byte) 2" by simp_all
    moreover have "0 # replicate 245 (0 :: byte) = replicate 246 0" by (simp flip: replicate_Suc)
    ultimately show ?thesis
      by (simp add: listing_def listed_def readme_def blank_entry_def small_fs_def shown_name_def str_def)
  qed
  ultimately show ?thesis by simp
qed

text \<open>
  A name that fills its eight characters runs on into the extension, and an extension of
  three characters into the attribute byte: FILENAME.TXT, read-only, is listed as
  FILENAMETXT!.TXT!, with whatever character the attributes make.
\<close>

theorem full_names_run_on:
  "map_option (\<lambda>e. cstring_of (filename e)) (parse_dir_entry FAT12 (raw_bytes
     (readme\<lparr>r_name := str ''FILENAME'', r_attr := 0x21\<rparr>)) blank_entry) = Some (str ''FILENAMETXT!.TXT!'')"
  by code_simp

text \<open>
  C26: Listing the root directory of a FAT12 or FAT16 volume counts the entries of all its
  sectors, up to the first that is not full, but each sector's entries replace those of the one
  before in the caller's list: only the first sixteen places are ever filled.
\<close>

theorem list_root_result:
  assumes "fat_type (instance_data fs) \<noteq> FAT32"
    and "serves drv (device fs) disk" and "sectors_512 disk" and "length disk < 2 ^ 32"
    and "root_dir disk (unat (fi_root_dir_start (instance_data fs))) full es rest"
    and "length full < unat (fi_max_root_directory_entries (instance_data fs)) * 32 div 512"
    and "16 \<le> length out" and "list_all entry_shape out"
  shows "\<exists>h'. fat12_list_root drv junk fs out n h = Some (SUCCESS,
    listing (fat_type (instance_data fs)) es (fold (listing (fat_type (instance_data fs))) full out),
    of_nat (16 * length full + length es), h')"
proof -
  obtain h' where "list_root_sectors drv fs
      [0..<unat (fi_max_root_directory_entries (instance_data fs)) * 32 div 512] (map junk [0..<512])
      (16 * 0) (fold (listing (fat_type (instance_data fs))) (take 0 full) out) h =
    Some (SUCCESS, 16 * length full + length es,
      listing (fat_type (instance_data fs)) es (fold (listing (fat_type (instance_data fs))) full out), h')"
    using list_root_loop [OF assms(2-5,7,8,6) refl, of 0 "map junk [0..<512]" h] by auto
  with assms(1) show ?thesis by (simp add: fat12_list_root_def)
qed

definition last_entry :: raw_entry where
  "last_entry = readme\<lparr>r_name := str ''LAST''\<rparr>"

definition two_sector_fs :: "fat_instance file_system" where
  "two_sector_fs = small_fs 1\<lparr>instance_data := (instance_data (small_fs 1))\<lparr>fi_max_root_directory_entries := 32\<rparr>\<rparr>"

definition two_sector_disk :: "byte list list" where
  "two_sector_disk = [replicate 512 0, replicate 512 0, dir_bytes (replicate 16 readme) [],
     dir_bytes [last_entry] (replicate 480 0)]"

theorem list_root_result_witness:
  "\<exists>h' out. fat12_list_root (image_driver two_sector_disk) (\<lambda>_. 0) two_sector_fs (replicate 20 blank_entry) 0 () =
      Some (SUCCESS, out, 17, h') \<and>
    map (\<lambda>e. cstring_of (filename e)) (take 2 out) = [str ''LAST.TXT'', str ''README.TXT''] \<and>
    out ! 16 = blank_entry"
proof -
  have last: "raw_ok last_entry" "ends_in_field last_entry"
    by (simp_all add: raw_ok_def ends_in_field_def last_entry_def readme_def str_def name_char_def)
  have kind: "fat_type (instance_data two_sector_fs) = FAT12"
    "fi_root_dir_start (instance_data two_sector_fs) = 2"
    "unat (fi_max_root_directory_entries (instance_data two_sector_fs)) * 32 div 512 = 2"
    by (simp_all add: two_sector_fs_def small_fs_def)
  have disk: "sectors_512 two_sector_disk" "length two_sector_disk < 2 ^ 32"
    using readme_ok last
    by (simp_all add: sectors_512_def two_sector_disk_def length_dir_bytes list_all_iff)
  have root: "root_dir two_sector_disk (unat (2 :: u32)) [replicate 16 readme] [last_entry] (replicate 480 0)"
    using readme_ok last
    by (simp add: root_dir_def entries_ok_def stops_def two_sector_disk_def list_all_length)
  have "\<exists>h'. fat12_list_root (image_driver two_sector_disk) (\<lambda>_. 0) two_sector_fs (replicate 20 blank_entry) 0 () =
    Some (SUCCESS, listing (fat_type (instance_data two_sector_fs)) [last_entry]
      (fold (listing (fat_type (instance_data two_sector_fs))) [replicate 16 readme] (replicate 20 blank_entry)),
      of_nat (16 * length [replicate 16 readme] + length [last_entry]), h')"
    using root disk image_driver_serves [OF disk] blank_shape
    by (intro list_root_result) (simp_all only: kind, simp_all add: list_all_length)
  moreover have "map (\<lambda>e. cstring_of (filename e)) (take 2 (listing FAT12 [last_entry]
      (listing FAT12 (replicate 16 readme) (replicate 20 blank_entry)))) = [str ''LAST.TXT'', str ''README.TXT'']"
    by code_simp
  moreover have "listing FAT12 [last_entry] (listing FAT12 (replicate 16 readme) (replicate 20 blank_entry)) ! 16 = blank_entry"
    by simp
  ultimately show ?thesis by (auto simp: kind)
qed

text \<open>
  C18: A volume that \<open>fat12_init\<close> has opened on a driver that keeps its contract belongs to the
  given device and is the one its boot sector describes: the kind is the text in the sector, and the
  numbers of sectors per cluster, of reserved sectors, of tables, of sectors per table, of entries of
  the root directory and of all sectors, the start of the root directory, the serial number and the
  label are the bytes at the offsets of the FAT specification for this kind. Its table has been read
  from behind the reserved sectors, in its full size, and on FAT12 and FAT16 the data begin directly
  behind the reserved sectors, the tables and the root directory.
\<close>

theorem init_layout:
  assumes "block_driver drv"
    and "fat12_init drv stack junk dv fs_out h = Some (SUCCESS, fs, h')"
  shows "device fs = dv \<and> \<not> case_sensitive fs \<and>
    (\<exists>r b f h1. drv dv 0 1 stack h = Some (r, b, h1) \<and> describes_volume b (instance_data fs) \<and>
      read_sectors_lba drv dv (ucast (word_at_byte b 14)) (fi_sectors_per_fat (instance_data fs)) f h1 =
        Some (SUCCESS, fat (instance_data fs), h')) \<and>
    length (fat (instance_data fs)) = unat (fi_sectors_per_fat (instance_data fs) * 512) \<and>
    (fat_type (instance_data fs) = FAT32 \<or> first_data_sector fs =
       fi_root_dir_start (instance_data fs) + ucast (fi_max_root_directory_entries (instance_data fs)) * 32 div 512)"
proof -
  from assms(2) obtain r0 b h1 kind d r f where first: "drv dv 0 1 stack h = Some (r0, b, h1)"
    and kind: "fat_kind_of b = Some (Some kind)" and d: "parse_volume kind b = Some (Some d)"
    and r: "fat12_read_fat drv dv d (map junk [0..<unat (fi_sectors_per_fat d * 512)]) h1 = Some (r, f, h')" "r \<noteq> FAILURE"
    and fs: "fs = \<lparr>device = dv, case_sensitive = False, instance_data = d\<lparr>fat := f\<rparr>\<rparr>"
    by (auto simp: fat12_init_def bind_eq_Some_conv Let_def FAILURE_def SUCCESS_def split: option.splits if_splits)
  have "r = SUCCESS"
    using sector_reader.code [OF block_driver.lba_reader [OF assms(1)] r(1) [unfolded fat12_read_fat_def]] r(2) by simp
  note rd = r(1) [unfolded this]
  have "length f = unat (fi_sectors_per_fat d * 512)"
    using lba_length [OF assms(1) rd [unfolded fat12_read_fat_def]] by simp
  moreover have v: "describes_volume b d" by (rule parse_volume_describes [OF d kind])
  moreover have "describes_volume b (d\<lparr>fat := f\<rparr>) = describes_volume b d" by (simp add: describes_volume_def)
  moreover from v have "fi_num_reserved_sectors d = word_at_byte b 14" by (simp add: describes_volume_def)
  moreover note parse_volume_fields [OF d] rd [unfolded fat12_read_fat_def] first
  ultimately show ?thesis
    by (cases kind) (auto simp: fs first_data_sector_def Let_def)
qed

definition boot_sector :: "byte list" where
  "boot_sector = replicate 11 0 @ [0, 2, 1, 1, 0, 1, 16, 0, 7, 0, 0xF0, 1, 0] @ replicate 30 0 @
     str ''FAT12'' @ replicate 453 0"

definition boot_disk :: "byte list list" where
  "boot_disk = [boot_sector, [0xF0, 0xFF, 0xFF, 0x03, 0xF0, 0xFF] @ replicate 506 0] @ replicate 5 (replicate 512 0)"

lemma image_driver_contract:
  assumes "sectors_512 disk"
  shows "block_driver (image_driver disk)"
proof
  fix d lba count buf h r buf' h'
  assume "image_driver disk d lba count buf h = Some (r, buf', h')"
  then show "r = SUCCESS \<or> r = FAILURE" "length buf' = length buf"
    "drop (512 * unat count) buf' = drop (512 * unat count) buf"
    using length_sectors_of [OF assms, of "unat lba" "unat count"]
    by (auto simp: image_driver_def split: if_splits)
qed

definition usb_stick :: disk_device where
  "usb_stick = \<lparr>dev_type = HARD_DISK, device_num = 0, partition = RAW_DEVICE, offset = 0,
     block_size = 512, driver = Usb_Msd_Driver, driver_specific_data = 0\<rparr>"

lemma boot_volume:
  "fat_kind_of boot_sector = Some (Some FAT12)"
  "map_option (map_option (\<lambda>d. (fi_num_reserved_sectors d, fi_sectors_per_fat d, fi_root_dir_start d,
     fi_max_root_directory_entries d))) (parse_volume FAT12 boot_sector) = Some (Some (1, 1, 2, 16))"
  by code_simp+

theorem init_layout_witness:
  "\<exists>fs. fat12_init (image_driver boot_disk) (replicate 512 0) (\<lambda>_. 0) usb_stick (small_fs 9) () = Some (SUCCESS, fs, ()) \<and>
    device fs = usb_stick \<and> describes_volume boot_sector (instance_data fs) \<and> length (fat (instance_data fs)) = 512 \<and>
    first_data_sector fs = fi_root_dir_start (instance_data fs) + 1"
proof -
  have disk: "sectors_512 boot_disk"
    by (simp add: sectors_512_def boot_disk_def boot_sector_def list_all_iff)
  obtain d where d: "parse_volume FAT12 boot_sector = Some (Some d)" "fi_num_reserved_sectors d = 1"
    "fi_sectors_per_fat d = 1" "fi_max_root_directory_entries d = 16"
    using boot_volume(2) by auto
  have s0: "sectors_of boot_disk 0 1 = boot_sector" by (simp add: sectors_of_def boot_disk_def)
  have l: "length boot_disk = 7" by (simp add: boot_disk_def)
  have rd: "image_driver boot_disk usb_stick 0 1 (replicate 512 0) () = Some (SUCCESS, boot_sector, ())"
    using s0 l by (simp add: image_driver_def)
  have fat: "\<exists>f. fat12_read_fat (image_driver boot_disk) usb_stick d (map (\<lambda>_. 0) [0..<512]) () = Some (SUCCESS, f, ())"
    using d l by (simp add: fat12_read_fat_def read_sectors_lba_def usb_stick_def image_driver_def)
  obtain fs where fs: "fat12_init (image_driver boot_disk) (replicate 512 0) (\<lambda>_. 0) usb_stick (small_fs 9) () =
      Some (SUCCESS, fs, ())" and k: "fat_type (instance_data fs) = FAT12" "fi_sectors_per_fat (instance_data fs) = 1"
    "fi_max_root_directory_entries (instance_data fs) = 16"
    using fat d parse_volume_fields [OF d(1)] by (auto simp: fat12_init_def rd boot_volume(1) Let_def)
  with init_layout [OF image_driver_contract [OF disk] fs] rd show ?thesis by auto
qed

end
