(* ===== verification/Vfs.thy ===== *)
theory Vfs
  imports BlockTable FsDriver
begin

text \<open>
  The virtual file system, \<open>drivers/fs/fs.c\<close>, with the \<open>read\<close> and \<open>write\<close> of
  \<open>core/stream.c\<close>: mount points, paths, the table of open files.

  The drivers behind the function pointers are a parameter, the record \<open>services\<close>. Pointers
  to mounted file systems and to block devices are indices into \<open>fs_mounts\<close> and
  \<open>block_devices\<close>. The members of the union in a file handle are kept side by side; the code
  reads only the one that belongs to the type. Local arrays for strings start with zeroes: no
  byte behind the terminator is read.
\<close>

section \<open>State\<close>

definition MAX_MOUNTPOINTS :: nat where
  "MAX_MOUNTPOINTS = 16"

definition MOUNTPOINT_LENGTH :: nat where
  "MOUNTPOINT_LENGTH = 64"

definition MAX_FILES :: nat where
  "MAX_FILES = 16"

datatype handle_type = NULL | FILE | STREAM | BLOCK

datatype stream_device = Screen_Console | Com1

record 'i file_system_mount =
  mount_point :: "byte list"
  mfs :: "'i file_system"

record file_handle =
  handle_type :: handle_type
  hpath :: "byte list"
  filesystem :: nat
  hlocation :: u32
  hsize :: u32
  block_device :: nat
  cursor :: u32
  stream_device :: stream_device

record 'i vfs = block_table +
  fs_mounts :: "'i file_system_mount list"
  fs_mounts_count :: nat
  cwd :: "byte list"
  open_files :: "file_handle list"

text \<open>
  The functions behind the pointers of the structs: the block driver, the two operations of the
  file system driver, and the stream devices.
\<close>

record ('i, 'h) services =
  sectors :: "'h read_sectors"
  list_root_of :: "('i, 'h) list_root_fn"
  read_file_of :: "('i, 'h) read_file_fn"
  stream_read :: "stream_device \<Rightarrow> byte list \<Rightarrow> int \<Rightarrow> 'h \<Rightarrow> (byte list \<times> 'h) option"
  stream_write :: "stream_device \<Rightarrow> byte list \<Rightarrow> int \<Rightarrow> 'h \<Rightarrow> 'h option"

section \<open>Mount points\<close>

definition get_next_index_for_mount_type :: "byte list \<Rightarrow> 'i vfs \<Rightarrow> nat option" where
  "get_next_index_for_mount_type mount_point_name st = do {
     length \<leftarrow> strlen mount_point_name;
     for_loop (\<lambda>i count. do {
         e \<leftarrow> rd (fs_mounts st) (fs_mounts_count st);
         same \<leftarrow> strcmp_wl (mount_point e) mount_point_name length;
         Some (if same then count + 1 else count) })
       [0..<fs_mounts_count st] 0 }"

definition mount_fs :: "'i file_system \<Rightarrow> byte list \<Rightarrow> 'i vfs \<Rightarrow> (int \<times> 'i vfs) option" where
  "mount_fs fs mount_point_name st = do {
     let n = fs_mounts_count st;
     length \<leftarrow> strlen mount_point_name;
     e \<leftarrow> rd (fs_mounts st) n;
     name \<leftarrow> strcpy mount_point_name (mount_point e);
     ms \<leftarrow> wr (fs_mounts st) n (e\<lparr>mfs := fs, mount_point := name\<rparr>);
     let st = st\<lparr>fs_mounts := ms\<rparr>;
     index \<leftarrow> get_next_index_for_mount_type mount_point_name st;
     if index \<ge> MAX_MOUNTPOINTS then Some (FAILURE, st)
     else do {
       name \<leftarrow> wr name length (digit index);
       name \<leftarrow> wr name (length + 1) 0;
       ms \<leftarrow> wr ms n (e\<lparr>mfs := fs, mount_point := name\<rparr>);
       Some (SUCCESS, st\<lparr>fs_mounts := ms, fs_mounts_count := n + 1\<rparr>) } }"

section \<open>Paths\<close>

text \<open>
  The first component of the path, copied to the array \<open>mountpoint\<close> of 64 characters; the
  rest begins behind the slash. \<open>None\<close> inside is the failure for a path without a second
  slash.
\<close>

fun mount_component :: "byte list \<Rightarrow> byte list \<Rightarrow> nat \<Rightarrow> (byte list \<times> byte list) option option" where
  "mount_component [] mountpoint i = None"
| "mount_component (c # path) mountpoint i =
     (if c = 47 then Some (Some (mountpoint, path))
      else if c = 0 then Some None
      else do { mountpoint \<leftarrow> wr mountpoint i c; mount_component path mountpoint (i + 1) })"

fun find_mount :: "byte list \<Rightarrow> nat list \<Rightarrow> 'i vfs \<Rightarrow> nat option option" where
  "find_mount mountpoint [] st = Some None"
| "find_mount mountpoint (i # is) st = do {
     e \<leftarrow> rd (fs_mounts st) i;
     same \<leftarrow> strcmp (mount_point e) mountpoint;
     if same then Some (Some i) else find_mount mountpoint is st }"

definition get_fs_for_path :: "byte list \<Rightarrow> 'i vfs \<Rightarrow> (nat \<times> byte list) option option" where
  "get_fs_for_path path st = do {
     c \<leftarrow> rd path 0;
     if c \<noteq> 47 then Some None
     else do {
       comp \<leftarrow> mount_component (drop 1 path) (replicate MOUNTPOINT_LENGTH 0) 0;
       (case comp of
          None \<Rightarrow> Some None
        | Some (mountpoint, rest) \<Rightarrow> do {
            m \<leftarrow> find_mount mountpoint [0..<fs_mounts_count st] st;
            Some (map_option (\<lambda>i. (i, rest)) m) }) } }"

definition normalise_path :: "byte list \<Rightarrow> byte list \<Rightarrow> 'i vfs \<Rightarrow> byte list option" where
  "normalise_path path_in path_out st = do {
     c \<leftarrow> rd path_in 0;
     if c = 47 then strcpy path_in path_out
     else do {
       n \<leftarrow> strlen path_in;
       at_root \<leftarrow> (if n = 0 then strcmp (cwd st) (str ''/'' @ [0]) else Some False);
       if at_root then strcpy (cwd st) path_out
       else do {
         path_out \<leftarrow> strcpy (cwd st) path_out;
         path_out \<leftarrow> strcat path_out (str ''/'' @ [0]);
         strcat path_out path_in } } }"

section \<open>Listings\<close>

definition write_virtual_dirent :: "dir_entry \<Rightarrow> byte list \<Rightarrow> dir_entry option" where
  "write_virtual_dirent e name = do {
     fname \<leftarrow> strcpy name (filename e);
     Some (e\<lparr>directory := True, file_size := 0, location_on_disk := 0, filename := fname\<rparr>) }"

definition put_virtual :: "nat \<Rightarrow> byte list \<Rightarrow> dir_entry list \<Rightarrow> dir_entry list option" where
  "put_virtual i name out = do {
     e \<leftarrow> rd out i;
     e \<leftarrow> write_virtual_dirent e name;
     wr out i e }"

definition list_root :: "'i vfs \<Rightarrow> dir_entry list \<Rightarrow> (int \<times> dir_entry list \<times> u16) option" where
  "list_root st out = do {
     out \<leftarrow> put_virtual 0 (str ''dev'' @ [0]) out;
     out \<leftarrow> for_loop (\<lambda>i out. do {
         m \<leftarrow> rd (fs_mounts st) i;
         put_virtual (i + 1) (mount_point m) out }) [0..<fs_mounts_count st] out;
     Some (SUCCESS, out, of_nat (1 + fs_mounts_count st)) }"

definition list_dev :: "'i vfs \<Rightarrow> dir_entry list \<Rightarrow> (int \<times> dir_entry list \<times> u16) option" where
  "list_dev st out = do {
     out \<leftarrow> for_loop (\<lambda>i out. do {
         d \<leftarrow> rd (block_devices st) i;
         put_virtual i (device_name d) out }) [0..<block_devices_count st] out;
     Some (SUCCESS, out, of_nat (block_devices_count st)) }"

definition list_dir ::
  "('i, 'h) services \<Rightarrow> byte list \<Rightarrow> dir_entry list \<Rightarrow> u16 \<Rightarrow> 'i vfs \<Rightarrow> 'h \<Rightarrow>
     (int \<times> dir_entry list \<times> u16 \<times> 'h) option" where
  "list_dir sv path out num st h = do {
     normalised_path \<leftarrow> normalise_path path (replicate 256 0) st;
     is_root \<leftarrow> strcmp normalised_path (str ''/'' @ [0]);
     if is_root then do { (r, out, num) \<leftarrow> list_root st out; Some (r, out, num, h) }
     else do {
       is_dev \<leftarrow> strcmp normalised_path (str ''/dev/'' @ [0]);
       if is_dev then do { (r, out, num) \<leftarrow> list_dev st out; Some (r, out, num, h) }
       else do {
         res \<leftarrow> get_fs_for_path normalised_path st;
         (case res of
            None \<Rightarrow> Some (FAILURE, out, num, h)
          | Some (i, _) \<Rightarrow> do {
              m \<leftarrow> rd (fs_mounts st) i;
              list_root_of sv (mfs m) out num h }) } } }"

section \<open>Files\<close>

text \<open>
  \<open>find_file\<close>: \<open>dirs\<close> and \<open>num\<close> are the uninitialised \<open>dir_entry_list\<close> of 16 entries and
  \<open>num_entries\<close>. The answer of the listing is tested with \<open>!\<close>.
\<close>

fun find_entry :: "byte list \<Rightarrow> nat list \<Rightarrow> dir_entry list \<Rightarrow> dir_entry option option" where
  "find_entry name [] dirs = Some None"
| "find_entry name (i # is) dirs = do {
     e \<leftarrow> rd dirs i;
     same \<leftarrow> strcmp (filename e) name;
     if same then Some (Some e) else find_entry name is dirs }"

definition find_file ::
  "('i, 'h) services \<Rightarrow> dir_entry list \<Rightarrow> u16 \<Rightarrow> 'i file_system \<Rightarrow> byte list \<Rightarrow> 'h \<Rightarrow>
     (dir_entry option \<times> 'h) option" where
  "find_file sv dirs num fs path h = do {
     path_copy \<leftarrow> strcpy path (replicate 256 0);
     path_copy \<leftarrow> (if case_sensitive fs then Some path_copy else strupr path_copy);
     (list_res, dirs, num, h) \<leftarrow> list_root_of sv fs dirs num h;
     if \<not> c_true list_res then Some (None, h)
     else do {
       e \<leftarrow> find_entry path_copy [0..<unat num] dirs;
       Some (e, h) } }"

fun first_closed :: "file_handle list \<Rightarrow> nat list \<Rightarrow> int option" where
  "first_closed hs [] = Some (- 1)"
| "first_closed hs (i # is) = do {
     e \<leftarrow> rd hs i;
     if handle_type e = NULL then Some (int i) else first_closed hs is }"

definition next_file_handle :: "'i vfs \<Rightarrow> int option" where
  "next_file_handle st = first_closed (open_files st) [0..<MAX_FILES]"

fun find_block :: "byte list \<Rightarrow> nat list \<Rightarrow> 'i vfs \<Rightarrow> nat option option" where
  "find_block name [] st = Some None"
| "find_block name (i # is) st = do {
     e \<leftarrow> rd (block_devices st) i;
     same \<leftarrow> strcmp (device_name e) name;
     if same then Some (Some i) else find_block name is st }"

text \<open>Filling in the handle; a handle number of -1 is a write before the table.\<close>

definition put_handle :: "int \<Rightarrow> (file_handle \<Rightarrow> file_handle) \<Rightarrow> byte list \<Rightarrow> 'i vfs \<Rightarrow> 'i vfs option" where
  "put_handle fp upd path st = (if fp < 0 then None else do {
     e \<leftarrow> rd (open_files st) (nat fp);
     p \<leftarrow> strcpy path (hpath e);
     hs \<leftarrow> wr (open_files st) (nat fp) (upd e\<lparr>hpath := p\<rparr>);
     Some (st\<lparr>open_files := hs\<rparr>) })"

definition open_file ::
  "('i, 'h) services \<Rightarrow> dir_entry list \<Rightarrow> u16 \<Rightarrow> byte list \<Rightarrow> 'i vfs \<Rightarrow> 'h \<Rightarrow> (int \<times> 'i vfs \<times> 'h) option" where
  "open_file sv dirs num path st h = do {
     fp \<leftarrow> next_file_handle st;
     if fp = 0 then Some (- 1, st, h)
     else do {
       normalised_path \<leftarrow> normalise_path path (replicate 256 0) st;
       is_dev \<leftarrow> strcmp_wl normalised_path (str ''/dev/'' @ [0]) 5;
       if is_dev then do {
         dv \<leftarrow> find_block (drop 5 normalised_path) [0..<block_devices_count st] st;
         (case dv of
            None \<Rightarrow> Some (FAILURE, st, h)
          | Some i \<Rightarrow> do {
              st \<leftarrow> put_handle fp (\<lambda>e. e\<lparr>handle_type := BLOCK, block_device := i, cursor := 0\<rparr>) path st;
              Some (fp, st, h) }) }
       else do {
         res \<leftarrow> get_fs_for_path normalised_path st;
         (case res of
            None \<Rightarrow> Some (FAILURE, st, h)
          | Some (i, fs_path) \<Rightarrow> do {
              m \<leftarrow> rd (fs_mounts st) i;
              (found, h) \<leftarrow> find_file sv dirs num (mfs m) fs_path h;
              (case found of
                 None \<Rightarrow> Some (- 1, st, h)
               | Some d \<Rightarrow> do {
                   st \<leftarrow> put_handle fp (\<lambda>e. e\<lparr>handle_type := FILE, filesystem := i,
                     hlocation := location_on_disk d, hsize := file_size d\<rparr>) path st;
                   Some (fp, st, h) }) }) } } }"

definition close_file :: "nat \<Rightarrow> 'i vfs \<Rightarrow> 'i vfs option" where
  "close_file fd st = do {
     e \<leftarrow> rd (open_files st) fd;
     hs \<leftarrow> wr (open_files st) fd (e\<lparr>handle_type := NULL\<rparr>);
     Some (st\<lparr>open_files := hs\<rparr>) }"

text \<open>
  \<open>read\<close> answers the length of the file, a 32-bit number that is read as a signed one;
  \<open>clusters\<close> is its uninitialised local.
\<close>

definition read_handle ::
  "('i, 'h) services \<Rightarrow> u32 \<Rightarrow> nat \<Rightarrow> byte list \<Rightarrow> int \<Rightarrow> 'i vfs \<Rightarrow> 'h \<Rightarrow> (int \<times> byte list \<times> 'h) option" where
  "read_handle sv clusters fp buffer len st h = do {
     e \<leftarrow> rd (open_files st) fp;
     (case handle_type e of
        NULL \<Rightarrow> Some (FAILURE, buffer, h)
      | STREAM \<Rightarrow> do {
          (buffer, h) \<leftarrow> stream_read sv (stream_device e) buffer len h;
          Some (SUCCESS, buffer, h) }
      | FILE \<Rightarrow> do {
          m \<leftarrow> rd (fs_mounts st) (filesystem e);
          (r, buffer, _, h) \<leftarrow> read_file_of sv (mfs m) (hlocation e) buffer clusters h;
          Some (if r = FAILURE then FAILURE else sint (hsize e), buffer, h) }
      | BLOCK \<Rightarrow> do {
          d \<leftarrow> rd (block_devices st) (block_device e);
          (_, buffer, h) \<leftarrow> sectors sv (dev d) (cursor e div 512) 1 buffer h;
          Some (512, buffer, h) }) }"

definition write_handle ::
  "('i, 'h) services \<Rightarrow> nat \<Rightarrow> byte list \<Rightarrow> int \<Rightarrow> 'i vfs \<Rightarrow> 'h \<Rightarrow> (int \<times> 'h) option" where
  "write_handle sv fp buffer len st h = do {
     e \<leftarrow> rd (open_files st) fp;
     if handle_type e = NULL then Some (FAILURE, h)
     else if handle_type e = STREAM then do {
       h \<leftarrow> stream_write sv (stream_device e) buffer len h;
       Some (SUCCESS, h) }
     else Some (FAILURE, h) }"

definition read_file ::
  "('i, 'h) services \<Rightarrow> dir_entry list \<Rightarrow> u16 \<Rightarrow> u32 \<Rightarrow> byte list \<Rightarrow> byte list \<Rightarrow> u16 \<Rightarrow> 'i vfs \<Rightarrow> 'h \<Rightarrow>
     (int \<times> byte list \<times> u16 \<times> 'i vfs \<times> 'h) option" where
  "read_file sv dirs num clusters path buffer len st h = do {
     (fd, st, h) \<leftarrow> open_file sv dirs num path st h;
     if fd < 0 then Some (FAILURE, buffer, len, st, h)
     else do {
       (result, buffer, h) \<leftarrow> read_handle sv clusters (nat fd) buffer 10000 st h;
       if result = FAILURE then Some (FAILURE, buffer, len, st, h)
       else do {
         st \<leftarrow> close_file (nat fd) st;
         Some (SUCCESS, buffer, of_int result, st, h) } } }"

end
