(* ===== verification/VfsMounts.thy ===== *)
theory VfsMounts
  imports Vfs
begin

text \<open>
  Mounting and path resolution: the names \<open>mount_fs\<close> gives, and which file system a path
  leads to.
\<close>

section \<open>The names of the mounts\<close>

text \<open>
  The index counts the new entry itself, whose name always begins with its type, once for every
  mount there is: it is the number of mounts, whatever their types.
\<close>

definition mount_index :: "byte list list \<Rightarrow> byte list \<Rightarrow> nat" where
  "mount_index ns t = length ns"

definition mount_names_ok :: "byte list list \<Rightarrow> bool" where
  "mount_names_ok ns \<longleftrightarrow> (\<forall>i < length ns. i < 16 \<and> (\<exists>t. ns ! i = numbered t i))"

interpretation mounts: numbered_registry mount_index mount_names_ok
proof
  show "mount_names_ok []" by (simp add: mount_names_ok_def)
next
  fix ns t assume "mount_names_ok ns" and "mount_index ns t < 16"
  then show "mount_names_ok (ns @ [numbered t (mount_index ns t)])"
    by (auto simp: mount_names_ok_def mount_index_def nth_append less_Suc_eq)
next
  fix ns t assume ok: "mount_names_ok ns" and "mount_index ns t < 16"
  then have n: "length ns < 16" by (simp add: mount_index_def)
  show "numbered t (mount_index ns t) \<notin> set ns"
  proof
    assume "numbered t (mount_index ns t) \<in> set ns"
    then obtain i where i: "i < length ns" "ns ! i = numbered t (mount_index ns t)"
      by (metis in_set_conv_nth)
    from ok i(1) obtain t' where "ns ! i = numbered t' i" unfolding mount_names_ok_def by blast
    with i n show False by (simp add: numbered_inj mount_index_def)
  qed
qed

definition mount_names :: "'i vfs \<Rightarrow> byte list list" where
  "mount_names st = map (\<lambda>m. cstring_of (mount_point m)) (take (fs_mounts_count st) (fs_mounts st))"

definition mounts_ok :: "'i vfs \<Rightarrow> bool" where
  "mounts_ok st \<longleftrightarrow> length (fs_mounts st) = MAX_MOUNTPOINTS \<and> fs_mounts_count st \<le> MAX_MOUNTPOINTS \<and>
     list_all (\<lambda>m. length (mount_point m) = MOUNTPOINT_LENGTH) (fs_mounts st) \<and>
     list_all (\<lambda>m. 0 \<in> set (mount_point m)) (take (fs_mounts_count st) (fs_mounts st)) \<and>
     mount_names_ok (mount_names st)"

lemma length_mount_names [simp]: "mounts_ok st \<Longrightarrow> length (mount_names st) = fs_mounts_count st"
  by (simp add: mount_names_def mounts_ok_def)

lemma mount_holds:
  assumes "mounts_ok st" and "i < fs_mounts_count st"
  shows "i < length (fs_mounts st)" and "holds (mount_point (fs_mounts st ! i)) (mount_names st ! i)"
proof -
  show "i < length (fs_mounts st)" using assms by (simp add: mounts_ok_def)
  moreover have "0 \<in> set (mount_point (fs_mounts st ! i))"
    using assms by (simp add: mounts_ok_def list_all_length)
  ultimately show "holds (mount_point (fs_mounts st ! i)) (mount_names st ! i)"
    using assms by (simp add: mount_names_def mounts_ok_def holds_cstring_of)
qed

section \<open>Mounting\<close>

definition new_mount :: "'i file_system \<Rightarrow> byte list \<Rightarrow> 'i vfs \<Rightarrow> 'i file_system_mount" where
  "new_mount fs t st = (let e = fs_mounts st ! fs_mounts_count st
     in e\<lparr>mfs := fs, mount_point := numbered t (fs_mounts_count st) @ 0 # drop (Suc (Suc (length t))) (mount_point e)\<rparr>)"

definition add_mount :: "'i file_system \<Rightarrow> byte list \<Rightarrow> 'i vfs \<Rightarrow> 'i vfs" where
  "add_mount fs t st = st\<lparr>fs_mounts := (fs_mounts st)[fs_mounts_count st := new_mount fs t st],
     fs_mounts_count := fs_mounts_count st + 1\<rparr>"

lemma new_mount_simps [simp]:
  "mfs (new_mount fs t st) = fs"
  "mount_point (new_mount fs t st) = numbered t (fs_mounts_count st) @
     0 # drop (Suc (Suc (length t))) (mount_point (fs_mounts st ! fs_mounts_count st))"
  by (simp_all add: new_mount_def Let_def)

lemma add_mount_simps [simp]:
  "fs_mounts (add_mount fs t st) = (fs_mounts st)[fs_mounts_count st := new_mount fs t st]"
  "fs_mounts_count (add_mount fs t st) = Suc (fs_mounts_count st)"
  by (simp_all add: add_mount_def)

lemma next_mount_index:
  assumes "holds name t" and "n < length ms" and "take (length t) (mount_point (ms ! n)) = t"
    and "length t < length (mount_point (ms ! n))" and "fs_mounts st = ms" and "fs_mounts_count st = n"
    and "holds (mount_point (ms ! n)) t"
  shows "get_next_index_for_mount_type name st = Some n"
proof -
  have same: "strcmp_wl (mount_point (ms ! n)) name (length t) = Some True"
    using strcmp_wl_prefix [OF assms(7,1)] by simp
  have "for_loop (\<lambda>i count. do {
         e \<leftarrow> rd (fs_mounts st) (fs_mounts_count st);
         same \<leftarrow> strcmp_wl (mount_point e) name (length t);
         Some (if same then count + 1 else count) }) [0..<n] 0 = Some (0 + length (filter (\<lambda>_. True) [0..<n]))"
    using assms same by (intro for_loop_count) simp
  then show ?thesis using assms by (simp add: get_next_index_for_mount_type_def strlen_of_holds)
qed

lemma mount_fs_eq:
  assumes ok: "mounts_ok st" and name: "holds name t" and "length t \<le> 62"
    and room: "fs_mounts_count st < MAX_MOUNTPOINTS"
  shows "mount_fs fs name st = Some (SUCCESS, add_mount fs t st)"
proof -
  let ?n = "fs_mounts_count st" and ?e = "fs_mounts st ! fs_mounts_count st"
  let ?name = "t @ 0 # drop (Suc (length t)) (mount_point ?e)"
  let ?ms = "(fs_mounts st)[?n := ?e\<lparr>mfs := fs, mount_point := ?name\<rparr>]"
  have n: "?n < length (fs_mounts st)" using ok room by (simp add: mounts_ok_def)
  have le: "length (mount_point ?e) = 64"
    using ok n by (simp add: mounts_ok_def MOUNTPOINT_LENGTH_def list_all_length)
  have cpy: "strcpy name (mount_point ?e) = Some ?name"
    using name assms(3) le by (intro strcpy_of_holds) auto
  have h: "holds ?name t" using holds_cstr [OF name] by (rule holds_intro)
  have idx: "get_next_index_for_mount_type name (st\<lparr>fs_mounts := ?ms\<rparr>) = Some ?n"
    using n le assms(3) h name by (intro next_mount_index [of name t _ ?ms]) simp_all
  have w: "wr ?name (length t) (digit ?n) = Some (t @ digit ?n # drop (Suc (length t)) (mount_point ?e))"
    by (simp add: wr_def)
  have w2: "wr (t @ digit ?n # drop (Suc (length t)) (mount_point ?e)) (Suc (length t)) 0 =
      Some (numbered t ?n @ 0 # drop (Suc (Suc (length t))) (mount_point ?e))"
    using assms(3) le by (simp add: wr_def numbered_def list_update_append Cons_nth_drop_Suc [symmetric])
  show ?thesis
    using n room name
    by (simp add: mount_fs_def strlen_of_holds cpy idx w w2 MAX_MOUNTPOINTS_def add_mount_def new_mount_def Let_def)
qed

lemma add_mount_names:
  assumes "mounts_ok st" and "is_cstr t" and "fs_mounts_count st < MAX_MOUNTPOINTS"
  shows "mount_names (add_mount fs t st) = mount_names st @ [numbered t (fs_mounts_count st)]"
proof -
  have "fs_mounts_count st < length (fs_mounts st)" "fs_mounts_count st < 16"
    using assms(1,3) by (simp_all add: mounts_ok_def MAX_MOUNTPOINTS_def)
  moreover from this have "cstring_of (numbered t (fs_mounts_count st) @ 0 # r) = numbered t (fs_mounts_count st)" for r
    using assms(2) by (intro cstring_of_holds holds_intro) simp
  ultimately show ?thesis by (simp add: mount_names_def take_Suc_conv_app_nth)
qed

lemma add_mount_ok:
  assumes ok: "mounts_ok st" and t: "is_cstr t" "length t \<le> 62" and room: "fs_mounts_count st < MAX_MOUNTPOINTS"
  shows "mounts_ok (add_mount fs t st)"
proof -
  let ?n = "fs_mounts_count st"
  have n: "?n < length (fs_mounts st)" using ok room by (simp add: mounts_ok_def)
  have l: "length (mount_point (fs_mounts st ! ?n)) = 64"
    using ok n by (simp add: mounts_ok_def list_all_length MOUNTPOINT_LENGTH_def)
  have "list_all (\<lambda>m. length (mount_point m) = 64) ((fs_mounts st)[?n := new_mount fs t st])"
    unfolding list_all_length
  proof (intro allI impI)
    fix i assume i: "i < length ((fs_mounts st)[?n := new_mount fs t st])"
    show "length (mount_point ((fs_mounts st)[?n := new_mount fs t st] ! i)) = 64"
      using ok t(2) l i n by (cases "i = ?n") (simp_all add: mounts_ok_def list_all_length MOUNTPOINT_LENGTH_def)
  qed
  moreover have "list_all (\<lambda>m. 0 \<in> set (mount_point m)) (take (Suc ?n) ((fs_mounts st)[?n := new_mount fs t st]))"
    using ok n by (simp add: take_Suc_conv_app_nth mounts_ok_def)
  moreover have "mount_names_ok (mount_names st @ [numbered t ?n])"
    using mounts.invar_add [of "mount_names st" t] ok room
    by (simp add: mount_index_def mounts_ok_def mount_names_def MAX_MOUNTPOINTS_def)
  ultimately show ?thesis
    using ok room n by (simp add: mounts_ok_def add_mount_names [OF ok t(1) room] MOUNTPOINT_LENGTH_def)
qed

text \<open>Mounts in a row, as \<open>main\<close> makes them.\<close>

fun mount_all :: "('i file_system \<times> byte list) list \<Rightarrow> 'i vfs \<Rightarrow> 'i vfs option" where
  "mount_all [] st = Some st"
| "mount_all ((fs, name) # ms) st = do {
     (_, st) \<leftarrow> mount_fs fs name st;
     mount_all ms st }"

lemma mount_all_spec:
  assumes "mounts_ok st" and "distinct (mount_names st)"
    and "list_all (\<lambda>(fs, name). 0 \<in> set name \<and> length (cstring_of name) \<le> 62) ms"
    and "fs_mounts_count st + length ms \<le> MAX_MOUNTPOINTS"
  shows "\<exists>st'. mount_all ms st = Some st' \<and> mounts_ok st' \<and> distinct (mount_names st') \<and>
    mount_names st' = mounts.names_after (mount_names st) (map (\<lambda>(fs, name). cstring_of name) ms) \<and>
    map mfs (take (fs_mounts_count st') (fs_mounts st')) =
      map mfs (take (fs_mounts_count st) (fs_mounts st)) @ map fst ms"
  using assms
proof (induction ms arbitrary: st)
  case Nil
  then show ?case by simp
next
  case (Cons m ms)
  obtain fs name where m: "m = (fs, name)" by (cases m)
  let ?t = "cstring_of name" and ?n = "fs_mounts_count st"
  have t: "holds name ?t" "length ?t \<le> 62" using Cons.prems(3) m by (simp_all add: holds_cstring_of)
  have cstr: "is_cstr ?t" using t(1) by (rule holds_cstr)
  have room: "?n < MAX_MOUNTPOINTS" using Cons.prems(4) by simp
  then have n: "?n < length (fs_mounts st)" "mount_index (mount_names st) ?t < 16"
    using Cons.prems(1) by (simp_all add: mounts_ok_def mount_index_def mount_names_def MAX_MOUNTPOINTS_def)
  let ?st = "add_mount fs ?t st"
  have inv: "mount_names_ok (mount_names st)" using Cons.prems(1) by (simp add: mounts_ok_def)
  have names: "mount_names ?st = mount_names st @ [numbered ?t (mount_index (mount_names st) ?t)]"
    using add_mount_names [OF Cons.prems(1) cstr room] Cons.prems(1) by (simp add: mount_index_def)
  have dist: "distinct (mount_names ?st)"
    using mounts.add_distinct [OF inv Cons.prems(2) n(2)] by (simp add: names)
  have devs: "map mfs (take (fs_mounts_count ?st) (fs_mounts ?st)) = map mfs (take ?n (fs_mounts st)) @ [fs]"
    using n by (simp add: take_Suc_conv_app_nth)
  have "\<exists>st'. mount_all ms ?st = Some st' \<and> mounts_ok st' \<and> distinct (mount_names st') \<and>
    mount_names st' = mounts.names_after (mount_names ?st) (map (\<lambda>(fs, name). cstring_of name) ms) \<and>
    map mfs (take (fs_mounts_count st') (fs_mounts st')) =
      map mfs (take (fs_mounts_count ?st) (fs_mounts ?st)) @ map fst ms"
    using Cons.prems by (intro Cons.IH [OF add_mount_ok [OF Cons.prems(1) cstr t(2) room] dist]) simp_all
  then show ?case
    using mount_fs_eq [OF Cons.prems(1) t(1,2) room] m n(2)
    by (auto simp: names devs devs [unfolded add_mount_simps])
qed

section \<open>Paths\<close>

definition component_ok :: "byte list \<Rightarrow> bool" where
  "component_ok s \<longleftrightarrow> is_cstr s \<and> 47 \<notin> set s \<and> length s < MOUNTPOINT_LENGTH"

lemma mount_component_from:
  "is_cstr s \<Longrightarrow> 47 \<notin> set s \<Longrightarrow> length s \<le> k \<Longrightarrow>
     mount_component (s @ 47 # r) (p @ replicate k 0) (length p) =
       Some (Some (p @ s @ replicate (k - length s) 0, r))"
proof (induction s arbitrary: p k)
  case (Cons c s)
  then obtain j where k: "k = Suc j" by (cases k) auto
  with Cons.IH [of j "p @ [c]"] Cons.prems show ?case by (simp add: wr_def list_update_append)
qed simp

lemma find_mount_eq:
  assumes "mounts_ok st" and "holds mp s" and "length s < 64"
  shows "\<forall>i \<in> set is. i < fs_mounts_count st \<Longrightarrow>
    find_mount mp is st = Some (find (\<lambda>i. mount_names st ! i = s) is)"
proof (induction "is")
  case (Cons i "is")
  then have i: "i < fs_mounts_count st" by simp
  have "length (mount_names st ! i) < 64"
  proof -
    have "length (mount_point (fs_mounts st ! i)) = 64"
      using assms(1) mount_holds(1) [OF assms(1) i] by (simp add: mounts_ok_def list_all_length MOUNTPOINT_LENGTH_def)
    then show ?thesis using holds_length [OF mount_holds(2) [OF assms(1) i]] by simp
  qed
  then have "strcmp (mount_point (fs_mounts st ! i)) mp = Some (mount_names st ! i = s)"
    using strcmp_of_holds [OF mount_holds(2) [OF assms(1) i] assms(2)] assms(3) by (simp add: UINT32_T_MAX_def)
  with Cons show ?case using mount_holds(1) [OF assms(1) i] by simp
qed simp

lemma get_fs_for_path_eq:
  assumes "mounts_ok st" and "component_ok s"
  shows "get_fs_for_path (47 # s @ 47 # r) st =
    Some (map_option (\<lambda>i. (i, r)) (find (\<lambda>i. mount_names st ! i = s) [0..<fs_mounts_count st]))"
proof -
  have s: "is_cstr s" "47 \<notin> set s" "length s < 64"
    using assms(2) by (simp_all add: component_ok_def MOUNTPOINT_LENGTH_def)
  have c: "mount_component (s @ 47 # r) (replicate 64 0) 0 = Some (Some (s @ replicate (64 - length s) 0, r))"
    using mount_component_from [of s 64 r "[]"] s by simp
  obtain j where "64 - length s = Suc j" using s(3) by (metis Suc_diff_Suc)
  then have "holds (s @ replicate (64 - length s) 0) s" using s(1) by (simp add: holds_intro)
  from find_mount_eq [OF assms(1) this s(3), of "[0..<fs_mounts_count st]"] show ?thesis
    by (simp add: get_fs_for_path_def c MOUNTPOINT_LENGTH_def)
qed

text \<open>With distinct names a path leads to the mount whose name it begins with.\<close>

lemma get_fs_for_path_mount:
  assumes "mounts_ok st" and "distinct (mount_names st)" and "k < fs_mounts_count st"
    and "component_ok (mount_names st ! k)"
  shows "get_fs_for_path (47 # mount_names st ! k @ 47 # r) st = Some (Some (k, r))"
proof -
  have "find (\<lambda>i. mount_names st ! i = mount_names st ! k) [0..<fs_mounts_count st] = Some k"
    using assms(1-3) by (auto simp: find_Some_iff nth_eq_iff_index_eq intro!: exI [of _ k])
  then show ?thesis using get_fs_for_path_eq [OF assms(1,4), of r] by simp
qed

text \<open>The absolute path a path stands for, with the working directory \<open>w\<close>.\<close>

definition absolute :: "byte list \<Rightarrow> byte list \<Rightarrow> byte list" where
  "absolute w p = (if p \<noteq> [] \<and> hd p = 47 then p else if p = [] \<and> w = str ''/'' then w else w @ 47 # p)"

lemma normalise_path_eq:
  assumes p: "holds path_in p" and w: "holds (cwd st) w" and "length (absolute w p) < length path_out"
    and "length w < 256"
  shows "\<exists>ob. normalise_path path_in path_out st = Some ob \<and> holds ob (absolute w p) \<and> length ob = length path_out"
proof -
  have slash: "holds (str ''/'' @ [0]) (str ''/'')" by (simp add: str_def)
  have root: "strcmp (cwd st) (str ''/'' @ [0]) = Some (w = str ''/'')"
    using strcmp_of_holds [OF w slash] assms(4) by (simp add: UINT32_T_MAX_def)
  have cpy: "\<exists>ob. strcpy src path_out = Some ob \<and> holds ob s \<and> length ob = length path_out"
    if "holds src s" "length s < length path_out" for src s
    using strcpy_of_holds [OF that] that holds_intro [OF holds_cstr [OF that(1)]] by auto
  have join: "\<exists>ob. do { path_out \<leftarrow> strcpy (cwd st) path_out;
      path_out \<leftarrow> strcat path_out (str ''/'' @ [0]); strcat path_out path_in } = Some ob \<and>
      holds ob (w @ 47 # p) \<and> length ob = length path_out" if room: "length (w @ 47 # p) < length path_out"
  proof -
    obtain o1 where o1: "strcpy (cwd st) path_out = Some o1" "holds o1 w" "length o1 = length path_out"
      using cpy [OF w] room by auto
    obtain o2 where o2: "strcat o1 (str ''/'' @ [0]) = Some o2" "holds o2 (w @ str ''/'')" "length o2 = length path_out"
      using strcat_of_holds [OF o1(2) slash] o1(3) room holds_intro [of "w @ str ''/''"]
        holds_cstr [OF w] holds_cstr [OF slash] by auto
    obtain o3 where o3: "strcat o2 path_in = Some o3" "holds o3 ((w @ str ''/'') @ p)" "length o3 = length path_out"
      using strcat_of_holds [OF o2(2) p] o2(3) room holds_intro [of "(w @ str ''/'') @ p"]
        holds_cstr [OF o2(2)] holds_cstr [OF p] by auto
    then show ?thesis using o1 o2 by (simp add: str_def)
  qed
  obtain c r where pin: "path_in = c # r" using p by (cases path_in) auto
  show ?thesis
  proof (cases p)
    case Nil
    then have "c = 0" using p pin by (auto split: if_splits)
    then show ?thesis
      using Nil p pin assms(3) root join cpy [OF w] by (auto simp: normalise_path_def absolute_def strlen_of_holds)
  next
    case (Cons d q)
    then have "c = d" "d \<noteq> 0" using p pin by (auto split: if_splits)
    then show ?thesis
      using Cons p pin assms(3) join cpy [OF p] by (auto simp: normalise_path_def absolute_def strlen_of_holds)
  qed
qed

lemma absolute_idem: "w \<noteq> [] \<Longrightarrow> hd w = 47 \<Longrightarrow> absolute w (absolute w p) = absolute w p"
  by (auto simp: absolute_def)

section \<open>Properties\<close>

lemma mount_names_after:
  "length ns + length ts \<le> 16 \<Longrightarrow>
     mounts.names_after ns ts = ns @ map (\<lambda>i. numbered (ts ! i) (length ns + i)) [0..<length ts]"
proof (induction ts arbitrary: ns)
  case (Cons t ts)
  have "mount_index ns t = length ns" by (simp add: mount_index_def)
  moreover have "length ns < 16" using Cons.prems by simp
  ultimately have "mounts.names_after ns (t # ts) = mounts.names_after (ns @ [numbered t (length ns)]) ts"
    by simp
  also have "\<dots> = (ns @ [numbered t (length ns)]) @ map (\<lambda>i. numbered (ts ! i) (Suc (length ns) + i)) [0..<length ts]"
    using Cons.IH [of "ns @ [numbered t (length ns)]"] Cons.prems by simp
  finally show ?case
    by (simp add: upt_conv_Cons map_Suc_upt [symmetric] o_def del: upt_Suc)
qed simp

lemma digit_not_slash: "k < 16 \<Longrightarrow> digit k \<noteq> 47"
proof
  assume "k < 16" and "digit k = 47"
  then show False using unat_digit [of k] by simp
qed

definition empty_vfs :: "'i file_system \<Rightarrow> byte list \<Rightarrow> 'i vfs" where
  "empty_vfs fs w = \<lparr>block_devices = [], block_devices_count = 0,
     fs_mounts = replicate 16 \<lparr>mount_point = replicate 64 0, mfs = fs\<rparr>, fs_mounts_count = 0,
     cwd = w, open_files = []\<rparr>"

lemma empty_vfs_ok:
  "mounts_ok (empty_vfs fs w)" "mount_names (empty_vfs fs w) = []" "fs_mounts_count (empty_vfs fs w) = 0"
  by (simp_all add: mounts_ok_def empty_vfs_def MAX_MOUNTPOINTS_def MOUNTPOINT_LENGTH_def mount_names_def
      mount_names_ok_def list_all_length)

text \<open>
  C15: After up to sixteen mounts under types without a slash, every path that begins with a slash,
  the name of a mount and a slash leads to the file system of that mount and to what comes
  behind: no mount hides another.
\<close>

theorem mounts_resolve:
  assumes "list_all (\<lambda>(fs, name). 0 \<in> set name \<and> length (cstring_of name) \<le> 62 \<and> 47 \<notin> set (cstring_of name)) ms"
    and "length ms \<le> MAX_MOUNTPOINTS" and "k < length ms"
  shows "\<exists>st. mount_all ms (empty_vfs fs0 w) = Some st \<and> fs_mounts_count st = length ms \<and>
    map mfs (take (length ms) (fs_mounts st)) = map fst ms \<and>
    get_fs_for_path (47 # numbered (cstring_of (snd (ms ! k))) k @ 47 # r) st = Some (Some (k, r))"
proof -
  have types: "list_all (\<lambda>(fs, name). 0 \<in> set name \<and> length (cstring_of name) \<le> 62) ms"
    using assms(1) by (auto simp: list_all_iff)
  obtain st where st: "mount_all ms (empty_vfs fs0 w) = Some st" "mounts_ok st" "distinct (mount_names st)"
    "mount_names st = mounts.names_after [] (map (\<lambda>(fs, name). cstring_of name) ms)"
    "map mfs (take (fs_mounts_count st) (fs_mounts st)) = map fst ms"
    using mount_all_spec [OF empty_vfs_ok(1) _ types, of fs0 w] assms(2) by (auto simp: empty_vfs_ok)
  have n: "fs_mounts_count st = length ms"
    using length_mount_names [OF st(2)] assms(2) unfolding st(4)
    by (simp add: mount_names_after MAX_MOUNTPOINTS_def)
  let ?t = "cstring_of (snd (ms ! k))"
  have t: "0 \<in> set (snd (ms ! k))" "length ?t \<le> 62" "47 \<notin> set ?t"
    using assms(1,3) by (auto simp: list_all_length split: prod.splits) (metis prod.collapse)+
  have name: "mount_names st ! k = numbered ?t k"
    using assms(2,3) by (simp add: st(4) mount_names_after MAX_MOUNTPOINTS_def split_beta)
  have k: "k < 16" using assms(2,3) by (simp add: MAX_MOUNTPOINTS_def)
  have "component_ok (mount_names st ! k)"
    using t holds_cstr [OF holds_cstring_of [OF t(1)]] k digit_not_slash [OF k] digit_nonzero [OF k]
    by (simp add: name component_ok_def numbered_def MOUNTPOINT_LENGTH_def)
  from get_fs_for_path_mount [OF st(2,3) _ this, of r] st(1,5) n assms(3) show ?thesis
    by (simp add: name)
qed

definition some_fs :: "nat \<Rightarrow> nat file_system" where
  "some_fs n = \<lparr>device = usb_disk, case_sensitive = False, instance_data = n\<rparr>"

theorem mounts_resolve_witness:
  "\<exists>st. mount_all [(some_fs 1, str ''fd'' @ [0]), (some_fs 2, str ''hd'' @ [0]), (some_fs 3, str ''hd'' @ [0])]
      (empty_vfs (some_fs 0) []) = Some st \<and> mfs (fs_mounts st ! 2) = some_fs 3 \<and>
    get_fs_for_path (str ''/hd2/a.b'' @ [0]) st = Some (Some (2, str ''a.b'' @ [0]))"
proof -
  let ?ms = "[(some_fs 1, str ''fd'' @ [0]), (some_fs 2, str ''hd'' @ [0]), (some_fs 3, str ''hd'' @ [0])]"
  have len: "length ?ms = 3" and fsts: "map fst ?ms = [some_fs 1, some_fs 2, some_fs 3]" by simp_all
  have "\<exists>st. mount_all ?ms (empty_vfs (some_fs 0) []) = Some st \<and> fs_mounts_count st = length ?ms \<and>
    map mfs (take (length ?ms) (fs_mounts st)) = map fst ?ms \<and>
    get_fs_for_path (47 # numbered (cstring_of (snd (?ms ! 2))) 2 @ 47 # (str ''a.b'' @ [0])) st =
      Some (Some (2, str ''a.b'' @ [0]))"
    by (rule mounts_resolve) (simp_all add: cstring_of_def str_def MAX_MOUNTPOINTS_def)
  then obtain st where st: "mount_all ?ms (empty_vfs (some_fs 0) []) = Some st"
    "map mfs (take 3 (fs_mounts st)) = [some_fs 1, some_fs 2, some_fs 3]"
    "get_fs_for_path (47 # numbered (cstring_of (snd (?ms ! 2))) 2 @ 47 # (str ''a.b'' @ [0])) st =
      Some (Some (2, str ''a.b'' @ [0]))"
    unfolding len fsts by (elim exE conjE) (rule that)
  have "length (map mfs (take 3 (fs_mounts st))) = 3" unfolding st(2) by simp
  then have "3 \<le> length (fs_mounts st)" by simp
  then have "mfs (fs_mounts st ! 2) = map mfs (take 3 (fs_mounts st)) ! 2" by simp
  then have "mfs (fs_mounts st ! 2) = some_fs 3" unfolding st(2) by simp
  moreover have path: "47 # numbered (cstring_of (snd (?ms ! 2))) 2 @ 47 # (str ''a.b'' @ [0]) = str ''/hd2/a.b'' @ [0]"
    by (simp add: numbered_def digit_def cstring_of_def str_def)
  ultimately show ?thesis using st(1) st(3) [unfolded path] by blast
qed

text \<open>
  \<open>normalise_path\<close> writes the absolute path for a path and the working directory, and
  leaves an absolute path as it is, so normalising twice is normalising once.
\<close>

theorem normalise_path_absolute:
  assumes "holds path_in p" and "holds (cwd st) w" and "w \<noteq> [] \<and> hd w = 47" and "length w < 256"
    and "length (absolute w p) < length path_out"
  shows "\<exists>ob. normalise_path path_in path_out st = Some ob \<and> holds ob (absolute w p) \<and>
    (\<exists>ob'. normalise_path ob path_out st = Some ob' \<and> holds ob' (absolute w p))"
proof -
  obtain ob where ob: "normalise_path path_in path_out st = Some ob" "holds ob (absolute w p)"
    using normalise_path_eq [OF assms(1,2,5,4)] by blast
  moreover have "absolute w (absolute w p) = absolute w p"
    using assms(3) by (intro absolute_idem) simp_all
  ultimately show ?thesis
    using normalise_path_eq [OF ob(2) assms(2), of path_out] assms(4,5) by auto
qed

definition shell_vfs :: "nat vfs" where
  "shell_vfs = \<lparr>block_devices = [], block_devices_count = 0, fs_mounts = [], fs_mounts_count = 0,
     cwd = str ''/fd0'' @ [0], open_files = []\<rparr>"

theorem normalise_path_absolute_witness:
  "\<exists>ob. normalise_path (str ''shell.exe'' @ [0]) (replicate 256 0) shell_vfs = Some ob \<and>
    holds ob (str ''/fd0/shell.exe'') \<and>
    (\<exists>ob'. normalise_path ob (replicate 256 0) shell_vfs = Some ob' \<and> holds ob' (str ''/fd0/shell.exe''))"
proof -
  have "absolute (str ''/fd0'') (str ''shell.exe'') = str ''/fd0/shell.exe''"
    by (simp add: absolute_def str_def)
  then show ?thesis
    using normalise_path_absolute [of "str ''shell.exe'' @ [0]" "str ''shell.exe''" shell_vfs "str ''/fd0''" "replicate 256 0"]
    by (simp add: str_def shell_vfs_def)
qed

text \<open>
  With the root as working directory a relative path is never found: the path is put behind
  the root and another slash, so that its first component is empty, and no mount has the empty
  name.
\<close>

theorem relative_to_root_fails:
  assumes "mounts_ok st" and "p \<noteq> []" and "hd p \<noteq> 47"
  shows "get_fs_for_path (absolute (str ''/'') p @ [0]) st = Some None"
proof -
  have eq: "absolute (str ''/'') p @ [0] = 47 # [] @ 47 # (p @ [0])"
    using assms(2,3) by (simp add: absolute_def str_def)
  have "mount_names st ! i \<noteq> []" if "i < fs_mounts_count st" for i
  proof -
    have "i < length (mount_names st)" "mount_names_ok (mount_names st)"
      using that assms(1) by (simp_all add: mounts_ok_def mount_names_def)
    then obtain t where "mount_names st ! i = numbered t i" unfolding mount_names_ok_def by blast
    then show ?thesis by (simp add: numbered_def)
  qed
  then have "find (\<lambda>i. mount_names st ! i = []) [0..<fs_mounts_count st] = None"
    by (auto simp: find_None_iff)
  then show ?thesis
    unfolding eq using get_fs_for_path_eq [OF assms(1), of "[]" "p @ [0]"]
    by (simp add: component_ok_def MOUNTPOINT_LENGTH_def)
qed

theorem relative_to_root_fails_witness:
  "\<forall>fs0 w. get_fs_for_path (absolute (str ''/'') (str ''fd0/shell.exe'') @ [0]) (empty_vfs fs0 w) = Some None"
  by (intro allI relative_to_root_fails [OF empty_vfs_ok(1)]) (simp_all add: str_def)

end
