(* ===== verification/VfsFiles.thy ===== *)
theory VfsFiles
  imports VfsMounts FatDir
begin

text \<open>
  Open files: the handle table under \<open>open_file\<close> and \<open>close_file\<close>, and the way of
  \<open>read_file\<close> from a path through the mounts and the FAT driver to the sectors of a disk.
\<close>

section \<open>The handle table\<close>

definition files_ok :: "'i vfs \<Rightarrow> bool" where
  "files_ok st \<longleftrightarrow> length (open_files st) = MAX_FILES \<and> list_all (\<lambda>e. length (hpath e) = 256) (open_files st)"

definition handle_types :: "'i vfs \<Rightarrow> handle_type list" where
  "handle_types st = map handle_type (open_files st)"

lemma first_closed_eq:
  "\<forall>i \<in> set is. i < length hs \<Longrightarrow> first_closed hs is =
     Some (case find (\<lambda>i. handle_type (hs ! i) = NULL) is of None \<Rightarrow> - 1 | Some i \<Rightarrow> int i)"
  by (induction "is") auto

text \<open>What \<open>open_file\<close> does to the table, whatever way it takes.\<close>

lemma put_handle_frame:
  assumes "put_handle fp upd path st = Some st'" and "files_ok st"
    and "\<And>e. hpath (upd e) = hpath e"
  shows "0 \<le> fp \<and> nat fp < length (open_files st) \<and> files_ok st' \<and>
    (\<exists>p. st' = st\<lparr>open_files := (open_files st)[nat fp := upd (open_files st ! nat fp)\<lparr>hpath := p\<rparr>]\<rparr>)"
proof -
  obtain p where fp: "0 \<le> fp" "nat fp < length (open_files st)"
    and p: "strcpy path (hpath (open_files st ! nat fp)) = Some p"
    and st': "st' = st\<lparr>open_files := (open_files st)[nat fp := upd (open_files st ! nat fp)\<lparr>hpath := p\<rparr>]\<rparr>"
    using assms(1) by (auto simp: put_handle_def bind_eq_Some_conv rd_Some_iff wr_Some_iff split: if_splits)
  have "length p = 256"
    using strcpy_length [OF p] fp assms(2) by (simp add: files_ok_def list_all_length)
  then have "files_ok st'"
    using assms(2) fp by (auto simp: st' files_ok_def list_all_length nth_list_update)
  with fp st' show ?thesis by blast
qed

lemma open_file_frame:
  assumes "open_file sv dirs num path st h = Some (fp, st', h')" and "files_ok st"
  shows "files_ok st' \<and>
    (st' = st \<and> fp < 0 \<or>
     0 < fp \<and> nat fp < length (open_files st) \<and> handle_type (open_files st ! nat fp) = NULL \<and>
     (\<exists>e. (handle_type e = FILE \<or> handle_type e = BLOCK) \<and>
        st' = st\<lparr>open_files := (open_files st)[nat fp := e]\<rparr>))"
proof -
  let ?block = "\<lambda>i e. e\<lparr>handle_type := BLOCK, block_device := i, cursor := 0\<rparr>"
  let ?file = "\<lambda>i (d :: dir_entry) e. e\<lparr>handle_type := FILE, filesystem := i, hlocation := location_on_disk d, hsize := file_size d\<rparr>"
  obtain fp0 where fp0: "next_file_handle st = Some fp0"
    using assms(1) by (auto simp: open_file_def bind_eq_Some_conv)
  have ways: "st' = st \<and> fp < 0 \<or> fp = fp0 \<and> fp \<noteq> 0 \<and>
      ((\<exists>i. put_handle fp (?block i) path st = Some st') \<or> (\<exists>i d. put_handle fp (?file i d) path st = Some st'))"
    using assms(1) fp0
    by (auto simp: open_file_def bind_eq_Some_conv FAILURE_def split: if_splits option.splits)
  have closed: "handle_type (open_files st ! nat fp0) = NULL" if "0 \<le> fp0"
    using fp0 that assms(2)
    by (auto simp: next_file_handle_def first_closed_eq files_ok_def find_Some_iff split: option.splits)
  show ?thesis
  proof (cases "st' = st \<and> fp < 0")
    case True
    with assms(2) show ?thesis by simp
  next
    case False
    then have fp: "fp = fp0" "fp \<noteq> 0" using ways by auto
    obtain upd where upd: "put_handle fp upd path st = Some st'" "\<And>e. hpath (upd e) = hpath e"
      "\<And>e. handle_type (upd e) = FILE \<or> handle_type (upd e) = BLOCK"
    proof -
      from ways False consider i where "put_handle fp (?block i) path st = Some st'"
        | i d where "put_handle fp (?file i d) path st = Some st'" by blast
      then show ?thesis
      proof cases
        case 1
        then show ?thesis by (rule that) simp_all
      next
        case 2
        then show ?thesis by (rule that) simp_all
      qed
    qed
    note frame = put_handle_frame [OF upd(1) assms(2) upd(2)]
    from frame have b: "0 < fp" "nat fp < length (open_files st)" "files_ok st'" using fp(2) by simp_all
    from frame obtain p where
      p: "st' = st\<lparr>open_files := (open_files st)[nat fp := upd (open_files st ! nat fp)\<lparr>hpath := p\<rparr>]\<rparr>"
      by (elim conjE exE) (rule that)
    let ?e = "upd (open_files st ! nat fp)\<lparr>hpath := p\<rparr>"
    have "handle_type ?e = FILE \<or> handle_type ?e = BLOCK" using upd(3) [of "open_files st ! nat fp"] by simp
    with p have "\<exists>e. (handle_type e = FILE \<or> handle_type e = BLOCK) \<and>
        st' = st\<lparr>open_files := (open_files st)[nat fp := e]\<rparr>" by (intro exI [of _ ?e] conjI)
    moreover have "handle_type (open_files st ! nat fp) = NULL" using closed b(1) fp(1) by simp
    ultimately show ?thesis using b by (intro conjI disjI2)
  qed
qed

lemma close_file_eq:
  "fd < length (open_files st) \<Longrightarrow> close_file fd st =
     Some (st\<lparr>open_files := (open_files st)[fd := (open_files st ! fd)\<lparr>handle_type := NULL\<rparr>]\<rparr>)"
  by (simp add: close_file_def)

section \<open>Finding a file on a FAT volume\<close>

definition fat_services ::
  "'h read_sectors \<Rightarrow> (nat \<Rightarrow> byte) \<Rightarrow> (stream_device \<Rightarrow> byte list \<Rightarrow> int \<Rightarrow> 'h \<Rightarrow> (byte list \<times> 'h) option) \<Rightarrow>
     (stream_device \<Rightarrow> byte list \<Rightarrow> int \<Rightarrow> 'h \<Rightarrow> 'h option) \<Rightarrow> (fat_instance, 'h) services" where
  "fat_services drv junk sr sw = \<lparr>sectors = drv, list_root_of = fat12_list_root drv junk,
     read_file_of = fat12_read_file drv, stream_read = sr, stream_write = sw\<rparr>"

lemma fat_services_simps [simp]:
  "sectors (fat_services drv junk sr sw) = drv"
  "list_root_of (fat_services drv junk sr sw) = fat12_list_root drv junk"
  "read_file_of (fat_services drv junk sr sw) = fat12_read_file drv"
  by (simp_all add: fat_services_def)

lemma find_entry_eq:
  assumes "holds ob s" and "length s < 256"
  shows "\<forall>i \<in> set is. i < length dirs \<and> holds (filename (dirs ! i)) (nm i) \<and> length (nm i) < 256 \<Longrightarrow>
    find_entry ob is dirs = Some (map_option (\<lambda>i. dirs ! i) (find (\<lambda>i. nm i = s) is))"
proof (induction "is")
  case (Cons i "is")
  then have "strcmp (filename (dirs ! i)) ob = Some (nm i = s)"
    using assms by (intro strcmp_of_holds) (auto simp: UINT32_T_MAX_def)
  with Cons show ?case by simp
qed simp

lemma shown_name_cstr:
  assumes "raw_ok e"
  shows "is_cstr (shown_name e)" and "length (shown_name e) \<le> 12"
proof -
  have "0 \<notin> set (r_name e)" "0 \<notin> set (r_ext e)"
    using assms by (auto simp: raw_ok_def list_all_iff name_char_def)
  then show "is_cstr (shown_name e)" by (simp add: shown_name_def is_cstr_def)
  show "length (shown_name e) \<le> 12" using assms by (simp add: shown_name_def raw_ok_def)
qed

lemma listed_holds: "raw_ok e \<Longrightarrow> holds (filename (listed kind e out)) (shown_name e)"
  using shown_name_cstr(1) by (auto simp: listed_def)

text \<open>The first entry with a name, among those of the root directory.\<close>

definition entry_named :: "raw_entry list \<Rightarrow> byte list \<Rightarrow> nat option" where
  "entry_named es s = find (\<lambda>i. shown_name (es ! i) = s) [0..<length es]"

text \<open>A volume whose root directory has fewer than sixteen entries, in one sector.\<close>

definition volume :: "byte list list \<Rightarrow> fat_instance file_system \<Rightarrow> raw_entry list \<Rightarrow> byte list \<Rightarrow> bool" where
  "volume disk fs es rest \<longleftrightarrow> sectors_512 disk \<and> length disk < 2 ^ 32 \<and>
     fat_type (instance_data fs) \<noteq> FAT32 \<and> \<not> case_sensitive fs \<and>
     16 \<le> unat (fi_max_root_directory_entries (instance_data fs)) \<and>
     root_dir disk (unat (fi_root_dir_start (instance_data fs))) [] es rest"

lemma fat_list_root:
  assumes "volume disk fs es rest" and "serves drv (device fs) disk"
    and "length dirs = 16" and "list_all entry_shape dirs"
  shows "\<exists>h'. fat12_list_root drv junk fs dirs n h =
    Some (SUCCESS, listing (fat_type (instance_data fs)) es dirs, of_nat (length es), h')"
proof -
  have v: "sectors_512 disk" "length disk < 2 ^ 32" "fat_type (instance_data fs) \<noteq> FAT32"
    "16 \<le> unat (fi_max_root_directory_entries (instance_data fs))"
    "root_dir disk (unat (fi_root_dir_start (instance_data fs))) [] es rest"
    using assms(1) by (simp_all add: volume_def)
  let ?n = "unat (fi_max_root_directory_entries (instance_data fs)) * 32 div 512"
  have "length [] < ?n" using v(4) by simp
  then have "\<exists>h'. list_root_sectors drv fs [0..<?n] (map junk [0..<512])
      (16 * 0) (fold (listing (fat_type (instance_data fs))) (take 0 []) dirs) h =
    Some (SUCCESS, 16 * length ([] :: raw_entry list list) + length es,
      listing (fat_type (instance_data fs)) es (fold (listing (fat_type (instance_data fs))) [] dirs), h')"
    using assms(3,4) by (intro list_root_loop [OF assms(2) v(1,2,5)]) simp_all
  then show ?thesis using v(3) by (auto simp: fat12_list_root_def)
qed

lemma fat_find_file:
  assumes vol: "volume disk fs es rest" and drv: "serves drv (device fs) disk"
    and dirs: "length dirs = 16" "list_all entry_shape dirs"
    and f: "holds path f" "length f < 256"
  shows "\<exists>h'. find_file (fat_services drv junk sr sw) dirs n fs path h =
    Some (map_option (\<lambda>j. listed (fat_type (instance_data fs)) (es ! j) (dirs ! j)) (entry_named es (map upcase f)), h')"
proof -
  let ?kind = "fat_type (instance_data fs)"
  obtain o1 where o1: "strcpy path (replicate 256 0) = Some o1" "holds o1 f"
    using strcpy_of_holds [OF f(1), of "replicate 256 0"] f holds_intro [OF holds_cstr [OF f(1)]] by auto
  obtain o2 where o2: "strupr o1 = Some o2" using strupr_of_holds [OF o1(2)] by blast
  have h2: "holds o2 (map upcase f)" using strupr_holds(1) [OF o1(2) o2] .
  obtain h' where lr: "fat12_list_root drv junk fs dirs n h =
      Some (SUCCESS, listing ?kind es dirs, of_nat (length es), h')"
    using fat_list_root [OF vol drv dirs] by blast
  have es: "list_all raw_ok es" "length es < 16"
    using vol by (simp_all add: volume_def root_dir_def entries_ok_def)
  have num: "unat (of_nat (length es) :: u16) = length es" using es(2) by (simp add: unat_of_nat)
  have nth: "listing ?kind es dirs ! i = listed ?kind (es ! i) (dirs ! i)" if "i < length es" for i
    using that es(2) dirs(1) by simp
  have ok: "\<forall>i \<in> set [0..<length es]. i < length (listing ?kind es dirs) \<and>
      holds (filename (listing ?kind es dirs ! i)) (shown_name (es ! i)) \<and> length (shown_name (es ! i)) < 256"
  proof
    fix i assume "i \<in> set [0..<length es]"
    then have i: "i < length es" by simp
    then have r: "raw_ok (es ! i)" using es(1) by (simp add: list_all_length)
    show "i < length (listing ?kind es dirs) \<and>
        holds (filename (listing ?kind es dirs ! i)) (shown_name (es ! i)) \<and> length (shown_name (es ! i)) < 256"
      using i es(2) dirs(1) listed_holds [OF r] shown_name_cstr(2) [OF r] nth by simp
  qed
  have "find_entry o2 [0..<length es] (listing ?kind es dirs) =
      Some (map_option (\<lambda>i. listing ?kind es dirs ! i) (entry_named es (map upcase f)))"
    using find_entry_eq [OF h2 _ ok] f(2) by (simp add: entry_named_def)
  also have "map_option (\<lambda>i. listing ?kind es dirs ! i) (entry_named es (map upcase f)) =
      map_option (\<lambda>j. listed ?kind (es ! j) (dirs ! j)) (entry_named es (map upcase f))"
    using nth by (auto simp: entry_named_def find_Some_iff intro!: option.map_cong0)
  finally have fe: "find_entry o2 [0..<length es] (listing ?kind es dirs) =
      Some (map_option (\<lambda>j. listed ?kind (es ! j) (dirs ! j)) (entry_named es (map upcase f)))" .
  have "\<not> case_sensitive fs" using vol by (simp add: volume_def)
  then show ?thesis by (simp add: find_file_def o1(1) o2 lr num fe)
qed

section \<open>Opening and reading through the mounts\<close>

lemma sint_low: "of_int (sint (x :: u32)) = (ucast x :: u16)"
  by (rule bit_word_eqI) (simp add: bit_simps)

lemma sint_failure: "x \<noteq> - 1 \<Longrightarrow> sint (x :: u32) \<noteq> FAILURE"
proof
  assume "x \<noteq> - 1" and "sint x = FAILURE"
  from arg_cong [OF this(2), of "of_int :: int \<Rightarrow> u32"] have "x = - 1"
    by (simp add: FAILURE_def)
  with \<open>x \<noteq> - 1\<close> show False by simp
qed

lemma not_dev_path:
  "47 \<notin> set s \<Longrightarrow> s \<noteq> str ''dev'' \<Longrightarrow> take 5 (47 # s @ 47 # f) \<noteq> str ''/dev/''"
proof
  assume s: "47 \<notin> set s" "s \<noteq> str ''dev''" and t: "take 5 (47 # s @ 47 # f) = str ''/dev/''"
  then have "take 4 (s @ 47 # f) = [100, 101, 118, 47]" by (simp add: str_def)
  then have "s @ 47 # f = [100, 101, 118, 47] @ drop 4 (s @ 47 # f)"
    using append_take_drop_id [of 4 "s @ 47 # f"] by (simp only:)
  from arg_cong [OF this, of "takeWhile (\<lambda>c. c \<noteq> 47)"]
  have "takeWhile (\<lambda>c. c \<noteq> 47) (s @ 47 # f) = takeWhile (\<lambda>c. c \<noteq> 47) ([100, 101, 118, 47] @ drop 4 (s @ 47 # f))" .
  also have "\<dots> = [100, 101, 118]" by (simp del: drop_append)
  finally have "takeWhile (\<lambda>c. c \<noteq> 47) (s @ 47 # f) = [100, 101, 118]" .
  moreover have "takeWhile (\<lambda>c. c \<noteq> 47) (s @ 47 # f) = s" using s(1) by (induction s) auto
  ultimately show False using s(2) by (simp add: str_def)
qed

text \<open>What a path means: a file \<open>f\<close> on the mount number \<open>k\<close>.\<close>

definition on_mount :: "'i vfs \<Rightarrow> byte list \<Rightarrow> nat \<Rightarrow> byte list \<Rightarrow> bool" where
  "on_mount st path k f \<longleftrightarrow> (\<exists>p w. holds path p \<and> length p < 256 \<and> holds (cwd st) w \<and> length w < 256 \<and>
     absolute w p = 47 # mount_names st ! k @ 47 # f \<and> length (absolute w p) < 256)"

definition reachable_mount :: "'i vfs \<Rightarrow> nat \<Rightarrow> bool" where
  "reachable_mount st k \<longleftrightarrow> mounts_ok st \<and> distinct (mount_names st) \<and> k < fs_mounts_count st \<and>
     component_ok (mount_names st ! k) \<and> mount_names st ! k \<noteq> str ''dev''"

definition free_handle :: "'i vfs \<Rightarrow> nat option" where
  "free_handle st = find (\<lambda>i. handle_type (open_files st ! i) = NULL) [0..<MAX_FILES]"

lemma open_file_via:
  assumes fp: "next_file_handle st = Some fp" "fp \<noteq> 0"
    and mount: "reachable_mount st k" and path: "on_mount st path k f"
    and fs: "fs = mfs (fs_mounts st ! k)" and vol: "volume disk fs es rest" and drv: "serves drv (device fs) disk"
    and dirs: "length dirs = 16" "list_all entry_shape dirs"
    and entry: "entry_named es (map upcase f) = Some j"
    and d: "d = listed (fat_type (instance_data fs)) (es ! j) (dirs ! j)"
  shows "\<exists>h'. open_file (fat_services drv junk sr sw) dirs n path st h =
    do { st \<leftarrow> put_handle fp (\<lambda>e. e\<lparr>handle_type := FILE, filesystem := k,
           hlocation := location_on_disk d, hsize := file_size d\<rparr>) path st;
         Some (fp, st, h') }"
proof -
  have k: "mounts_ok st" "distinct (mount_names st)" "k < fs_mounts_count st"
    "component_ok (mount_names st ! k)" "mount_names st ! k \<noteq> str ''dev''"
    using mount by (simp_all add: reachable_mount_def)
  obtain p w where p: "holds path p" "length p < 256" "holds (cwd st) w" "length w < 256"
    "absolute w p = 47 # mount_names st ! k @ 47 # f" "length (absolute w p) < 256"
    using path by (auto simp: on_mount_def)
  obtain ob where ob: "normalise_path path (replicate 256 0) st = Some ob" "holds ob (absolute w p)"
    using normalise_path_eq [OF p(1,3) _ p(4), of "replicate 256 0"] p(6) by auto
  obtain r where r: "ob = 47 # mount_names st ! k @ 47 # (f @ 0 # r)"
    using ob(2) by (auto simp: holds_def p(5))
  have f: "is_cstr f" using holds_cstr [OF ob(2)] by (simp add: p(5))
  have lf: "length f < 256" using p(5,6) by simp
  have slash: "47 \<notin> set (mount_names st ! k)" using k(4) by (simp add: component_ok_def)
  have dev: "strcmp_wl ob (str ''/dev/'' @ [0]) 5 = Some False"
  proof -
    have "holds (str ''/dev/'' @ [0]) (str ''/dev/'')" by (simp add: str_def)
    moreover have five: "length (str ''/dev/'') = 5" by simp
    ultimately have "strcmp_wl ob (str ''/dev/'' @ [0]) 5 = Some (take 5 (absolute w p) = str ''/dev/'')"
      using strcmp_wl_prefix [OF ob(2), of "str ''/dev/'' @ [0]" "str ''/dev/''", unfolded five] by blast
    then show ?thesis using not_dev_path [OF slash k(5), of f] unfolding p(5) by (simp only: simp_thms)
  qed
  have res: "get_fs_for_path ob st = Some (Some (k, f @ 0 # r))"
    unfolding r by (rule get_fs_for_path_mount [OF k(1-4)])
  obtain h' where ff: "find_file (fat_services drv junk sr sw) dirs n fs (f @ 0 # r) h = Some (Some d, h')"
    using fat_find_file [OF vol drv dirs holds_intro [OF f] lf, of junk sr sw n r h] by (auto simp: entry d)
  have mk: "rd (fs_mounts st) k = Some (fs_mounts st ! k)" using mount_holds(1) [OF k(1,3)] by simp
  have "open_file (fat_services drv junk sr sw) dirs n path st h =
    do { st \<leftarrow> put_handle fp (\<lambda>e. e\<lparr>handle_type := FILE, filesystem := k,
           hlocation := location_on_disk d, hsize := file_size d\<rparr>) path st;
         Some (fp, st, h') }"
    using fp(2) by (simp add: open_file_def fp(1) ob(1) dev res mk fs [symmetric] ff)
  then show ?thesis by blast
qed

lemma open_file_fat:
  assumes files: "files_ok st" and free: "free_handle st = Some i" "i \<noteq> 0"
    and mount: "reachable_mount st k" and path: "on_mount st path k f"
    and fs: "fs = mfs (fs_mounts st ! k)" and vol: "volume disk fs es rest" and drv: "serves drv (device fs) disk"
    and dirs: "length dirs = 16" "list_all entry_shape dirs"
    and entry: "entry_named es (map upcase f) = Some j"
    and d: "d = listed (fat_type (instance_data fs)) (es ! j) (dirs ! j)"
  shows "\<exists>e h'. open_file (fat_services drv junk sr sw) dirs n path st h =
    Some (int i, st\<lparr>open_files := (open_files st)[i := e]\<rparr>, h') \<and> i < length (open_files st) \<and>
    handle_type (open_files st ! i) = NULL \<and> handle_type e = FILE \<and>
    filesystem e = k \<and> hlocation e = location_on_disk d \<and> hsize e = file_size d \<and> length (hpath e) = 256"
proof -
  obtain p where p: "holds path p" "length p < 256" using path by (auto simp: on_mount_def)
  have i: "i < length (open_files st)" "handle_type (open_files st ! i) = NULL"
    using free(1) files by (auto simp: free_handle_def find_Some_iff files_ok_def)
  have nx: "next_file_handle st = Some (int i)"
    using free(1) files by (simp add: next_file_handle_def first_closed_eq files_ok_def free_handle_def)
  let ?e = "open_files st ! i"
  have lp: "length (hpath ?e) = 256" using files i(1) by (simp add: files_ok_def list_all_length)
  then obtain q where q: "strcpy path (hpath ?e) = Some q" "length q = 256"
    using strcpy_of_holds [OF p(1), of "hpath ?e"] p(2) by auto
  have put: "put_handle (int i) (\<lambda>e. e\<lparr>handle_type := FILE, filesystem := k,
      hlocation := location_on_disk d, hsize := file_size d\<rparr>) path st =
    Some (st\<lparr>open_files := (open_files st)[i := ?e\<lparr>handle_type := FILE, filesystem := k,
      hlocation := location_on_disk d, hsize := file_size d, hpath := q\<rparr>]\<rparr>)"
    using i(1) q by (simp add: put_handle_def)
  obtain h' where "open_file (fat_services drv junk sr sw) dirs n path st h =
    Some (int i, st\<lparr>open_files := (open_files st)[i := ?e\<lparr>handle_type := FILE, filesystem := k,
      hlocation := location_on_disk d, hsize := file_size d, hpath := q\<rparr>]\<rparr>, h')"
    using open_file_via [OF nx _ mount path fs vol drv dirs entry d, of junk sr sw n h] free(2)
    by (auto simp: put)
  then show ?thesis using i q(2) by (intro exI conjI) (assumption | simp)+
qed

lemma read_file_from_fat:
  assumes "files_ok st" and "free_handle st = Some i" and "i \<noteq> 0"
    and "reachable_mount st k" and "on_mount st path k f"
    and "fs = mfs (fs_mounts st ! k)" and "volume disk fs es rest" and "serves drv (device fs) disk"
    and "length dirs = 16" and "list_all entry_shape dirs"
    and "entry_named es (map upcase f) = Some j" and "r_size (es ! j) \<noteq> - 1"
    and "cluster_size fs = 1" and "chain fs (ucast (r_low (es ! j)) # cs)"
    and "list_all (on_disk disk fs) (ucast (r_low (es ! j)) # cs)"
    and "512 * Suc (length cs) \<le> length buffer"
  shows "\<exists>st' h'. read_file (fat_services drv junk sr sw) dirs num clusters path buffer len st h =
      Some (SUCCESS, concat (map (cluster_data disk fs) (ucast (r_low (es ! j)) # cs)) @
          drop (512 * Suc (length cs)) buffer, ucast (r_size (es ! j)), st', h') \<and>
    handle_types st' = handle_types st \<and> files_ok st' \<and> fs_mounts st' = fs_mounts st"
proof -
  define d where "d = listed (fat_type (instance_data fs)) (es ! j) (dirs ! j)"
  have k: "mounts_ok st" "k < fs_mounts_count st" using assms(4) by (simp_all add: reachable_mount_def)
  have kind: "fat_type (instance_data fs) \<noteq> FAT32" "sectors_512 disk" "length disk < 2 ^ 32"
    using assms(7) by (simp_all add: volume_def)
  have loc: "location_on_disk d = ucast (r_low (es ! j))" "file_size d = r_size (es ! j)"
    using kind by (simp_all add: d_def listed_def)
  obtain e h1 where e: "open_file (fat_services drv junk sr sw) dirs num path st h =
      Some (int i, st\<lparr>open_files := (open_files st)[i := e]\<rparr>, h1)" "i < length (open_files st)"
    "handle_type (open_files st ! i) = NULL" "handle_type e = FILE" "filesystem e = k"
    "hlocation e = location_on_disk d" "hsize e = file_size d" "length (hpath e) = 256"
    using open_file_fat [OF assms(1-11) d_def, of junk sr sw num h] by blast
  have mk: "rd (fs_mounts st) k = Some (fs_mounts st ! k)" using mount_holds(1) [OF k] by simp
  obtain h2 where rf: "fat12_read_file drv fs (ucast (r_low (es ! j))) buffer clusters h1 = Some (SUCCESS,
      concat (map (cluster_data disk fs) (ucast (r_low (es ! j)) # cs)) @ drop (512 * Suc (length cs)) buffer,
      of_nat (Suc (length cs)), h2)"
    using read_file_one_sector [OF assms(8) kind(2,3) assms(13-15), of buffer clusters h1] assms(16) by auto
  let ?st = "st\<lparr>open_files := (open_files st)[i := e]\<rparr>"
  have "read_handle (fat_services drv junk sr sw) clusters i buffer 10000 ?st h1 =
      Some (sint (r_size (es ! j)),
        concat (map (cluster_data disk fs) (ucast (r_low (es ! j)) # cs)) @ drop (512 * Suc (length cs)) buffer, h2)"
    using e(2) by (simp add: read_handle_def e(4-7) mk loc rf [simplified] assms(6) [symmetric])
  moreover have "close_file i ?st = Some (st\<lparr>open_files := (open_files st)[i := e\<lparr>handle_type := NULL\<rparr>]\<rparr>)"
    using e(2) by (simp add: close_file_def)
  moreover have "handle_types (st\<lparr>open_files := (open_files st)[i := e\<lparr>handle_type := NULL\<rparr>]\<rparr>) = handle_types st"
    using e(2,3) by (simp add: handle_types_def map_update) (metis e(3) list_update_id map_update nth_map)
  moreover have "files_ok (st\<lparr>open_files := (open_files st)[i := e\<lparr>handle_type := NULL\<rparr>]\<rparr>)"
    using assms(1) e(2,8) by (auto simp: files_ok_def list_all_length nth_list_update)
  ultimately show ?thesis
    using sint_failure [OF assms(12)] by (auto simp: read_file_def e(1) sint_low sint_low [simplified])
qed

section \<open>Properties\<close>

text \<open>
  C2: On a FAT12 or FAT16 volume with one sector per cluster, as on a floppy disk, and a root
  directory of fewer than sixteen entries whose names end inside their fields, a file is read by
  its path, from the mount through the root directory and the allocation table to the sectors: the
  first entry whose name is the upper-cased file name decides, the buffer gets the contents of its
  chain of clusters, the length is the size in the entry (its low 16 bits), and all handles are in
  the state they were in. The buffer holds the chain, a handle other than the first is free, the
  driver delivers every sector of the disk, and the size is not 0xFFFFFFFF, which would be read as
  a failure. With more sectors per cluster the code overwrites what it has read: the exact contents
  are in \<open>read_file_chain\<close>; the listing of a longer root directory is in \<open>list_root_result\<close>.
\<close>

theorem read_file_fat:
  assumes "files_ok st" and "free_handle st = Some i" and "i \<noteq> 0"
    and "reachable_mount st k" and "on_mount st path k f"
    and "fs = mfs (fs_mounts st ! k)" and "volume disk fs es rest" and "serves drv (device fs) disk"
    and "length dirs = 16" and "list_all entry_shape dirs"
    and "entry_named es (map upcase f) = Some j" and "r_size (es ! j) \<noteq> - 1"
    and "cluster_size fs = 1" and "chain fs (ucast (r_low (es ! j)) # cs)"
    and "list_all (on_disk disk fs) (ucast (r_low (es ! j)) # cs)"
    and "512 * Suc (length cs) \<le> length buffer"
  shows "\<exists>st' h'. read_file (fat_services drv junk sr sw) dirs num clusters path buffer len st h =
      Some (SUCCESS, concat (map (cluster_data disk fs) (ucast (r_low (es ! j)) # cs)) @
          drop (512 * Suc (length cs)) buffer, ucast (r_size (es ! j)), st', h') \<and>
    handle_types st' = handle_types st \<and> files_ok st' \<and> fs_mounts st' = fs_mounts st"
  by (rule read_file_from_fat [OF assms])

text \<open>A floppy in \<open>/fd0\<close> with one file of two clusters, and the first four handles on streams.\<close>

definition letter :: raw_entry where
  "letter = readme\<lparr>r_name := str ''LETTER'', r_low := 2\<rparr>"

definition letter_disk :: "byte list list" where
  "letter_disk = [replicate 512 0, replicate 512 0, dir_bytes [readme, letter] (replicate 448 0),
     replicate 512 3, replicate 512 4]"

definition a_handle :: "handle_type \<Rightarrow> file_handle" where
  "a_handle t = \<lparr>handle_type = t, hpath = replicate 256 0, filesystem = 0, hlocation = 0, hsize = 0,
     block_device = 0, cursor = 0, stream_device = Screen_Console\<rparr>"

definition letter_vfs :: "fat_instance vfs" where
  "letter_vfs = (add_mount (small_fs 1) (str ''fd'') (empty_vfs (small_fs 1) (str ''/fd0'' @ [0])))
     \<lparr>open_files := replicate 4 (a_handle STREAM) @ replicate 12 (a_handle NULL)\<rparr>"

lemma letter_vfs_parts:
  "files_ok letter_vfs" "free_handle letter_vfs = Some 4" "reachable_mount letter_vfs 0"
  "on_mount letter_vfs (str ''letter.txt'' @ [0]) 0 (str ''letter.txt'')"
  "mfs (fs_mounts letter_vfs ! 0) = small_fs 1"
proof -
  let ?st = "add_mount (small_fs 1) (str ''fd'') (empty_vfs (small_fs 1) (str ''/fd0'' @ [0]))"
  have t: "is_cstr (str ''fd'')" "length (str ''fd'') \<le> 62" by (simp_all add: str_def)
  have room: "fs_mounts_count (empty_vfs (small_fs 1) (str ''/fd0'' @ [0])) < MAX_MOUNTPOINTS"
    by (simp add: empty_vfs_ok MAX_MOUNTPOINTS_def)
  have names: "mount_names ?st = [str ''fd0'']"
    using add_mount_names [OF empty_vfs_ok(1) t(1) room]
    by (simp add: empty_vfs_ok numbered_def digit_def str_def)
  have ok: "mounts_ok ?st" by (rule add_mount_ok [OF empty_vfs_ok(1) t room])
  have same: "mount_names letter_vfs = mount_names ?st" "mounts_ok letter_vfs = mounts_ok ?st"
    "fs_mounts_count letter_vfs = 1" "cwd letter_vfs = str ''/fd0'' @ [0]"
    by (simp_all add: letter_vfs_def mount_names_def mounts_ok_def empty_vfs_ok) (simp_all add: add_mount_def empty_vfs_def)
  show "reachable_mount letter_vfs 0"
    using ok unfolding reachable_mount_def same names
    by (simp add: component_ok_def MOUNTPOINT_LENGTH_def str_def)
  show "files_ok letter_vfs"
    by (simp add: files_ok_def letter_vfs_def MAX_FILES_def a_handle_def list_all_iff)
  show "free_handle letter_vfs = Some 4"
    unfolding free_handle_def find_Some_iff
    by (rule exI [of _ 4]) (simp add: letter_vfs_def MAX_FILES_def a_handle_def nth_append)
  show "mfs (fs_mounts letter_vfs ! 0) = small_fs 1"
    by (simp add: letter_vfs_def empty_vfs_ok) (simp add: empty_vfs_def)
  have "absolute (str ''/fd0'') (str ''letter.txt'') = 47 # str ''fd0'' @ 47 # str ''letter.txt''"
    by (simp add: absolute_def str_def)
  then show "on_mount letter_vfs (str ''letter.txt'' @ [0]) 0 (str ''letter.txt'')"
    unfolding on_mount_def same names
    by (intro exI [of _ "str ''letter.txt''"] exI [of _ "str ''/fd0''"]) (simp add: str_def)
qed

lemma letter_raw: "raw_ok letter" "ends_in_field letter"
  by (simp_all add: raw_ok_def ends_in_field_def letter_def readme_def str_def name_char_def)

lemma letter_disk_ok: "sectors_512 letter_disk" "length letter_disk = 5"
  using readme_ok letter_raw by (simp_all add: sectors_512_def letter_disk_def length_dir_bytes list_all_iff)

lemma letter_serves: "serves (image_driver letter_disk) d letter_disk"
  using letter_disk_ok by (intro image_driver_serves) simp_all

lemma letter_volume: "volume letter_disk (small_fs 1) [readme, letter] (replicate 448 0)"
  using letter_disk_ok readme_ok letter_raw
  by (simp add: volume_def small_fs_def root_dir_def entries_ok_def stops_def)
     (simp add: letter_disk_def)

lemma letter_named: "entry_named [readme, letter] (map upcase (str ''letter.txt'')) = Some 1"
proof -
  have "map upcase (str ''letter.txt'') = str ''LETTER.TXT''" by code_simp
  then show ?thesis by (simp add: entry_named_def shown_name_def letter_def readme_def str_def upt_rec)
qed

theorem read_file_fat_witness:
  "\<exists>st' h'. read_file (fat_services (image_driver letter_disk) (\<lambda>_. 0) (\<lambda>_ _ _ _. None) (\<lambda>_ _ _ _. None))
      (replicate 16 blank_entry) 0 0 (str ''letter.txt'' @ [0]) (replicate 2000 9) 0 letter_vfs () =
    Some (SUCCESS, (replicate 512 3 @ replicate 512 4) @ replicate 976 9, 700, st', h') \<and>
    handle_types st' = handle_types letter_vfs \<and> files_ok st' \<and> fs_mounts st' = fs_mounts letter_vfs"
proof -
  have low: "ucast (r_low ([readme, letter] ! 1)) = (2 :: u32)" "r_size ([readme, letter] ! 1) = 700"
    by (simp_all add: letter_def readme_def)
  have data: "concat (map (cluster_data letter_disk (small_fs 1)) [2, 3]) = replicate 512 3 @ replicate 512 4"
    by (simp add: cluster_data_def small_fs_sectors sectors_of_def letter_disk_def)
  have "\<exists>st' h'. read_file (fat_services (image_driver letter_disk) (\<lambda>_. 0) (\<lambda>_ _ _ _. None) (\<lambda>_ _ _ _. None))
      (replicate 16 blank_entry) 0 0 (str ''letter.txt'' @ [0]) (replicate 2000 9) 0 letter_vfs () =
    Some (SUCCESS, concat (map (cluster_data letter_disk (small_fs 1)) (ucast (r_low ([readme, letter] ! 1)) # [3])) @
      drop (512 * Suc (length [3 :: u32])) (replicate 2000 9), ucast (r_size ([readme, letter] ! 1)), st', h') \<and>
    handle_types st' = handle_types letter_vfs \<and> files_ok st' \<and> fs_mounts st' = fs_mounts letter_vfs"
  proof (rule read_file_fat [OF letter_vfs_parts(1,2) _ letter_vfs_parts(3,4) letter_vfs_parts(5) [symmetric]
      letter_volume letter_serves _ _ letter_named])
    show "chain (small_fs 1) (ucast (r_low ([readme, letter] ! 1)) # [3])" unfolding low by (rule small_fs_chain)
    show "list_all (on_disk letter_disk (small_fs 1)) (ucast (r_low ([readme, letter] ! 1)) # [3])"
      unfolding low by (simp add: on_disk_def small_fs_sectors letter_disk_ok)
    show "list_all entry_shape (replicate 16 blank_entry)" using blank_shape by (simp add: list_all_iff)
    show "r_size ([readme, letter] ! 1) \<noteq> - 1" unfolding low by simp
  qed (simp_all add: small_fs_sectors)
  then show ?thesis unfolding low data by simp
qed

text \<open>
  C29: A handle that \<open>open_file\<close> gives was not in use and is not 0; it is in use afterwards, no
  other handle changes, and nothing else of the state does. When it gives none, the answer is
  negative and the state is as before.
\<close>

theorem open_file_fresh:
  assumes "open_file sv dirs num path st h = Some (fp, st', h')" and "files_ok st"
  shows "files_ok st' \<and>
    (fp < 0 \<and> st' = st \<or>
     0 < fp \<and> fp < 16 \<and> handle_types st ! nat fp = NULL \<and> handle_types st' ! nat fp \<noteq> NULL \<and>
     (\<exists>e. st' = st\<lparr>open_files := (open_files st)[nat fp := e]\<rparr>))"
proof (cases "fp < 0")
  case True
  with open_file_frame [OF assms] show ?thesis by auto
next
  case False
  with open_file_frame [OF assms] obtain e where e: "files_ok st'" "0 < fp" "nat fp < length (open_files st)"
    "handle_type (open_files st ! nat fp) = NULL" "handle_type e = FILE \<or> handle_type e = BLOCK"
    "st' = st\<lparr>open_files := (open_files st)[nat fp := e]\<rparr>" by blast
  moreover have "fp < 16" using e(2,3) assms(2) by (simp add: files_ok_def MAX_FILES_def)
  moreover have "handle_type e \<noteq> NULL" using e(5) by auto
  ultimately show ?thesis by (auto simp: handle_types_def)
qed

theorem open_file_fresh_witness:
  "\<exists>fp st' h'. open_file (fat_services (image_driver letter_disk) (\<lambda>_. 0) (\<lambda>_ _ _ _. None) (\<lambda>_ _ _ _. None))
      (replicate 16 blank_entry) 0 (str ''letter.txt'' @ [0]) letter_vfs () = Some (fp, st', h') \<and>
    0 < fp \<and> handle_types letter_vfs ! nat fp = NULL \<and> handle_types st' ! nat fp \<noteq> NULL"
proof -
  have shape: "list_all entry_shape (replicate 16 blank_entry)" using blank_shape by (simp add: list_all_iff)
  obtain e h' where o: "open_file (fat_services (image_driver letter_disk) (\<lambda>_. 0) (\<lambda>_ _ _ _. None) (\<lambda>_ _ _ _. None))
      (replicate 16 blank_entry) 0 (str ''letter.txt'' @ [0]) letter_vfs () =
    Some (int 4, letter_vfs\<lparr>open_files := (open_files letter_vfs)[4 := e]\<rparr>, h')"
    using open_file_fat [OF letter_vfs_parts(1,2) _ letter_vfs_parts(3,4) letter_vfs_parts(5) [symmetric]
        letter_volume letter_serves _ shape letter_named refl] by fastforce
  from open_file_fresh [OF this letter_vfs_parts(1)] o show ?thesis by auto
qed

text \<open>
  With every handle in use, opening a file that exists does not fail with an error code: the
  code takes the handle number -1 for a handle and writes before the table.
\<close>

theorem open_when_full:
  assumes "files_ok st" and "free_handle st = None"
    and "reachable_mount st k" and "on_mount st path k f"
    and "fs = mfs (fs_mounts st ! k)" and "volume disk fs es rest" and "serves drv (device fs) disk"
    and "length dirs = 16" and "list_all entry_shape dirs"
    and "entry_named es (map upcase f) = Some j"
  shows "open_file (fat_services drv junk sr sw) dirs n path st h = None"
proof -
  have nx: "next_file_handle st = Some (- 1)"
    using assms(1,2) by (simp add: next_file_handle_def first_closed_eq files_ok_def free_handle_def)
  show ?thesis
    using open_file_via [OF nx _ assms(3-10) refl, of junk sr sw n h] by (auto simp: put_handle_def)
qed

definition full_vfs :: "fat_instance vfs" where
  "full_vfs = letter_vfs\<lparr>open_files := replicate 16 (a_handle STREAM)\<rparr>"

theorem open_when_full_witness:
  "open_file (fat_services (image_driver letter_disk) (\<lambda>_. 0) (\<lambda>_ _ _ _. None) (\<lambda>_ _ _ _. None))
     (replicate 16 blank_entry) 0 (str ''letter.txt'' @ [0]) full_vfs () = None"
proof (rule open_when_full)
  have same: "mount_names full_vfs = mount_names letter_vfs" "mounts_ok full_vfs = mounts_ok letter_vfs"
    "fs_mounts_count full_vfs = fs_mounts_count letter_vfs" "cwd full_vfs = cwd letter_vfs"
    "fs_mounts full_vfs = fs_mounts letter_vfs"
    by (simp_all add: full_vfs_def mount_names_def mounts_ok_def)
  show "reachable_mount full_vfs 0" "on_mount full_vfs (str ''letter.txt'' @ [0]) 0 (str ''letter.txt'')"
    using letter_vfs_parts(3,4) by (simp_all add: reachable_mount_def on_mount_def same)
  show "small_fs 1 = mfs (fs_mounts full_vfs ! 0)" by (simp add: same letter_vfs_parts(5))
  show "files_ok full_vfs"
    by (simp add: files_ok_def full_vfs_def MAX_FILES_def a_handle_def list_all_iff)
  show "free_handle full_vfs = None"
    by (auto simp: free_handle_def full_vfs_def MAX_FILES_def a_handle_def find_None_iff)
  show "list_all entry_shape (replicate 16 blank_entry)" using blank_shape by (simp add: list_all_iff)
qed (rule letter_volume letter_serves letter_named | simp)+

end
