(* ===== verification/Graphics.thy ===== *)
theory Graphics
  imports Memory
begin

text \<open>
  Drawing: the VESA driver \<open>drivers/vesa.c\<close> with its back buffer of 16-bit pixels, and the
  routines of \<open>core/graphics.c\<close> on top of it. The font table \<open>zap_vga16_psf\<close> is a parameter.
\<close>

section \<open>The VESA driver\<close>

record color =
  red :: byte
  green :: byte
  blue :: byte

definition color_of :: "byte \<Rightarrow> byte \<Rightarrow> byte \<Rightarrow> color" where
  "color_of r g b = \<lparr>red = r, green = g, blue = b\<rparr>"

definition COLOR_BLACK :: color where
  "COLOR_BLACK = color_of 0 0 0"

definition COLOR_WHITE :: color where
  "COLOR_WHITE = color_of 0xAA 0xAA 0xAA"

text \<open>
  The back buffer, and the frame buffer it is copied to. \<open>vesa_init\<close> takes the size of the
  screen from the mode information of the boot loader; the memory \<open>memalign\<close> returns holds
  \<open>junk\<close>.
\<close>

record graphics =
  screen_width :: u16
  screen_height :: u16
  back_buffer :: "u16 list"
  video_memory :: "u16 list"

definition vesa_init :: "u16 \<Rightarrow> u16 \<Rightarrow> (nat \<Rightarrow> u16) \<Rightarrow> graphics \<Rightarrow> graphics" where
  "vesa_init mode_info_width mode_info_height junk g = g\<lparr>screen_width := mode_info_width,
     screen_height := mode_info_height,
     back_buffer := map junk [0..<unat mode_info_width * unat mode_info_height]\<rparr>"

definition pixel_value :: "color \<Rightarrow> u16" where
  "pixel_value c = push_bit 8 (ucast (red c) AND 0xF8) OR push_bit 3 (ucast (green c) AND 0xFC) OR
     ucast (drop_bit 3 (blue c))"

definition vesa_putpixel :: "u16 \<Rightarrow> u16 \<Rightarrow> color \<Rightarrow> graphics \<Rightarrow> graphics option" where
  "vesa_putpixel pos_x pos_y c g = do {
     b \<leftarrow> wr (back_buffer g) (unat (screen_width g) * unat pos_y + unat pos_x) (pixel_value c);
     Some (g\<lparr>back_buffer := b\<rparr>) }"

definition vesa_clear_screen :: "graphics \<Rightarrow> graphics" where
  "vesa_clear_screen g = g\<lparr>back_buffer := map (\<lambda>_. 0) (back_buffer g)\<rparr>"

definition vesa_copy_buffer :: "graphics \<Rightarrow> graphics" where
  "vesa_copy_buffer g = g\<lparr>video_memory := back_buffer g\<rparr>"

section \<open>Characters and rectangles\<close>

definition CONSOLE_CHAR_WIDTH :: nat where
  "CONSOLE_CHAR_WIDTH = 8"

definition CONSOLE_CHAR_HEIGHT :: nat where
  "CONSOLE_CHAR_HEIGHT = 16"

text \<open>
  A glyph is sixteen bytes of the font, one for a line; a character is a signed byte, and one
  with a negative code would lie before the table.
\<close>

definition glyph_line :: "byte list \<Rightarrow> byte \<Rightarrow> nat \<Rightarrow> byte option" where
  "glyph_line font char_num y =
     (let p = 4 + sint char_num * 16 + int y in if p < 0 then None else rd font (nat p))"

definition draw_char :: "byte list \<Rightarrow> u16 \<Rightarrow> u16 \<Rightarrow> byte \<Rightarrow> color \<Rightarrow> graphics \<Rightarrow> graphics option" where
  "draw_char font start_x start_y char_num c g =
     for_loop (\<lambda>x. for_loop (\<lambda>y g. do {
         line \<leftarrow> glyph_line font char_num y;
         vesa_putpixel (start_x + of_nat x) (start_y + of_nat y)
           (if bit line (CONSOLE_CHAR_WIDTH - x - 1) then c else COLOR_BLACK) g })
       [0..<CONSOLE_CHAR_HEIGHT]) [0..<CONSOLE_CHAR_WIDTH] g"

fun draw_string :: "byte list \<Rightarrow> u16 \<Rightarrow> u16 \<Rightarrow> byte list \<Rightarrow> color \<Rightarrow> graphics \<Rightarrow> graphics option" where
  "draw_string font start_x start_y [] c g = None"
| "draw_string font start_x start_y (k # string) c g =
     (if k \<noteq> 0 then do {
        g \<leftarrow> draw_char font start_x start_y k c g;
        draw_string font (start_x + 8) start_y string c g }
      else Some g)"

definition fill_rect :: "u16 \<Rightarrow> u16 \<Rightarrow> u16 \<Rightarrow> u16 \<Rightarrow> color \<Rightarrow> graphics \<Rightarrow> graphics option" where
  "fill_rect start_x start_y width height c g =
     for_loop (\<lambda>x. for_loop (\<lambda>y g. vesa_putpixel (start_x + of_nat x) (start_y + of_nat y) c g)
       [0..<unat height]) [0..<unat width] g"

section \<open>Pixels as a picture\<close>

definition graphics_ok :: "graphics \<Rightarrow> bool" where
  "graphics_ok g \<longleftrightarrow> length (back_buffer g) = unat (screen_width g) * unat (screen_height g)"

definition pixel :: "graphics \<Rightarrow> nat \<Rightarrow> nat \<Rightarrow> u16" where
  "pixel g X Y = back_buffer g ! (unat (screen_width g) * Y + X)"

text \<open>\<open>g\<close> and \<open>g'\<close> are screens of the same size.\<close>

definition same_screen :: "graphics \<Rightarrow> graphics \<Rightarrow> bool" where
  "same_screen g g' \<longleftrightarrow> screen_width g' = screen_width g \<and> screen_height g' = screen_height g \<and>
     (graphics_ok g \<longrightarrow> graphics_ok g')"

lemma same_screen_refl [simp]: "same_screen g g"
  by (simp add: same_screen_def)

lemma same_screen_trans: "same_screen g g' \<Longrightarrow> same_screen g' g'' \<Longrightarrow> same_screen g g''"
  by (simp add: same_screen_def)

lemma pixel_index_less:
  assumes "X < W" and "Y < H"
  shows "W * Y + X < W * (H :: nat)"
proof -
  have "W * Y + X < W * Y + W" using assms(1) by simp
  also have "\<dots> = W * Suc Y" by simp
  also have "\<dots> \<le> W * H" using assms(2) by (intro mult_le_mono2) simp
  finally show ?thesis .
qed

lemma pixel_index_eq: "X < W \<Longrightarrow> X' < W \<Longrightarrow> W * Y + X = W * Y' + (X' :: nat) \<longleftrightarrow> X = X' \<and> Y = Y'"
  by (metis add_left_cancel div_mult_self4 div_less mult.commute add.right_neutral
      less_nat_zero_code)

text \<open>\<open>painted g g' R f\<close>: the drawing that led from \<open>g\<close> to \<open>g'\<close> has coloured the pixels of \<open>R\<close> with \<open>f\<close>.\<close>

definition painted :: "graphics \<Rightarrow> graphics \<Rightarrow> (nat \<Rightarrow> nat \<Rightarrow> bool) \<Rightarrow> (nat \<Rightarrow> nat \<Rightarrow> u16) \<Rightarrow> bool" where
  "painted g g' R f \<longleftrightarrow> same_screen g g' \<and> video_memory g' = video_memory g \<and>
     (\<forall>X Y. X < unat (screen_width g) \<longrightarrow> pixel g' X Y = (if R X Y then f X Y else pixel g X Y))"

lemma painted_none: "painted g g (\<lambda>_ _. False) f"
  by (simp add: painted_def)

lemma painted_trans:
  "painted g g' R f \<Longrightarrow> painted g' g'' R' f \<Longrightarrow> painted g g'' (\<lambda>X Y. R X Y \<or> R' X Y) f"
  unfolding painted_def same_screen_def by auto

lemma painted_cong:
  "painted g g' R f \<Longrightarrow> (\<And>X Y. R X Y \<longleftrightarrow> R' X Y) \<Longrightarrow> (\<And>X Y. R X Y \<Longrightarrow> f X Y = f' X Y) \<Longrightarrow>
     painted g g' R' f'"
  unfolding painted_def by auto

lemma putpixel_eq:
  assumes "graphics_ok g" and "unat x < unat (screen_width g)" and "unat y < unat (screen_height g)"
  shows "\<exists>g'. vesa_putpixel x y c g = Some g' \<and>
    painted g g' (\<lambda>X Y. X = unat x \<and> Y = unat y) (\<lambda>_ _. pixel_value c)"
proof -
  let ?i = "unat (screen_width g) * unat y + unat x"
  let ?g = "g\<lparr>back_buffer := (back_buffer g)[?i := pixel_value c]\<rparr>"
  have i: "?i < length (back_buffer g)"
    using assms pixel_index_less unfolding graphics_ok_def by simp
  have "pixel ?g X Y = (if X = unat x \<and> Y = unat y then pixel_value c else pixel g X Y)"
    if "X < unat (screen_width g)" for X Y
    using pixel_index_eq [OF that assms(2), of Y "unat y"] i unfolding pixel_def
    by (auto simp: nth_list_update)
  moreover have "same_screen g ?g" by (simp add: same_screen_def graphics_ok_def)
  ultimately have "painted g ?g (\<lambda>X Y. X = unat x \<and> Y = unat y) (\<lambda>_ _. pixel_value c)"
    by (simp add: painted_def)
  then show ?thesis using i by (simp add: vesa_putpixel_def)
qed

lemma paint_column:
  assumes "graphics_ok g" and "unat x < unat (screen_width g)" and "unat y0 + h \<le> unat (screen_height g)"
  shows "\<exists>g'. for_loop (\<lambda>y g. vesa_putpixel x (y0 + of_nat y) (col y) g) [0..<h] g = Some g' \<and>
    painted g g' (\<lambda>X Y. X = unat x \<and> unat y0 \<le> Y \<and> Y < unat y0 + h) (\<lambda>X Y. pixel_value (col (Y - unat y0)))"
  using assms(3)
proof (induction h)
  case 0
  have "painted g g (\<lambda>X Y. X = unat x \<and> unat y0 \<le> Y \<and> Y < unat y0 + 0) (\<lambda>X Y. pixel_value (col (Y - unat y0)))"
    by (rule painted_cong [OF painted_none]) auto
  then show ?case by simp
next
  case (Suc h)
  then obtain g1 where g1: "for_loop (\<lambda>y g. vesa_putpixel x (y0 + of_nat y) (col y) g) [0..<h] g = Some g1"
    and p1: "painted g g1 (\<lambda>X Y. X = unat x \<and> unat y0 \<le> Y \<and> Y < unat y0 + h) (\<lambda>X Y. pixel_value (col (Y - unat y0)))"
    by auto
  have y: "unat (y0 + of_nat h) = unat y0 + h"
    using Suc.prems by (intro unat_u16_add [where y = "screen_height g"]) simp
  have s1: "graphics_ok g1" "screen_width g1 = screen_width g" "screen_height g1 = screen_height g"
    using p1 assms(1) by (auto simp: painted_def same_screen_def)
  obtain g2 where g2: "vesa_putpixel x (y0 + of_nat h) (col h) g1 = Some g2"
    and p2: "painted g1 g2 (\<lambda>X Y. X = unat x \<and> Y = unat (y0 + of_nat h)) (\<lambda>_ _. pixel_value (col h))"
    using putpixel_eq [of g1 x "y0 + of_nat h" "col h"] s1 assms(2) Suc.prems y by auto
  have "painted g1 g2 (\<lambda>X Y. X = unat x \<and> Y = unat y0 + h) (\<lambda>X Y. pixel_value (col (Y - unat y0)))"
    by (rule painted_cong [OF p2]) (auto simp: y)
  from painted_trans [OF p1 this]
  have "painted g g2 (\<lambda>X Y. X = unat x \<and> unat y0 \<le> Y \<and> Y < unat y0 + Suc h) (\<lambda>X Y. pixel_value (col (Y - unat y0)))"
    by (rule painted_cong) auto
  then show ?case using g1 g2 by (simp add: for_loop_append)
qed

lemma paint_area:
  assumes "graphics_ok g" and "unat x0 + w \<le> unat (screen_width g)" and "unat y0 + h \<le> unat (screen_height g)"
  shows "\<exists>g'. for_loop (\<lambda>x. for_loop (\<lambda>y g. vesa_putpixel (x0 + of_nat x) (y0 + of_nat y) (col x y) g) [0..<h])
      [0..<w] g = Some g' \<and>
    painted g g' (\<lambda>X Y. unat x0 \<le> X \<and> X < unat x0 + w \<and> unat y0 \<le> Y \<and> Y < unat y0 + h)
      (\<lambda>X Y. pixel_value (col (X - unat x0) (Y - unat y0)))"
    (is "\<exists>g'. ?loop w = Some g' \<and> painted g g' (?R w) ?f")
  using assms(2)
proof (induction w)
  case 0
  have "painted g g (?R 0) ?f" by (rule painted_cong [OF painted_none]) auto
  then show ?case by simp
next
  case (Suc w)
  then have "unat x0 + w \<le> unat (screen_width g)" by simp
  from Suc.IH [OF this] obtain g1 where g1: "?loop w = Some g1" and p1: "painted g g1 (?R w) ?f"
    by auto
  have x: "unat (x0 + of_nat w) = unat x0 + w"
    using Suc.prems by (intro unat_u16_add [where y = "screen_width g"]) simp
  have s1: "graphics_ok g1" "screen_width g1 = screen_width g" "screen_height g1 = screen_height g"
    using p1 assms(1) by (auto simp: painted_def same_screen_def)
  obtain g2 where g2: "for_loop (\<lambda>y g. vesa_putpixel (x0 + of_nat w) (y0 + of_nat y) (col w y) g) [0..<h] g1 = Some g2"
    and p2: "painted g1 g2 (\<lambda>X Y. X = unat (x0 + of_nat w) \<and> unat y0 \<le> Y \<and> Y < unat y0 + h)
      (\<lambda>X Y. pixel_value (col w (Y - unat y0)))"
    using paint_column [of g1 "x0 + of_nat w" y0 h "col w"] s1 assms(3) Suc.prems x by auto
  have "painted g1 g2 (\<lambda>X Y. X = unat x0 + w \<and> unat y0 \<le> Y \<and> Y < unat y0 + h) ?f"
    by (rule painted_cong [OF p2]) (auto simp: x)
  from painted_trans [OF p1 this] have "painted g g2 (?R (Suc w)) ?f"
    by (rule painted_cong) auto
  then show ?case using g1 g2 by (simp add: for_loop_append)
qed

text \<open>\<open>fill_rect\<close> and \<open>draw_char\<close> paint their area, and it alone.\<close>

lemma fill_rect_paints:
  assumes "graphics_ok g" and "unat x0 + unat w \<le> unat (screen_width g)"
    and "unat y0 + unat h \<le> unat (screen_height g)"
  shows "\<exists>g'. fill_rect x0 y0 w h c g = Some g' \<and>
    painted g g' (\<lambda>X Y. unat x0 \<le> X \<and> X < unat x0 + unat w \<and> unat y0 \<le> Y \<and> Y < unat y0 + unat h)
      (\<lambda>X Y. pixel_value c)"
  unfolding fill_rect_def using paint_area [OF assms, of "\<lambda>_ _. c"] by simp

definition glyph_ok :: "byte list \<Rightarrow> byte \<Rightarrow> bool" where
  "glyph_ok font ch \<longleftrightarrow> unat ch < 128 \<and> 4 + unat ch * 16 + 16 \<le> length font"

definition glyph_color :: "byte list \<Rightarrow> byte \<Rightarrow> color \<Rightarrow> nat \<Rightarrow> nat \<Rightarrow> color" where
  "glyph_color font ch c x y =
     (if bit (font ! (4 + unat ch * 16 + y)) (7 - x) then c else COLOR_BLACK)"

lemma glyph_line_ok:
  assumes "glyph_ok font ch" and "y < 16"
  shows "glyph_line font ch y = Some (font ! (4 + unat ch * 16 + y))"
proof -
  have "4 + sint ch * 16 + int y = int (4 + unat ch * 16 + y)"
    using assms sint_small_byte [of ch] by (simp add: glyph_ok_def)
  moreover have "4 + unat ch * 16 + y < length font" using assms by (simp add: glyph_ok_def)
  ultimately show ?thesis unfolding glyph_line_def Let_def
    by (simp only: nat_int of_nat_less_0_iff if_False rd_in)
qed

definition in_cell :: "nat \<Rightarrow> nat \<Rightarrow> nat \<Rightarrow> nat \<Rightarrow> bool" where
  "in_cell x0 y0 X Y \<longleftrightarrow> x0 \<le> X \<and> X < x0 + 8 \<and> y0 \<le> Y \<and> Y < y0 + 16"

lemma draw_char_paints:
  assumes "graphics_ok g" and "unat x0 + 8 \<le> unat (screen_width g)"
    and "unat y0 + 16 \<le> unat (screen_height g)" and "glyph_ok font ch"
  shows "\<exists>g'. draw_char font x0 y0 ch c g = Some g' \<and>
    painted g g' (in_cell (unat x0) (unat y0))
      (\<lambda>X Y. pixel_value (glyph_color font ch c (X - unat x0) (Y - unat y0)))"
proof -
  have "draw_char font x0 y0 ch c g =
      for_loop (\<lambda>x. for_loop (\<lambda>y g. vesa_putpixel (x0 + of_nat x) (y0 + of_nat y)
        (glyph_color font ch c x y) g) [0..<16]) [0..<8] g"
    unfolding draw_char_def CONSOLE_CHAR_HEIGHT_def CONSOLE_CHAR_WIDTH_def
    by (intro for_loop_cong refl) (simp add: glyph_line_ok assms(4) glyph_color_def)
  then show ?thesis
    using paint_area [OF assms(1-3), of "glyph_color font ch c"] unfolding in_cell_def by simp
qed

text \<open>The pixel format: five bits of red, six of green and five of blue.\<close>

lemma field_mask: "(w :: u16) AND push_bit k (mask n) = push_bit k (take_bit n (drop_bit k w))"
  by (rule bit_word_eqI) (auto simp: bit_simps)

lemma unat_pixel_value:
  "unat (pixel_value c) = unat (red c) div 8 * 2048 + unat (green c) div 4 * 32 + unat (blue c) div 8"
proof -
  let ?r = "ucast (red c) AND push_bit 3 (mask 5) :: u16" and ?g = "ucast (green c) AND push_bit 2 (mask 6) :: u16"
    and ?b = "ucast (drop_bit 3 (blue c)) :: u16"
  have small: "unat (red c) div 8 < 32" "unat (green c) div 4 < 64"
    using unat_byte_lt [of "red c"] unat_byte_lt [of "green c"] by linarith+
  have masks: "(0xF8 :: u16) = push_bit 3 (mask 5)" "(0xFC :: u16) = push_bit 2 (mask 6)"
    by (simp_all add: mask_eq_exp_minus_1 push_bit_eq_mult)
  have "pixel_value c = push_bit 8 ?r OR (push_bit 3 ?g OR ?b)"
    by (simp add: pixel_value_def masks or.assoc)
  moreover have "push_bit 3 ?g AND ?b = 0" "push_bit 8 ?r AND (push_bit 3 ?g OR ?b) = 0"
    by (rule bit_word_eqI; auto simp: bit_simps dest: bit_imp_le_length)+
  moreover have "unat (push_bit 8 ?r) = 2 ^ 8 * unat ?r"
    by (rule unat_push_bit_less [where k = 8]) (simp_all add: unat_field small)
  moreover have "unat (push_bit 3 ?g) = 2 ^ 3 * unat ?g"
    by (rule unat_push_bit_less [where k = 8]) (simp_all add: unat_field small)
  moreover have "unat ?b = unat (blue c) div 8" by (simp add: unat_drop_bit)
  ultimately show ?thesis by (simp add: unat_or_disjoint unat_field)
qed

lemma split_fields:
  assumes "G < 64" and "B < 32"
  shows "(R * 2048 + G * 32 + B) div 2048 = R" and "(R * 2048 + G * 32 + B) div 32 mod 64 = G"
    and "(R * 2048 + G * 32 + B) mod 32 = (B :: nat)"
proof -
  have d32: "(R * 2048 + G * 32 + B) div 32 = R * 64 + G"
    using assms by (intro div_nat_eqI) simp_all
  show "(R * 2048 + G * 32 + B) div 2048 = R" using assms by (intro div_nat_eqI) simp_all
  show "(R * 2048 + G * 32 + B) div 32 mod 64 = G" using assms(1) by (simp only: d32 mod_mult_self3 mod_less)
  have "(R * 2048 + G * 32 + B) mod 32 = ((R * 64 + G) * 32 + B) mod 32" by (simp only: add_mult_distrib mult.assoc) simp
  then show "(R * 2048 + G * 32 + B) mod 32 = B" using assms(2) by (simp only: mod_mult_self3 mod_less)
qed

text \<open>
  C30: the value a pixel is written with holds the five high bits of the red component at 11,
  the six high bits of the green one at 5 and the five high bits of the blue one at 0: the fields
  of RGB565, none running into the next.
\<close>

theorem pixel_fields_disjoint:
  "unat (pixel_value c) = unat (red c) div 8 * 2048 + unat (green c) div 4 * 32 + unat (blue c) div 8 \<and>
   unat (pixel_value c) div 2048 = unat (red c) div 8 \<and>
   unat (pixel_value c) div 32 mod 64 = unat (green c) div 4 \<and>
   unat (pixel_value c) mod 32 = unat (blue c) div 8"
proof -
  have "unat (green c) div 4 < 64" "unat (blue c) div 8 < 32"
    using unat_byte_lt [of "green c"] unat_byte_lt [of "blue c"] by linarith+
  with split_fields [OF this, of "unat (red c) div 8"] show ?thesis
    by (simp only: unat_pixel_value simp_thms)
qed

end
