(* ===== verification/Console.thy ===== *)
theory Console
  imports Graphics "HOL-Library.Signed_Division"
begin

text \<open>
  The text console of \<open>core/screen_console.c\<close>: a grid of coloured characters with a cursor, each
  change of which is drawn on the screen. The lemmas relate it to a plain text terminal, and show
  that the screen always displays the grid.
\<close>

text \<open>C division of numbers that are not negative.\<close>

lemma sdiv_nonneg: "0 \<le> a \<Longrightarrow> 0 < b \<Longrightarrow> a sdiv b = a div (b :: int)"
  by (cases "a = 0") (simp_all add: signed_divide_int_def)

lemma smod_nonneg: "0 \<le> a \<Longrightarrow> 0 < b \<Longrightarrow> a smod b = a mod (b :: int)"
  by (cases "a = 0") (simp_all add: signed_modulo_int_def)

section \<open>The console and its cells\<close>

definition COLOR_RED :: color where
  "COLOR_RED = color_of 222 56 43"

definition COLOR_GREEN :: color where
  "COLOR_GREEN = color_of 19 161 14"

definition COLOR_YELLOW :: color where
  "COLOR_YELLOW = color_of 255 199 6"

definition COLOR_BLUE :: color where
  "COLOR_BLUE = color_of 0x2F 0x5B 0xDC"

definition COLOR_MAGENTA :: color where
  "COLOR_MAGENTA = color_of 118 38 113"

definition COLOR_CYAN :: color where
  "COLOR_CYAN = color_of 44 181 233"

definition ansi_colors :: "color list" where
  "ansi_colors = [COLOR_BLACK, COLOR_RED, COLOR_GREEN, COLOR_YELLOW, COLOR_BLUE, COLOR_MAGENTA,
     COLOR_CYAN, COLOR_WHITE]"

record console_char =
  character :: byte
  char_color :: color

record console =
  console_buffer :: "console_char list"
  console_x :: int
  console_y :: int
  console_width :: int
  console_height :: int
  console_rows :: int
  console_cols :: int
  current_color :: color
  cursor :: int
  screen :: graphics

definition console_cells :: "console \<Rightarrow> int" where
  "console_cells c = console_rows c * console_cols c"

definition CONSOLE_CHAR_SPACE :: nat where
  "CONSOLE_CHAR_SPACE = 0"

text \<open>\<open>memset\<close> fills the whole of the buffer with spaces, the colours too.\<close>

definition console_init :: "int \<Rightarrow> int \<Rightarrow> int \<Rightarrow> int \<Rightarrow> console \<Rightarrow> console" where
  "console_init x y width height c =
     (let rows = height sdiv int CONSOLE_CHAR_HEIGHT;
          cols = width sdiv int (CONSOLE_CHAR_WIDTH + CONSOLE_CHAR_SPACE);
          space = \<lparr>character = 0x20, char_color = color_of 0x20 0x20 0x20\<rparr>
      in c\<lparr>console_x := x, console_y := y, console_width := width, console_height := height,
           console_rows := rows, console_cols := cols,
           console_buffer := replicate (nat (rows * cols)) space,
           cursor := 0, current_color := COLOR_WHITE\<rparr>)"

text \<open>An array indexed with a C \<open>int\<close>.\<close>

definition rd_int :: "'a list \<Rightarrow> int \<Rightarrow> 'a option" where
  "rd_int xs i = (if i < 0 then None else rd xs (nat i))"

definition console_redraw_cell :: "byte list \<Rightarrow> int \<Rightarrow> console \<Rightarrow> console option" where
  "console_redraw_cell font offset c =
     (if console_cols c = 0 then None
      else let row = offset sdiv console_cols c; col = offset smod console_cols c;
               x = console_x c + col * int CONSOLE_CHAR_WIDTH;
               y = console_y c + row * int CONSOLE_CHAR_HEIGHT
           in do { cell \<leftarrow> rd_int (console_buffer c) offset;
                   g \<leftarrow> draw_char font (of_int x) (of_int y) (character cell) (char_color cell) (screen c);
                   Some (c\<lparr>screen := g\<rparr>) })"

definition console_put_char_fixed ::
    "byte list \<Rightarrow> int \<Rightarrow> byte \<Rightarrow> color \<Rightarrow> console \<Rightarrow> console option" where
  "console_put_char_fixed font offset ch col c =
     (if offset \<ge> console_cells c then None
      else if offset < 0 then None
      else do { b \<leftarrow> wr (console_buffer c) (nat offset) \<lparr>character = ch, char_color = col\<rparr>;
                console_redraw_cell font offset (c\<lparr>console_buffer := b\<rparr>) })"

definition console_get_offset :: "byte \<Rightarrow> byte \<Rightarrow> console \<Rightarrow> int" where
  "console_get_offset row col c = sint row * console_cols c + sint col"

text \<open>
  A cell is four bytes, so that \<open>memcpy\<close> moves one in each of its steps, from the first cell
  on; the last line is then cleared with zeros.
\<close>

definition console_scroll :: "byte list \<Rightarrow> console \<Rightarrow> console option" where
  "console_scroll font c =
     (let cols = console_cols c; cells = console_cells c
      in if cols < 0 \<or> cells < cols then None
         else do {
           b \<leftarrow> for_loop (\<lambda>i b. do { cell \<leftarrow> rd b (i + nat cols); wr b i cell })
                  [0..<nat (cells - cols)] (console_buffer c);
           b \<leftarrow> blit b (nat (cells - cols))
                  (replicate (nat cols) \<lparr>character = 0, char_color = color_of 0 0 0\<rparr>);
           for_loop (\<lambda>i. console_redraw_cell font (int i)) [0..<nat cells] (c\<lparr>console_buffer := b\<rparr>) })"

definition console_check_scroll :: "byte list \<Rightarrow> console \<Rightarrow> console option" where
  "console_check_scroll font c =
     (if cursor c = console_cells c then do {
        c \<leftarrow> console_scroll font c;
        Some (c\<lparr>cursor := cursor c - console_cols c\<rparr>) }
      else Some c)"

definition console_write_char :: "byte list \<Rightarrow> byte \<Rightarrow> console \<Rightarrow> console option" where
  "console_write_char font ch c =
     (if ch = 0x0A then
        if console_cols c = 0 then None
        else let row = cursor c sdiv console_cols c in do {
          c \<leftarrow> console_put_char_fixed font (cursor c) 0x20 (current_color c) c;
          console_check_scroll font (c\<lparr>cursor := console_get_offset (of_int (row + 1)) 0 c\<rparr>) }
      else if ch = 0x0D then
        if console_cols c = 0 then None
        else let row = cursor c sdiv console_cols c in do {
          c \<leftarrow> console_put_char_fixed font (cursor c) 0x20 (current_color c) c;
          Some (c\<lparr>cursor := console_get_offset (of_int row) 0 c\<rparr>) }
      else if ch = 0x08 then
        if cursor c > 0 then do {
          c \<leftarrow> console_put_char_fixed font (cursor c) 0x20 (current_color c) c;
          let c = c\<lparr>cursor := cursor c - 1\<rparr>;
          console_put_char_fixed font (cursor c) 0x20 (current_color c) c }
        else Some c
      else do {
        c \<leftarrow> console_put_char_fixed font (cursor c) ch (current_color c) c;
        console_check_scroll font (c\<lparr>cursor := cursor c + 1\<rparr>) })"

text \<open>
  The escape of \<open>console_write\<close>: the byte 1, a bracket, then a digit 0 for the default colour or
  two digits, the second of which selects the colour, and the letter m. The index returned is
  that of the character after it.
\<close>

definition ansi_escape :: "byte list \<Rightarrow> nat \<Rightarrow> console \<Rightarrow> (nat \<times> console) option" where
  "ansi_escape data i c = do {
     d \<leftarrow> rd data (i + 2);
     if d = 0x30 then Some (i + 4, c\<lparr>current_color := COLOR_WHITE\<rparr>)
     else do {
       color_chr \<leftarrow> rd data (i + 3);
       col \<leftarrow> rd_int ansi_colors (sint color_chr - 48);
       Some (i + 5, c\<lparr>current_color := col\<rparr>) } }"

lemma ansi_escape_forward: "ansi_escape data i c = Some (j, c') \<Longrightarrow> i < j"
  by (auto simp: ansi_escape_def bind_eq_Some_conv split: if_splits)

function console_write_loop :: "byte list \<Rightarrow> byte list \<Rightarrow> int \<Rightarrow> nat \<Rightarrow> console \<Rightarrow> console option" where
  "console_write_loop font data len i c =
     (if int i < len then
        case do { d \<leftarrow> rd data i; if d = 1 then ansi_escape data i c else Some (i, c) } of
          None \<Rightarrow> None
        | Some (i, c) \<Rightarrow> do {
            ch \<leftarrow> rd data i;
            c \<leftarrow> console_write_char font ch c;
            console_write_loop font data len (i + 1) c }
      else Some c)"
  by pat_completeness auto
termination
  by (relation "measure (\<lambda>(font, data, len, i, c). nat (len - int i))")
    (auto simp: bind_eq_Some_conv split: if_splits dest!: ansi_escape_forward)

definition console_write :: "byte list \<Rightarrow> byte list \<Rightarrow> int \<Rightarrow> console \<Rightarrow> console option" where
  "console_write font data len c = do {
     c \<leftarrow> console_write_loop font data len 0 c;
     Some (c\<lparr>screen := vesa_copy_buffer (screen c)\<rparr>) }"

definition console_update_cursor :: "byte list \<Rightarrow> bool \<Rightarrow> console \<Rightarrow> console option" where
  "console_update_cursor font on c = do {
     c \<leftarrow> console_check_scroll font c;
     c \<leftarrow> console_put_char_fixed font (cursor c) (if on then 0x5F else 0x20) (current_color c) c;
     Some (c\<lparr>screen := vesa_copy_buffer (screen c)\<rparr>) }"

declare console_write_loop.simps [simp del]

section \<open>The grid on the screen\<close>

definition font_ok :: "byte list \<Rightarrow> bool" where
  "font_ok font \<longleftrightarrow> 4 + 128 * 16 \<le> length font"

definition glyphs_ok :: "console_char list \<Rightarrow> bool" where
  "glyphs_ok b \<longleftrightarrow> (\<forall>cell \<in> set b. unat (character cell) < 128)"

lemma font_glyph: "font_ok font \<Longrightarrow> unat ch < 128 \<Longrightarrow> glyph_ok font ch"
  by (simp add: font_ok_def glyph_ok_def)

text \<open>The shape of the console: a grid that lies on the screen, and a buffer of its size.\<close>

definition shape_ok :: "console \<Rightarrow> bool" where
  "shape_ok c \<longleftrightarrow> graphics_ok (screen c) \<and> 0 < console_cols c \<and> 0 < console_rows c \<and> console_rows c \<le> 127 \<and>
     0 \<le> console_x c \<and> console_x c + console_cols c * 8 \<le> int (unat (screen_width (screen c))) \<and>
     0 \<le> console_y c \<and> console_y c + console_rows c * 16 \<le> int (unat (screen_height (screen c))) \<and>
     length (console_buffer c) = nat (console_cells c) \<and> glyphs_ok (console_buffer c)"

definition cell_x :: "console \<Rightarrow> nat \<Rightarrow> nat" where
  "cell_x c i = nat (console_x c) + i mod nat (console_cols c) * 8"

definition cell_y :: "console \<Rightarrow> nat \<Rightarrow> nat" where
  "cell_y c i = nat (console_y c) + i div nat (console_cols c) * 16"

definition cell_shown :: "byte list \<Rightarrow> console \<Rightarrow> nat \<Rightarrow> bool" where
  "cell_shown font c i \<longleftrightarrow> (\<forall>a < 8. \<forall>b < 16. pixel (screen c) (cell_x c i + a) (cell_y c i + b) =
     pixel_value (glyph_color font (character (console_buffer c ! i)) (char_color (console_buffer c ! i)) a b))"

definition shown :: "byte list \<Rightarrow> console \<Rightarrow> bool" where
  "shown font c \<longleftrightarrow> (\<forall>i < length (console_buffer c). cell_shown font c i)"

text \<open>\<open>redrawn\<close>: the step from \<open>c\<close> to \<open>c'\<close> only drew on the screen.\<close>

definition redrawn :: "console \<Rightarrow> console \<Rightarrow> bool" where
  "redrawn c c' \<longleftrightarrow> c' = c\<lparr>screen := screen c'\<rparr> \<and> same_screen (screen c) (screen c')"

lemma redrawn_shape: "redrawn c c' \<Longrightarrow> shape_ok c \<Longrightarrow> shape_ok c'"
  by (cases c; cases c') (auto simp: redrawn_def shape_ok_def same_screen_def console_cells_def)

lemma redrawn_refl: "redrawn c c"
  by (simp add: redrawn_def)

lemma redrawn_trans: "redrawn c c' \<Longrightarrow> redrawn c' c'' \<Longrightarrow> redrawn c c''"
  by (cases c; cases c'; cases c'') (auto simp: redrawn_def intro: same_screen_trans)

lemma redrawn_simps:
  assumes "redrawn c c'"
  shows "console_buffer c' = console_buffer c" "cursor c' = cursor c" "console_cells c' = console_cells c"
    "console_cols c' = console_cols c" "console_rows c' = console_rows c"
    "current_color c' = current_color c" "cell_x c' = cell_x c" "cell_y c' = cell_y c"
  using assms
  by (cases c; cases c'; simp add: redrawn_def console_cells_def cell_x_def cell_y_def fun_eq_iff)+

lemma shape_cells: "shape_ok c \<Longrightarrow> int (length (console_buffer c)) = console_rows c * console_cols c"
  by (simp add: shape_ok_def console_cells_def)

text \<open>Where cell \<open>i\<close> lies, and that it is on the screen.\<close>

lemma cell_on_screen:
  assumes "shape_ok c" and "i < length (console_buffer c)"
  shows "cell_x c i + 8 \<le> unat (screen_width (screen c))" and "cell_y c i + 16 \<le> unat (screen_height (screen c))"
proof -
  define n r where "n = nat (console_cols c)" and "r = nat (console_rows c)"
  have n: "0 < n" "int n = console_cols c" "int r = console_rows c"
    using assms(1) by (auto simp: n_def r_def shape_ok_def)
  have "i < r * n" using assms shape_cells [OF assms(1)] n by (metis of_nat_less_iff of_nat_mult)
  then have "i div n < r" by (simp add: less_mult_imp_div_less)
  moreover have "i mod n < n" using n(1) by simp
  ultimately have b: "i mod n * 8 + 8 \<le> n * 8" "i div n * 16 + 16 \<le> r * 16" by simp_all
  show "cell_x c i + 8 \<le> unat (screen_width (screen c))"
    using b(1) assms(1) n unfolding cell_x_def shape_ok_def n_def [symmetric] by linarith
  show "cell_y c i + 16 \<le> unat (screen_height (screen c))"
    using b(2) assms(1) n unfolding cell_y_def shape_ok_def n_def [symmetric] by linarith
qed

lemma cells_apart:
  assumes "in_cell (cell_x c i) (cell_y c i) (cell_x c j + a) (cell_y c j + b)" and "a < 8" and "b < 16"
  shows "i = j"
proof -
  let ?n = "nat (console_cols c)"
  have "i mod ?n = j mod ?n" "i div ?n = j div ?n"
    using assms unfolding in_cell_def cell_x_def cell_y_def by linarith+
  then show ?thesis by (metis div_mult_mod_eq)
qed

lemma redraw_cell:
  assumes "font_ok font" and "shape_ok c" and "i < length (console_buffer c)"
  shows "\<exists>c'. console_redraw_cell font (int i) c = Some c' \<and> redrawn c c' \<and> cell_shown font c' i \<and>
    (\<forall>j. j \<noteq> i \<longrightarrow> j < length (console_buffer c) \<longrightarrow> cell_shown font c' j = cell_shown font c j)"
proof -
  let ?n = "nat (console_cols c)" and ?cell = "console_buffer c ! i"
  have n: "0 < console_cols c" "int ?n = console_cols c" using assms(2) by (auto simp: shape_ok_def)
  have dm: "int i sdiv console_cols c = int (i div ?n)" "int i smod console_cols c = int (i mod ?n)"
    using n by (simp_all add: sdiv_nonneg smod_nonneg zdiv_int zmod_int)
  have xy: "console_x c + int (i mod ?n) * int CONSOLE_CHAR_WIDTH = int (cell_x c i)"
    "console_y c + int (i div ?n) * int CONSOLE_CHAR_HEIGHT = int (cell_y c i)"
    using assms(2) by (simp_all add: cell_x_def cell_y_def shape_ok_def CONSOLE_CHAR_WIDTH_def CONSOLE_CHAR_HEIGHT_def)
  note on = cell_on_screen [OF assms(2,3)]
  have small: "cell_x c i < 65536" "cell_y c i < 65536"
    using on unat_u16_lt [of "screen_width (screen c)"] unat_u16_lt [of "screen_height (screen c)"]
    by linarith+
  have u: "unat (of_nat (cell_x c i) :: u16) = cell_x c i" "unat (of_nat (cell_y c i) :: u16) = cell_y c i"
    using small by (simp_all add: unat_of_nat)
  have "glyph_ok font (character ?cell)"
    using assms by (intro font_glyph) (auto simp: shape_ok_def glyphs_ok_def)
  then obtain g where d: "draw_char font (of_nat (cell_x c i)) (of_nat (cell_y c i)) (character ?cell) (char_color ?cell) (screen c) = Some g"
    and p: "painted (screen c) g (in_cell (cell_x c i) (cell_y c i))
      (\<lambda>X Y. pixel_value (glyph_color font (character ?cell) (char_color ?cell) (X - cell_x c i) (Y - cell_y c i)))"
    using draw_char_paints [of "screen c" "of_nat (cell_x c i)" "of_nat (cell_y c i)" font "character ?cell" "char_color ?cell"]
      assms(2) on by (auto simp: u shape_ok_def)
  let ?c' = "c\<lparr>screen := g\<rparr>"
  have r: "console_redraw_cell font (int i) c = Some ?c'"
    unfolding console_redraw_cell_def Let_def dm xy of_int_of_nat_eq
    using n assms(3) d by (simp add: rd_int_def)
  have geo: "cell_x ?c' = cell_x c" "cell_y ?c' = cell_y c" by (simp_all add: cell_x_def cell_y_def fun_eq_iff)
  have "cell_shown font ?c' i"
    using p on(1) unfolding cell_shown_def painted_def by (auto simp: geo in_cell_def)
  moreover have "cell_shown font ?c' j = cell_shown font c j" if "j \<noteq> i" "j < length (console_buffer c)" for j
  proof -
    have "pixel g (cell_x c j + a) (cell_y c j + b) = pixel (screen c) (cell_x c j + a) (cell_y c j + b)"
      if "a < 8" "b < 16" for a b
      using p cells_apart [of c i j a b] that \<open>j \<noteq> i\<close> cell_on_screen(1) [OF assms(2) \<open>j < _\<close>]
      unfolding painted_def by auto
    then show ?thesis by (simp add: cell_shown_def geo)
  qed
  moreover have "redrawn c ?c'" using p by (simp add: redrawn_def painted_def)
  ultimately show ?thesis using r by blast
qed

text \<open>A change of one cell that is drawn, and the redrawing of all cells.\<close>

lemma put_char_fixed:
  assumes "font_ok font" and "shape_ok c" and "0 \<le> off" and "off < console_cells c" and "unat ch < 128"
  shows "\<exists>g. console_put_char_fixed font off ch col c = Some
      (c\<lparr>console_buffer := (console_buffer c)[nat off := \<lparr>character = ch, char_color = col\<rparr>], screen := g\<rparr>) \<and>
    (let c' = c\<lparr>console_buffer := (console_buffer c)[nat off := \<lparr>character = ch, char_color = col\<rparr>], screen := g\<rparr>
     in shape_ok c' \<and> (shown font c \<longrightarrow> shown font c'))"
proof -
  let ?c = "c\<lparr>console_buffer := (console_buffer c)[nat off := \<lparr>character = ch, char_color = col\<rparr>]\<rparr>"
  have len: "nat off < length (console_buffer c)"
    using assms(2-4) by (simp add: shape_ok_def)
  have shape: "shape_ok ?c"
    using assms(2,5) by (auto simp: shape_ok_def console_cells_def glyphs_ok_def
        dest!: set_update_subset_insert [THEN subsetD])
  obtain c' where r: "console_redraw_cell font (int (nat off)) ?c = Some c'" "redrawn ?c c'" "cell_shown font c' (nat off)"
    "\<forall>j. j \<noteq> nat off \<longrightarrow> j < length (console_buffer c) \<longrightarrow> cell_shown font c' j = cell_shown font ?c j"
    using redraw_cell [OF assms(1) shape, of "nat off"] len by auto
  have other: "cell_shown font ?c j = cell_shown font c j" if "j \<noteq> nat off" for j
    using that by (simp add: cell_shown_def cell_x_def cell_y_def)
  have c': "c' = ?c\<lparr>screen := screen c'\<rparr>" using r(2) unfolding redrawn_def by (rule conjunct1)
  then have buf: "length (console_buffer c') = length (console_buffer c)"
    using redrawn_simps(1) [OF r(2)] by simp
  have "shown font c'" if "shown font c"
    unfolding shown_def buf
  proof (intro allI impI)
    fix j assume "j < length (console_buffer c)"
    then show "cell_shown font c' j" using r(3,4) other [of j] that
      by (cases "j = nat off") (auto simp: shown_def)
  qed
  moreover have "shape_ok c'" using redrawn_shape [OF r(2) shape] .
  moreover have "console_put_char_fixed font off ch col c = Some c'"
    using assms(3,4) len r(1) by (simp add: console_put_char_fixed_def)
  ultimately show ?thesis using c' by (intro exI [where x = "screen c'"]) (simp add: Let_def)
qed

lemma redraw_all:
  assumes "font_ok font" and "shape_ok c" and "n \<le> length (console_buffer c)"
  shows "\<exists>c'. for_loop (\<lambda>i. console_redraw_cell font (int i)) [0..<n] c = Some c' \<and> redrawn c c' \<and>
    (\<forall>j < n. cell_shown font c' j)"
  using assms(3)
proof (induction n)
  case 0
  then show ?case by (simp add: redrawn_refl)
next
  case (Suc n)
  then obtain c1 where c1: "for_loop (\<lambda>i. console_redraw_cell font (int i)) [0..<n] c = Some c1" "redrawn c c1"
    "\<forall>j < n. cell_shown font c1 j" by auto
  have "shape_ok c1" using redrawn_shape [OF c1(2) assms(2)] .
  moreover have b: "console_buffer c1 = console_buffer c" using redrawn_simps(1) [OF c1(2)] .
  ultimately obtain c2 where c2: "console_redraw_cell font (int n) c1 = Some c2" "redrawn c1 c2" "cell_shown font c2 n"
    "\<forall>j. j \<noteq> n \<longrightarrow> j < length (console_buffer c) \<longrightarrow> cell_shown font c2 j = cell_shown font c1 j"
    using redraw_cell [OF assms(1), of c1 n] Suc.prems by auto
  have "\<forall>j < Suc n. cell_shown font c2 j"
    using c1(3) c2(3,4) Suc.prems by (auto simp: less_Suc_eq)
  then show ?case using c1(1) c2(1) redrawn_trans [OF c1(2) c2(2)] by (simp add: for_loop_append)
qed

text \<open>The copy of \<open>memcpy\<close>, one cell at a time from the front, moves the text up.\<close>

lemma move_up:
  assumes "n \<le> length b"
  shows "k + n \<le> length b \<Longrightarrow> for_loop (\<lambda>i b. do { cell \<leftarrow> rd b (i + n); wr b i cell }) [0..<k] b =
    Some (take k (drop n b) @ drop k b)"
proof (induction k)
  case 0
  then show ?case by simp
next
  case (Suc k)
  let ?b = "take k (drop n b) @ drop k b"
  have len: "length (take k (drop n b)) = k" using Suc.prems by simp
  have "rd ?b (k + n) = Some (b ! (k + n))"
    using Suc.prems by (subst rd_in) (simp_all add: nth_append len)
  moreover have "wr ?b k (b ! (k + n)) = Some (take k (drop n b) @ b ! (k + n) # drop (Suc k) b)"
    using Suc.prems len Cons_nth_drop_Suc [of k b, symmetric]
    by (subst wr_in) (simp_all add: list_update_append)
  moreover have "take (Suc k) (drop n b) = take k (drop n b) @ [b ! (k + n)]"
    using Suc.prems by (subst take_Suc_conv_app_nth) (simp_all add: add.commute)
  ultimately show ?case using Suc by (simp add: for_loop_append)
qed

definition blank_cell :: console_char where
  "blank_cell = \<lparr>character = 0, char_color = color_of 0 0 0\<rparr>"

definition scrolled :: "nat \<Rightarrow> console_char list \<Rightarrow> console_char list" where
  "scrolled n b = drop n b @ replicate n blank_cell"

lemma scroll_scrolls:
  assumes "font_ok font" and "shape_ok c"
  shows "\<exists>g. console_scroll font c = Some (c\<lparr>console_buffer := scrolled (nat (console_cols c)) (console_buffer c), screen := g\<rparr>) \<and>
    (let c' = c\<lparr>console_buffer := scrolled (nat (console_cols c)) (console_buffer c), screen := g\<rparr>
     in shape_ok c' \<and> shown font c')"
proof -
  let ?n = "nat (console_cols c)" and ?b = "console_buffer c"
  define m where "m = length ?b - ?n"
  have pos: "0 < console_cols c" "0 < console_rows c" using assms(2) by (auto simp: shape_ok_def)
  have "1 * console_cols c \<le> console_rows c * console_cols c" using pos by (intro mult_right_mono) auto
  then have le: "console_cols c \<le> console_cells c" by (simp add: console_cells_def)
  have len: "length ?b = nat (console_cells c)" using assms(2) by (simp add: shape_ok_def)
  have n: "?n \<le> length ?b" "nat (console_cells c - console_cols c) = m" "m + ?n = length ?b"
    using le pos len by (auto simp: m_def nat_diff_distrib)
  let ?c = "c\<lparr>console_buffer := scrolled ?n ?b\<rparr>"
  have move: "for_loop (\<lambda>i b. do { cell \<leftarrow> rd b (i + ?n); wr b i cell }) [0..<m] ?b = Some (drop ?n ?b @ drop m ?b)"
    using move_up [of ?n ?b m] n by simp
  have clear: "blit (drop ?n ?b @ drop m ?b) m (replicate ?n blank_cell) = Some (scrolled ?n ?b)"
    using n by (subst blit_in) (auto simp: scrolled_def)
  have shape: "shape_ok ?c"
    using assms(2) n by (auto simp: shape_ok_def console_cells_def scrolled_def glyphs_ok_def blank_cell_def
        dest: in_set_dropD)
  have slen: "length (scrolled ?n ?b) = nat (console_cells c)" using n len by (simp add: scrolled_def)
  obtain c' where c': "for_loop (\<lambda>i. console_redraw_cell font (int i)) [0..<nat (console_cells c)] ?c = Some c'"
    "redrawn ?c c'" "\<forall>j < nat (console_cells c). cell_shown font c' j"
    using redraw_all [OF assms(1) shape, of "nat (console_cells c)"] slen by auto
  have eq: "c' = ?c\<lparr>screen := screen c'\<rparr>" using c'(2) unfolding redrawn_def by (rule conjunct1)
  have "shown font c'" using c'(3) slen redrawn_simps(1) [OF c'(2)] by (simp add: shown_def)
  moreover have "shape_ok c'" using redrawn_shape [OF c'(2) shape] .
  moreover have "console_scroll font c = Some c'"
    using le pos move clear c'(1) n(2) by (simp add: console_scroll_def Let_def blank_cell_def)
  ultimately show ?thesis using eq by (intro exI [where x = "screen c'"]) (simp add: Let_def)
qed

section \<open>The console as a text terminal\<close>

text \<open>
  The terminal the console presents: a grid of \<open>n\<close> columns as a list of cells, with the position
  at which the next character appears. A line feed goes to the next line, which scrolls the text
  when there is none; the cell the cursor leaves is blanked.
\<close>

type_synonym tty = "console_char list \<times> nat"

definition tty_put :: "byte \<Rightarrow> color \<Rightarrow> nat \<Rightarrow> console_char list \<Rightarrow> console_char list" where
  "tty_put ch col i b = b[i := \<lparr>character = ch, char_color = col\<rparr>]"

fun tty_check :: "nat \<Rightarrow> tty \<Rightarrow> tty" where
  "tty_check n (b, k) = (if k = length b then (scrolled n b, k - n) else (b, k))"

fun tty_char :: "nat \<Rightarrow> color \<Rightarrow> byte \<Rightarrow> tty \<Rightarrow> tty" where
  "tty_char n col ch (b, k) =
     (if ch = 0x0A then tty_check n (tty_put 0x20 col k b, (k div n + 1) * n)
      else if ch = 0x0D then (tty_put 0x20 col k b, k div n * n)
      else if ch = 0x08 then
        if k = 0 then (b, k) else (tty_put 0x20 col (k - 1) (tty_put 0x20 col k b), k - 1)
      else tty_check n (tty_put ch col k b, k + 1))"

definition tty_of :: "console \<Rightarrow> tty" where
  "tty_of c = (console_buffer c, nat (cursor c))"

text \<open>The invariant, and what an operation that changes the terminal to \<open>t\<close> keeps.\<close>

definition console_ok :: "console \<Rightarrow> bool" where
  "console_ok c \<longleftrightarrow> shape_ok c \<and> 0 \<le> cursor c \<and> cursor c < console_cells c"

definition becomes :: "byte list \<Rightarrow> console \<Rightarrow> console option \<Rightarrow> tty \<Rightarrow> bool" where
  "becomes font c r t \<longleftrightarrow> (\<exists>c'. r = Some c' \<and> console_ok c' \<and> tty_of c' = t \<and>
     console_cols c' = console_cols c \<and> console_rows c' = console_rows c \<and>
     current_color c' = current_color c \<and> (shown font c \<longrightarrow> shown font c'))"

lemma becomes_from:
  "becomes font d r t \<Longrightarrow> console_cols d = console_cols c \<Longrightarrow> console_rows d = console_rows c \<Longrightarrow>
     current_color d = current_color c \<Longrightarrow> (shown font c \<longrightarrow> shown font d) \<Longrightarrow> becomes font c r t"
  by (auto simp: becomes_def)

lemma put_then:
  assumes "font_ok font" and "console_ok c" and "unat ch < 128" and "i \<le> nat (cursor c)"
  shows "\<exists>c'. console_put_char_fixed font (int i) ch col c = Some c' \<and> console_ok c' \<and>
    console_buffer c' = tty_put ch col i (console_buffer c) \<and> cursor c' = cursor c \<and>
    console_cols c' = console_cols c \<and> console_rows c' = console_rows c \<and>
    current_color c' = current_color c \<and> (shown font c \<longrightarrow> shown font c')"
proof -
  have "int i < console_cells c" "0 \<le> cursor c" "shape_ok c"
    using assms(2,4) by (auto simp: console_ok_def)
  from put_char_fixed [OF assms(1) this(3) _ this(1) assms(3), of col] assms(2) show ?thesis
    by (auto simp: console_ok_def tty_put_def Let_def console_cells_def)
qed

lemma shape_with_cursor: "shape_ok (c\<lparr>cursor := k\<rparr>) = shape_ok c" "shown font (c\<lparr>cursor := k\<rparr>) = shown font c"
  by (simp_all add: shape_ok_def console_cells_def shown_def cell_shown_def cell_x_def cell_y_def)

lemma check_scroll:
  assumes "font_ok font" and "shape_ok c" and "0 \<le> cursor c" and "cursor c \<le> console_cells c"
  shows "becomes font c (console_check_scroll font c) (tty_check (nat (console_cols c)) (tty_of c))"
proof (cases "cursor c = console_cells c")
  case False
  then show ?thesis using assms
    by (auto simp: becomes_def console_check_scroll_def tty_of_def console_ok_def shape_ok_def)
next
  case True
  have pos: "0 < console_cols c" "0 < console_rows c" and len: "length (console_buffer c) = nat (console_cells c)"
    using assms(2) by (auto simp: shape_ok_def)
  have "1 * console_cols c \<le> console_rows c * console_cols c" using pos by (intro mult_right_mono) auto
  then have le: "console_cols c \<le> console_cells c" by (simp add: console_cells_def)
  obtain g where g: "console_scroll font c = Some (c\<lparr>console_buffer := scrolled (nat (console_cols c)) (console_buffer c), screen := g\<rparr>)"
    and ok: "shape_ok (c\<lparr>console_buffer := scrolled (nat (console_cols c)) (console_buffer c), screen := g\<rparr>)"
      "shown font (c\<lparr>console_buffer := scrolled (nat (console_cols c)) (console_buffer c), screen := g\<rparr>)"
    using scroll_scrolls [OF assms(1,2)] by (auto simp: Let_def)
  let ?c = "c\<lparr>console_buffer := scrolled (nat (console_cols c)) (console_buffer c), screen := g\<rparr>"
  let ?d = "?c\<lparr>cursor := cursor ?c - console_cols ?c\<rparr>"
  have "console_check_scroll font c = Some ?d" using True g by (simp add: console_check_scroll_def)
  moreover have "shape_ok ?d" "shown font ?d" using ok shape_with_cursor [where c = ?c] by auto
  moreover have "tty_of ?d = tty_check (nat (console_cols c)) (tty_of c)"
    using True len le pos by (simp add: tty_of_def nat_diff_distrib)
  moreover have "0 \<le> cursor ?d" "cursor ?d < console_cells ?d"
    using True le pos by (simp_all add: console_cells_def)
  ultimately show ?thesis unfolding becomes_def console_ok_def
    by (intro exI [where x = ?d]) simp
qed

text \<open>The row of the cursor, which fits the signed byte that \<open>console_get_offset\<close> takes.\<close>

lemma cursor_row:
  assumes "console_ok c"
  shows "cursor c sdiv console_cols c = int (nat (cursor c) div nat (console_cols c))"
    and "nat (cursor c) div nat (console_cols c) < nat (console_rows c)"
proof -
  have b: "0 \<le> cursor c" "cursor c < console_rows c * console_cols c" "0 < console_cols c" "0 < console_rows c"
    using assms by (auto simp: console_ok_def shape_ok_def console_cells_def)
  show "cursor c sdiv console_cols c = int (nat (cursor c) div nat (console_cols c))"
    using b by (simp add: sdiv_nonneg zdiv_int)
  have "nat (cursor c) < nat (console_rows c) * nat (console_cols c)"
    using b by (simp flip: nat_mult_distrib)
  then show "nat (cursor c) div nat (console_cols c) < nat (console_rows c)"
    by (simp add: less_mult_imp_div_less)
qed

lemma get_offset_small:
  assumes "r \<le> 127"
  shows "console_get_offset (of_int (int r)) 0 c = int r * console_cols c"
proof -
  have "unat (of_nat r :: byte) = r" using assms by (simp add: unat_of_nat)
  then have "sint (of_int (int r) :: byte) = int r" using assms sint_small_byte [of "of_nat r"] by simp
  then show ?thesis by (simp add: console_get_offset_def)
qed

lemma write_char_becomes:
  assumes "font_ok font" and "console_ok c" and "unat ch < 128"
  shows "becomes font c (console_write_char font ch c)
    (tty_char (nat (console_cols c)) (current_color c) ch (tty_of c))"
proof -
  define n k where "n = nat (console_cols c)" and "k = nat (cursor c)"
  have pos: "0 < console_cols c" "console_rows c \<le> 127" "0 \<le> cursor c" "int n = console_cols c" "int k = cursor c"
    using assms(2) by (auto simp: console_ok_def shape_ok_def n_def k_def)
  note row = cursor_row [OF assms(2), folded n_def k_def]
  have row127: "k div n + 1 \<le> 127" using row(2) pos(2) by linarith
  have nm: "nat (int m * console_cols c) = m * n" for m
    using pos(1) by (simp add: n_def nat_mult_distrib)
  have space: "unat (0x20 :: byte) < 128" by simp
  obtain c1 where c1: "console_put_char_fixed font (int k) 0x20 (current_color c) c = Some c1" "console_ok c1"
    "console_buffer c1 = tty_put 0x20 (current_color c) k (console_buffer c)" "cursor c1 = cursor c"
    "console_cols c1 = console_cols c" "console_rows c1 = console_rows c" "current_color c1 = current_color c"
    "shown font c \<longrightarrow> shown font c1"
    using put_then [OF assms(1,2) space, of k "current_color c"] by (auto simp: k_def)
  have shape1: "shape_ok c1" "console_cells c1 = console_rows c * console_cols c"
    using c1(2,5,6) by (auto simp: console_ok_def console_cells_def)
  consider "ch = 0x0A" | "ch = 0x0D" | "ch = 0x08" | "ch \<noteq> 0x0A" "ch \<noteq> 0x0D" "ch \<noteq> 0x08" by blast
  then show ?thesis
  proof cases
    case 1
    let ?c2 = "c1\<lparr>cursor := int (k div n + 1) * console_cols c1\<rparr>"
    have "int (k div n + 1) * console_cols c \<le> console_rows c * console_cols c"
      using row(2) pos by (intro mult_right_mono) linarith+
    then have b: "becomes font ?c2 (console_check_scroll font ?c2) (tty_check (nat (console_cols ?c2)) (tty_of ?c2))"
      using shape1 c1(5) pos by (intro check_scroll assms(1)) (auto simp: shape_with_cursor console_cells_def)
    have t: "tty_of ?c2 = (tty_put 0x20 (current_color c) k (console_buffer c), (k div n + 1) * n)"
      using nm [of "k div n + 1"] by (simp add: tty_of_def c1(3,5) del: of_nat_add of_nat_Suc)
    have "console_write_char font ch c = console_check_scroll font ?c2"
      using 1 pos c1(1) get_offset_small [OF row127, of c1]
      by (simp add: console_write_char_def row(1) algebra_simps)
    moreover have "tty_char n (current_color c) ch (tty_of c) = tty_check n (tty_of ?c2)"
      unfolding t using 1 by (simp add: tty_of_def add.commute flip: k_def del: tty_check.simps)
    moreover have "becomes font c (console_check_scroll font ?c2) (tty_check n (tty_of ?c2))"
      by (rule becomes_from [where d = ?c2]) (use b c1(5-8) in \<open>simp_all add: shape_with_cursor n_def\<close>)
    ultimately show ?thesis by (simp only: flip: n_def)
  next
    case 2
    let ?c2 = "c1\<lparr>cursor := int (k div n) * console_cols c1\<rparr>"
    have "console_write_char font ch c = Some ?c2"
      using 2 pos c1(1) get_offset_small [of "k div n" c1] row127
      by (simp add: console_write_char_def row(1))
    moreover have "console_ok ?c2"
    proof -
      have "int (k div n) * int n \<le> int k" by (metis div_times_less_eq_dividend of_nat_le_iff of_nat_mult)
      then show ?thesis using shape1(1) c1(2,4-6) pos row(2) by (auto simp: console_ok_def shape_with_cursor console_cells_def)
    qed
    moreover have "tty_of ?c2 = (tty_put 0x20 (current_color c) k (console_buffer c), k div n * n)"
      using nm [of "k div n"] by (simp add: tty_of_def c1(3,5))
    ultimately show ?thesis using 2 c1(5-8)
      by (simp add: becomes_def shape_with_cursor tty_of_def flip: n_def k_def)
  next
    case 3
    show ?thesis
    proof (cases "k = 0")
      case True
      then have "console_write_char font ch c = Some c" using 3 pos by (simp add: console_write_char_def)
      then show ?thesis using 3 True assms(2) pos(3,5)
        by (simp add: becomes_def tty_of_def flip: k_def)
    next
      case False
      let ?c2 = "c1\<lparr>cursor := cursor c1 - 1\<rparr>"
      have ok2: "console_ok ?c2" using False c1(2,4) pos
        by (simp add: console_ok_def shape_with_cursor console_cells_def)
      have cur2: "int (k - 1) = cursor ?c2" using False pos c1(4) by simp
      then have "k - 1 \<le> nat (cursor ?c2)" by linarith
      then obtain c3 where c3: "console_put_char_fixed font (int (k - 1)) 0x20 (current_color c) ?c2 = Some c3" "console_ok c3"
        "console_buffer c3 = tty_put 0x20 (current_color c) (k - 1) (console_buffer ?c2)" "cursor c3 = cursor ?c2"
        "console_cols c3 = console_cols ?c2" "console_rows c3 = console_rows ?c2"
        "current_color c3 = current_color ?c2" "shown font ?c2 \<longrightarrow> shown font c3"
        using put_then [OF assms(1) ok2 space, of "k - 1" "current_color c"] by auto
      have "console_write_char font ch c = Some c3"
        using 3 False pos c1(1,4,7) c3(1) cur2 by (simp add: console_write_char_def)
      moreover have "tty_of c3 = (tty_put 0x20 (current_color c) (k - 1) (tty_put 0x20 (current_color c) k (console_buffer c)), k - 1)"
        using c3(3,4) c1(3) cur2 by (simp add: tty_of_def)
      ultimately show ?thesis using 3 False c3(2,5-8) c1(5-8)
        by (simp add: becomes_def shape_with_cursor tty_of_def flip: n_def k_def)
    qed
  next
    case 4
    obtain d1 where d1: "console_put_char_fixed font (int k) ch (current_color c) c = Some d1" "console_ok d1"
      "console_buffer d1 = tty_put ch (current_color c) k (console_buffer c)" "cursor d1 = cursor c"
      "console_cols d1 = console_cols c" "console_rows d1 = console_rows c" "current_color d1 = current_color c"
      "shown font c \<longrightarrow> shown font d1"
      using put_then [OF assms, of k "current_color c"] by (auto simp: k_def)
    let ?c2 = "d1\<lparr>cursor := cursor d1 + 1\<rparr>"
    have b: "becomes font ?c2 (console_check_scroll font ?c2) (tty_check (nat (console_cols ?c2)) (tty_of ?c2))"
      using d1(2) by (intro check_scroll assms(1)) (auto simp: shape_with_cursor console_cells_def console_ok_def)
    have t: "tty_of ?c2 = (tty_put ch (current_color c) k (console_buffer c), k + 1)"
      using pos d1(3,4) by (simp add: tty_of_def)
    have "console_write_char font ch c = console_check_scroll font ?c2"
      using 4 pos d1(1) by (simp add: console_write_char_def)
    moreover have "tty_char n (current_color c) ch (tty_of c) = tty_check n (tty_of ?c2)"
      unfolding t using 4 by (simp add: tty_of_def flip: k_def del: tty_check.simps)
    moreover have "becomes font c (console_check_scroll font ?c2) (tty_check n (tty_of ?c2))"
      by (rule becomes_from [where d = ?c2]) (use b d1(5-8) in \<open>simp_all add: shape_with_cursor n_def\<close>)
    ultimately show ?thesis by (simp only: flip: n_def)
  qed
qed

section \<open>Text with colour escapes\<close>

text \<open>
  A text is a list of characters, each with an escape before it or without: the reset of the
  colour (\<open>Some None\<close>) or the selection of one of eight (\<open>Some (Some k)\<close>).
\<close>

type_synonym styled = "nat option option \<times> byte"

fun escape_bytes :: "nat option option \<Rightarrow> byte list" where
  "escape_bytes None = []"
| "escape_bytes (Some None) = [1, 0x5B, 0x30, 0x6D]"
| "escape_bytes (Some (Some k)) = [1, 0x5B, 0x33, 0x30 + of_nat k, 0x6D]"

fun escape_color :: "nat option option \<Rightarrow> color \<Rightarrow> color" where
  "escape_color None col = col"
| "escape_color (Some None) col = COLOR_WHITE"
| "escape_color (Some (Some k)) col = ansi_colors ! k"

definition styled_bytes :: "styled list \<Rightarrow> byte list" where
  "styled_bytes ts = concat (map (\<lambda>(e, ch). escape_bytes e @ [ch]) ts)"

definition styled_ok :: "styled \<Rightarrow> bool" where
  "styled_ok t \<longleftrightarrow> unat (snd t) < 128 \<and>
     (case fst t of None \<Rightarrow> snd t \<noteq> 1 | Some None \<Rightarrow> True | Some (Some k) \<Rightarrow> k < 8)"

fun tty_text :: "nat \<Rightarrow> styled list \<Rightarrow> color \<Rightarrow> tty \<Rightarrow> color \<times> tty" where
  "tty_text n [] col t = (col, t)"
| "tty_text n ((e, ch) # ts) col t =
     (let col = escape_color e col in tty_text n ts col (tty_char n col ch t))"

lemma digit_color:
  assumes "k < 8"
  shows "rd_int ansi_colors (sint (0x30 + of_nat k :: byte) - 48) = Some (ansi_colors ! k)"
proof -
  have "unat (0x30 + of_nat k :: byte) = 0x30 + k"
    using assms unat_add_small [of "0x30 :: byte" k] by simp
  then have "sint (0x30 + of_nat k :: byte) = 48 + int k"
    using assms sint_small_byte [of "0x30 + of_nat k"] by simp
  then show ?thesis using assms by (simp add: rd_int_def ansi_colors_def)
qed

text \<open>One turn of the loop of \<open>console_write\<close>, at a character of a text.\<close>

lemma write_turn:
  assumes "styled_ok (e, ch)" and "i + length (escape_bytes e) < length data"
    and "take (length (escape_bytes e @ [ch])) (drop i data) = escape_bytes e @ [ch]"
  shows "console_write_loop font data (int (length data)) i c = do {
     c \<leftarrow> console_write_char font ch (c\<lparr>current_color := escape_color e (current_color c)\<rparr>);
     console_write_loop font data (int (length data)) (i + length (escape_bytes e) + 1) c }"
proof -
  have nths: "data ! (i + j) = (escape_bytes e @ [ch]) ! j" if "j \<le> length (escape_bytes e)" for j
    using that assms(2) assms(3)[symmetric] by simp
  show ?thesis
  proof (cases e)
    case None
    then show ?thesis using assms nths [of 0]
      by (subst console_write_loop.simps) (simp add: styled_ok_def)
  next
    case (Some r)
    show ?thesis
    proof (cases r)
      case None
      with Some have l: "length (escape_bytes e) = 4" by simp
      show ?thesis unfolding l using Some None assms(2) nths [of 0] nths [of 2] nths [of 4]
        by (subst console_write_loop.simps) (simp add: ansi_escape_def)
    next
      case (Some k)
      with \<open>e = Some r\<close> have e: "e = Some (Some k)" by simp
      then have k: "k < 8" using assms(1) by (simp add: styled_ok_def)
      have l: "length (escape_bytes e) = 5" by (simp add: e)
      show ?thesis unfolding l using e assms(2) nths [of 0] nths [of 2] nths [of 3] nths [of 5] digit_color [OF k]
        by (subst console_write_loop.simps) (simp add: ansi_escape_def)
    qed
  qed
qed

lemma colored_ok: "console_ok (c\<lparr>current_color := col\<rparr>) = console_ok c" "shown font (c\<lparr>current_color := col\<rparr>) = shown font c"
  "tty_of (c\<lparr>current_color := col\<rparr>) = tty_of c"
  by (simp_all add: console_ok_def shape_ok_def console_cells_def shown_def cell_shown_def cell_x_def cell_y_def tty_of_def)

lemma write_loop_text:
  assumes "font_ok font" and "console_ok c" and "\<forall>t \<in> set ts. styled_ok t"
    and "i \<le> length data" and "drop i data = styled_bytes ts"
  shows "\<exists>c'. console_write_loop font data (int (length data)) i c = Some c' \<and> console_ok c' \<and>
    (current_color c', tty_of c') = tty_text (nat (console_cols c)) ts (current_color c) (tty_of c) \<and>
    console_cols c' = console_cols c \<and> (shown font c \<longrightarrow> shown font c')"
  using assms(2-5)
proof (induction ts arbitrary: c i)
  case Nil
  then have "i = length data" by (simp add: styled_bytes_def)
  then show ?case using Nil by (subst console_write_loop.simps) simp
next
  case (Cons t ts)
  obtain e ch where t: "t = (e, ch)" by (cases t)
  have ok: "styled_ok (e, ch)" and ch: "unat ch < 128" using Cons.prems(2) t by (auto simp: styled_ok_def)
  have d: "drop i data = (escape_bytes e @ [ch]) @ styled_bytes ts"
    using Cons.prems(4) by (simp add: t styled_bytes_def)
  then have "length (drop i data) = length (escape_bytes e) + 1 + length (styled_bytes ts)" by simp
  then have len: "i + length (escape_bytes e) < length data" by simp
  let ?c = "c\<lparr>current_color := escape_color e (current_color c)\<rparr>"
  have b: "becomes font ?c (console_write_char font ch ?c)
      (tty_char (nat (console_cols c)) (escape_color e (current_color c)) ch (tty_of c))"
    using write_char_becomes [OF assms(1), of ?c ch] Cons.prems(1) ch by (simp add: colored_ok)
  then obtain c1 where c1: "console_write_char font ch ?c = Some c1" "console_ok c1"
    "tty_of c1 = tty_char (nat (console_cols c)) (escape_color e (current_color c)) ch (tty_of c)"
    "console_cols c1 = console_cols c" "current_color c1 = escape_color e (current_color c)"
    "shown font c \<longrightarrow> shown font c1"
    by (auto simp: becomes_def colored_ok)
  have "drop (i + length (escape_bytes e) + 1) data = drop (length (escape_bytes e) + 1) (drop i data)"
    by (simp add: add.commute)
  also have "\<dots> = styled_bytes ts" by (simp add: d)
  finally obtain c2 where c2: "console_write_loop font data (int (length data)) (i + length (escape_bytes e) + 1) c1 = Some c2"
    "console_ok c2" "(current_color c2, tty_of c2) = tty_text (nat (console_cols c)) ts (current_color c1) (tty_of c1)"
    "console_cols c2 = console_cols c1" "shown font c1 \<longrightarrow> shown font c2"
    using Cons.IH [OF c1(2), of "i + length (escape_bytes e) + 1"] Cons.prems(2) len c1(4) by auto
  have "console_write_loop font data (int (length data)) i c = Some c2"
    using write_turn [OF ok len, of font c] d c1(1) c2(1) by simp
  then show ?case using c2 c1(3-6) by (simp add: t Let_def)
qed

text \<open>A text without escapes, byte by byte.\<close>

definition plain :: "byte list \<Rightarrow> styled list" where
  "plain bs = map (Pair None) bs"

lemma tty_text_append: "tty_text n (ts @ us) col t = (case tty_text n ts col t of (col, t) \<Rightarrow> tty_text n us col t)"
  by (induction n ts col t rule: tty_text.induct) (simp_all add: Let_def)

lemma tty_text_plain: "fst (tty_text n (plain bs) col t) = col"
  by (induction bs arbitrary: t) (simp_all add: plain_def)

lemma copied_ok: "console_ok (c\<lparr>screen := vesa_copy_buffer (screen c)\<rparr>) = console_ok c"
  "shown font (c\<lparr>screen := vesa_copy_buffer (screen c)\<rparr>) = shown font c"
  by (simp_all add: console_ok_def shape_ok_def graphics_ok_def vesa_copy_buffer_def console_cells_def shown_def
      cell_shown_def cell_x_def cell_y_def pixel_def)

lemma write_plain_byte:
  assumes "font_ok font" and "console_ok c" and "unat b < 128" and "b \<noteq> 1"
  shows "\<exists>c'. console_write font [b] 1 c = Some c' \<and> console_ok c' \<and> console_cols c' = console_cols c \<and>
    (current_color c', tty_of c') = tty_text (nat (console_cols c)) (plain [b]) (current_color c) (tty_of c) \<and>
    (shown font c \<longrightarrow> shown font c')"
proof -
  have "\<forall>t \<in> set (plain [b]). styled_ok t" using assms(3,4) by (simp add: plain_def styled_ok_def)
  from write_loop_text [OF assms(1,2) this, of 0 "[b]"] obtain c' where
    c': "console_write_loop font [b] 1 0 c = Some c'" "console_ok c'" "console_cols c' = console_cols c"
    "(current_color c', tty_of c') = tty_text (nat (console_cols c)) (plain [b]) (current_color c) (tty_of c)"
    "shown font c \<longrightarrow> shown font c'"
    by (auto simp: plain_def styled_bytes_def)
  have "tty_of (c'\<lparr>screen := vesa_copy_buffer (screen c')\<rparr>) = tty_of c'" by (simp add: tty_of_def)
  with c' show ?thesis by (simp add: console_write_def copied_ok)
qed

section \<open>Properties\<close>

text \<open>
  C5: a character written to the console changes the grid and the cursor as the text terminal
  prescribes, for every character the font has: the cursor stays inside the grid, line feed,
  carriage return and backspace move it, the text scrolls by a line when it leaves the last cell,
  and if the screen displayed the grid before, it still does.
\<close>

theorem console_write_char_refines_tty:
  assumes "font_ok font" and "console_ok c" and "unat ch < 128"
  shows "\<exists>c'. console_write_char font ch c = Some c' \<and> console_ok c' \<and>
    tty_of c' = tty_char (nat (console_cols c)) (current_color c) ch (tty_of c) \<and>
    (shown font c \<longrightarrow> shown font c')"
  using write_char_becomes [OF assms] by (auto simp: becomes_def)

text \<open>
  a text of characters with colour escapes before them, written with \<open>console_write\<close>, always
  comes back: each character has gone to the terminal in the colour the escapes before it select,
  no byte of an escape has been displayed, and the back buffer has been copied to the screen.
\<close>

theorem console_write_displays_text:
  assumes "font_ok font" and "console_ok c" and "\<forall>t \<in> set ts. styled_ok t"
  shows "\<exists>c'. console_write font (styled_bytes ts) (int (length (styled_bytes ts))) c = Some c' \<and>
    (current_color c', tty_of c') = tty_text (nat (console_cols c)) ts (current_color c) (tty_of c) \<and>
    video_memory (screen c') = back_buffer (screen c') \<and> (shown font c \<longrightarrow> shown font c')"
proof -
  obtain c' where c': "console_write_loop font (styled_bytes ts) (int (length (styled_bytes ts))) 0 c = Some c'"
    "(current_color c', tty_of c') = tty_text (nat (console_cols c)) ts (current_color c) (tty_of c)"
    "shown font c \<longrightarrow> shown font c'"
    using write_loop_text [OF assms, of 0 "styled_bytes ts"] by auto
  let ?c = "c'\<lparr>screen := vesa_copy_buffer (screen c')\<rparr>"
  have "console_write font (styled_bytes ts) (int (length (styled_bytes ts))) c = Some ?c"
    by (simp add: console_write_def c'(1))
  moreover have "shown font ?c = shown font c'"
    by (simp add: shown_def cell_shown_def cell_x_def cell_y_def vesa_copy_buffer_def pixel_def)
  ultimately show ?thesis using c'(2,3) by (auto simp: tty_of_def vesa_copy_buffer_def)
qed

text \<open>
  the byte after an escape is displayed without a look at the length: a text that ends with an
  escape writes one byte beyond its end.
\<close>

theorem escape_at_end_overreads:
  "console_write font ([1, 0x5B, 0x30, 0x6D] @ [beyond]) 4 c = do {
     c \<leftarrow> console_write_char font beyond (c\<lparr>current_color := COLOR_WHITE\<rparr>);
     Some (c\<lparr>screen := vesa_copy_buffer (screen c)\<rparr>) }"
proof -
  have "console_write_loop font [1, 0x5B, 0x30, 0x6D, beyond] 4 0 c =
      console_write_char font beyond (c\<lparr>current_color := COLOR_WHITE\<rparr>) \<bind>
        console_write_loop font [1, 0x5B, 0x30, 0x6D, beyond] 4 5"
    by (subst console_write_loop.simps) (simp add: ansi_escape_def)
  moreover have "console_write_loop font [1, 0x5B, 0x30, 0x6D, beyond] 4 5 d = Some d" for d
    by (subst console_write_loop.simps) simp
  ultimately show ?thesis
    by (cases "console_write_char font beyond (c\<lparr>current_color := COLOR_WHITE\<rparr>)") (simp_all add: console_write_def)
qed

text \<open>A console of two lines of two cells for the witnesses.\<close>

definition tiny_console :: console where
  "tiny_console = console_init 0 0 16 32 \<lparr>console_buffer = [], console_x = 0, console_y = 0, console_width = 0,
     console_height = 0, console_rows = 0, console_cols = 0, current_color = COLOR_BLACK, cursor = 0,
     screen = \<lparr>screen_width = 16, screen_height = 52, back_buffer = replicate 832 0, video_memory = []\<rparr>\<rparr>"

definition tiny_font :: "byte list" where
  "tiny_font = replicate 2052 0"

lemma tiny_ok: "console_ok tiny_console" "font_ok tiny_font" "console_cols tiny_console = 2"
  "tty_of tiny_console = (replicate 4 \<lparr>character = 0x20, char_color = color_of 0x20 0x20 0x20\<rparr>, 0)"
  by (simp_all add: tiny_console_def tiny_font_def font_ok_def console_init_def console_ok_def shape_ok_def
      graphics_ok_def console_cells_def glyphs_ok_def CONSOLE_CHAR_HEIGHT_def CONSOLE_CHAR_WIDTH_def
      CONSOLE_CHAR_SPACE_def tty_of_def sdiv_nonneg)

theorem console_write_char_refines_tty_witness:
  "\<exists>c'. console_write_char tiny_font 0x41 tiny_console = Some c' \<and> console_ok c' \<and> snd (tty_of c') = 1"
proof -
  have "unat (0x41 :: byte) < 128" by simp
  from console_write_char_refines_tty [OF tiny_ok(2,1) this] show ?thesis
    by (auto simp: tiny_ok(3,4) tty_put_def)
qed

theorem console_write_displays_text_witness:
  "\<exists>c'. console_write tiny_font [1, 0x5B, 0x33, 0x32, 0x6D, 0x41, 0x0A] 7 tiny_console = Some c' \<and>
     current_color c' = COLOR_GREEN \<and> snd (tty_of c') = 2"
proof -
  have ok: "\<forall>t \<in> set [(Some (Some 2), 0x41), (None, 0x0A)]. styled_ok t" by (simp add: styled_ok_def)
  have b: "styled_bytes [(Some (Some 2), 0x41), (None, 0x0A)] = [1, 0x5B, 0x33, 0x32, 0x6D, 0x41, 0x0A]"
    by (simp add: styled_bytes_def)
  from console_write_displays_text [OF tiny_ok(2,1) ok] show ?thesis
    by (auto simp: b tiny_ok(3,4) tty_put_def ansi_colors_def)
qed

end
