(* ===== verification/Font.thy ===== *)
theory Font
  imports Console
begin

text \<open>
  The font of the console, \<open>fonts/zap-vga16.c\<close>: a font file of the Linux console as an array, with a
  header of four bytes, 256 glyphs of sixteen bytes and a table of code points that the kernel does
  not read. The definitions have a list for every line of the array. The lemmas show that every
  7-bit character has a glyph of its own and that only the space is blank, and so that what the
  console displays can be read back from the pixels.
\<close>

section \<open>The array\<close>

definition psf_lines_1 :: "int list list" where
  "psf_lines_1 = [
    [0x36, 0x04, 0x02, 0x10, 0x00, 0x00, 0x7e, 0xc3, 0x99, 0x99, 0xf3, 0xe7, 0xe7, 0xff, 0xe7, 0xe7],
    [0x7e, 0x00, 0x00, 0x00, 0x00, 0x00, 0x00, 0x00, 0x00, 0x7f, 0xe6, 0x66, 0x66, 0x66, 0x66, 0xc3],
    [0x00, 0x00, 0x00, 0x00, 0x00, 0x00, 0x00, 0x06, 0x0c, 0xfe, 0x18, 0x30, 0xfe, 0x60, 0xc0, 0x00],
    [0x00, 0x00, 0x00, 0x00, 0x00, 0x00, 0x00, 0x0c, 0x18, 0x30, 0x60, 0x30, 0x18, 0x0c, 0x00, 0x7e],
    [0x00, 0x00, 0x00, 0x00, 0x00, 0x00, 0x00, 0x30, 0x18, 0x0c, 0x06, 0x0c, 0x18, 0x30, 0x00, 0x7e],
    [0x00, 0x00, 0x00, 0x00, 0x00, 0x00, 0x00, 0x00, 0x7c, 0x7c, 0x7c, 0x7c, 0x7c, 0x7c, 0x7c, 0x00],
    [0x00, 0x00, 0x00, 0x00, 0x00, 0x00, 0x00, 0x00, 0x10, 0x38, 0x7c, 0xfe, 0x7c, 0x38, 0x10, 0x00],
    [0x00, 0x00, 0x00, 0x00, 0x00, 0x60, 0xe0, 0x62, 0x66, 0x6c, 0x18, 0x30, 0x66, 0xce, 0x96, 0x3f],
    [0x06, 0x06, 0x00, 0x00, 0x00, 0x60, 0xe0, 0x62, 0x66, 0x6c, 0x18, 0x30, 0x60, 0xce, 0x9b, 0x06],
    [0x0c, 0x1f, 0x00, 0x00, 0x00, 0xe0, 0x30, 0x62, 0x36, 0xec, 0x18, 0x30, 0x66, 0xce, 0x96, 0x3f],
    [0x06, 0x06, 0x00, 0x00, 0x00, 0x18, 0x18, 0x18, 0x18, 0x18, 0x00, 0x00, 0x18, 0x18, 0x18, 0x18],
    [0x18, 0x00, 0x00, 0x00, 0x00, 0x6c, 0x6c, 0x00, 0x00, 0x00, 0x00, 0x00, 0x00, 0x00, 0x00, 0x00],
    [0x00, 0x00, 0x00, 0x00, 0x00, 0x00, 0x00, 0x00, 0x00, 0x00, 0x00, 0x00, 0x00, 0x00, 0x00, 0x00],
    [0x0c, 0x06, 0x7c, 0x00, 0x00, 0x00, 0x0e, 0x1b, 0x18, 0x18, 0x18, 0x7e, 0x18, 0x18, 0x18, 0x18],
    [0x18, 0xd8, 0x70, 0x00, 0x00, 0x00, 0x18, 0x18, 0x18, 0x7e, 0x18, 0x18, 0x18, 0x18, 0x18, 0x18],
    [0x00, 0x00, 0x00, 0x00, 0x00, 0x00, 0x18, 0x18, 0x18, 0x7e, 0x18, 0x18, 0x7e, 0x18, 0x18, 0x18],
    [0x00, 0x00, 0x00, 0x00, 0x00, 0x00, 0x00, 0x00, 0xc2, 0xc6, 0x0c, 0x18, 0x30, 0x60, 0xdb, 0x9b],
    [0x00, 0x00, 0x00, 0x00, 0x00, 0x00, 0xf1, 0x5b, 0x55, 0x51, 0x00, 0x00, 0x00, 0x00, 0x00, 0x00],
    [0x00, 0x00, 0x00, 0x00, 0x00, 0x00, 0x00, 0x00, 0x00, 0x00, 0x00, 0x00, 0x00, 0x00, 0xdb, 0xdb],
    [0x00, 0x00, 0x00, 0x00, 0x00, 0x00, 0x00, 0x00, 0x00, 0x0c, 0x18, 0x30, 0x18, 0x0c, 0x00, 0x00],
    [0x00, 0x00, 0x00, 0x00, 0x00, 0x00, 0x00, 0x00, 0x00, 0x30, 0x18, 0x0c, 0x18, 0x30, 0x00, 0x00],
    [0x00, 0x00, 0x00, 0x00, 0x00, 0x66, 0x66, 0x66, 0x33, 0x00, 0x00, 0x00, 0x00, 0x00, 0x00, 0x00],
    [0x00, 0x00, 0x00, 0x00, 0x00, 0x66, 0x66, 0x66, 0xcc, 0x00, 0x00, 0x00, 0x00, 0x00, 0x00, 0x00],
    [0x00, 0x00, 0x00, 0x00, 0x00, 0x00, 0x00, 0x00, 0x00, 0x00, 0x00, 0x00, 0x00, 0x00, 0x66, 0x66],
    [0x66, 0xcc, 0x00, 0x00, 0x00, 0x00, 0x00, 0x00, 0x00, 0x00, 0x00, 0x00, 0x00, 0x00, 0x66, 0x66],
    [0x66, 0x33, 0x00, 0x00, 0x00, 0x00, 0x00, 0x00, 0x00, 0x00, 0x00, 0x00, 0x00, 0x00, 0x18, 0x18],
    [0x18, 0x0c, 0x00, 0x00, 0x6c, 0x38, 0x00, 0x3c, 0x66, 0xc2, 0xc0, 0xde, 0xc6, 0xc6, 0x66, 0x3a],
    [0x00, 0x00, 0x00, 0x00, 0x00, 0x00, 0x6c, 0x38, 0x00, 0x76, 0xcc, 0xcc, 0xcc, 0xcc, 0xcc, 0x7c],
    [0x0c, 0xcc, 0x78, 0x00, 0x00, 0x18, 0x18, 0x00, 0x3c, 0x18, 0x18, 0x18, 0x18, 0x18, 0x18, 0x3c],
    [0x00, 0x00, 0x00, 0x00, 0x00, 0x00, 0x00, 0x00, 0x00, 0x38, 0x18, 0x18, 0x18, 0x18, 0x18, 0x3c],
    [0x00, 0x00, 0x00, 0x00, 0x00, 0x00, 0x7c, 0xc6, 0xc6, 0x60, 0x38, 0x0c, 0x06, 0xc6, 0xc6, 0x7c],
    [0x0c, 0x06, 0x7c, 0x00, 0x00, 0x00, 0x00, 0x00, 0x00, 0x7c, 0xc6, 0x60, 0x38, 0x0c, 0xc6, 0x7c],
    [0x0c, 0x06, 0x7c, 0x00, 0x00, 0x00, 0x00, 0x00, 0x00, 0x00, 0x00, 0x00, 0x00, 0x00, 0x00, 0x00],
    [0x00, 0x00, 0x00, 0x00, 0x00, 0x00, 0x18, 0x3c, 0x3c, 0x3c, 0x18, 0x18, 0x18, 0x00, 0x18, 0x18],
    [0x00, 0x00, 0x00, 0x00, 0x00, 0x66, 0x66, 0x66, 0x24, 0x00, 0x00, 0x00, 0x00, 0x00, 0x00, 0x00],
    [0x00, 0x00, 0x00, 0x00, 0x00, 0x00, 0x00, 0x6c, 0x6c, 0xfe, 0x6c, 0x6c, 0x6c, 0xfe, 0x6c, 0x6c],
    [0x00, 0x00, 0x00, 0x00, 0x00, 0x10, 0x10, 0x7c, 0xd6, 0xd2, 0xd0, 0x7c, 0x16, 0x96, 0xd6, 0x7c],
    [0x10, 0x10, 0x00, 0x00, 0x00, 0x00, 0x00, 0x00, 0xc2, 0xc6, 0x0c, 0x18, 0x30, 0x60, 0xc6, 0x86],
    [0x00, 0x00, 0x00, 0x00, 0x00, 0x00, 0x38, 0x6c, 0x6c, 0x38, 0x76, 0xdc, 0xcc, 0xcc, 0xcc, 0x76],
    [0x00, 0x00, 0x00, 0x00, 0x00, 0x18, 0x18, 0x18, 0x30, 0x00, 0x00, 0x00, 0x00, 0x00, 0x00, 0x00],
    [0x00, 0x00, 0x00, 0x00, 0x00, 0x00, 0x0c, 0x18, 0x30, 0x30, 0x30, 0x30, 0x30, 0x30, 0x18, 0x0c],
    [0x00, 0x00, 0x00, 0x00, 0x00, 0x00, 0x30, 0x18, 0x0c, 0x0c, 0x0c, 0x0c, 0x0c, 0x0c, 0x18, 0x30],
    [0x00, 0x00, 0x00, 0x00, 0x00, 0x00, 0x00, 0x00, 0x00, 0x6c, 0x38, 0xfe, 0x38, 0x6c, 0x00, 0x00],
    [0x00, 0x00, 0x00, 0x00, 0x00, 0x00, 0x00, 0x00, 0x00, 0x18, 0x18, 0x7e, 0x18, 0x18, 0x00, 0x00],
    [0x00, 0x00, 0x00, 0x00, 0x00, 0x00, 0x00, 0x00, 0x00, 0x00, 0x00, 0x00, 0x00, 0x00, 0x18, 0x18],
    [0x18, 0x30, 0x00, 0x00, 0x00, 0x00, 0x00, 0x00, 0x00, 0x00, 0x00, 0x7e, 0x00, 0x00, 0x00, 0x00],
    [0x00, 0x00, 0x00, 0x00, 0x00, 0x00, 0x00, 0x00, 0x00, 0x00, 0x00, 0x00, 0x00, 0x00, 0x18, 0x18],
    [0x00, 0x00, 0x00, 0x00, 0x00, 0x00, 0x00, 0x00, 0x02, 0x06, 0x0c, 0x18, 0x30, 0x60, 0xc0, 0x80],
    [0x00, 0x00, 0x00, 0x00, 0x00, 0x00, 0x7c, 0xc6, 0xc6, 0xc6, 0xd6, 0xd6, 0xc6, 0xc6, 0xc6, 0x7c],
    [0x00, 0x00, 0x00, 0x00, 0x00, 0x00, 0x18, 0x38, 0x78, 0x18, 0x18, 0x18, 0x18, 0x18, 0x18, 0x7e],
    [0x00, 0x00, 0x00, 0x00, 0x00, 0x00, 0x7c, 0xc6, 0x06, 0x0c, 0x18, 0x30, 0x60, 0xc0, 0xc6, 0xfe],
    [0x00, 0x00, 0x00, 0x00, 0x00, 0x00, 0x7c, 0xc6, 0x06, 0x06, 0x3c, 0x06, 0x06, 0x06, 0xc6, 0x7c],
    [0x00, 0x00, 0x00, 0x00, 0x00, 0x00, 0x0c, 0x1c, 0x3c, 0x6c, 0xcc, 0xfe, 0x0c, 0x0c, 0x0c, 0x1e],
    [0x00, 0x00, 0x00, 0x00, 0x00, 0x00, 0xfe, 0xc0, 0xc0, 0xc0, 0xfc, 0x06, 0x06, 0x06, 0xc6, 0x7c],
    [0x00, 0x00, 0x00, 0x00, 0x00, 0x00, 0x38, 0x60, 0xc0, 0xc0, 0xfc, 0xc6, 0xc6, 0xc6, 0xc6, 0x7c],
    [0x00, 0x00, 0x00, 0x00, 0x00, 0x00, 0xfe, 0xc6, 0x06, 0x06, 0x0c, 0x18, 0x30, 0x30, 0x30, 0x30],
    [0x00, 0x00, 0x00, 0x00, 0x00, 0x00, 0x7c, 0xc6, 0xc6, 0xc6, 0x7c, 0xc6, 0xc6, 0xc6, 0xc6, 0x7c],
    [0x00, 0x00, 0x00, 0x00, 0x00, 0x00, 0x7c, 0xc6, 0xc6, 0xc6, 0x7e, 0x06, 0x06, 0x06, 0x0c, 0x78],
    [0x00, 0x00, 0x00, 0x00, 0x00, 0x00, 0x00, 0x00, 0x00, 0x18, 0x18, 0x00, 0x00, 0x00, 0x18, 0x18],
    [0x00, 0x00, 0x00, 0x00, 0x00, 0x00, 0x00, 0x00, 0x00, 0x18, 0x18, 0x00, 0x00, 0x00, 0x18, 0x18],
    [0x18, 0x30, 0x00, 0x00, 0x00, 0x00, 0x00, 0x06, 0x0c, 0x18, 0x30, 0x60, 0x30, 0x18, 0x0c, 0x06],
    [0x00, 0x00, 0x00, 0x00, 0x00, 0x00, 0x00, 0x00, 0x00, 0x7e, 0x00, 0x00, 0x7e, 0x00, 0x00, 0x00],
    [0x00, 0x00, 0x00, 0x00, 0x00, 0x00, 0x00, 0x60, 0x30, 0x18, 0x0c, 0x06, 0x0c, 0x18, 0x30, 0x60],
    [0x00, 0x00, 0x00, 0x00, 0x00, 0x00, 0x7c, 0xc6, 0xc6, 0x0c, 0x18, 0x18, 0x18, 0x00, 0x18, 0x18],
    [0x00, 0x00, 0x00, 0x00, 0x00, 0x00, 0x7c, 0xc6, 0xc6, 0xc6, 0xde, 0xde, 0xde, 0xdc, 0xc0, 0x7c],
    [0x00, 0x00, 0x00, 0x00, 0x00, 0x00, 0x10, 0x38, 0x6c, 0xc6, 0xc6, 0xfe, 0xc6, 0xc6, 0xc6, 0xc6],
    [0x00, 0x00, 0x00, 0x00, 0x00, 0x00, 0xfc, 0x66, 0x66, 0x66, 0x7c, 0x66, 0x66, 0x66, 0x66, 0xfc],
    [0x00, 0x00, 0x00, 0x00, 0x00, 0x00, 0x3c, 0x66, 0xc2, 0xc0, 0xc0, 0xc0, 0xc0, 0xc2, 0x66, 0x3c],
    [0x00, 0x00, 0x00, 0x00, 0x00, 0x00, 0xf8, 0x6c, 0x66, 0x66, 0x66, 0x66, 0x66, 0x66, 0x6c, 0xf8],
    [0x00, 0x00, 0x00, 0x00, 0x00, 0x00, 0xfe, 0x66, 0x62, 0x68, 0x78, 0x68, 0x60, 0x62, 0x66, 0xfe],
    [0x00, 0x00, 0x00, 0x00, 0x00, 0x00, 0xfe, 0x66, 0x62, 0x68, 0x78, 0x68, 0x60, 0x60, 0x60, 0xf0],
    [0x00, 0x00, 0x00, 0x00, 0x00, 0x00, 0x3c, 0x66, 0xc2, 0xc0, 0xc0, 0xde, 0xc6, 0xc6, 0x66, 0x3a],
    [0x00, 0x00, 0x00, 0x00, 0x00, 0x00, 0xc6, 0xc6, 0xc6, 0xc6, 0xfe, 0xc6, 0xc6, 0xc6, 0xc6, 0xc6],
    [0x00, 0x00, 0x00, 0x00, 0x00, 0x00, 0x3c, 0x18, 0x18, 0x18, 0x18, 0x18, 0x18, 0x18, 0x18, 0x3c],
    [0x00, 0x00, 0x00, 0x00, 0x00, 0x00, 0x1e, 0x0c, 0x0c, 0x0c, 0x0c, 0x0c, 0xcc, 0xcc, 0xcc, 0x78],
    [0x00, 0x00, 0x00, 0x00, 0x00, 0x00, 0xe6, 0x66, 0x66, 0x6c, 0x78, 0x78, 0x6c, 0x66, 0x66, 0xe6],
    [0x00, 0x00, 0x00, 0x00, 0x00, 0x00, 0xf0, 0x60, 0x60, 0x60, 0x60, 0x60, 0x60, 0x62, 0x66, 0xfe],
    [0x00, 0x00, 0x00, 0x00, 0x00, 0x00, 0xc3, 0xe7, 0xff, 0xff, 0xdb, 0xc3, 0xc3, 0xc3, 0xc3, 0xc3],
    [0x00, 0x00, 0x00, 0x00, 0x00, 0x00, 0xc6, 0xe6, 0xf6, 0xfe, 0xde, 0xce, 0xc6, 0xc6, 0xc6, 0xc6],
    [0x00, 0x00, 0x00, 0x00, 0x00, 0x00, 0x7c, 0xc6, 0xc6, 0xc6, 0xc6, 0xc6, 0xc6, 0xc6, 0xc6, 0x7c],
    [0x00, 0x00, 0x00, 0x00, 0x00, 0x00, 0xfc, 0x66, 0x66, 0x66, 0x7c, 0x60, 0x60, 0x60, 0x60, 0xf0],
    [0x00, 0x00, 0x00, 0x00, 0x00, 0x00, 0x7c, 0xc6, 0xc6, 0xc6, 0xc6, 0xc6, 0xc6, 0xd6, 0xde, 0x7c],
    [0x0c, 0x0e, 0x00, 0x00, 0x00, 0x00, 0xfc, 0x66, 0x66, 0x66, 0x7c, 0x6c, 0x66, 0x66, 0x66, 0xe6],
    [0x00, 0x00, 0x00, 0x00, 0x00, 0x00, 0x7c, 0xc6, 0xc6, 0x60, 0x38, 0x0c, 0x06, 0xc6, 0xc6, 0x7c],
    [0x00, 0x00, 0x00, 0x00, 0x00, 0x00, 0xff, 0xdb, 0x99, 0x18, 0x18, 0x18, 0x18, 0x18, 0x18, 0x3c],
    [0x00, 0x00, 0x00, 0x00, 0x00, 0x00, 0xc6, 0xc6, 0xc6, 0xc6, 0xc6, 0xc6, 0xc6, 0xc6, 0xc6, 0x7c],
    [0x00, 0x00, 0x00, 0x00, 0x00, 0x00, 0xc3, 0xc3, 0xc3, 0xc3, 0xc3, 0xc3, 0xc3, 0x66, 0x3c, 0x18],
    [0x00, 0x00, 0x00, 0x00, 0x00, 0x00, 0xc3, 0xc3, 0xc3, 0xc3, 0xc3, 0xdb, 0xdb, 0xff, 0x66, 0x66],
    [0x00, 0x00, 0x00, 0x00, 0x00, 0x00, 0xc3, 0xc3, 0x66, 0x3c, 0x18, 0x18, 0x3c, 0x66, 0xc3, 0xc3],
    [0x00, 0x00, 0x00, 0x00, 0x00, 0x00, 0xc3, 0xc3, 0xc3, 0x66, 0x3c, 0x18, 0x18, 0x18, 0x18, 0x3c],
    [0x00, 0x00, 0x00, 0x00, 0x00, 0x00, 0xff, 0xc3, 0x86, 0x0c, 0x18, 0x30, 0x60, 0xc1, 0xc3, 0xff],
    [0x00, 0x00, 0x00, 0x00, 0x00, 0x00, 0x3c, 0x30, 0x30, 0x30, 0x30, 0x30, 0x30, 0x30, 0x30, 0x3c],
    [0x00, 0x00, 0x00, 0x00, 0x00, 0x00, 0x00, 0x00, 0x80, 0xc0, 0x60, 0x30, 0x18, 0x0c, 0x06, 0x02],
    [0x00, 0x00, 0x00, 0x00, 0x00, 0x00, 0x3c, 0x0c, 0x0c, 0x0c, 0x0c, 0x0c, 0x0c, 0x0c, 0x0c, 0x3c],
    [0x00, 0x00, 0x00, 0x00, 0x10, 0x38, 0x6c, 0xc6, 0x00, 0x00, 0x00, 0x00, 0x00, 0x00, 0x00, 0x00],
    [0x00, 0x00, 0x00, 0x00, 0x00, 0x00, 0x00, 0x00, 0x00, 0x00, 0x00, 0x00, 0x00, 0x00, 0x00, 0x00],
    [0x00, 0xfe, 0x00, 0x00, 0x00, 0x18, 0x18, 0x18, 0x0c, 0x00, 0x00, 0x00, 0x00, 0x00, 0x00, 0x00],
    [0x00, 0x00, 0x00, 0x00, 0x00, 0x00, 0x00, 0x00, 0x00, 0x78, 0x0c, 0x7c, 0xcc, 0xcc, 0xcc, 0x76],
    [0x00, 0x00, 0x00, 0x00, 0x00, 0x00, 0xe0, 0x60, 0x60, 0x78, 0x6c, 0x66, 0x66, 0x66, 0x66, 0x7c],
    [0x00, 0x00, 0x00, 0x00, 0x00, 0x00, 0x00, 0x00, 0x00, 0x7c, 0xc6, 0xc0, 0xc0, 0xc0, 0xc6, 0x7c],
    [0x00, 0x00, 0x00, 0x00, 0x00, 0x00, 0x1c, 0x0c, 0x0c, 0x3c, 0x6c, 0xcc, 0xcc, 0xcc, 0xcc, 0x76],
    [0x00, 0x00, 0x00, 0x00, 0x00, 0x00, 0x00, 0x00, 0x00, 0x7c, 0xc6, 0xfe, 0xc0, 0xc0, 0xc6, 0x7c],
    [0x00, 0x00, 0x00, 0x00, 0x00, 0x00, 0x38, 0x6c, 0x64, 0x60, 0xf0, 0x60, 0x60, 0x60, 0x60, 0xf0],
    [0x00, 0x00, 0x00, 0x00, 0x00, 0x00, 0x00, 0x00, 0x00, 0x76, 0xcc, 0xcc, 0xcc, 0xcc, 0xcc, 0x7c],
    [0x0c, 0xcc, 0x78, 0x00, 0x00, 0x00, 0xe0, 0x60, 0x60, 0x6c, 0x76, 0x66, 0x66, 0x66, 0x66, 0xe6],
    [0x00, 0x00, 0x00, 0x00, 0x00, 0x00, 0x18, 0x18, 0x00, 0x38, 0x18, 0x18, 0x18, 0x18, 0x18, 0x3c],
    [0x00, 0x00, 0x00, 0x00, 0x00, 0x00, 0x06, 0x06, 0x00, 0x0e, 0x06, 0x06, 0x06, 0x06, 0x06, 0x06],
    [0x66, 0x66, 0x3c, 0x00, 0x00, 0x00, 0xe0, 0x60, 0x60, 0x66, 0x6c, 0x78, 0x78, 0x6c, 0x66, 0xe6],
    [0x00, 0x00, 0x00, 0x00, 0x00, 0x00, 0x38, 0x18, 0x18, 0x18, 0x18, 0x18, 0x18, 0x18, 0x18, 0x3c],
    [0x00, 0x00, 0x00, 0x00, 0x00, 0x00, 0x00, 0x00, 0x00, 0xe6, 0xff, 0xdb, 0xdb, 0xdb, 0xdb, 0xdb],
    [0x00, 0x00, 0x00, 0x00, 0x00, 0x00, 0x00, 0x00, 0x00, 0xdc, 0x66, 0x66, 0x66, 0x66, 0x66, 0x66]]"

definition psf_lines_2 :: "int list list" where
  "psf_lines_2 = [
    [0x00, 0x00, 0x00, 0x00, 0x00, 0x00, 0x00, 0x00, 0x00, 0x7c, 0xc6, 0xc6, 0xc6, 0xc6, 0xc6, 0x7c],
    [0x00, 0x00, 0x00, 0x00, 0x00, 0x00, 0x00, 0x00, 0x00, 0xdc, 0x66, 0x66, 0x66, 0x66, 0x66, 0x7c],
    [0x60, 0x60, 0xf0, 0x00, 0x00, 0x00, 0x00, 0x00, 0x00, 0x76, 0xcc, 0xcc, 0xcc, 0xcc, 0xcc, 0x7c],
    [0x0c, 0x0c, 0x1e, 0x00, 0x00, 0x00, 0x00, 0x00, 0x00, 0xdc, 0x76, 0x66, 0x60, 0x60, 0x60, 0xf0],
    [0x00, 0x00, 0x00, 0x00, 0x00, 0x00, 0x00, 0x00, 0x00, 0x7c, 0xc6, 0x60, 0x38, 0x0c, 0xc6, 0x7c],
    [0x00, 0x00, 0x00, 0x00, 0x00, 0x00, 0x10, 0x30, 0x30, 0xfc, 0x30, 0x30, 0x30, 0x30, 0x36, 0x1c],
    [0x00, 0x00, 0x00, 0x00, 0x00, 0x00, 0x00, 0x00, 0x00, 0xcc, 0xcc, 0xcc, 0xcc, 0xcc, 0xcc, 0x76],
    [0x00, 0x00, 0x00, 0x00, 0x00, 0x00, 0x00, 0x00, 0x00, 0xc3, 0xc3, 0xc3, 0xc3, 0x66, 0x3c, 0x18],
    [0x00, 0x00, 0x00, 0x00, 0x00, 0x00, 0x00, 0x00, 0x00, 0xc3, 0xc3, 0xc3, 0xdb, 0xdb, 0xff, 0x66],
    [0x00, 0x00, 0x00, 0x00, 0x00, 0x00, 0x00, 0x00, 0x00, 0xc3, 0x66, 0x3c, 0x18, 0x3c, 0x66, 0xc3],
    [0x00, 0x00, 0x00, 0x00, 0x00, 0x00, 0x00, 0x00, 0x00, 0xc6, 0xc6, 0xc6, 0xc6, 0xc6, 0xc6, 0x7e],
    [0x06, 0x0c, 0xf8, 0x00, 0x00, 0x00, 0x00, 0x00, 0x00, 0xfe, 0xcc, 0x18, 0x30, 0x60, 0xc6, 0xfe],
    [0x00, 0x00, 0x00, 0x00, 0x00, 0x00, 0x0e, 0x18, 0x18, 0x18, 0x70, 0x18, 0x18, 0x18, 0x18, 0x0e],
    [0x00, 0x00, 0x00, 0x00, 0x00, 0x18, 0x18, 0x18, 0x18, 0x18, 0x18, 0x18, 0x18, 0x18, 0x18, 0x18],
    [0x18, 0x00, 0x00, 0x00, 0x00, 0x00, 0x70, 0x18, 0x18, 0x18, 0x0e, 0x18, 0x18, 0x18, 0x18, 0x70],
    [0x00, 0x00, 0x00, 0x00, 0x00, 0x00, 0x76, 0xdc, 0x00, 0x00, 0x00, 0x00, 0x00, 0x00, 0x00, 0x00],
    [0x00, 0x00, 0x00, 0x00, 0x00, 0x00, 0x00, 0x00, 0x00, 0x00, 0x18, 0x3c, 0x3c, 0x18, 0x00, 0x00],
    [0x00, 0x00, 0x00, 0x00, 0x60, 0x30, 0x18, 0x00, 0x38, 0x6c, 0xc6, 0xc6, 0xfe, 0xc6, 0xc6, 0xc6],
    [0x00, 0x00, 0x00, 0x00, 0x0c, 0x18, 0x30, 0x00, 0x38, 0x6c, 0xc6, 0xc6, 0xfe, 0xc6, 0xc6, 0xc6],
    [0x00, 0x00, 0x00, 0x00, 0x10, 0x38, 0x6c, 0x00, 0x38, 0x6c, 0xc6, 0xc6, 0xfe, 0xc6, 0xc6, 0xc6],
    [0x00, 0x00, 0x00, 0x00, 0x00, 0x76, 0xdc, 0x00, 0x38, 0x6c, 0xc6, 0xc6, 0xfe, 0xc6, 0xc6, 0xc6],
    [0x00, 0x00, 0x00, 0x00, 0x00, 0x6c, 0x6c, 0x00, 0x38, 0x6c, 0xc6, 0xc6, 0xfe, 0xc6, 0xc6, 0xc6],
    [0x00, 0x00, 0x00, 0x00, 0x38, 0x6c, 0x38, 0x10, 0x38, 0x6c, 0xc6, 0xc6, 0xfe, 0xc6, 0xc6, 0xc6],
    [0x00, 0x00, 0x00, 0x00, 0x00, 0x00, 0x3f, 0x6d, 0xcc, 0xcc, 0xff, 0xcc, 0xcc, 0xcc, 0xcd, 0xcf],
    [0x00, 0x00, 0x00, 0x00, 0x00, 0x00, 0x3c, 0x66, 0xc2, 0xc0, 0xc0, 0xc0, 0xc0, 0xc2, 0x66, 0x3c],
    [0x0c, 0x06, 0x7c, 0x00, 0x60, 0x30, 0x18, 0x00, 0xfe, 0x62, 0x68, 0x78, 0x68, 0x60, 0x62, 0xfe],
    [0x00, 0x00, 0x00, 0x00, 0x0c, 0x18, 0x30, 0x00, 0xfe, 0x62, 0x68, 0x78, 0x68, 0x60, 0x62, 0xfe],
    [0x00, 0x00, 0x00, 0x00, 0x10, 0x38, 0x6c, 0x00, 0xfe, 0x62, 0x68, 0x78, 0x68, 0x60, 0x62, 0xfe],
    [0x00, 0x00, 0x00, 0x00, 0x00, 0x6c, 0x6c, 0x00, 0xfe, 0x62, 0x68, 0x78, 0x68, 0x60, 0x62, 0xfe],
    [0x00, 0x00, 0x00, 0x00, 0x30, 0x18, 0x0c, 0x00, 0x3c, 0x18, 0x18, 0x18, 0x18, 0x18, 0x18, 0x3c],
    [0x00, 0x00, 0x00, 0x00, 0x0c, 0x18, 0x30, 0x00, 0x3c, 0x18, 0x18, 0x18, 0x18, 0x18, 0x18, 0x3c],
    [0x00, 0x00, 0x00, 0x00, 0x10, 0x38, 0x6c, 0x00, 0x3c, 0x18, 0x18, 0x18, 0x18, 0x18, 0x18, 0x3c],
    [0x00, 0x00, 0x00, 0x00, 0x00, 0x66, 0x66, 0x00, 0x3c, 0x18, 0x18, 0x18, 0x18, 0x18, 0x18, 0x3c],
    [0x00, 0x00, 0x00, 0x00, 0x00, 0x00, 0xf8, 0x6c, 0x66, 0x66, 0xf6, 0x66, 0x66, 0x66, 0x6c, 0xf8],
    [0x00, 0x00, 0x00, 0x00, 0x76, 0xdc, 0x00, 0xc6, 0xe6, 0xf6, 0xfe, 0xde, 0xce, 0xc6, 0xc6, 0xc6],
    [0x00, 0x00, 0x00, 0x00, 0x60, 0x30, 0x18, 0x00, 0x7c, 0xc6, 0xc6, 0xc6, 0xc6, 0xc6, 0xc6, 0x7c],
    [0x00, 0x00, 0x00, 0x00, 0x0c, 0x18, 0x30, 0x00, 0x7c, 0xc6, 0xc6, 0xc6, 0xc6, 0xc6, 0xc6, 0x7c],
    [0x00, 0x00, 0x00, 0x00, 0x10, 0x38, 0x6c, 0x00, 0x7c, 0xc6, 0xc6, 0xc6, 0xc6, 0xc6, 0xc6, 0x7c],
    [0x00, 0x00, 0x00, 0x00, 0x00, 0x76, 0xdc, 0x00, 0x7c, 0xc6, 0xc6, 0xc6, 0xc6, 0xc6, 0xc6, 0x7c],
    [0x00, 0x00, 0x00, 0x00, 0x00, 0x6c, 0x6c, 0x00, 0x7c, 0xc6, 0xc6, 0xc6, 0xc6, 0xc6, 0xc6, 0x7c],
    [0x00, 0x00, 0x00, 0x00, 0x00, 0x00, 0x00, 0x00, 0x00, 0xc6, 0x6c, 0x38, 0x6c, 0xc6, 0x00, 0x00],
    [0x00, 0x00, 0x00, 0x00, 0x00, 0x00, 0x3d, 0x67, 0x66, 0x6e, 0x7e, 0x76, 0x66, 0x66, 0xe6, 0xbc],
    [0x00, 0x00, 0x00, 0x00, 0x60, 0x30, 0x18, 0x00, 0xc6, 0xc6, 0xc6, 0xc6, 0xc6, 0xc6, 0xc6, 0x7c],
    [0x00, 0x00, 0x00, 0x00, 0x0c, 0x18, 0x30, 0x00, 0xc6, 0xc6, 0xc6, 0xc6, 0xc6, 0xc6, 0xc6, 0x7c],
    [0x00, 0x00, 0x00, 0x00, 0x10, 0x38, 0x6c, 0x00, 0xc6, 0xc6, 0xc6, 0xc6, 0xc6, 0xc6, 0xc6, 0x7c],
    [0x00, 0x00, 0x00, 0x00, 0x00, 0x6c, 0x6c, 0x00, 0xc6, 0xc6, 0xc6, 0xc6, 0xc6, 0xc6, 0xc6, 0x7c],
    [0x00, 0x00, 0x00, 0x00, 0x0c, 0x18, 0x30, 0x00, 0xc3, 0xc3, 0x66, 0x3c, 0x18, 0x18, 0x18, 0x3c],
    [0x00, 0x00, 0x00, 0x00, 0x00, 0x00, 0xf0, 0x60, 0x7c, 0x66, 0x66, 0x66, 0x66, 0x7c, 0x60, 0xf0],
    [0x00, 0x00, 0x00, 0x00, 0x00, 0x00, 0x78, 0xcc, 0xcc, 0xcc, 0xd8, 0xcc, 0xc6, 0xc6, 0xc6, 0xcc],
    [0x00, 0x00, 0x00, 0x00, 0xaa, 0x55, 0xaa, 0x55, 0xaa, 0x55, 0xaa, 0x55, 0xaa, 0x55, 0xaa, 0x55],
    [0xaa, 0x55, 0xaa, 0x55, 0x00, 0x00, 0x18, 0x18, 0x00, 0x18, 0x18, 0x18, 0x3c, 0x3c, 0x3c, 0x18],
    [0x00, 0x00, 0x00, 0x00, 0x00, 0x00, 0x00, 0x00, 0x10, 0x7c, 0xd6, 0xd0, 0xd0, 0xd0, 0xd6, 0x7c],
    [0x10, 0x00, 0x00, 0x00, 0x00, 0x38, 0x6c, 0x64, 0x60, 0x60, 0xf0, 0x60, 0x60, 0x60, 0x66, 0xfc],
    [0x00, 0x00, 0x00, 0x00, 0x00, 0x00, 0x1e, 0x33, 0x60, 0xfc, 0x60, 0xf8, 0x60, 0x60, 0x33, 0x1e],
    [0x00, 0x00, 0x00, 0x00, 0x00, 0x00, 0xc3, 0xc3, 0x66, 0x3c, 0x18, 0x7e, 0x18, 0x7e, 0x18, 0x18],
    [0x00, 0x00, 0x00, 0x00, 0x6c, 0x38, 0x10, 0x7c, 0xc6, 0xc6, 0x60, 0x38, 0x0c, 0xc6, 0xc6, 0x7c],
    [0x00, 0x00, 0x00, 0x00, 0x00, 0x7c, 0xc6, 0x60, 0x38, 0x6c, 0xc6, 0xc6, 0x6c, 0x38, 0x0c, 0xc6],
    [0x7c, 0x00, 0x00, 0x00, 0x00, 0x6c, 0x38, 0x10, 0x00, 0x7c, 0xc6, 0x60, 0x38, 0x0c, 0xc6, 0x7c],
    [0x00, 0x00, 0x00, 0x00, 0x00, 0x00, 0x3c, 0x42, 0x99, 0xa5, 0xa1, 0xa1, 0xa5, 0x99, 0x42, 0x3c],
    [0x00, 0x00, 0x00, 0x00, 0x00, 0x3c, 0x6c, 0x6c, 0x3e, 0x00, 0x7e, 0x00, 0x00, 0x00, 0x00, 0x00],
    [0x00, 0x00, 0x00, 0x00, 0x00, 0x00, 0x00, 0x00, 0x00, 0x36, 0x6c, 0xd8, 0x6c, 0x36, 0x00, 0x00],
    [0x00, 0x00, 0x00, 0x00, 0x00, 0x00, 0x00, 0x00, 0x00, 0x00, 0xfe, 0x06, 0x06, 0x06, 0x00, 0x00],
    [0x00, 0x00, 0x00, 0x00, 0x00, 0x00, 0x00, 0x00, 0x66, 0x3c, 0x66, 0x66, 0x66, 0x3c, 0x66, 0x00],
    [0x00, 0x00, 0x00, 0x00, 0x00, 0x3c, 0x42, 0xb9, 0xa5, 0xb9, 0xa5, 0x42, 0x3c, 0x00, 0x00, 0x00],
    [0x00, 0x00, 0x00, 0x00, 0x00, 0x00, 0x7c, 0x00, 0x00, 0x00, 0x00, 0x00, 0x00, 0x00, 0x00, 0x00],
    [0x00, 0x00, 0x00, 0x00, 0x00, 0x38, 0x6c, 0x6c, 0x38, 0x00, 0x00, 0x00, 0x00, 0x00, 0x00, 0x00],
    [0x00, 0x00, 0x00, 0x00, 0x00, 0x00, 0x00, 0x00, 0x00, 0x18, 0x18, 0x7e, 0x18, 0x18, 0x00, 0x7e],
    [0x00, 0x00, 0x00, 0x00, 0x00, 0x38, 0x6c, 0x18, 0x30, 0x7c, 0x00, 0x00, 0x00, 0x00, 0x00, 0x00],
    [0x00, 0x00, 0x00, 0x00, 0x00, 0x78, 0x0c, 0x38, 0x0c, 0x78, 0x00, 0x00, 0x00, 0x00, 0x00, 0x00],
    [0x00, 0x00, 0x00, 0x00, 0x6c, 0x38, 0x10, 0xff, 0xc3, 0x86, 0x0c, 0x18, 0x30, 0x61, 0xc3, 0xff],
    [0x00, 0x00, 0x00, 0x00, 0x00, 0x00, 0x00, 0x00, 0x00, 0x66, 0x66, 0x66, 0x66, 0x66, 0x66, 0x7b],
    [0x60, 0x60, 0xc0, 0x00, 0x00, 0x00, 0x7f, 0xdb, 0xdb, 0xdb, 0x7b, 0x1b, 0x1b, 0x1b, 0x1b, 0x1b],
    [0x00, 0x00, 0x00, 0x00, 0x00, 0x00, 0x00, 0x00, 0x00, 0x00, 0x00, 0x18, 0x18, 0x00, 0x00, 0x00],
    [0x00, 0x00, 0x00, 0x00, 0x00, 0x6c, 0x38, 0x10, 0x00, 0xfe, 0xcc, 0x18, 0x30, 0x60, 0xc6, 0xfe],
    [0x00, 0x00, 0x00, 0x00, 0x00, 0x18, 0x38, 0x18, 0x18, 0x3c, 0x00, 0x00, 0x00, 0x00, 0x00, 0x00],
    [0x00, 0x00, 0x00, 0x00, 0x00, 0x38, 0x6c, 0x6c, 0x6c, 0x38, 0x00, 0x7c, 0x00, 0x00, 0x00, 0x00],
    [0x00, 0x00, 0x00, 0x00, 0x00, 0x00, 0x00, 0x00, 0x00, 0xd8, 0x6c, 0x36, 0x6c, 0xd8, 0x00, 0x00],
    [0x00, 0x00, 0x00, 0x00, 0x00, 0x00, 0x7f, 0xcd, 0xcc, 0xcc, 0xcf, 0xcc, 0xcc, 0xcc, 0xcd, 0x7f],
    [0x00, 0x00, 0x00, 0x00, 0x00, 0x00, 0x00, 0x00, 0x00, 0x7e, 0xdb, 0xdb, 0xdf, 0xd8, 0xdb, 0x7e],
    [0x00, 0x00, 0x00, 0x00, 0x00, 0x66, 0x66, 0x00, 0xc3, 0xc3, 0x66, 0x3c, 0x18, 0x18, 0x18, 0x3c],
    [0x00, 0x00, 0x00, 0x00, 0x00, 0x00, 0x30, 0x30, 0x00, 0x30, 0x30, 0x30, 0x60, 0xc6, 0xc6, 0x7c],
    [0x00, 0x00, 0x00, 0x00, 0x00, 0x00, 0x00, 0x00, 0x00, 0x00, 0x00, 0xff, 0x00, 0x00, 0x00, 0x00],
    [0x00, 0x00, 0x00, 0x00, 0x18, 0x18, 0x18, 0x18, 0x18, 0x18, 0x18, 0x18, 0x18, 0x18, 0x18, 0x18],
    [0x18, 0x18, 0x18, 0x18, 0x00, 0x00, 0x00, 0x00, 0x00, 0x00, 0x00, 0x1f, 0x18, 0x18, 0x18, 0x18],
    [0x18, 0x18, 0x18, 0x18, 0x00, 0x00, 0x00, 0x00, 0x00, 0x00, 0x00, 0xf8, 0x18, 0x18, 0x18, 0x18],
    [0x18, 0x18, 0x18, 0x18, 0x18, 0x18, 0x18, 0x18, 0x18, 0x18, 0x18, 0x1f, 0x00, 0x00, 0x00, 0x00],
    [0x00, 0x00, 0x00, 0x00, 0x18, 0x18, 0x18, 0x18, 0x18, 0x18, 0x18, 0xf8, 0x00, 0x00, 0x00, 0x00],
    [0x00, 0x00, 0x00, 0x00, 0x18, 0x18, 0x18, 0x18, 0x18, 0x18, 0x18, 0x1f, 0x18, 0x18, 0x18, 0x18],
    [0x18, 0x18, 0x18, 0x18, 0x18, 0x18, 0x18, 0x18, 0x18, 0x18, 0x18, 0xf8, 0x18, 0x18, 0x18, 0x18],
    [0x18, 0x18, 0x18, 0x18, 0x00, 0x00, 0x00, 0x00, 0x00, 0x00, 0x00, 0xff, 0x18, 0x18, 0x18, 0x18],
    [0x18, 0x18, 0x18, 0x18, 0x18, 0x18, 0x18, 0x18, 0x18, 0x18, 0x18, 0xff, 0x00, 0x00, 0x00, 0x00],
    [0x00, 0x00, 0x00, 0x00, 0x18, 0x18, 0x18, 0x18, 0x18, 0x18, 0x18, 0xff, 0x18, 0x18, 0x18, 0x18],
    [0x18, 0x18, 0x18, 0x18, 0x88, 0x22, 0x88, 0x22, 0x88, 0x22, 0x88, 0x22, 0x88, 0x22, 0x88, 0x22],
    [0x88, 0x22, 0x88, 0x22, 0xff, 0x00, 0x00, 0x00, 0x00, 0x00, 0x00, 0x00, 0x00, 0x00, 0x00, 0x00],
    [0x00, 0x00, 0x00, 0x00, 0x00, 0x00, 0x00, 0x00, 0xff, 0x00, 0x00, 0x00, 0x00, 0x00, 0x00, 0x00],
    [0x00, 0x00, 0x00, 0x00, 0x00, 0x00, 0x00, 0x00, 0x00, 0x00, 0x00, 0x00, 0x00, 0x00, 0xff, 0x00],
    [0x00, 0x00, 0x00, 0x00, 0x00, 0x00, 0x00, 0x00, 0x00, 0x00, 0x00, 0x00, 0x00, 0x00, 0x00, 0x00],
    [0x00, 0x00, 0xff, 0x00, 0x00, 0x00, 0x00, 0x00, 0x00, 0x00, 0xff, 0x00, 0xff, 0x00, 0x00, 0x00],
    [0x00, 0x00, 0x00, 0x00, 0x36, 0x36, 0x36, 0x36, 0x36, 0x36, 0x36, 0x36, 0x36, 0x36, 0x36, 0x36],
    [0x36, 0x36, 0x36, 0x36, 0x00, 0x00, 0x00, 0x00, 0x00, 0x00, 0x3f, 0x30, 0x37, 0x36, 0x36, 0x36],
    [0x36, 0x36, 0x36, 0x36, 0x00, 0x00, 0x00, 0x00, 0x00, 0x00, 0xfe, 0x06, 0xf6, 0x36, 0x36, 0x36],
    [0x36, 0x36, 0x36, 0x36, 0x36, 0x36, 0x36, 0x36, 0x36, 0x36, 0x37, 0x30, 0x3f, 0x00, 0x00, 0x00],
    [0x00, 0x00, 0x00, 0x00, 0x36, 0x36, 0x36, 0x36, 0x36, 0x36, 0xf6, 0x06, 0xfe, 0x00, 0x00, 0x00],
    [0x00, 0x00, 0x00, 0x00, 0x36, 0x36, 0x36, 0x36, 0x36, 0x36, 0x37, 0x30, 0x37, 0x36, 0x36, 0x36],
    [0x36, 0x36, 0x36, 0x36, 0x36, 0x36, 0x36, 0x36, 0x36, 0x36, 0xf6, 0x06, 0xf6, 0x36, 0x36, 0x36],
    [0x36, 0x36, 0x36, 0x36, 0x00, 0x00, 0x00, 0x00, 0x00, 0x00, 0xff, 0x00, 0xf7, 0x36, 0x36, 0x36],
    [0x36, 0x36, 0x36, 0x36, 0x36, 0x36, 0x36, 0x36, 0x36, 0x36, 0xf7, 0x00, 0xff, 0x00, 0x00, 0x00],
    [0x00, 0x00, 0x00, 0x00, 0x36, 0x36, 0x36, 0x36, 0x36, 0x36, 0xf7, 0x00, 0xf7, 0x36, 0x36, 0x36],
    [0x36, 0x36, 0x36, 0x36, 0xff, 0xff, 0xff, 0xff, 0xff, 0xff, 0xff, 0xff, 0xff, 0xff, 0xff, 0xff],
    [0xff, 0xff, 0xff, 0xff, 0x00, 0x00, 0x18, 0x3c, 0x7e, 0x18, 0x18, 0x18, 0x18, 0x18, 0x18, 0x18],
    [0x00, 0x00, 0x00, 0x00, 0x00, 0x00, 0x18, 0x18, 0x18, 0x18, 0x18, 0x18, 0x18, 0x7e, 0x3c, 0x18]]"

definition psf_lines_3 :: "int list list" where
  "psf_lines_3 = [
    [0x00, 0x00, 0x00, 0x00, 0x00, 0x00, 0x00, 0x00, 0x00, 0x18, 0x30, 0x7f, 0x30, 0x18, 0x00, 0x00],
    [0x00, 0x00, 0x00, 0x00, 0x00, 0x00, 0x00, 0x00, 0x00, 0x18, 0x0c, 0xfe, 0x0c, 0x18, 0x00, 0x00],
    [0x00, 0x00, 0x00, 0x00, 0x00, 0x60, 0x30, 0x18, 0x00, 0x78, 0x0c, 0x7c, 0xcc, 0xcc, 0xcc, 0x76],
    [0x00, 0x00, 0x00, 0x00, 0x00, 0x0c, 0x18, 0x30, 0x00, 0x78, 0x0c, 0x7c, 0xcc, 0xcc, 0xcc, 0x76],
    [0x00, 0x00, 0x00, 0x00, 0x00, 0x10, 0x38, 0x6c, 0x00, 0x78, 0x0c, 0x7c, 0xcc, 0xcc, 0xcc, 0x76],
    [0x00, 0x00, 0x00, 0x00, 0x00, 0x00, 0x76, 0xdc, 0x00, 0x78, 0x0c, 0x7c, 0xcc, 0xcc, 0xcc, 0x76],
    [0x00, 0x00, 0x00, 0x00, 0x00, 0x00, 0x6c, 0x6c, 0x00, 0x78, 0x0c, 0x7c, 0xcc, 0xcc, 0xcc, 0x76],
    [0x00, 0x00, 0x00, 0x00, 0x00, 0x38, 0x6c, 0x38, 0x00, 0x78, 0x0c, 0x7c, 0xcc, 0xcc, 0xcc, 0x76],
    [0x00, 0x00, 0x00, 0x00, 0x00, 0x00, 0x00, 0x00, 0x00, 0x76, 0x1b, 0x7b, 0xdf, 0xd8, 0xdb, 0x6e],
    [0x00, 0x00, 0x00, 0x00, 0x00, 0x00, 0x00, 0x00, 0x00, 0x7c, 0xc6, 0xc0, 0xc0, 0xc0, 0xc6, 0x7c],
    [0x0c, 0x06, 0x7c, 0x00, 0x00, 0x60, 0x30, 0x18, 0x00, 0x7c, 0xc6, 0xfe, 0xc0, 0xc0, 0xc6, 0x7c],
    [0x00, 0x00, 0x00, 0x00, 0x00, 0x0c, 0x18, 0x30, 0x00, 0x7c, 0xc6, 0xfe, 0xc0, 0xc0, 0xc6, 0x7c],
    [0x00, 0x00, 0x00, 0x00, 0x00, 0x10, 0x38, 0x6c, 0x00, 0x7c, 0xc6, 0xfe, 0xc0, 0xc0, 0xc6, 0x7c],
    [0x00, 0x00, 0x00, 0x00, 0x00, 0x00, 0x6c, 0x6c, 0x00, 0x7c, 0xc6, 0xfe, 0xc0, 0xc0, 0xc6, 0x7c],
    [0x00, 0x00, 0x00, 0x00, 0x00, 0x60, 0x30, 0x18, 0x00, 0x38, 0x18, 0x18, 0x18, 0x18, 0x18, 0x3c],
    [0x00, 0x00, 0x00, 0x00, 0x00, 0x0c, 0x18, 0x30, 0x00, 0x38, 0x18, 0x18, 0x18, 0x18, 0x18, 0x3c],
    [0x00, 0x00, 0x00, 0x00, 0x00, 0x10, 0x38, 0x6c, 0x00, 0x38, 0x18, 0x18, 0x18, 0x18, 0x18, 0x3c],
    [0x00, 0x00, 0x00, 0x00, 0x00, 0x00, 0x6c, 0x6c, 0x00, 0x38, 0x18, 0x18, 0x18, 0x18, 0x18, 0x3c],
    [0x00, 0x00, 0x00, 0x00, 0x00, 0x00, 0x34, 0x18, 0x2c, 0x06, 0x3e, 0x66, 0x66, 0x66, 0x66, 0x3c],
    [0x00, 0x00, 0x00, 0x00, 0x00, 0x00, 0x76, 0xdc, 0x00, 0xdc, 0x66, 0x66, 0x66, 0x66, 0x66, 0x66],
    [0x00, 0x00, 0x00, 0x00, 0x00, 0x60, 0x30, 0x18, 0x00, 0x7c, 0xc6, 0xc6, 0xc6, 0xc6, 0xc6, 0x7c],
    [0x00, 0x00, 0x00, 0x00, 0x00, 0x0c, 0x18, 0x30, 0x00, 0x7c, 0xc6, 0xc6, 0xc6, 0xc6, 0xc6, 0x7c],
    [0x00, 0x00, 0x00, 0x00, 0x00, 0x10, 0x38, 0x6c, 0x00, 0x7c, 0xc6, 0xc6, 0xc6, 0xc6, 0xc6, 0x7c],
    [0x00, 0x00, 0x00, 0x00, 0x00, 0x00, 0x76, 0xdc, 0x00, 0x7c, 0xc6, 0xc6, 0xc6, 0xc6, 0xc6, 0x7c],
    [0x00, 0x00, 0x00, 0x00, 0x00, 0x00, 0x6c, 0x6c, 0x00, 0x7c, 0xc6, 0xc6, 0xc6, 0xc6, 0xc6, 0x7c],
    [0x00, 0x00, 0x00, 0x00, 0x00, 0x00, 0x00, 0x00, 0x18, 0x18, 0x00, 0x7e, 0x00, 0x18, 0x18, 0x00],
    [0x00, 0x00, 0x00, 0x00, 0x00, 0x00, 0x00, 0x00, 0x00, 0x3d, 0x67, 0x6e, 0x7e, 0x76, 0xe6, 0xbc],
    [0x00, 0x00, 0x00, 0x00, 0x00, 0x60, 0x30, 0x18, 0x00, 0xcc, 0xcc, 0xcc, 0xcc, 0xcc, 0xcc, 0x76],
    [0x00, 0x00, 0x00, 0x00, 0x00, 0x0c, 0x18, 0x30, 0x00, 0xcc, 0xcc, 0xcc, 0xcc, 0xcc, 0xcc, 0x76],
    [0x00, 0x00, 0x00, 0x00, 0x00, 0x10, 0x38, 0x6c, 0x00, 0xcc, 0xcc, 0xcc, 0xcc, 0xcc, 0xcc, 0x76],
    [0x00, 0x00, 0x00, 0x00, 0x00, 0x00, 0x6c, 0x6c, 0x00, 0xcc, 0xcc, 0xcc, 0xcc, 0xcc, 0xcc, 0x76],
    [0x00, 0x00, 0x00, 0x00, 0x00, 0x0c, 0x18, 0x30, 0x00, 0xc6, 0xc6, 0xc6, 0xc6, 0xc6, 0xc6, 0x7e],
    [0x06, 0x0c, 0xf8, 0x00, 0x00, 0x00, 0xe0, 0x60, 0x60, 0x7c, 0x66, 0x66, 0x66, 0x66, 0x66, 0x7c],
    [0x60, 0x60, 0xf0, 0x00, 0x00, 0x00, 0x6c, 0x6c, 0x00, 0xc6, 0xc6, 0xc6, 0xc6, 0xc6, 0xc6, 0x7e],
    [0x06, 0x0c, 0xf8, 0x00, 0xfd, 0xff, 0xff, 0xff, 0xc0, 0x03, 0xff, 0xff, 0x60, 0x22, 0xff, 0xff],
    [0x64, 0x22, 0xff, 0xff, 0x65, 0x22, 0xff, 0xff, 0xa0, 0x25, 0xac, 0x25, 0xae, 0x25, 0xfc, 0x25],
    [0xfe, 0x25, 0x1b, 0x2b, 0x0e, 0x22, 0xff, 0xff, 0xc6, 0x25, 0x66, 0x26, 0x25, 0x2b, 0x27, 0x2b],
    [0xff, 0xff, 0xbc, 0x00, 0xff, 0xff, 0xbd, 0x00, 0xff, 0xff, 0xbe, 0x00, 0xff, 0xff, 0xa6, 0x00],
    [0xff, 0xff, 0xa8, 0x00, 0xff, 0xff, 0xb8, 0x00, 0xff, 0xff, 0x92, 0x01, 0xff, 0xff, 0x20, 0x20],
    [0xff, 0xff, 0x21, 0x20, 0xff, 0xff, 0x30, 0x20, 0xff, 0xff, 0x22, 0x21, 0xff, 0xff, 0x26, 0x20],
    [0xff, 0xff, 0x39, 0x20, 0xff, 0xff, 0x3a, 0x20, 0xff, 0xff, 0x1c, 0x20, 0x1f, 0x20, 0x36, 0x20],
    [0xff, 0xff, 0x1d, 0x20, 0xba, 0x02, 0xdd, 0x02, 0xee, 0x02, 0x33, 0x20, 0xff, 0xff, 0x1e, 0x20],
    [0xff, 0xff, 0x42, 0x2e, 0xff, 0xff, 0x41, 0x2e, 0xce, 0x02, 0xff, 0xff, 0x1e, 0x01, 0xff, 0xff],
    [0x1f, 0x01, 0xff, 0xff, 0x30, 0x01, 0xff, 0xff, 0x31, 0x01, 0xff, 0xff, 0x5e, 0x01, 0xff, 0xff],
    [0x5f, 0x01, 0xff, 0xff, 0x20, 0x00, 0xa0, 0x00, 0x00, 0x20, 0x01, 0x20, 0x02, 0x20, 0x03, 0x20],
    [0x04, 0x20, 0x05, 0x20, 0x06, 0x20, 0x07, 0x20, 0x08, 0x20, 0x09, 0x20, 0x0a, 0x20, 0x2f, 0x20],
    [0x5f, 0x20, 0xff, 0xff, 0x21, 0x00, 0xff, 0xff, 0x22, 0x00, 0xff, 0xff, 0x23, 0x00, 0xff, 0xff],
    [0x24, 0x00, 0xff, 0xff, 0x25, 0x00, 0xff, 0xff, 0x26, 0x00, 0xff, 0xff, 0x27, 0x00, 0xb4, 0x00],
    [0xb9, 0x02, 0xbc, 0x02, 0xca, 0x02, 0x19, 0x20, 0x32, 0x20, 0xff, 0xff, 0x28, 0x00, 0xff, 0xff],
    [0x29, 0x00, 0xff, 0xff, 0x2a, 0x00, 0x4e, 0x20, 0x17, 0x22, 0xff, 0xff, 0x2b, 0x00, 0xff, 0xff],
    [0x2c, 0x00, 0xcf, 0x02, 0x1a, 0x20, 0xff, 0xff, 0x2d, 0x00, 0xad, 0x00, 0x10, 0x20, 0x11, 0x20],
    [0x12, 0x20, 0x13, 0x20, 0x43, 0x20, 0x12, 0x22, 0xff, 0xff, 0x2e, 0x00, 0x24, 0x20, 0xff, 0xff],
    [0x2f, 0x00, 0x44, 0x20, 0x15, 0x22, 0xff, 0xff, 0x30, 0x00, 0xff, 0xff, 0x31, 0x00, 0xff, 0xff],
    [0x32, 0x00, 0xff, 0xff, 0x33, 0x00, 0xff, 0xff, 0x34, 0x00, 0xff, 0xff, 0x35, 0x00, 0xff, 0xff],
    [0x36, 0x00, 0xff, 0xff, 0x37, 0x00, 0xff, 0xff, 0x38, 0x00, 0xff, 0xff, 0x39, 0x00, 0xff, 0xff],
    [0x3a, 0x00, 0x36, 0x22, 0xff, 0xff, 0x3b, 0x00, 0xff, 0xff, 0x3c, 0x00, 0xff, 0xff, 0x3d, 0x00],
    [0x40, 0x2e, 0xff, 0xff, 0x3e, 0x00, 0xff, 0xff, 0x3f, 0x00, 0xff, 0xff, 0x40, 0x00, 0xff, 0xff],
    [0x41, 0x00, 0xff, 0xff, 0x42, 0x00, 0xff, 0xff, 0x43, 0x00, 0xff, 0xff, 0x44, 0x00, 0xff, 0xff],
    [0x45, 0x00, 0xff, 0xff, 0x46, 0x00, 0xff, 0xff, 0x47, 0x00, 0xff, 0xff, 0x48, 0x00, 0xff, 0xff],
    [0x49, 0x00, 0xff, 0xff, 0x4a, 0x00, 0xff, 0xff, 0x4b, 0x00, 0x2a, 0x21, 0xff, 0xff, 0x4c, 0x00],
    [0xff, 0xff, 0x4d, 0x00, 0xff, 0xff, 0x4e, 0x00, 0xff, 0xff, 0x4f, 0x00, 0xff, 0xff, 0x50, 0x00],
    [0xff, 0xff, 0x51, 0x00, 0xff, 0xff, 0x52, 0x00, 0xff, 0xff, 0x53, 0x00, 0xff, 0xff, 0x54, 0x00],
    [0xff, 0xff, 0x55, 0x00, 0xff, 0xff, 0x56, 0x00, 0xff, 0xff, 0x57, 0x00, 0xff, 0xff, 0x58, 0x00],
    [0xff, 0xff, 0x59, 0x00, 0xff, 0xff, 0x5a, 0x00, 0xff, 0xff, 0x5b, 0x00, 0xff, 0xff, 0x5c, 0x00],
    [0xf5, 0x29, 0xff, 0xff, 0x5d, 0x00, 0xff, 0xff, 0x5e, 0x00, 0xc4, 0x02, 0xc6, 0x02, 0x03, 0x23],
    [0xff, 0xff, 0x5f, 0x00, 0xff, 0xff, 0x60, 0x00, 0xbb, 0x02, 0xbd, 0x02, 0xcb, 0x02, 0x18, 0x20],
    [0x1b, 0x20, 0x35, 0x20, 0xff, 0xff, 0x61, 0x00, 0xff, 0xff, 0x62, 0x00, 0xff, 0xff, 0x63, 0x00],
    [0xff, 0xff, 0x64, 0x00, 0xff, 0xff, 0x65, 0x00, 0xff, 0xff, 0x66, 0x00, 0xff, 0xff, 0x67, 0x00],
    [0xff, 0xff, 0x68, 0x00, 0xff, 0xff, 0x69, 0x00, 0xff, 0xff, 0x6a, 0x00, 0xff, 0xff, 0x6b, 0x00],
    [0xff, 0xff, 0x6c, 0x00, 0xff, 0xff, 0x6d, 0x00, 0xff, 0xff, 0x6e, 0x00, 0xff, 0xff, 0x6f, 0x00],
    [0xff, 0xff, 0x70, 0x00, 0xff, 0xff, 0x71, 0x00, 0xff, 0xff, 0x72, 0x00, 0xff, 0xff, 0x73, 0x00],
    [0xff, 0xff, 0x74, 0x00, 0xff, 0xff, 0x75, 0x00, 0xff, 0xff, 0x76, 0x00, 0xff, 0xff, 0x77, 0x00],
    [0xff, 0xff, 0x78, 0x00, 0xff, 0xff, 0x79, 0x00, 0xff, 0xff, 0x7a, 0x00, 0xff, 0xff, 0x7b, 0x00],
    [0xff, 0xff, 0x7c, 0x00, 0x23, 0x22, 0xff, 0xff, 0x7d, 0x00, 0xff, 0xff, 0x7e, 0x00, 0xdc, 0x02],
    [0xff, 0xff, 0x22, 0x20, 0x19, 0x22, 0xcf, 0x25, 0xff, 0xff, 0xc0, 0x00, 0xff, 0xff, 0xc1, 0x00],
    [0xff, 0xff, 0xc2, 0x00, 0xff, 0xff, 0xc3, 0x00, 0xff, 0xff, 0xc4, 0x00, 0xff, 0xff, 0xc5, 0x00],
    [0x2b, 0x21, 0xff, 0xff, 0xc6, 0x00, 0xff, 0xff, 0xc7, 0x00, 0xff, 0xff, 0xc8, 0x00, 0xff, 0xff],
    [0xc9, 0x00, 0xff, 0xff, 0xca, 0x00, 0xff, 0xff, 0xcb, 0x00, 0xff, 0xff, 0xcc, 0x00, 0xff, 0xff],
    [0xcd, 0x00, 0xff, 0xff, 0xce, 0x00, 0xff, 0xff, 0xcf, 0x00, 0xff, 0xff, 0xd0, 0x00, 0x10, 0x01],
    [0xff, 0xff, 0xd1, 0x00, 0xff, 0xff, 0xd2, 0x00, 0xff, 0xff, 0xd3, 0x00, 0xff, 0xff, 0xd4, 0x00],
    [0xff, 0xff, 0xd5, 0x00, 0xff, 0xff, 0xd6, 0x00, 0xff, 0xff, 0xd7, 0x00, 0xff, 0xff, 0xd8, 0x00],
    [0xff, 0xff, 0xd9, 0x00, 0xff, 0xff, 0xda, 0x00, 0xff, 0xff, 0xdb, 0x00, 0xff, 0xff, 0xdc, 0x00],
    [0xff, 0xff, 0xdd, 0x00, 0xff, 0xff, 0xde, 0x00, 0xff, 0xff, 0xdf, 0x00, 0xff, 0xff, 0x92, 0x25],
    [0xff, 0xff, 0xa1, 0x00, 0xff, 0xff, 0xa2, 0x00, 0xff, 0xff, 0xa3, 0x00, 0xff, 0xff, 0xac, 0x20],
    [0xff, 0xff, 0xa5, 0x00, 0xff, 0xff, 0x60, 0x01, 0xff, 0xff, 0xa7, 0x00, 0xff, 0xff, 0x61, 0x01],
    [0xff, 0xff, 0xa9, 0x00, 0xff, 0xff, 0xaa, 0x00, 0xff, 0xff, 0xab, 0x00, 0xff, 0xff, 0xac, 0x00],
    [0xff, 0xff, 0xa4, 0x00, 0xff, 0xff, 0xae, 0x00, 0xff, 0xff, 0xaf, 0x00, 0xc9, 0x02, 0xff, 0xff],
    [0xb0, 0x00, 0xda, 0x02, 0xff, 0xff, 0xb1, 0x00, 0xff, 0xff, 0xb2, 0x00, 0xff, 0xff, 0xb3, 0x00],
    [0xff, 0xff, 0x7d, 0x01, 0xff, 0xff, 0xb5, 0x00, 0xbc, 0x03, 0xff, 0xff, 0xb6, 0x00, 0xff, 0xff],
    [0xb7, 0x00, 0x27, 0x20, 0xc5, 0x22, 0x31, 0x2e, 0xff, 0xff, 0x7e, 0x01, 0xff, 0xff, 0xb9, 0x00],
    [0xff, 0xff, 0xba, 0x00, 0xff, 0xff, 0xbb, 0x00, 0xff, 0xff, 0x52, 0x01, 0xff, 0xff, 0x53, 0x01],
    [0xff, 0xff, 0x78, 0x01, 0xff, 0xff, 0xbf, 0x00, 0xff, 0xff, 0x00, 0x25, 0x14, 0x20, 0x15, 0x20],
    [0xaf, 0x23, 0xff, 0xff, 0x02, 0x25, 0xff, 0xff, 0x0c, 0x25, 0x6d, 0x25, 0xff, 0xff, 0x10, 0x25],
    [0x6e, 0x25, 0xff, 0xff, 0x14, 0x25, 0x70, 0x25, 0xff, 0xff, 0x18, 0x25, 0x6f, 0x25, 0xff, 0xff],
    [0x1c, 0x25, 0xff, 0xff, 0x24, 0x25, 0xff, 0xff, 0x2c, 0x25, 0xff, 0xff, 0x34, 0x25, 0xff, 0xff],
    [0x3c, 0x25, 0xff, 0xff, 0x91, 0x25, 0xff, 0xff, 0xba, 0x23, 0x3e, 0x20, 0xff, 0xff, 0xbb, 0x23],
    [0xff, 0xff, 0xbc, 0x23, 0xff, 0xff, 0xbd, 0x23, 0xff, 0xff, 0x50, 0x25, 0x01, 0x25, 0xff, 0xff],
    [0x51, 0x25, 0x03, 0x25, 0xff, 0xff, 0x54, 0x25, 0x0f, 0x25, 0xff, 0xff, 0x57, 0x25, 0x13, 0x25],
    [0xff, 0xff, 0x5a, 0x25, 0x17, 0x25, 0xff, 0xff, 0x5d, 0x25, 0x1b, 0x25, 0xff, 0xff, 0x60, 0x25],
    [0x23, 0x25, 0xff, 0xff, 0x63, 0x25, 0x2b, 0x25, 0xff, 0xff, 0x66, 0x25, 0x33, 0x25, 0xff, 0xff],
    [0x69, 0x25, 0x3b, 0x25, 0xff, 0xff, 0x6c, 0x25, 0x4b, 0x25, 0xff, 0xff, 0x88, 0x25, 0xff, 0xff],
    [0x91, 0x21, 0xff, 0xff, 0x93, 0x21, 0xff, 0xff, 0x90, 0x21, 0xff, 0xff, 0x92, 0x21, 0xff, 0xff],
    [0xe0, 0x00, 0xff, 0xff, 0xe1, 0x00, 0xff, 0xff, 0xe2, 0x00, 0xff, 0xff, 0xe3, 0x00, 0xff, 0xff],
    [0xe4, 0x00, 0xff, 0xff, 0xe5, 0x00, 0xff, 0xff, 0xe6, 0x00, 0xff, 0xff, 0xe7, 0x00, 0xff, 0xff],
    [0xe8, 0x00, 0xff, 0xff, 0xe9, 0x00, 0xff, 0xff, 0xea, 0x00, 0xff, 0xff, 0xeb, 0x00, 0xff, 0xff],
    [0xec, 0x00, 0xff, 0xff, 0xed, 0x00, 0xff, 0xff, 0xee, 0x00, 0xff, 0xff, 0xef, 0x00, 0xff, 0xff],
    [0xf0, 0x00, 0xff, 0xff, 0xf1, 0x00, 0xff, 0xff, 0xf2, 0x00, 0xff, 0xff, 0xf3, 0x00, 0xff, 0xff],
    [0xf4, 0x00, 0xff, 0xff, 0xf5, 0x00, 0xff, 0xff, 0xf6, 0x00, 0xff, 0xff, 0xf7, 0x00, 0xff, 0xff],
    [0xf8, 0x00, 0xff, 0xff, 0xf9, 0x00, 0xff, 0xff, 0xfa, 0x00, 0xff, 0xff, 0xfb, 0x00, 0xff, 0xff],
    [0xfc, 0x00, 0xff, 0xff, 0xfd, 0x00, 0xff, 0xff, 0xfe, 0x00, 0xff, 0xff, 0xff, 0x00, 0xff, 0xff]]"

definition psf_lines :: "int list list" where
  "psf_lines = psf_lines_1 @ psf_lines_2 @ psf_lines_3"

definition zap_vga16_psf :: "byte list" where
  "zap_vga16_psf = map word_of_int (concat psf_lines)"

section \<open>The glyphs\<close>

text \<open>A glyph has the end of a line and the beginning of the next one, behind a header of four bytes.\<close>

fun glyphs_of :: "int list list \<Rightarrow> int list list" where
  "glyphs_of (r # s # rs) = (drop 4 r @ take 4 s) # glyphs_of (s # rs)"
| "glyphs_of _ = []"

lemma glyphs_of_nth: "Suc k < length rs \<Longrightarrow> glyphs_of rs ! k = drop 4 (rs ! k) @ take 4 (rs ! Suc k)"
proof (induction rs arbitrary: k rule: glyphs_of.induct)
  case (1 r s rs)
  then show ?case by (cases k) auto
qed simp_all

lemma length_glyphs_of: "length (glyphs_of rs) = length rs - 1"
  by (induction rs rule: glyphs_of.induct) simp_all

text \<open>What the proofs need of the array; a number of their own for the glyphs to compare them.\<close>

definition glyph_key :: "int list \<Rightarrow> int" where
  "glyph_key g = foldr (\<lambda>b n. b + 3 * n) g 0"

lemma psf_bytes: "list_all (\<lambda>r. length r = 16 \<and> list_all (\<lambda>b. 0 \<le> b \<and> b < 256) r) psf_lines"
  by code_simp

lemma psf_length: "length psf_lines = 332"
  by code_simp

lemma glyph_keys: "distinct (map glyph_key (glyphs_of (take 129 psf_lines)))"
  by code_simp

lemma space_line: "glyphs_of (take 129 psf_lines) ! 32 = replicate 16 0"
  by (simp add: glyphs_of_nth psf_length) code_simp

lemma nth_concat_rows:
  "\<forall>r \<in> set rs. length r = n \<Longrightarrow> i < n * length rs \<Longrightarrow> concat rs ! i = rs ! (i div n) ! (i mod n)"
proof (induction rs arbitrary: i)
  case (Cons r rs)
  show ?case
  proof (cases "i < n")
    case True
    with Cons show ?thesis by (simp add: nth_append)
  next
    case False
    with Cons.prems have "0 < n" by auto
    with False have "i div n = Suc ((i - n) div n)" "i mod n = (i - n) mod n"
      by (simp_all add: le_div_geq le_mod_geq)
    with False Cons show ?thesis by (auto simp: nth_append)
  qed
qed simp

lemma zap_length: "length zap_vga16_psf = 5312"
proof -
  have "map length psf_lines = replicate 332 16"
    using psf_bytes psf_length by (simp add: list_eq_iff_nth_eq list_all_length)
  then show ?thesis by (simp add: zap_vga16_psf_def length_concat sum_list_replicate)
qed

lemma zap_font_ok: "font_ok zap_vga16_psf"
  by (simp add: font_ok_def zap_length)

lemma split_line: "(r :: nat) < 16 \<Longrightarrow> (16 * q + r) div 16 = q \<and> (16 * q + r) mod 16 = r"
  by simp

lemma zap_nth:
  assumes "k < 128" and "y < 16"
  shows "zap_vga16_psf ! (4 + k * 16 + y) = word_of_int (glyphs_of (take 129 psf_lines) ! k ! y)"
    and "0 \<le> glyphs_of (take 129 psf_lines) ! k ! y" "glyphs_of (take 129 psf_lines) ! k ! y < 256"
proof -
  let ?i = "4 + k * 16 + y" and ?rs = "take 129 psf_lines"
  have rows: "\<forall>r \<in> set psf_lines. length r = 16" using psf_bytes by (simp add: list_all_iff)
  have len: "length (psf_lines ! k) = 16" "length (psf_lines ! Suc k) = 16"
    using rows psf_length assms(1) by simp_all
  have "glyphs_of ?rs ! k = drop 4 (?rs ! k) @ take 4 (?rs ! Suc k)"
    by (rule glyphs_of_nth) (use assms(1) psf_length in simp)
  then have g: "glyphs_of ?rs ! k = drop 4 (psf_lines ! k) @ take 4 (psf_lines ! Suc k)"
    using assms(1) by simp
  have "concat psf_lines ! ?i = psf_lines ! (?i div 16) ! (?i mod 16)"
    by (rule nth_concat_rows [OF rows]) (use assms psf_length in simp)
  also have "\<dots> = glyphs_of ?rs ! k ! y"
  proof (cases "y < 12")
    case True
    have "?i = 16 * k + (4 + y)" "4 + y < 16" using True by simp_all
    then have "?i div 16 = k" "?i mod 16 = 4 + y" using split_line [of "4 + y" k] by metis+
    with True show ?thesis by (simp add: g nth_append len)
  next
    case False
    have "?i = 16 * Suc k + (y - 12)" "y - 12 < 16" using False assms(2) by simp_all
    then have "?i div 16 = Suc k" "?i mod 16 = y - 12" using split_line [of "y - 12" "Suc k"] by metis+
    with False assms(2) show ?thesis by (simp add: g nth_append len)
  qed
  finally have c: "concat psf_lines ! ?i = glyphs_of ?rs ! k ! y" .
  have i: "?i < length (concat psf_lines)" using zap_length assms by (simp add: zap_vga16_psf_def)
  then show "zap_vga16_psf ! ?i = word_of_int (glyphs_of ?rs ! k ! y)"
    by (simp add: zap_vga16_psf_def c del: length_concat)
  have "concat psf_lines ! ?i \<in> set (concat psf_lines)" using i by (rule nth_mem)
  then show "0 \<le> glyphs_of ?rs ! k ! y" "glyphs_of ?rs ! k ! y < 256"
    unfolding c using psf_bytes by (auto simp: list_all_iff)
qed

text \<open>Different characters differ in a pixel, and the space has none.\<close>

lemma glyphs_differ:
  assumes "unat ch < 128" and "unat ch' < 128" and "ch \<noteq> (ch' :: byte)"
  shows "\<exists>x < 8. \<exists>y < 16. bit (zap_vga16_psf ! (4 + unat ch * 16 + y)) (7 - x) \<noteq>
    bit (zap_vga16_psf ! (4 + unat ch' * 16 + y)) (7 - x)"
proof -
  let ?gs = "glyphs_of (take 129 psf_lines)"
  have len: "length ?gs = 128" by (simp add: length_glyphs_of psf_length)
  have glyph: "length (?gs ! k) = 16" if "k < 128" for k
    using that psf_length psf_bytes by (simp add: glyphs_of_nth list_all_length)
  have "distinct ?gs" using glyph_keys by (simp only: distinct_map)
  moreover have "unat ch \<noteq> unat ch'" using assms(3) by (simp add: word_unat_eq_iff)
  ultimately have "?gs ! unat ch \<noteq> ?gs ! unat ch'" using assms(1,2) len by (simp add: nth_eq_iff_index_eq)
  then obtain y where y: "y < 16" "?gs ! unat ch ! y \<noteq> ?gs ! unat ch' ! y"
    using glyph assms(1,2) by (auto simp: list_eq_iff_nth_eq)
  have "(word_of_int a :: byte) \<noteq> word_of_int b" if "a \<noteq> b" "0 \<le> a" "a < 256" "0 \<le> b" "b < 256" for a b
    using that by (auto dest!: arg_cong [of _ _ uint] simp: uint_word_of_int)
  from this [OF y(2)] have "zap_vga16_psf ! (4 + unat ch * 16 + y) \<noteq> zap_vga16_psf ! (4 + unat ch' * 16 + y)"
    using zap_nth [OF assms(1) y(1)] zap_nth [OF assms(2) y(1)] by simp
  then obtain n where n: "n < 8" "bit (zap_vga16_psf ! (4 + unat ch * 16 + y)) n \<noteq> bit (zap_vga16_psf ! (4 + unat ch' * 16 + y)) n"
    by (auto simp: bit_eq_iff)
  then have "7 - n < 8" "7 - (7 - n) = n" by simp_all
  with n y(1) show ?thesis by metis
qed

lemma space_blank: "y < 16 \<Longrightarrow> zap_vga16_psf ! (4 + unat (0x20 :: byte) * 16 + y) = 0"
  using zap_nth(1) [of 32 y] by (simp add: space_line)

section \<open>Properties\<close>

text \<open>Consoles at the same place of the screen.\<close>

definition same_grid :: "console \<Rightarrow> console \<Rightarrow> bool" where
  "same_grid c c' \<longleftrightarrow> console_x c = console_x c' \<and> console_y c = console_y c' \<and> console_cols c = console_cols c' \<and>
     length (console_buffer c) = length (console_buffer c')"

definition visible :: "console \<Rightarrow> bool" where
  "visible c \<longleftrightarrow> (\<forall>cell \<in> set (console_buffer c). pixel_value (char_color cell) \<noteq> 0)"

lemma pixel_black: "pixel_value COLOR_BLACK = 0"
  by (simp add: pixel_value_def COLOR_BLACK_def color_of_def)

text \<open>
  C36: what the console displays in its font can be read: two consoles at the same place that are
  displayed show the same pixels in a cell exactly if the cell holds the same character, in colours
  that look the same unless it is the space. For this the 128 glyphs have to be different, their
  bits have to be drawn in the right order, and no colour may be black.
\<close>

theorem console_legible:
  assumes "shape_ok c" and "shape_ok c'" and "shown zap_vga16_psf c" and "shown zap_vga16_psf c'"
    and "same_grid c c'" and "visible c" and "visible c'" and "i < length (console_buffer c)"
  shows "(\<forall>x < 8. \<forall>y < 16. pixel (screen c) (cell_x c i + x) (cell_y c i + y) =
      pixel (screen c') (cell_x c i + x) (cell_y c i + y)) \<longleftrightarrow>
    character (console_buffer c ! i) = character (console_buffer c' ! i) \<and>
    (character (console_buffer c ! i) \<noteq> 0x20 \<longrightarrow>
     pixel_value (char_color (console_buffer c ! i)) = pixel_value (char_color (console_buffer c' ! i)))"
proof -
  let ?a = "console_buffer c ! i" and ?b = "console_buffer c' ! i"
  let ?lit = "\<lambda>cell x y. bit (zap_vga16_psf ! (4 + unat (character cell) * 16 + y)) (7 - x)"
  let ?dot = "\<lambda>cell x y. pixel_value (glyph_color zap_vga16_psf (character cell) (char_color cell) x y)"
  have i: "i < length (console_buffer c')" using assms(5,8) by (simp add: same_grid_def)
  have in_font: "unat (character ?a) < 128" "unat (character ?b) < 128"
    using assms(1,2,8) i by (simp_all add: shape_ok_def glyphs_ok_def)
  have color: "pixel_value (char_color ?a) \<noteq> 0" "pixel_value (char_color ?b) \<noteq> 0"
    using assms(6,7,8) i by (simp_all add: visible_def)
  have dot: "?dot cell x y = (if ?lit cell x y then pixel_value (char_color cell) else 0)" for cell x y
    by (simp add: glyph_color_def pixel_black)
  have "cell_x c i = cell_x c' i" "cell_y c i = cell_y c' i"
    using assms(5) by (simp_all add: same_grid_def cell_x_def cell_y_def)
  then have drawn: "(\<forall>x < 8. \<forall>y < 16. pixel (screen c) (cell_x c i + x) (cell_y c i + y) =
      pixel (screen c') (cell_x c i + x) (cell_y c i + y)) \<longleftrightarrow> (\<forall>x < 8. \<forall>y < 16. ?dot ?a x y = ?dot ?b x y)"
    using assms(3) [unfolded shown_def cell_shown_def, rule_format, OF assms(8)] assms(4) [unfolded shown_def cell_shown_def, rule_format, OF i]
    by simp
  show ?thesis
  proof (unfold drawn, rule iffI, goal_cases)
    case 1
    then have same: "?lit ?a x y = ?lit ?b x y" if "x < 8" "y < 16" for x y
      using that color by (auto simp: dot split: if_splits)
    have char: "character ?a = character ?b" using glyphs_differ [OF in_font] same by blast
    have "pixel_value (char_color ?a) = pixel_value (char_color ?b)" if no_space: "character ?a \<noteq> 0x20"
    proof -
      obtain x y where xy: "x < 8" "y < 16" "?lit ?a x y"
        using glyphs_differ [OF in_font(1) _ no_space] space_blank by fastforce
      then show ?thesis using 1 [rule_format, OF xy(1,2)] same [OF xy(1,2)] by (simp add: dot)
    qed
    with char show ?case by blast
  next
    case 2
    have "?dot ?a x y = ?dot ?b x y" if "y < 16" for x y
    proof (cases "character ?a = 0x20")
      case True
      then have "\<not> ?lit ?a x y" "\<not> ?lit ?b x y" using 2 space_blank [OF that] by simp_all
      then show ?thesis by (simp only: dot if_False)
    next
      case False
      then show ?thesis unfolding dot using 2 by simp
    qed
    then show ?case by blast
  qed
qed

text \<open>The empty console of the witnesses and the console with a letter on it look different.\<close>

lemma tiny_parts:
  "console_buffer tiny_console = replicate 4 \<lparr>character = 0x20, char_color = color_of 0x20 0x20 0x20\<rparr>"
  "console_x tiny_console = 0" "console_y tiny_console = 0" "console_cols tiny_console = 2"
  "screen tiny_console = \<lparr>screen_width = 16, screen_height = 52, back_buffer = replicate 832 0, video_memory = []\<rparr>"
  by (simp_all add: tiny_console_def console_init_def sdiv_nonneg CONSOLE_CHAR_HEIGHT_def CONSOLE_CHAR_WIDTH_def
      CONSOLE_CHAR_SPACE_def Let_def)

lemma tiny_cells: "cell_x tiny_console i = i mod 2 * 8" "cell_y tiny_console i = i div 2 * 16"
  by (simp_all add: cell_x_def cell_y_def tiny_parts)

lemma tiny_shown: "shown zap_vga16_psf tiny_console" "visible tiny_console"
proof -
  have "cell_shown zap_vga16_psf tiny_console i" if "i < 4" for i
    unfolding cell_shown_def
  proof (intro allI impI)
    fix x y :: nat assume "x < 8" and "y < 16"
    have "cell_x tiny_console i + x < 16" "cell_y tiny_console i + y < 32"
      unfolding tiny_cells using that \<open>x < 8\<close> \<open>y < 16\<close> by presburger+
    then have "pixel (screen tiny_console) (cell_x tiny_console i + x) (cell_y tiny_console i + y) = 0"
      by (simp add: pixel_def tiny_parts)
    then show "pixel (screen tiny_console) (cell_x tiny_console i + x) (cell_y tiny_console i + y) =
        pixel_value (glyph_color zap_vga16_psf (character (console_buffer tiny_console ! i))
          (char_color (console_buffer tiny_console ! i)) x y)"
      using \<open>y < 16\<close> that space_blank [of y] by (simp add: tiny_parts glyph_color_def pixel_black)
  qed
  then show "shown zap_vga16_psf tiny_console" by (simp add: shown_def tiny_parts)
  show "visible tiny_console" by (simp add: visible_def tiny_parts pixel_value_def color_of_def)
qed

theorem console_legible_witness:
  "\<exists>g. console_put_char_fixed zap_vga16_psf 0 0x41 COLOR_WHITE tiny_console = Some
      (tiny_console\<lparr>console_buffer := (console_buffer tiny_console)[0 := \<lparr>character = 0x41, char_color = COLOR_WHITE\<rparr>], screen := g\<rparr>) \<and>
     \<not> (\<forall>x < 8. \<forall>y < 16. pixel (screen tiny_console) x y = pixel g x y)"
proof -
  let ?c = "\<lambda>g. tiny_console\<lparr>console_buffer := (console_buffer tiny_console)[0 := \<lparr>character = 0x41, char_color = COLOR_WHITE\<rparr>], screen := g\<rparr>"
  have cells: "0 < console_cells tiny_console" "length (console_buffer tiny_console) = 4" "shape_ok tiny_console"
    "character (console_buffer tiny_console ! 0) = 0x20"
    using tiny_ok(1) by (auto simp: tiny_parts console_ok_def)
  obtain g where g: "console_put_char_fixed zap_vga16_psf 0 0x41 COLOR_WHITE tiny_console = Some (?c g)"
    "shape_ok (?c g)" "shown zap_vga16_psf (?c g)"
    using put_char_fixed [OF zap_font_ok cells(3), of 0 "0x41" COLOR_WHITE] cells(1) tiny_shown(1)
    by (auto simp: Let_def)
  have "visible (?c g)"
    using tiny_shown(2) by (auto simp: visible_def tiny_parts COLOR_WHITE_def color_of_def pixel_value_def
        dest!: set_update_subset_insert [THEN subsetD])
  then have "(\<forall>x < 8. \<forall>y < 16. pixel (screen tiny_console) (cell_x tiny_console 0 + x) (cell_y tiny_console 0 + y) =
      pixel (screen (?c g)) (cell_x tiny_console 0 + x) (cell_y tiny_console 0 + y)) \<longleftrightarrow>
    character (console_buffer tiny_console ! 0) = character (console_buffer (?c g) ! 0) \<and>
    (character (console_buffer tiny_console ! 0) \<noteq> 0x20 \<longrightarrow>
     pixel_value (char_color (console_buffer tiny_console ! 0)) = pixel_value (char_color (console_buffer (?c g) ! 0)))"
    using cells g(2,3) tiny_shown by (intro console_legible) (simp_all add: same_grid_def)
  then show ?thesis using cells g(1) by (auto simp: tiny_cells)
qed

end
