(* ===== verification/PortIO.thy ===== *)
theory PortIO
  imports Prelude
begin

text \<open>
  Input and output on ports, the routines of \<open>core/low_level.c\<close>. The devices behind the ports
  are a parameter: a function from the accesses made so far to the value the next read gives.
  What a driver did to its device is the history of accesses, the latest first, and of the ticks of
  the timer that passed between them.
\<close>

section \<open>Accesses and devices\<close>

datatype io_ev =
    Out8 u16 byte
  | Out16 u16 u16
  | Out32 u16 u32
  | In8 u16
  | In16 u16
  | In32 u16
  | Tick

type_synonym history = "io_ev list"

type_synonym device = "history \<Rightarrow> io_ev \<Rightarrow> u32"

definition port_byte_in :: "device \<Rightarrow> u16 \<Rightarrow> history \<Rightarrow> byte \<times> history" where
  "port_byte_in dev port h = (ucast (dev h (In8 port)), In8 port # h)"

definition port_word_in :: "device \<Rightarrow> u16 \<Rightarrow> history \<Rightarrow> u16 \<times> history" where
  "port_word_in dev port h = (ucast (dev h (In16 port)), In16 port # h)"

definition port_long_in :: "device \<Rightarrow> u16 \<Rightarrow> history \<Rightarrow> u32 \<times> history" where
  "port_long_in dev port h = (dev h (In32 port), In32 port # h)"

definition port_byte_out :: "u16 \<Rightarrow> byte \<Rightarrow> history \<Rightarrow> history" where
  "port_byte_out port data h = Out8 port data # h"

definition port_word_out :: "u16 \<Rightarrow> u16 \<Rightarrow> history \<Rightarrow> history" where
  "port_word_out port data h = Out16 port data # h"

definition port_long_out :: "u16 \<Rightarrow> u32 \<Rightarrow> history \<Rightarrow> history" where
  "port_long_out port data h = Out32 port data # h"

text \<open>\<open>halt\<close> switches the interrupts off and stops the processor: it does not come back.\<close>

definition halt :: "history \<Rightarrow> history option" where
  "halt h = None"

text \<open>
  What \<open>delay\<close> of \<open>timer.c\<close> is for a driver that no interrupt concerns: as many ticks of the history
  (theory Timer shows that it waits exactly so many, unless the tick count wraps around).
\<close>

definition pass_time :: "nat \<Rightarrow> history \<Rightarrow> history" where
  "pass_time ms h = replicate ms Tick @ h"

section \<open>What was written\<close>

text \<open>The bytes sent to a port, in the order they were sent.\<close>

fun sent :: "u16 \<Rightarrow> history \<Rightarrow> byte list" where
  "sent p [] = []"
| "sent p (Out8 q b # h) = (if q = p then sent p h @ [b] else sent p h)"
| "sent p (_ # h) = sent p h"

lemma sent_simps [simp]:
  "sent p (port_byte_out q b h) = (if q = p then sent p h @ [b] else sent p h)"
  "sent p (snd (port_byte_in dev q h)) = sent p h"
  by (simp_all add: port_byte_out_def port_byte_in_def)

lemma sent_append: "sent p (h' @ h) = sent p h @ sent p h'"
  by (induction p h' rule: sent.induct) simp_all

section \<open>Waiting for a device\<close>

text \<open>
  The loop that reads a port until the byte satisfies a condition. It may never end; what it reads
  depends on how often it has read.
\<close>

partial_function (option) poll_byte :: "(byte \<Rightarrow> bool) \<Rightarrow> device \<Rightarrow> u16 \<Rightarrow> history \<Rightarrow> (byte \<times> history) option" where
  "poll_byte ok dev port h =
     (let (b, h) = port_byte_in dev port h in if ok b then Some (b, h) else poll_byte ok dev port h)"

definition polled :: "u16 \<Rightarrow> nat \<Rightarrow> history \<Rightarrow> history" where
  "polled port n h = replicate n (In8 port) @ h"

definition answer :: "device \<Rightarrow> u16 \<Rightarrow> nat \<Rightarrow> history \<Rightarrow> byte" where
  "answer dev port n h = ucast (dev (polled port n h) (In8 port))"

lemma polled_Suc: "polled port n (In8 port # h) = polled port (Suc n) h"
  by (simp add: polled_def replicate_app_Cons_same)

lemma sent_polled [simp]: "sent p (polled port n h) = sent p h"
  by (induction n) (simp_all add: polled_def)

lemma poll_byte_returns:
  assumes "ok (answer dev port n h)" and "\<forall>m < n. \<not> ok (answer dev port m h)"
  shows "poll_byte ok dev port h = Some (answer dev port n h, polled port (Suc n) h)"
  using assms
proof (induction n arbitrary: h)
  case 0
  then show ?case by (subst poll_byte.simps) (simp add: port_byte_in_def answer_def polled_def)
next
  case (Suc n)
  have shift: "answer dev port m (In8 port # h) = answer dev port (Suc m) h" for m
    by (simp add: answer_def polled_Suc)
  have "poll_byte ok dev port h = poll_byte ok dev port (In8 port # h)"
    using Suc.prems(2) by (subst poll_byte.simps) (auto simp: port_byte_in_def answer_def polled_def)
  also have "\<dots> = Some (answer dev port (Suc n) h, polled port (Suc (Suc n)) h)"
    using Suc.IH [of "In8 port # h"] Suc.prems by (auto simp: shift polled_Suc)
  finally show ?case .
qed

lemma poll_byte_Some:
  assumes "poll_byte ok dev port h = Some (b, h')"
  shows "\<exists>n. ok (answer dev port n h) \<and> (\<forall>m < n. \<not> ok (answer dev port m h)) \<and>
    b = answer dev port n h \<and> h' = polled port (Suc n) h"
proof -
  have "\<forall>b h'. r = (b, h') \<longrightarrow> (\<exists>n. ok (answer dev port n h) \<and> (\<forall>m < n. \<not> ok (answer dev port m h)) \<and>
      b = answer dev port n h \<and> h' = polled port (Suc n) h)" if "poll_byte ok dev port h = Some r" for r
    using that
  proof (rule poll_byte.raw_induct [where P = "\<lambda>ok dev port h r. \<forall>b h'. r = (b, h') \<longrightarrow>
      (\<exists>n. ok (answer dev port n h) \<and> (\<forall>m < n. \<not> ok (answer dev port m h)) \<and>
        b = answer dev port n h \<and> h' = polled port (Suc n) h)", rotated])
    fix rec :: "(byte \<Rightarrow> bool) \<Rightarrow> device \<Rightarrow> u16 \<Rightarrow> history \<Rightarrow> (byte \<times> history) option"
      and ok :: "byte \<Rightarrow> bool" and dev port h r
    assume IH: "\<And>ok dev port h r. rec ok dev port h = Some r \<Longrightarrow> \<forall>b h'. r = (b, h') \<longrightarrow>
        (\<exists>n. ok (answer dev port n h) \<and> (\<forall>m < n. \<not> ok (answer dev port m h)) \<and>
          b = answer dev port n h \<and> h' = polled port (Suc n) h)"
      and body: "(let (b, h) = port_byte_in dev port h in if ok b then Some (b, h) else rec ok dev port h) = Some r"
    have a0: "ucast (dev h (In8 port)) = answer dev port 0 h" by (simp add: answer_def polled_def)
    have shift: "answer dev port m (In8 port # h) = answer dev port (Suc m) h" for m
      by (simp add: answer_def polled_Suc)
    show "\<forall>b h'. r = (b, h') \<longrightarrow> (\<exists>n. ok (answer dev port n h) \<and> (\<forall>m < n. \<not> ok (answer dev port m h)) \<and>
        b = answer dev port n h \<and> h' = polled port (Suc n) h)"
    proof (cases "ok (answer dev port 0 h)")
      case True
      then show ?thesis using body by (auto simp: port_byte_in_def a0 polled_def intro!: exI [of _ 0])
    next
      case False
      then have "rec ok dev port (In8 port # h) = Some r" using body by (simp add: port_byte_in_def a0)
      from IH [OF this] show ?thesis
      proof (intro allI impI)
        fix b h' assume "r = (b, h')"
        with IH [OF \<open>rec ok dev port (In8 port # h) = Some r\<close>] obtain n where
          "ok (answer dev port (Suc n) h)" "\<forall>m < n. \<not> ok (answer dev port (Suc m) h)"
          "b = answer dev port (Suc n) h" "h' = polled port (Suc (Suc n)) h"
          by (auto simp: shift polled_Suc)
        with False show "\<exists>n. ok (answer dev port n h) \<and> (\<forall>m < n. \<not> ok (answer dev port m h)) \<and>
            b = answer dev port n h \<and> h' = polled port (Suc n) h"
          by (intro exI [of _ "Suc n"]) (auto simp: less_Suc_eq_0_disj)
      qed
    qed
  qed
  with assms show ?thesis by blast
qed

end
