(* ===== verification/Serial.thy ===== *)
theory Serial
  imports PortIO
begin

text \<open>
  The serial port of \<open>drivers/serial.c\<close> and the register file of \<open>drivers/cmos.c\<close>.
\<close>

section \<open>The serial port\<close>

definition PORT :: u16 where
  "PORT = 0x3F8"

definition FULL_SPEED :: u32 where
  "FULL_SPEED = 115200"

definition ERR_SPEED_INVALID :: int where
  "ERR_SPEED_INVALID = - 1"

definition ERR_SPEED_TOO_LOW :: int where
  "ERR_SPEED_TOO_LOW = - 2"

definition ERR_SERIAL_FAULT :: int where
  "ERR_SERIAL_FAULT = - 3"

definition init_serial :: "device \<Rightarrow> u32 \<Rightarrow> history \<Rightarrow> (int \<times> history) option" where
  "init_serial dev speed h =
     (if speed = 0 then None
      else if FULL_SPEED mod speed \<noteq> 0 then Some (ERR_SPEED_INVALID, h)
      else if speed < 1200 then Some (ERR_SPEED_TOO_LOW, h)
      else
        let divisor = ucast (FULL_SPEED div speed);
            h = port_byte_out (PORT + 1) 0x00 h;
            h = port_byte_out (PORT + 3) 0x80 h;
            h = port_byte_out (PORT + 0) divisor h;
            h = port_byte_out (PORT + 1) 0x00 h;
            h = port_byte_out (PORT + 3) 0x03 h;
            h = port_byte_out (PORT + 2) 0xC7 h;
            h = port_byte_out (PORT + 4) 0x0B h;
            h = port_byte_out (PORT + 4) 0x1E h;
            h = port_byte_out (PORT + 0) 0xAE h;
            (b, h) = port_byte_in dev (PORT + 0) h
        in if b \<noteq> 0xAE then Some (ERR_SERIAL_FAULT, h)
           else Some (0, port_byte_out (PORT + 4) 0x0F h))"

definition serial_received :: "device \<Rightarrow> history \<Rightarrow> byte \<times> history" where
  "serial_received dev h = (let (b, h) = port_byte_in dev (PORT + 5) h in (b AND 1, h))"

text \<open>The loops poll the line status, in \<open>read_serial\<close> for a byte and in \<open>write_serial_byte\<close> for room.\<close>

definition read_serial :: "device \<Rightarrow> history \<Rightarrow> (byte \<times> history) option" where
  "read_serial dev h = do {
     (_, h) \<leftarrow> poll_byte (\<lambda>b. b AND 1 \<noteq> 0) dev (PORT + 5) h;
     Some (port_byte_in dev PORT h) }"

definition is_transmit_empty :: "device \<Rightarrow> history \<Rightarrow> byte \<times> history" where
  "is_transmit_empty dev h = (let (b, h) = port_byte_in dev (PORT + 5) h in (b AND 0x20, h))"

definition transmit :: "device \<Rightarrow> byte \<Rightarrow> history \<Rightarrow> history option" where
  "transmit dev a h = do {
     (_, h) \<leftarrow> poll_byte (\<lambda>b. b AND 0x20 \<noteq> 0) dev (PORT + 5) h;
     Some (port_byte_out PORT a h) }"

text \<open>The recursive call sends a carriage return, which is no line feed.\<close>

definition write_serial_byte :: "device \<Rightarrow> byte \<Rightarrow> history \<Rightarrow> history option" where
  "write_serial_byte dev a h = do {
     h \<leftarrow> transmit dev a h;
     if a = 0x0A then transmit dev 0x0D h else Some h }"

definition write_serial :: "device \<Rightarrow> byte list \<Rightarrow> int \<Rightarrow> history \<Rightarrow> history option" where
  "write_serial dev data len h =
     for_loop (\<lambda>i h. do { a \<leftarrow> rd data i; write_serial_byte dev a h }) [0..<nat len] h"

section \<open>CMOS registers\<close>

definition CMOS_ADDRESS :: u16 where
  "CMOS_ADDRESS = 0x70"

definition CMOS_DATA :: u16 where
  "CMOS_DATA = 0x71"

definition read_from_cmos :: "device \<Rightarrow> byte \<Rightarrow> history \<Rightarrow> byte \<times> history" where
  "read_from_cmos dev register_num h = port_byte_in dev CMOS_DATA (port_byte_out CMOS_ADDRESS register_num h)"

section \<open>Properties\<close>

text \<open>A line that accepts a byte again and again: whatever was done, some later poll finds room.\<close>

definition line_ready :: "device \<Rightarrow> bool" where
  "line_ready dev \<longleftrightarrow> (\<forall>h. \<exists>n. answer dev (PORT + 5) n h AND 0x20 \<noteq> 0)"

lemma transmit_sends:
  assumes "line_ready dev"
  shows "\<exists>h'. transmit dev a h = Some h' \<and> sent PORT h' = sent PORT h @ [a]"
proof -
  let ?ok = "\<lambda>b :: byte. b AND 0x20 \<noteq> 0"
  have "\<exists>n. ?ok (answer dev (PORT + 5) n h)" using assms by (simp add: line_ready_def)
  then obtain n where "?ok (answer dev (PORT + 5) n h)" "\<forall>m < n. \<not> ?ok (answer dev (PORT + 5) m h)"
    using exists_least_iff [of "\<lambda>n. ?ok (answer dev (PORT + 5) n h)"] by blast
  from poll_byte_returns [of ?ok, OF this] show ?thesis by (simp add: transmit_def)
qed

text \<open>What goes over the line for a text: every line feed is followed by a carriage return.\<close>

definition line_text :: "byte list \<Rightarrow> byte list" where
  "line_text data = concat (map (\<lambda>a. if a = 0x0A then [0x0A, 0x0D] else [a]) data)"

lemma write_serial_byte_sends:
  assumes "line_ready dev"
  shows "\<exists>h'. write_serial_byte dev a h = Some h' \<and> sent PORT h' = sent PORT h @ line_text [a]"
proof -
  obtain h1 where h1: "transmit dev a h = Some h1" "sent PORT h1 = sent PORT h @ [a]"
    using transmit_sends [OF assms] by blast
  obtain h2 where "transmit dev 0x0D h1 = Some h2" "sent PORT h2 = sent PORT h1 @ [0x0D]"
    using transmit_sends [OF assms] by blast
  with h1 show ?thesis by (simp add: write_serial_byte_def line_text_def)
qed

lemma write_serial_sends:
  assumes "line_ready dev" and "0 \<le> len" and "nat len \<le> length data"
  shows "\<exists>h'. write_serial dev data len h = Some h' \<and>
    sent PORT h' = sent PORT h @ line_text (take (nat len) data)"
proof -
  have "\<exists>h'. for_loop (\<lambda>i h. do { a \<leftarrow> rd data i; write_serial_byte dev a h }) [0..<n] h = Some h' \<and>
      sent PORT h' = sent PORT h @ line_text (take n data)" if "n \<le> length data" for n
    using that
  proof (induction n)
    case 0
    then show ?case by (simp add: line_text_def)
  next
    case (Suc n)
    then obtain h1 where h1: "for_loop (\<lambda>i h. do { a \<leftarrow> rd data i; write_serial_byte dev a h }) [0..<n] h = Some h1"
      "sent PORT h1 = sent PORT h @ line_text (take n data)" by auto
    obtain h2 where "write_serial_byte dev (data ! n) h1 = Some h2" "sent PORT h2 = sent PORT h1 @ line_text [data ! n]"
      using write_serial_byte_sends [OF assms(1)] by blast
    with h1 Suc.prems show ?case by (simp add: for_loop_append line_text_def take_Suc_conv_app_nth)
  qed
  from this [OF assms(3)] show ?thesis by (simp add: write_serial_def)
qed

text \<open>
  C33: on a line that keeps accepting bytes, \<open>write_serial\<close> comes back after sending the first
  \<open>len\<close> bytes in order, each line feed with a carriage return after it.
\<close>

theorem write_serial_terminates:
  assumes "line_ready dev" and "0 \<le> len" and "nat len \<le> length data"
  shows "\<exists>h'. write_serial dev data len h = Some h' \<and>
    sent PORT h' = sent PORT h @ line_text (take (nat len) data)"
  using assms by (rule write_serial_sends)

definition ready_line :: device where
  "ready_line h e = (if length h mod 2 = 0 then 0x60 else 0)"

lemma ready_line_ready: "line_ready ready_line"
  unfolding line_ready_def
proof
  fix h
  have "answer ready_line (PORT + 5) (length h mod 2) h AND 0x20 \<noteq> 0"
    by (simp add: answer_def ready_line_def polled_def)
  then show "\<exists>n. answer ready_line (PORT + 5) n h AND 0x20 \<noteq> 0" ..
qed

theorem write_serial_terminates_witness:
  "\<exists>h'. write_serial ready_line [0x48, 0x0A, 0x21] 2 [] = Some h' \<and> sent PORT h' = [0x48, 0x0A, 0x0D]"
  using write_serial_terminates [OF ready_line_ready, of 2 "[0x48, 0x0A, 0x21]" "[]"]
  by (simp add: line_text_def)

end
