(* ===== verification/Interrupts.thy ===== *)
theory Interrupts
  imports CString Memory PortIO
begin

text \<open>
  The interrupt path of the kernel: the descriptor table of \<open>core/interrupts.c\<close>, the fault handler
  behind its first gates, the hardware interrupts of \<open>core/irq.c\<close> and the system calls of
  \<open>core/syscall.c\<close>. The addresses of the assembler stubs are parameters (\<open>isr\<close> and \<open>irq\<close>), as are
  the functions behind the pointers of the tables.
\<close>

section \<open>The interrupted state\<close>

record regs =
  gs :: u32
  fs :: u32
  es :: u32
  ds :: u32
  ss :: u32
  edi :: u32
  esi :: u32
  ebp :: u32
  esp :: u32
  ebx :: u32
  edx :: u32
  ecx :: u32
  eax :: u32
  int_no :: u32
  err_code :: u32
  eip :: u32
  cs :: u32
  eflags :: u32

definition SYSCALL_VECTOR :: u32 where
  "SYSCALL_VECTOR = 0x7F"

section \<open>The descriptor table\<close>

record idt_entry =
  base_lo :: u16
  sel :: u16
  always0 :: byte
  flags :: byte
  base_hi :: u16

record idt_ptr =
  limit :: u16
  base :: u32

record idt_state =
  idt :: "idt_entry list"
  idtp :: idt_ptr
  loaded :: "idt_ptr option"

definition idt_set_gate :: "byte \<Rightarrow> u32 \<Rightarrow> idt_state \<Rightarrow> idt_state option" where
  "idt_set_gate num bas s =
     (let highBits = ucast (drop_bit 16 bas); lowBits = ucast (bas AND 0x0000FFFF) in do {
        e \<leftarrow> rd (idt s) (unat num);
        t \<leftarrow> wr (idt s) (unat num) (e\<lparr>base_hi := highBits, base_lo := lowBits, sel := 0x08, flags := 0x8E\<rparr>);
        Some (s\<lparr>idt := t\<rparr>) })"

definition zero_entry :: idt_entry where
  "zero_entry = \<lparr>base_lo = 0, sel = 0, always0 = 0, flags = 0, base_hi = 0\<rparr>"

text \<open>
  The table is cleared and handed to the processor before its gates are filled in: those of the
  faults in the order of their numbers, and that of the system calls.
\<close>

definition idt_install :: "(nat \<Rightarrow> u32) \<Rightarrow> u32 \<Rightarrow> idt_state \<Rightarrow> idt_state option" where
  "idt_install isr idt_address s =
     (let p = \<lparr>limit = 8 * 256 - 1, base = idt_address\<rparr>;
          s = s\<lparr>idtp := p, idt := replicate 256 zero_entry, loaded := Some p\<rparr>
      in do { s \<leftarrow> for_loop (\<lambda>n. idt_set_gate (of_nat n) (isr n)) [0..<32] s;
              idt_set_gate (ucast SYSCALL_VECTOR) (isr 127) s })"

section \<open>Faults\<close>

definition exception_messages :: "string list" where
  "exception_messages = [''Division By Zero Exception'', ''Debug Exception'',
     ''Non Maskable Interrupt Exception'', ''Breakpoint Exception'', ''Into Detected Overflow Exception'',
     ''Out of Bounds Exception'', ''Invalid Opcode Exception'', ''No Coprocessor Exception'',
     ''Double Fault Exception'', ''Coprocessor Segment Overrun Exception'', ''Bad TSS Exception'',
     ''Segment Not Present Exception'', ''Stack Fault Exception'', ''General Protection Fault Exception'',
     ''Page Fault Exception'', ''Unknown Interrupt Exception'', ''Coprocessor Fault Exception'',
     ''Alignment Check Exception'', ''Machine Check Exception'']"

text \<open>
  The stack trace: the saved \<open>eip\<close> of at most eight frames, from the innermost on. A frame is the
  pointer to the next one and the address to return to.
\<close>

fun stack_trace :: "memory \<Rightarrow> u32 \<Rightarrow> nat \<Rightarrow> u32 list" where
  "stack_trace m stk 0 = []"
| "stack_trace m stk (Suc k) =
     (if stk = 0 then []
      else load32 m (stk + 4) #
        (let stk = load32 m stk in if stk = 0x80000 then [] else stack_trace m stk k))"

text \<open>
  How the fault handler ends: it goes on after a system call or does nothing, or it stops the
  machine, after printing a message and the trace (nothing at the fourth fault).
\<close>

datatype 's fault_outcome =
    Resumes regs 's
  | Stops "string option" "u32 list"

definition fault_handler ::
    "(regs \<Rightarrow> 's \<Rightarrow> (regs \<times> 's) option) \<Rightarrow> memory \<Rightarrow> regs \<Rightarrow> u32 \<times> 's \<Rightarrow> (u32 \<times> 's fault_outcome) option" where
  "fault_handler handle_syscall m r st = (case st of (fault_count, s) \<Rightarrow>
     if int_no r < 16 then
       let fault_count = fault_count + 1
       in if fault_count > 3 then Some (fault_count, Stops None [])
          else do { msg \<leftarrow> rd exception_messages (unat (int_no r));
                    Some (fault_count, Stops (Some msg) (stack_trace m (ebp r) 8)) }
     else if int_no r < 32 then
       let fault_count = fault_count + 1
       in if fault_count > 3 then Some (fault_count, Stops None [])
          else Some (fault_count, Stops (Some ''Reserved exception'') [])
     else if int_no r = SYSCALL_VECTOR then do {
       (r, s) \<leftarrow> handle_syscall r s;
       Some (fault_count, Resumes r s) }
     else Some (fault_count, Resumes r s))"

section \<open>Hardware interrupts\<close>

definition PIC1_COMMAND :: u16 where
  "PIC1_COMMAND = 0x20"

definition PIC1_DATA :: u16 where
  "PIC1_DATA = 0x21"

definition PIC2_COMMAND :: u16 where
  "PIC2_COMMAND = 0xA0"

definition PIC2_DATA :: u16 where
  "PIC2_DATA = 0xA1"

definition PIC_CMD_EOI :: byte where
  "PIC_CMD_EOI = 0x20"

text \<open>The table of handlers, a null pointer as \<open>None\<close>.\<close>

type_synonym 'h irq_routines = "'h option list"

definition irq_install_handler :: "int \<Rightarrow> 'h \<Rightarrow> 'h irq_routines \<Rightarrow> 'h irq_routines option" where
  "irq_install_handler irq handler routines =
     (if irq < 0 then None else wr routines (nat irq) (Some handler))"

definition irq_remap :: "history \<Rightarrow> history" where
  "irq_remap h =
     (let h = port_byte_out PIC1_COMMAND 0x11 h;
          h = port_byte_out PIC2_COMMAND 0x11 h;
          h = port_byte_out PIC1_DATA 0x20 h;
          h = port_byte_out PIC2_DATA 0x28 h;
          h = port_byte_out PIC1_DATA 0x04 h;
          h = port_byte_out PIC2_DATA 0x02 h;
          h = port_byte_out PIC1_DATA 0x01 h;
          h = port_byte_out PIC2_DATA 0x01 h;
          h = port_byte_out PIC1_DATA 0x0 h
      in port_byte_out PIC2_DATA 0x0 h)"

definition irq_install ::
    "(nat \<Rightarrow> u32) \<Rightarrow> idt_state \<Rightarrow> 'h irq_routines \<Rightarrow> history \<Rightarrow> (idt_state \<times> 'h irq_routines \<times> history) option" where
  "irq_install irq s routines h = (let h = irq_remap h in do {
     s \<leftarrow> for_loop (\<lambda>n. idt_set_gate (of_nat (32 + n)) (irq n)) [0..<16] s;
     routines \<leftarrow> for_loop (\<lambda>i routines. wr routines i None) [0..<16] routines;
     Some (s, routines, h) })"

definition irq_handler ::
    "('h \<Rightarrow> regs \<Rightarrow> 's \<times> history \<Rightarrow> ('s \<times> history) option) \<Rightarrow> 'h irq_routines \<Rightarrow> regs \<Rightarrow>
     's \<times> history \<Rightarrow> ('s \<times> history) option" where
  "irq_handler run routines r st = do {
     handler \<leftarrow> rd routines (unat (int_no r - 32));
     (s, h) \<leftarrow> (case handler of Some f \<Rightarrow> run f r st | None \<Rightarrow> Some st);
     let h = (if int_no r \<ge> 40 then port_byte_out PIC2_COMMAND PIC_CMD_EOI h else h);
     Some (s, port_byte_out PIC1_COMMAND PIC_CMD_EOI h) }"

section \<open>System calls\<close>

datatype syscall = Sys_write | Sys_read | Sys_list_dir | Sys_exec | Sys_getcwd | Sys_chdir | Sys_open_file

definition syscalls :: "syscall list" where
  "syscalls = [Sys_write, Sys_read, Sys_list_dir, Sys_exec, Sys_getcwd, Sys_chdir, Sys_open_file]"

definition NUM_SYSCALLS :: u32 where
  "NUM_SYSCALLS = 7"

definition getcwd :: "byte list \<Rightarrow> byte list \<Rightarrow> byte list option" where
  "getcwd cwd path = strcpy cwd path"

definition chdir :: "byte list \<Rightarrow> byte list \<Rightarrow> (int \<times> byte list) option" where
  "chdir path cwd = do { cwd \<leftarrow> strcpy path cwd; Some (SUCCESS, cwd) }"

text \<open>
  The five registers are pushed from \<open>edi\<close> to \<open>ebx\<close>, so that the function finds its first argument
  in \<open>ebx\<close>. \<open>call f args\<close> runs it.
\<close>

definition handle_syscall ::
    "(syscall \<Rightarrow> u32 list \<Rightarrow> 's \<Rightarrow> (u32 \<times> 's) option) \<Rightarrow> regs \<Rightarrow> 's \<Rightarrow> (regs \<times> 's) option" where
  "handle_syscall call r s =
     (if eax r \<ge> NUM_SYSCALLS then None
      else do {
        location \<leftarrow> rd syscalls (unat (eax r));
        (ret, s) \<leftarrow> call location (rev [edi r, esi r, edx r, ecx r, ebx r]) s;
        Some (r\<lparr>eax := ret\<rparr>, s) })"

section \<open>Where the vectors lead\<close>

definition gate :: "u32 \<Rightarrow> idt_entry" where
  "gate a = \<lparr>base_lo = ucast (a AND 0xFFFF), sel = 0x08, always0 = 0, flags = 0x8E, base_hi = ucast (drop_bit 16 a)\<rparr>"

text \<open>The address an entry sends the processor to, when it is a present interrupt gate.\<close>

definition entry_target :: "idt_entry \<Rightarrow> u32 option" where
  "entry_target e =
     (if flags e = 0x8E \<and> sel e = 0x08 \<and> always0 e = 0 then Some (push_bit 16 (ucast (base_hi e)) OR ucast (base_lo e)) else None)"

lemma entry_target_gate [simp]: "entry_target (gate a) = Some a"
proof -
  have mask: "(0xFFFF :: u32) = mask 16" by (simp add: mask_eq_exp_minus_1)
  have "push_bit 16 (ucast (ucast (drop_bit 16 a) :: u16)) OR ucast (ucast (a AND 0xFFFF) :: u16) = a"
    unfolding mask by (rule bit_word_eqI) (auto simp: bit_simps)
  then show ?thesis by (simp add: entry_target_def gate_def)
qed

lemma entry_target_zero [simp]: "entry_target zero_entry = None"
  by (simp add: entry_target_def zero_entry_def)

text \<open>A table whose entries are gates or zero, so that filling one in makes it a gate.\<close>

definition idt_ok :: "idt_state \<Rightarrow> bool" where
  "idt_ok s \<longleftrightarrow> length (idt s) = 256 \<and> (\<forall>e \<in> set (idt s). always0 e = 0)"

lemma set_gate:
  assumes "idt_ok s"
  shows "idt_set_gate num a s = Some (s\<lparr>idt := (idt s)[unat num := gate a]\<rparr>)"
    and "idt_ok (s\<lparr>idt := (idt s)[unat num := gate a]\<rparr>)"
proof -
  have num: "unat num < length (idt s)" using assms by (simp add: idt_ok_def)
  have z: "always0 (idt s ! unat num) = 0" using assms num by (auto simp: idt_ok_def)
  have "(idt s ! unat num)\<lparr>base_hi := ucast (drop_bit 16 a), base_lo := ucast (a AND 0x0000FFFF), sel := 0x08, flags := 0x8E\<rparr> = gate a"
    using z by (cases "idt s ! unat num") (simp add: gate_def)
  then show "idt_set_gate num a s = Some (s\<lparr>idt := (idt s)[unat num := gate a]\<rparr>)"
    using num by (simp add: idt_set_gate_def)
  have "\<forall>e \<in> set ((idt s)[unat num := gate a]). always0 e = 0"
    using assms by (intro ball_list_update) (auto simp: idt_ok_def gate_def)
  then show "idt_ok (s\<lparr>idt := (idt s)[unat num := gate a]\<rparr>)" using assms by (simp add: idt_ok_def)
qed

lemma set_gates:
  assumes "idt_ok s" and "k + n \<le> 256"
  shows "\<exists>s'. for_loop (\<lambda>i. idt_set_gate (of_nat (k + i)) (f i)) [0..<n] s = Some s' \<and> idt_ok s' \<and>
    loaded s' = loaded s \<and> (\<forall>v. idt s' ! v = (if k \<le> v \<and> v < k + n then gate (f (v - k)) else idt s ! v))"
  using assms(2)
proof (induction n)
  case 0
  then show ?case using assms(1) by auto
next
  case (Suc n)
  then obtain s1 where s1: "for_loop (\<lambda>i. idt_set_gate (of_nat (k + i)) (f i)) [0..<n] s = Some s1" "idt_ok s1"
    "loaded s1 = loaded s" "\<forall>v. idt s1 ! v = (if k \<le> v \<and> v < k + n then gate (f (v - k)) else idt s ! v)" by auto
  have u: "unat (of_nat (k + n) :: byte) = k + n" using Suc.prems
    by (simp add: unat_of_nat del: of_nat_add)
  have "k + n < length (idt s1)" using s1(2) Suc.prems by (simp add: idt_ok_def)
  then show ?case using s1 set_gate [OF s1(2), of "of_nat (k + n)" "f n"] Suc.prems
    by (auto simp: for_loop_append u nth_list_update simp del: of_nat_add)
qed

lemma clear_routines:
  "length rs = n \<Longrightarrow> for_loop (\<lambda>i rs. wr rs i None) [0..<n] rs = Some (replicate n None)"
proof -
  assume len: "length rs = n"
  have "for_loop (\<lambda>i rs. wr rs i None) [0..<k] rs = Some (replicate k None @ drop k rs)" if "k \<le> n" for k
    using that
  proof (induction k)
    case (Suc k)
    then show ?case using len Cons_nth_drop_Suc [of k rs, symmetric]
      by (simp add: for_loop_append list_update_append replicate_app_Cons_same flip: replicate_Suc)
  qed simp
  from this [of n] len show ?thesis by simp
qed

text \<open>Where the interrupt vector \<open>v\<close> should lead.\<close>

definition vector_target :: "(nat \<Rightarrow> u32) \<Rightarrow> (nat \<Rightarrow> u32) \<Rightarrow> nat \<Rightarrow> u32 option" where
  "vector_target isr irq v =
     (if v < 32 \<or> v = 0x7F then Some (isr v) else if v < 48 then Some (irq (v - 32)) else None)"

text \<open>
  C31: after \<open>idt_install\<close> and \<open>irq_install\<close> the processor has the table of 256 entries, each fault,
  each hardware interrupt and the system call vector leads to its own stub, every other vector is
  not present, and no handler of a hardware interrupt is installed.
\<close>

theorem vectors_lead_to_stubs:
  assumes "length routines = 16"
  shows "\<exists>s1 s2 routines' h'. idt_install isr idt_address s = Some s1 \<and>
    irq_install irq s1 routines h = Some (s2, routines', h') \<and>
    loaded s2 = Some \<lparr>limit = 2047, base = idt_address\<rparr> \<and> length (idt s2) = 256 \<and>
    (\<forall>v < 256. entry_target (idt s2 ! v) = vector_target isr irq v) \<and> routines' = replicate 16 None"
proof -
  let ?p = "\<lparr>limit = 8 * 256 - 1, base = idt_address\<rparr>"
  let ?s = "s\<lparr>idtp := ?p, idt := replicate 256 zero_entry, loaded := Some ?p\<rparr>"
  have "idt_ok ?s" by (simp add: idt_ok_def zero_entry_def)
  from set_gates [OF this, of 0 32 isr] obtain s1 where
    s1: "for_loop (\<lambda>i. idt_set_gate (of_nat (0 + i)) (isr i)) [0..<32] ?s = Some s1" and ok1: "idt_ok s1"
    and l1: "loaded s1 = loaded ?s"
    and v1: "\<forall>v. idt s1 ! v = (if 0 \<le> v \<and> v < 0 + 32 then gate (isr (v - 0)) else idt ?s ! v)"
    by fastforce
  let ?s2 = "s1\<lparr>idt := (idt s1)[unat (ucast SYSCALL_VECTOR :: byte) := gate (isr 127)]\<rparr>"
  have sys: "unat (ucast SYSCALL_VECTOR :: byte) = 127" by (simp add: SYSCALL_VECTOR_def)
  note g2 = set_gate [OF ok1, of "ucast SYSCALL_VECTOR" "isr 127"]
  have i1: "idt_install isr idt_address s = Some ?s2"
    using s1 g2(1) by (simp add: idt_install_def Let_def)
  from set_gates [OF g2(2), of 32 16 irq] obtain s3 where
    s3: "for_loop (\<lambda>i. idt_set_gate (of_nat (32 + i)) (irq i)) [0..<16] ?s2 = Some s3" and ok3: "idt_ok s3"
    and l3: "loaded s3 = loaded ?s2"
    and v3: "\<forall>v. idt s3 ! v = (if 32 \<le> v \<and> v < 32 + 16 then gate (irq (v - 32)) else idt ?s2 ! v)"
    by fastforce
  have len: "length (idt s1) = 256" using ok1 by (simp add: idt_ok_def)
  have i2: "irq_install irq ?s2 routines h = Some (s3, replicate 16 None, irq_remap h)"
    using s3 clear_routines [OF assms] by (simp add: irq_install_def)
  have "entry_target (idt s3 ! v) = vector_target isr irq v" if "v < 256" for v
    using that v1 v3 len by (auto simp: vector_target_def sys nth_list_update)
  moreover have "loaded s3 = Some \<lparr>limit = 2047, base = idt_address\<rparr>" using l1 l3 by simp
  moreover have "length (idt s3) = 256" using ok3 by (simp add: idt_ok_def)
  ultimately show ?thesis using i1 i2 by blast
qed

theorem vectors_lead_to_stubs_witness:
  "\<exists>s1 s2 rs h. idt_install of_nat 0x5000 \<lparr>idt = [], idtp = \<lparr>limit = 0, base = 0\<rparr>, loaded = None\<rparr> = Some s1 \<and>
     irq_install (\<lambda>n. 0x100 + of_nat n) s1 (replicate 16 (Some ())) [] = Some (s2, rs, h) \<and>
     entry_target (idt s2 ! 33) = Some 0x101 \<and> entry_target (idt s2 ! 50) = None"
proof -
  have "length (replicate 16 (Some ())) = 16" by simp
  from vectors_lead_to_stubs [OF this, of of_nat "0x5000" "\<lparr>idt = [], idtp = \<lparr>limit = 0, base = 0\<rparr>, loaded = None\<rparr>"
      "\<lambda>n. 0x100 + of_nat n" "[]"]
  obtain s1 s2 rs h where *: "idt_install of_nat 0x5000 \<lparr>idt = [], idtp = \<lparr>limit = 0, base = 0\<rparr>, loaded = None\<rparr> = Some s1"
    "irq_install (\<lambda>n. 0x100 + of_nat n) s1 (replicate 16 (Some ())) [] = Some (s2, rs, h)"
    "\<forall>v < 256. entry_target (idt s2 ! v) = vector_target of_nat (\<lambda>n. 0x100 + of_nat n) v" by blast
  from *(3) [rule_format, of 33] *(3) [rule_format, of 50] *(1,2) show ?thesis
    by (simp add: vector_target_def)
qed

text \<open>
  C32: a handler installed for a hardware interrupt is run when that interrupt comes, and the
  interrupt is acknowledged after it: at both controllers for the numbers from 8 on, at the first
  alone below. If the handler does not come back, there is no acknowledgement and no return.
\<close>

theorem installed_handler_runs:
  assumes "irq_install_handler (int n) f routines = Some routines'" and "length routines = 16"
    and "int_no r = 32 + of_nat n"
  shows "irq_handler run routines' r st = map_option
    (\<lambda>(s, h). (s, if 8 \<le> n then Out8 0x20 0x20 # Out8 0xA0 0x20 # h else Out8 0x20 0x20 # h)) (run f r st)"
proof -
  have n: "n < 16" and rs: "routines' = routines[n := Some f]"
    using assms(1,2) by (auto simp: irq_install_handler_def wr_Some_iff split: if_splits)
  have u: "unat (int_no r - 32) = n" using n by (simp add: assms(3) unat_of_nat)
  have "unat (int_no r) = 32 + n" using n unat_add_small [of "32 :: u32" n] by (simp add: assms(3))
  then have "int_no r \<ge> 40 \<longleftrightarrow> 8 \<le> n" by (simp add: word_le_nat_alt)
  then show ?thesis using n assms(2)
    by (cases "run f r st") (auto simp: irq_handler_def rs u port_byte_out_def PIC1_COMMAND_def PIC2_COMMAND_def PIC_CMD_EOI_def)
qed

definition no_regs :: regs where
  "no_regs = \<lparr>gs = 0, fs = 0, es = 0, ds = 0, ss = 0, edi = 0, esi = 0, ebp = 0, esp = 0, ebx = 0, edx = 0,
     ecx = 0, eax = 0, int_no = 0, err_code = 0, eip = 0, cs = 0, eflags = 0\<rparr>"

theorem installed_handler_runs_witness:
  "irq_handler (\<lambda>f r (s, h). Some (f s, h)) ((replicate 16 None)[9 := Some Suc]) (no_regs\<lparr>int_no := 41\<rparr>) (5, []) =
     Some (6, [Out8 0x20 0x20, Out8 0xA0 0x20])"
proof -
  have "irq_install_handler (int 9) Suc (replicate 16 None) = Some ((replicate 16 None)[9 := Some Suc])"
    by (simp add: irq_install_handler_def)
  from installed_handler_runs [OF this, of "no_regs\<lparr>int_no := 41\<rparr>" "\<lambda>f r (s, h). Some (f s, h)" "(5, [])"]
  show ?thesis by simp
qed

text \<open>
  a fault stops the machine: none of the first 32 vectors ever returns to the interrupted
  code, the trace holds at most eight addresses, and from the fourth fault on nothing is printed.
\<close>

theorem fault_handler_stops:
  assumes "int_no r < 32"
  shows "\<exists>msg frames. fault_handler sysc m r (n, s) = Some (n + 1, Stops msg frames) \<and> length frames \<le> 8 \<and>
    (n + 1 > 3 \<longrightarrow> msg = None \<and> frames = [])"
proof -
  have len: "length (stack_trace m stk k) \<le> k" for stk k
    by (induction k arbitrary: stk) (auto simp: Let_def)
  have "unat (int_no r) < length exception_messages" if "int_no r < 16"
  proof -
    have "unat (int_no r) < 16" using that by (simp add: word_less_nat_alt)
    moreover have "length exception_messages = 19" by (simp add: exception_messages_def)
    ultimately show ?thesis by simp
  qed
  then show ?thesis using assms len [of "ebp r" 8]
    by (auto simp: fault_handler_def Let_def)
qed

theorem fault_handler_stops_witness:
  "\<exists>msg frames. fault_handler (\<lambda>r s. Some (r, s)) (\<lambda>_. 0) (no_regs\<lparr>int_no := 13\<rparr>) (0, ()) = Some (1, Stops msg frames)"
proof -
  have "int_no (no_regs\<lparr>int_no := 13\<rparr>) < 32" by simp
  from fault_handler_stops [OF this, of "\<lambda>r s. Some (r, s)" "\<lambda>_. 0" 0 "()"] show ?thesis by auto
qed

end
