(* ===== verification/Keyboard.thy ===== *)
theory Keyboard
  imports Console PortIO
begin

text \<open>
  The keyboard: the interrupt handler of \<open>drivers/ps2_keyboard.c\<close>, which turns scan codes into key
  events, and the line editor of \<open>core/console.c\<close> above it, which reads the characters of the
  events and echoes them to the screen console.
\<close>

section \<open>Scan codes\<close>

definition PS2_DATA_PORT :: u16 where
  "PS2_DATA_PORT = 0x60"

definition PS2_STATUS_CMD_PORT :: u16 where
  "PS2_STATUS_CMD_PORT = 0x64"

text \<open>The enumeration of \<open>system.h\<close>: the code of a key is its position.\<close>

definition keyboard_scancodes :: "string list" where
  "keyboard_scancodes = [''None'', ''Escape'', ''Num1'', ''Num2'', ''Num3'', ''Num4'', ''Num5'', ''Num6'', ''Num7'',
     ''Num8'', ''Num9'', ''Num0'', ''Minus'', ''Equals'', ''Backspace'', ''Tab'', ''Q'', ''W'',
     ''E'', ''R'', ''T'', ''Y'', ''U'', ''I'', ''O'', ''P'', ''LeftBracket'', ''RightBracket'',
     ''Enter'', ''LeftControl'', ''A'', ''S'', ''D'', ''F'', ''G'', ''H'', ''J'', ''K'', ''L'',
     ''Semicolon'', ''Apostrophe'', ''Grave'', ''LeftShift'', ''Backslash'', ''Z'', ''X'', ''C'',
     ''V'', ''B'', ''N'', ''M'', ''Comma'', ''Period'', ''Slash'', ''RightShift'', ''PadMultiply'',
     ''LeftAlt'', ''Space'', ''CapsLock'', ''F1'', ''F2'', ''F3'', ''F4'', ''F5'', ''F6'', ''F7'',
     ''F8'', ''F9'', ''F10'', ''NumLock'', ''ScrollLock'', ''Home'', ''Up'', ''PageUp'',
     ''PadMinus'', ''Left'', ''Pad5'', ''Right'', ''PadPlus'', ''End'', ''Down'', ''PageDown'',
     ''Insert'', ''Delete'', ''Unknown84'', ''Unknown85'', ''NonUsBackslash'', ''F11'', ''F12'',
     ''Pause'', ''Unknown90'', ''LeftGui'', ''RightGui'', ''Menu'']"

definition keycode :: "string \<Rightarrow> byte" where
  "keycode name = of_nat (length (takeWhile (\<lambda>n. n \<noteq> name) keyboard_scancodes))"

text \<open>The characters of the keys, without and with shift; the rest of the 256 entries is zero.\<close>

definition lower_ascii_codes :: "byte list" where
  "lower_ascii_codes = [0, 27] @ str ''1234567890-='' @ [8, 9] @ str ''qwertyuiop[]'' @ [10, 0] @ str ''asdfghjkl;'' @
     [39, 96, 0, 92] @ str ''zxcvbnm,./'' @ [0] @ str ''*'' @ [0] @ str '' '' @ [0, 0, 0, 0, 0, 0,
     0, 0, 0, 0, 0, 0, 0] @ str ''789-456+1230.'' @ [0, 0, 0, 0, 0, 0, 0, 0] @ replicate 164 0"

definition upper_ascii_codes :: "byte list" where
  "upper_ascii_codes = [0, 27] @ str ''!@#$%^&*()_+'' @ [8, 9] @ str ''QWERTYUIOP{}'' @ [10, 0] @ str ''ASDFGHJKL:'' @
     [34] @ str ''~'' @ [0] @ str ''|ZXCVBNM<>?'' @ [0] @ str ''*'' @ [0] @ str '' '' @ [0, 0, 0, 0,
     0, 0, 0, 0, 0, 0, 0, 0, 0] @ str ''789-456+1230.'' @ [0, 0, 0, 0, 0, 0, 0, 0] @ replicate 164 0"

section \<open>Key events\<close>

datatype key_event_kind = EVENT_KEYPRESS | EVENT_KEYRELEASE

record KeyEvent =
  event :: key_event_kind
  ev_shift_down :: bool
  ev_ctrl_down :: bool
  ev_alt_down :: bool
  keyCode :: byte
  ev_character :: byte

text \<open>The locks of the structure are never set.\<close>

record KeyStatus =
  shift_down :: bool
  ctrl_down :: bool
  alt_down :: bool

record keyboard =
  key_status :: KeyStatus
  next_char_received :: byte

text \<open>
  \<open>reboot\<close> waits until the controller takes a command, pulses the reset line and stops the
  processor: for the caller it does not come back.
\<close>

definition reboot :: "device \<Rightarrow> history \<Rightarrow> history option" where
  "reboot dev h = do {
     (_, h) \<leftarrow> poll_byte (\<lambda>good. good AND 0x02 = 0) dev 0x64 h;
     halt (port_byte_out 0x64 0xFE h) }"

text \<open>The character of an event is a signed byte; only positive ones are taken.\<close>

definition on_key_event :: "device \<Rightarrow> KeyEvent \<Rightarrow> keyboard \<times> history \<Rightarrow> (keyboard \<times> history) option" where
  "on_key_event dev e st = (case st of (k, h) \<Rightarrow> do {
     h \<leftarrow> (if event e = EVENT_KEYPRESS \<and> ev_ctrl_down e \<and> ev_alt_down e \<and> keyCode e = keycode ''Delete''
           then reboot dev h else Some h);
     if event e = EVENT_KEYPRESS \<and> sint (ev_character e) > 0
     then Some (k\<lparr>next_char_received := ev_character e\<rparr>, h) else Some (k, h) })"

text \<open>The modifier keys are tracked alike when they go down and when they come up.\<close>

definition set_modifiers :: "bool \<Rightarrow> byte \<Rightarrow> KeyStatus \<Rightarrow> KeyStatus" where
  "set_modifiers down scancode st =
     (let st = (if scancode = keycode ''LeftShift'' \<or> scancode = keycode ''RightShift''
                then st\<lparr>shift_down := down\<rparr> else st);
          st = (if scancode = keycode ''LeftControl'' then st\<lparr>ctrl_down := down\<rparr> else st)
      in if scancode = keycode ''LeftAlt'' then st\<lparr>alt_down := down\<rparr> else st)"

definition send_key_event ::
    "device \<Rightarrow> key_event_kind \<Rightarrow> byte \<Rightarrow> keyboard \<times> history \<Rightarrow> (keyboard \<times> history) option" where
  "send_key_event dev kind scancode st =
     (let down = key_status (fst st);
          code_table = (if shift_down down then upper_ascii_codes else lower_ascii_codes)
      in do {
        ch \<leftarrow> rd code_table (unat scancode);
        on_key_event dev \<lparr>event = kind, ev_shift_down = shift_down down, ev_ctrl_down = ctrl_down down,
          ev_alt_down = alt_down down, keyCode = scancode, ev_character = ch\<rparr> st })"

definition keyboard_handler :: "device \<Rightarrow> keyboard \<times> history \<Rightarrow> (keyboard \<times> history) option" where
  "keyboard_handler dev st = (case st of (k, h) \<Rightarrow>
     let (scancode, h) = port_byte_in dev PS2_DATA_PORT h
     in if scancode AND 0x80 \<noteq> 0 then
          let scancode = scancode - 128;
              k = k\<lparr>key_status := set_modifiers False scancode (key_status k)\<rparr>;
              h = (if scancode = keycode ''F12'' then port_byte_out 0xCF9 6 h else h)
          in send_key_event dev EVENT_KEYRELEASE scancode (k, h)
        else
          let k = k\<lparr>key_status := set_modifiers True scancode (key_status k)\<rparr>
          in send_key_event dev EVENT_KEYPRESS scancode (k, h))"

section \<open>Installation\<close>

text \<open>
  The waits give up after 500 reads; as written they end at the first status that is not zero.
\<close>

fun wait_status :: "nat \<Rightarrow> device \<Rightarrow> history \<Rightarrow> history" where
  "wait_status 0 dev h = h"
| "wait_status (Suc n) dev h =
     (let (status, h) = port_byte_in dev PS2_STATUS_CMD_PORT h
      in if status \<noteq> 0 then h else wait_status n dev h)"

definition wait_to_read :: "device \<Rightarrow> history \<Rightarrow> history" where
  "wait_to_read dev h = wait_status 500 dev h"

definition wait_to_write :: "device \<Rightarrow> history \<Rightarrow> history" where
  "wait_to_write dev h = wait_status 500 dev h"

definition ps2_keyboard_install ::
    "(history \<Rightarrow> history option) \<Rightarrow> device \<Rightarrow> history \<Rightarrow> history option" where
  "ps2_keyboard_install irq_install_handler_1 dev h = do {
     h \<leftarrow> irq_install_handler_1 h;
     let h = port_byte_out PS2_STATUS_CMD_PORT 0xAD h;
     let h = port_byte_out PS2_STATUS_CMD_PORT 0xA7 h;
     let (_, h) = port_byte_in dev PS2_DATA_PORT h;
     let h = port_byte_out PS2_STATUS_CMD_PORT 0x20 h;
     let h = wait_to_read dev h;
     let (configuration_byte, h) = port_byte_in dev PS2_DATA_PORT h;
     let configuration_byte = configuration_byte OR 0x01;
     let h = port_byte_out PS2_STATUS_CMD_PORT 0x60 h;
     let h = wait_to_write dev h;
     let h = port_byte_out PS2_DATA_PORT configuration_byte h;
     Some (port_byte_out PS2_STATUS_CMD_PORT 0xAE h) }"

section \<open>Reading characters and lines\<close>

text \<open>
  \<open>get_char\<close> halts the processor until an interrupt has left a character. The interrupts to come
  are a list: each element is what happens while the processor waits once, the scan codes whose
  interrupts are served before the loop looks again (none, if another device woke it up). A list
  that ends stands for a keyboard nobody touches any more. The scan codes are delivered by
  \<open>keyboard_handler\<close> through \<open>key_pressed\<close>.
\<close>

definition scan_device :: "byte \<Rightarrow> device" where
  "scan_device code h e = (if e = In8 PS2_DATA_PORT then ucast code else 0)"

definition key_interrupt :: "byte \<Rightarrow> keyboard \<Rightarrow> keyboard option" where
  "key_interrupt code k = map_option fst (keyboard_handler (scan_device code) (k, []))"

fun get_char :: "byte list list \<Rightarrow> keyboard \<Rightarrow> (byte \<times> byte list list \<times> keyboard) option" where
  "get_char arrivals k =
     (if next_char_received k = 0 then
        (case arrivals of
           [] \<Rightarrow> None
         | codes # arrivals \<Rightarrow> do {
             k \<leftarrow> for_loop key_interrupt codes k;
             get_char arrivals k })
      else Some (next_char_received k, arrivals, k\<lparr>next_char_received := 0\<rparr>))"

declare get_char.simps [simp del]

text \<open>What \<open>get_char\<close> has consumed, which bounds how often a line can call it.\<close>

definition input_left :: "byte list list \<Rightarrow> keyboard \<Rightarrow> nat" where
  "input_left arrivals k = 2 * length arrivals + (if next_char_received k = 0 then 0 else 1)"

lemma get_char_consumes:
  "get_char arrivals k = Some (c, arrivals', k') \<Longrightarrow>
     input_left arrivals' k' < input_left arrivals k \<and> next_char_received k' = 0 \<and> c \<noteq> 0"
proof (induction arrivals k rule: get_char.induct)
  case (1 arrivals k)
  show ?case
  proof (cases "next_char_received k = 0")
    case False
    then show ?thesis using 1(2) by (subst (asm) get_char.simps) (auto simp: input_left_def)
  next
    case True
    with 1(2) obtain codes rest k1 where "arrivals = codes # rest" "for_loop key_interrupt codes k = Some k1"
      "get_char rest k1 = Some (c, arrivals', k')"
      by (subst (asm) get_char.simps) (auto simp: bind_eq_Some_conv split: list.splits)
    then show ?thesis using 1(1) [OF True] True by (fastforce simp: input_left_def split: if_splits)
  qed
qed

text \<open>The loop of \<open>get_string\<close>, up to the character that ends it.\<close>

function get_string_loop :: "byte list \<Rightarrow> u16 \<Rightarrow> byte \<Rightarrow> byte list list \<Rightarrow> keyboard \<Rightarrow> console \<Rightarrow> byte list \<Rightarrow> nat \<Rightarrow>
    (byte list list \<times> keyboard \<times> console \<times> byte list \<times> nat) option" where
  "get_string_loop font limit echo arrivals k con buffer index =
     (case get_char arrivals k of
        None \<Rightarrow> None
      | Some (c, arrivals, k) \<Rightarrow>
          if c = 0x0A then Some (arrivals, k, con, buffer, index)
          else if c = 0x08 \<and> index > 0 then do {
            con \<leftarrow> (if echo = 1 then do {
                con \<leftarrow> console_write font [0x08] 1 con;
                con \<leftarrow> console_write font [0x20] 1 con;
                console_write font [0x08] 1 con } else Some con);
            get_string_loop font limit echo arrivals k con buffer (index - 1) }
          else if sint c \<ge> 32 \<and> sint c \<le> 126 \<and> int index < int (unat limit) - 1 then do {
            con \<leftarrow> (if echo = 1 then console_write font [c] 1 con else Some con);
            buffer \<leftarrow> wr buffer index c;
            get_string_loop font limit echo arrivals k con buffer (index + 1) }
          else get_string_loop font limit echo arrivals k con buffer index)"
  by pat_completeness auto
termination
  by (relation "measure (\<lambda>(font, limit, echo, arrivals, k, con, buffer, index). input_left arrivals k)")
    (auto dest: get_char_consumes)

definition get_string :: "byte list \<Rightarrow> byte list \<Rightarrow> u16 \<Rightarrow> byte \<Rightarrow> byte list list \<Rightarrow> keyboard \<Rightarrow> console \<Rightarrow>
    (byte list \<times> byte list list \<times> keyboard \<times> console) option" where
  "get_string font buffer limit echo arrivals k con = do {
     (arrivals, k, con, buffer, index) \<leftarrow> get_string_loop font limit echo arrivals k con buffer 0;
     con \<leftarrow> (if echo = 1 then console_write font [0x0A] 1 con else Some con);
     buffer \<leftarrow> wr buffer index 0;
     Some (buffer, arrivals, k, con) }"

declare get_string_loop.simps [simp del]

section \<open>The keys and their characters\<close>

lemma keycodes [simp]:
  "keycode ''LeftShift'' = 42" "keycode ''RightShift'' = 54" "keycode ''LeftControl'' = 29"
  "keycode ''LeftAlt'' = 56" "keycode ''Delete'' = 83" "keycode ''F12'' = 88"
  by (simp_all add: keycode_def keyboard_scancodes_def)

lemma code_tables:
  "length lower_ascii_codes = 256" "length upper_ascii_codes = 256"
  "\<forall>c \<in> set lower_ascii_codes. unat c < 128" "\<forall>c \<in> set upper_ascii_codes. unat c < 128"
  by (simp_all add: lower_ascii_codes_def upper_ascii_codes_def str_def)

text \<open>The modifier keys a scan code changes, and the character it types.\<close>

definition scan_step :: "byte \<Rightarrow> KeyStatus \<Rightarrow> KeyStatus" where
  "scan_step code st =
     (if code AND 0x80 \<noteq> 0 then set_modifiers False (code - 128) st else set_modifiers True code st)"

definition scan_char :: "byte \<Rightarrow> KeyStatus \<Rightarrow> byte" where
  "scan_char code st =
     (if code AND 0x80 = 0 then (if shift_down st then upper_ascii_codes else lower_ascii_codes) ! unat code else 0)"

definition reboots :: "byte \<Rightarrow> KeyStatus \<Rightarrow> bool" where
  "reboots code st \<longleftrightarrow> code = 83 \<and> ctrl_down st \<and> alt_down st"

lemma scan_char_small: "unat (scan_char code st) < 128"
  using code_tables by (auto simp: scan_char_def)

lemma ucast_ucast_byte: "(ucast (ucast (c :: byte) :: u32) :: byte) = c"
  by (rule bit_word_eqI) (simp add: bit_simps)

lemma key_interrupt_eq:
  assumes "\<not> reboots code (key_status k)"
  shows "key_interrupt code k = (let st = scan_step code (key_status k); c = scan_char code st in
    Some (k\<lparr>key_status := st, next_char_received := (if c = 0 then next_char_received k else c)\<rparr>))"
proof -
  have pos: "0 < sint c \<longleftrightarrow> c \<noteq> 0" if "unat c < 128" for c :: byte
  proof -
    have "uint c = 0 \<longleftrightarrow> c = 0" and "0 \<le> uint c" by (simp_all add: uint_0_iff)
    moreover have "sint c = uint c" using sint_small_byte [OF that] by simp
    ultimately show ?thesis by (metis order_le_less less_irrefl)
  qed
  have read: "port_byte_in (scan_device code) PS2_DATA_PORT [] = (code, [In8 PS2_DATA_PORT])"
    using ucast_ucast_byte by (simp add: port_byte_in_def scan_device_def)
  have table: "rd (if s then upper_ascii_codes else lower_ascii_codes) (unat c) =
      Some ((if s then upper_ascii_codes else lower_ascii_codes) ! unat c)" for s and c :: byte
    by (simp add: code_tables(1,2))
  show ?thesis
  proof (cases "code AND 0x80 = 0")
    case True
    let ?st = "scan_step code (key_status k)"
    have st: "set_modifiers True code (key_status k) = ?st" using True by (simp add: scan_step_def)
    have noboot: "(ctrl_down ?st \<and> alt_down ?st \<and> code = 83) = False"
      using assms by (auto simp: reboots_def scan_step_def set_modifiers_def)
    have "(if shift_down ?st then upper_ascii_codes else lower_ascii_codes) ! unat code = scan_char code ?st"
      using True by (simp add: scan_char_def)
    then show ?thesis using True pos [OF scan_char_small [of code ?st]]
      by (simp add: key_interrupt_def keyboard_handler_def read st send_key_event_def table on_key_event_def noboot Let_def)
  next
    case False
    then have "scan_char code st = 0" for st by (simp add: scan_char_def)
    then show ?thesis using False
      by (simp add: key_interrupt_def keyboard_handler_def read send_key_event_def table on_key_event_def Let_def
          scan_step_def)
  qed
qed

section \<open>Typed lines\<close>

text \<open>
  What a sequence of scan codes types, from a state of the modifier keys on; and the characters
  that a number of calls of \<open>get_char\<close> return.
\<close>

fun typed :: "byte list \<Rightarrow> KeyStatus \<Rightarrow> byte list" where
  "typed [] st = []"
| "typed (code # codes) st =
     (let st = scan_step code st; c = scan_char code st in (if c = 0 then [] else [c]) @ typed codes st)"

fun never_reboots :: "byte list \<Rightarrow> KeyStatus \<Rightarrow> bool" where
  "never_reboots [] st = True"
| "never_reboots (code # codes) st = (\<not> reboots code st \<and> never_reboots codes (scan_step code st))"

fun get_chars :: "nat \<Rightarrow> byte list list \<Rightarrow> keyboard \<Rightarrow> (byte list \<times> byte list list \<times> keyboard) option" where
  "get_chars 0 arrivals k = Some ([], arrivals, k)"
| "get_chars (Suc n) arrivals k = do {
     (c, arrivals, k) \<leftarrow> get_char arrivals k;
     (cs, arrivals, k) \<leftarrow> get_chars n arrivals k;
     Some (c # cs, arrivals, k) }"

text \<open>Keys that are struck one at a time are all read, in their order.\<close>

lemma get_chars_typed:
  assumes "never_reboots codes (key_status k)" and "next_char_received k = 0"
    and "n \<le> length (typed codes (key_status k))"
  shows "\<exists>rest k'. get_chars n (map (\<lambda>c. [c]) codes) k = Some (take n (typed codes (key_status k)), rest, k')"
  using assms
proof (induction codes arbitrary: k n)
  case Nil
  then show ?case by simp
next
  case (Cons code codes)
  let ?st = "scan_step code (key_status k)"
  let ?c = "scan_char code ?st"
  have int: "key_interrupt code k = Some (k\<lparr>key_status := ?st, next_char_received := ?c\<rparr>)"
    using key_interrupt_eq [of code k] Cons.prems(1,2) by (simp add: Let_def)
  show ?case
  proof (cases "?c = 0")
    case True
    let ?k = "k\<lparr>key_status := ?st\<rparr>"
    have int': "key_interrupt code k = Some ?k" using int True Cons.prems(2) by simp
    have ks: "k\<lparr>key_status := ?st, next_char_received := 0\<rparr> = ?k" using Cons.prems(2) by (cases k) simp
    have step: "get_char ([code] # map (\<lambda>c. [c]) codes) k = get_char (map (\<lambda>c. [c]) codes) ?k"
      using Cons.prems(2) int' by (subst get_char.simps) simp
    then have "get_chars n ([code] # map (\<lambda>c. [c]) codes) k = get_chars n (map (\<lambda>c. [c]) codes) ?k" if "n \<noteq> 0"
      using that by (cases n) simp_all
    moreover have "\<exists>rest k'. get_chars n (map (\<lambda>c. [c]) codes) ?k = Some (take n (typed codes ?st), rest, k')"
      using Cons.IH [of ?k n] Cons.prems True by (simp add: Let_def)
    ultimately show ?thesis using True by (cases "n = 0") (auto simp: Let_def)
  next
    case False
    let ?k = "k\<lparr>key_status := ?st, next_char_received := 0\<rparr>"
    show ?thesis
    proof (cases n)
      case (Suc m)
      have "get_char ([code] # map (\<lambda>c. [c]) codes) k = Some (?c, map (\<lambda>c. [c]) codes, ?k)"
        using Cons.prems(2) int False by (subst get_char.simps, simp) (subst get_char.simps, simp)
      moreover obtain rest k' where "get_chars m (map (\<lambda>c. [c]) codes) ?k = Some (take m (typed codes ?st), rest, k')"
        using Cons.IH [of ?k m] Cons.prems False Suc by (auto simp: Let_def)
      ultimately show ?thesis using False Suc by (simp add: Let_def)
    qed simp
  qed
qed

text \<open>The line a sequence of characters leaves, and what is echoed for them.\<close>

definition printable :: "byte \<Rightarrow> bool" where
  "printable c \<longleftrightarrow> 32 \<le> sint c \<and> sint c \<le> 126"

definition edit_step :: "nat \<Rightarrow> byte \<Rightarrow> byte list \<Rightarrow> byte list" where
  "edit_step limit c line =
     (if c = 0x08 \<and> line \<noteq> [] then butlast line
      else if printable c \<and> length line + 1 < limit then line @ [c] else line)"

definition echo_step :: "nat \<Rightarrow> byte \<Rightarrow> byte list \<Rightarrow> byte list" where
  "echo_step limit c line =
     (if c = 0x08 \<and> line \<noteq> [] then [0x08, 0x20, 0x08]
      else if printable c \<and> length line + 1 < limit then [c] else [])"

fun edit :: "nat \<Rightarrow> byte list \<Rightarrow> byte list \<Rightarrow> byte list" where
  "edit limit [] line = line"
| "edit limit (c # cs) line = edit limit cs (edit_step limit c line)"

fun echo_text :: "nat \<Rightarrow> byte list \<Rightarrow> byte list \<Rightarrow> byte list" where
  "echo_text limit [] line = []"
| "echo_text limit (c # cs) line = echo_step limit c line @ echo_text limit cs (edit_step limit c line)"

text \<open>The console after \<open>bs\<close> has been written to it, when echo is on.\<close>

definition echoed :: "byte list \<Rightarrow> byte \<Rightarrow> byte list \<Rightarrow> console \<Rightarrow> console \<Rightarrow> bool" where
  "echoed font echo bs con con' \<longleftrightarrow> console_ok con' \<and> (shown font con \<longrightarrow> shown font con') \<and>
     console_cols con' = console_cols con \<and>
     (if echo = 1 then (current_color con', tty_of con') =
        tty_text (nat (console_cols con)) (plain bs) (current_color con) (tty_of con) else con' = con)"

lemma echoed_refl: "console_ok con \<Longrightarrow> echoed font echo [] con con"
  by (simp add: echoed_def plain_def)

lemma echoed_trans: "echoed font echo bs con con1 \<Longrightarrow> echoed font echo bs' con1 con2 \<Longrightarrow>
    echoed font echo (bs @ bs') con con2"
  unfolding echoed_def by (auto simp: plain_def tty_text_append split: if_splits) (metis case_prod_conv)+

lemma echo_byte:
  assumes "font_ok font" and "console_ok con" and "unat b < 128" and "b \<noteq> 1"
  shows "\<exists>con'. (if echo = 1 then console_write font [b] 1 con else Some con) = Some con' \<and>
    echoed font echo [b] con con'"
  using write_plain_byte [OF assms] assms(2) unfolding echoed_def by auto

lemma printable_byte: "printable c \<Longrightarrow> unat c < 128 \<and> c \<noteq> 1 \<and> c \<noteq> 0x08 \<and> c \<noteq> 0x0A"
proof -
  assume p: "printable c"
  obtain n where n: "sint c = int n" "n \<le> 126"
    using p by (intro that [of "nat (sint c)"]) (auto simp: printable_def)
  have "c = of_int (sint c)" by simp
  then have "c = of_nat n" unfolding n(1) by simp
  then have "unat c < 128" using n(2) by (simp add: unat_of_nat)
  then show ?thesis using p by (auto simp: printable_def)
qed

lemma edit_step_bounded: "length line < max 1 limit \<Longrightarrow> length (edit_step limit c line) < max 1 limit"
  by (auto simp: edit_step_def)

lemma get_string_loop_edits:
  assumes "font_ok font" and "max 1 (unat limit) \<le> length buffer"
    and "console_ok con" and "take (length line) buffer = line" and "length line < max 1 (unat limit)"
    and "get_chars (Suc (length cs)) arrivals k = Some (cs @ [0x0A], rest, k')" and "0x0A \<notin> set cs"
  shows "\<exists>con' buffer'. get_string_loop font limit echo arrivals k con buffer (length line) =
      Some (rest, k', con', buffer', length (edit (unat limit) cs line)) \<and>
    length buffer' = length buffer \<and> length (edit (unat limit) cs line) < max 1 (unat limit) \<and>
    take (length (edit (unat limit) cs line)) buffer' = edit (unat limit) cs line \<and>
    drop (max 1 (unat limit)) buffer' = drop (max 1 (unat limit)) buffer \<and>
    echoed font echo (echo_text (unat limit) cs line) con con'"
  using assms(2-7)
proof (induction cs arbitrary: arrivals k con buffer line)
  case Nil
  then have "get_char arrivals k = Some (0x0A, rest, k')" by (auto simp: bind_eq_Some_conv)
  then show ?case using Nil by (subst get_string_loop.simps) (simp add: echoed_refl)
next
  case (Cons c cs)
  let ?l = "unat limit"
  obtain ar1 k1 where g: "get_char arrivals k = Some (c, ar1, k1)" "get_chars (Suc (length cs)) ar1 k1 = Some (cs @ [0x0A], rest, k')"
    using Cons.prems(5) by (auto simp: bind_eq_Some_conv)
  have c: "c \<noteq> 0x0A" "0x0A \<notin> set cs" using Cons.prems(6) by auto
  have lim: "int (length line) < int (unat limit) - 1 \<longleftrightarrow> length line + 1 < ?l" by linarith
  have step: "\<exists>con1 buffer1. get_string_loop font limit echo arrivals k con buffer (length line) =
      get_string_loop font limit echo ar1 k1 con1 buffer1 (length (edit_step ?l c line)) \<and>
      length buffer1 = length buffer \<and> take (length (edit_step ?l c line)) buffer1 = edit_step ?l c line \<and>
      drop (max 1 ?l) buffer1 = drop (max 1 ?l) buffer \<and> echoed font echo (echo_step ?l c line) con con1"
  proof -
    consider "c = 0x08" "line \<noteq> []" | "\<not> (c = 0x08 \<and> line \<noteq> [])" "printable c" "length line + 1 < ?l"
      | "\<not> (c = 0x08 \<and> line \<noteq> [])" "\<not> (printable c \<and> length line + 1 < ?l)" by blast
    then show ?thesis
    proof cases
      case 1
      obtain a where a: "(if echo = 1 then console_write font [0x08] 1 con else Some con) = Some a"
        "echoed font echo [0x08] con a" using echo_byte [OF assms(1) Cons.prems(2), of "0x08" echo] by auto
      then obtain b where b: "(if echo = 1 then console_write font [0x20] 1 a else Some a) = Some b"
        "echoed font echo [0x20] a b" using echo_byte [OF assms(1), of a "0x20" echo] by (auto simp: echoed_def)
      then obtain d where d: "(if echo = 1 then console_write font [0x08] 1 b else Some b) = Some d"
        "echoed font echo [0x08] b d" using echo_byte [OF assms(1), of b "0x08" echo] by (auto simp: echoed_def)
      have "echoed font echo [0x08, 0x20, 0x08] con d"
        using echoed_trans [OF echoed_trans [OF a(2) b(2)] d(2)] by simp
      moreover have "get_string_loop font limit echo arrivals k con buffer (length line) =
          get_string_loop font limit echo ar1 k1 d buffer (length line - 1)"
        using 1 g(1) a(1) b(1) d(1) by (subst get_string_loop.simps) (auto split: if_splits)
      moreover have "take (length line - 1) buffer = butlast line"
      proof -
        have "take (length line - 1) buffer = take (length line - 1) (take (length line) buffer)" by simp
        then show ?thesis unfolding Cons.prems(3) by (simp add: butlast_conv_take)
      qed
      ultimately show ?thesis using 1
        by (intro exI [of _ d] exI [of _ buffer]) (simp add: edit_step_def echo_step_def)
    next
      case 2
      note pr = printable_byte [OF 2(2)]
      obtain a where a: "(if echo = 1 then console_write font [c] 1 con else Some con) = Some a"
        "echoed font echo [c] con a" using echo_byte [OF assms(1) Cons.prems(2), of c echo] pr by auto
      have i: "length line < length buffer" using 2(3) Cons.prems(1) by linarith
      have "get_string_loop font limit echo arrivals k con buffer (length line) =
          get_string_loop font limit echo ar1 k1 a (buffer[length line := c]) (length line + 1)"
        using 2 c(1) g(1) a(1) i pr lim by (subst get_string_loop.simps) (simp add: printable_def)
      moreover have "take (length line + 1) (buffer[length line := c]) = line @ [c]"
        using i Cons.prems(3) by (simp add: take_Suc_conv_app_nth)
      moreover have "drop (max 1 ?l) (buffer[length line := c]) = drop (max 1 ?l) buffer"
        using 2(3) by (intro drop_update_cancel) simp
      ultimately show ?thesis using 2 a(2)
        by (intro exI [of _ a] exI [of _ "buffer[length line := c]"]) (simp add: edit_step_def echo_step_def pr)
    next
      case 3
      have "get_string_loop font limit echo arrivals k con buffer (length line) =
          get_string_loop font limit echo ar1 k1 con buffer (length line)"
        using 3 c(1) g(1) lim unfolding printable_def
        by (subst get_string_loop.simps) (auto simp del: of_nat_unat)
      then show ?thesis using 3 Cons.prems(2,3)
        by (intro exI [of _ con] exI [of _ buffer]) (auto simp: edit_step_def echo_step_def echoed_refl)
    qed
  qed
  then obtain con1 buffer1 where s: "get_string_loop font limit echo arrivals k con buffer (length line) =
      get_string_loop font limit echo ar1 k1 con1 buffer1 (length (edit_step ?l c line))"
    "length buffer1 = length buffer" "take (length (edit_step ?l c line)) buffer1 = edit_step ?l c line"
    "drop (max 1 ?l) buffer1 = drop (max 1 ?l) buffer" "echoed font echo (echo_step ?l c line) con con1"
    by blast
  have "console_ok con1" using s(5) by (simp add: echoed_def)
  from Cons.IH [OF _ this s(3) edit_step_bounded [OF Cons.prems(4)] g(2) c(2)] Cons.prems(1) s(2)
  obtain con' buffer' where t: "get_string_loop font limit echo ar1 k1 con1 buffer1 (length (edit_step ?l c line)) =
      Some (rest, k', con', buffer', length (edit ?l cs (edit_step ?l c line)))"
    "length buffer' = length buffer1" "length (edit ?l cs (edit_step ?l c line)) < max 1 ?l"
    "take (length (edit ?l cs (edit_step ?l c line))) buffer' = edit ?l cs (edit_step ?l c line)"
    "drop (max 1 ?l) buffer' = drop (max 1 ?l) buffer1"
    "echoed font echo (echo_text ?l cs (edit_step ?l c line)) con1 con'" by auto
  have "echoed font echo (echo_text ?l (c # cs) line) con con'"
    using echoed_trans [OF s(5) t(6)] by simp
  then show ?case using s t by simp
qed

section \<open>Properties\<close>

text \<open>
  C13: when the scan codes of a line arrive one at a time, \<open>get_string\<close> comes back at the first
  line feed they type: the buffer holds the edited line with its terminator, nothing is written
  from the limit on, backspace removes the last character, what is not printable or does not fit is
  dropped, and with echo on the console shows exactly the edits and a line feed.
\<close>

theorem get_string_reads_typed_line:
  assumes "font_ok font" and "console_ok con" and "max 1 (unat limit) \<le> length buffer"
    and "never_reboots codes (key_status k)" and "next_char_received k = 0"
    and "typed codes (key_status k) = cs @ 0x0A # later" and "0x0A \<notin> set cs"
  shows "\<exists>buffer' rest k' con'.
    get_string font buffer limit echo (map (\<lambda>c. [c]) codes) k con = Some (buffer', rest, k', con') \<and>
    (let line = edit (unat limit) cs [] in
       take (length line + 1) buffer' = line @ [0] \<and> length line < max 1 (unat limit)) \<and>
    drop (max 1 (unat limit)) buffer' = drop (max 1 (unat limit)) buffer \<and>
    echoed font echo (echo_text (unat limit) cs [] @ [0x0A]) con con'"
proof -
  let ?l = "unat limit"
  let ?line = "edit ?l cs []"
  obtain rest k' where g: "get_chars (Suc (length cs)) (map (\<lambda>c. [c]) codes) k = Some (cs @ [0x0A], rest, k')"
    using get_chars_typed [OF assms(4,5), of "Suc (length cs)"] assms(6) by auto
  have "take (length []) buffer = []" "length [] < max 1 ?l" by auto
  from get_string_loop_edits [OF assms(1,3,2) this g assms(7), where echo = echo] obtain con1 buffer1 where
    l: "get_string_loop font limit echo (map (\<lambda>c. [c]) codes) k con buffer 0 = Some (rest, k', con1, buffer1, length ?line)"
    "length buffer1 = length buffer" "length ?line < max 1 ?l" "take (length ?line) buffer1 = ?line"
    "drop (max 1 ?l) buffer1 = drop (max 1 ?l) buffer" "echoed font echo (echo_text ?l cs []) con con1" by auto
  have "console_ok con1" using l(6) by (simp add: echoed_def)
  then obtain con2 where c: "(if echo = 1 then console_write font [0x0A] 1 con1 else Some con1) = Some con2"
    "echoed font echo [0x0A] con1 con2" using echo_byte [OF assms(1), of con1 "0x0A" echo] by auto
  have i: "length ?line < length buffer1" using l(2,3) assms(3) by linarith
  have "get_string font buffer limit echo (map (\<lambda>c. [c]) codes) k con =
      Some (buffer1[length ?line := 0], rest, k', con2)"
    unfolding get_string_def l(1) by (simp add: c(1) i split: if_splits)
  moreover have "take (length ?line + 1) (buffer1[length ?line := 0]) = ?line @ [0]"
    using i l(4) by (simp add: take_Suc_conv_app_nth)
  moreover have "drop (max 1 ?l) (buffer1[length ?line := 0]) = drop (max 1 ?l) buffer"
    using l(3,5) by simp
  ultimately show ?thesis using l(3) echoed_trans [OF l(6) c(2)] by (auto simp: Let_def)
qed

text \<open>The keys a, x, backspace, b and Enter, into a buffer of eight bytes with echo.\<close>

definition idle_keyboard :: keyboard where
  "idle_keyboard = \<lparr>key_status = \<lparr>shift_down = False, ctrl_down = False, alt_down = False\<rparr>, next_char_received = 0\<rparr>"

lemma sample_keys:
  "typed [30, 45, 14, 48, 28] (key_status idle_keyboard) = [0x61, 0x78, 0x08, 0x62] @ 0x0A # []"
  "never_reboots [30, 45, 14, 48, 28] (key_status idle_keyboard)"
proof -
  have codes: "lower_ascii_codes ! 30 = 0x61" "lower_ascii_codes ! 45 = 0x78" "lower_ascii_codes ! 14 = 0x08"
    "lower_ascii_codes ! 48 = 0x62" "lower_ascii_codes ! 28 = 0x0A"
    by (simp_all add: lower_ascii_codes_def str_def nth_append)
  show "typed [30, 45, 14, 48, 28] (key_status idle_keyboard) = [0x61, 0x78, 0x08, 0x62] @ 0x0A # []"
    by (simp add: idle_keyboard_def scan_step_def set_modifiers_def scan_char_def codes)
  show "never_reboots [30, 45, 14, 48, 28] (key_status idle_keyboard)"
    by (simp add: idle_keyboard_def scan_step_def set_modifiers_def reboots_def)
qed

theorem get_string_reads_typed_line_witness:
  "\<exists>buffer' rest k' con'. get_string tiny_font (replicate 8 0xFF) 8 1 [[30], [45], [14], [48], [28]] idle_keyboard tiny_console =
     Some (buffer', rest, k', con') \<and> take 3 buffer' = [0x61, 0x62, 0]"
proof -
  have e: "edit (unat (8 :: u16)) [0x61, 0x78, 0x08, 0x62] [] = [0x61, 0x62]"
    by (simp add: edit_step_def printable_def)
  have three: "length [0x61, 0x62 :: byte] + 1 = 3" by simp
  have "max 1 (unat (8 :: u16)) \<le> length (replicate 8 (0xFF :: byte))" by simp
  moreover have "next_char_received idle_keyboard = 0" by (simp add: idle_keyboard_def)
  moreover have "0x0A \<notin> set [0x61, 0x78, 0x08, 0x62 :: byte]" by simp
  ultimately have "\<exists>buffer' rest k' con'.
    get_string tiny_font (replicate 8 0xFF) 8 1 (map (\<lambda>c. [c]) [30, 45, 14, 48, 28]) idle_keyboard tiny_console =
      Some (buffer', rest, k', con') \<and>
    (let line = edit (unat (8 :: u16)) [0x61, 0x78, 0x08, 0x62] [] in
       take (length line + 1) buffer' = line @ [0] \<and> length line < max 1 (unat (8 :: u16))) \<and>
    drop (max 1 (unat (8 :: u16))) buffer' = drop (max 1 (unat (8 :: u16))) (replicate 8 0xFF) \<and>
    echoed tiny_font 1 (echo_text (unat (8 :: u16)) [0x61, 0x78, 0x08, 0x62] [] @ [0x0A]) tiny_console con'"
    by (intro get_string_reads_typed_line [OF tiny_ok(2,1) _ sample_keys(2) _ sample_keys(1)])
  then obtain buffer' rest k' con' where
    "get_string tiny_font (replicate 8 0xFF) 8 1 (map (\<lambda>c. [c]) [30, 45, 14, 48, 28]) idle_keyboard tiny_console =
      Some (buffer', rest, k', con')" "take 3 buffer' = [0x61, 0x62] @ [0]"
    unfolding e Let_def three by blast
  then show ?thesis by auto
qed

text \<open>
  only one character is kept between an interrupt and the reader: when two keys are struck
  before the program looks, the first is lost.
\<close>

theorem unread_key_is_lost:
  assumes "never_reboots [a, b] (key_status k)" and "next_char_received k = 0"
    and "typed [a, b] (key_status k) = [c, d]"
  shows "\<exists>k'. get_char ([a, b] # arrivals) k = Some (d, arrivals, k')"
proof -
  let ?s = "scan_step a (key_status k)"
  have cd: "scan_char a ?s = c" "scan_char b (scan_step b ?s) = d" "c \<noteq> 0" "d \<noteq> 0"
    using assms(3) by (auto simp: Let_def split: if_splits)
  have "key_interrupt a k = Some (k\<lparr>key_status := ?s, next_char_received := c\<rparr>)"
    using key_interrupt_eq [of a k] assms(1) cd by (simp add: Let_def)
  moreover have "key_interrupt b (k\<lparr>key_status := ?s, next_char_received := c\<rparr>) =
      Some (k\<lparr>key_status := scan_step b ?s, next_char_received := d\<rparr>)"
    using key_interrupt_eq [of b "k\<lparr>key_status := ?s, next_char_received := c\<rparr>"] assms(1) cd by (simp add: Let_def)
  ultimately show ?thesis using assms(2) cd(4)
    by (subst get_char.simps, simp) (subst get_char.simps, simp)
qed

theorem unread_key_is_lost_witness:
  "\<exists>k'. get_char ([30, 48] # []) idle_keyboard = Some (0x62, [], k')"
proof (rule unread_key_is_lost)
  show "never_reboots [30, 48] (key_status idle_keyboard)"
    by (simp add: idle_keyboard_def scan_step_def set_modifiers_def reboots_def)
  show "next_char_received idle_keyboard = 0" by (simp add: idle_keyboard_def)
  have codes: "lower_ascii_codes ! 30 = 0x61" "lower_ascii_codes ! 48 = 0x62"
    by (simp_all add: lower_ascii_codes_def str_def nth_append)
  show "typed [30, 48] (key_status idle_keyboard) = [0x61, 0x62]"
    by (simp add: idle_keyboard_def scan_step_def set_modifiers_def scan_char_def codes)
qed

end
