(* ===== verification/Timer.thy ===== *)
theory Timer
  imports Keyboard Interrupts Format
begin

text \<open>
  The timer of \<open>core/timer.c\<close>: the tick count, the handler of its interrupt, which draws the
  cursor and the status line and calls the registered functions, and the busy wait \<open>delay\<close>.
\<close>

section \<open>State and registration\<close>

definition MAX_CALLBACKS :: nat where
  "MAX_CALLBACKS = 100"

text \<open>
  The memory \<open>malloc\<close> returns for the callbacks is not initialised: its elements are \<open>None\<close>
  until they are registered.
\<close>

record 'cb timer =
  timer_ticks :: u32
  callbacks :: "'cb option list"
  callbacks_count :: byte
  console_modified :: bool

definition set_timer_freq :: "int \<Rightarrow> history \<Rightarrow> history option" where
  "set_timer_freq hz h =
     (if hz = 0 then None
      else let divisor = 1193180 sdiv hz;
               h = port_byte_out 0x43 0x36 h;
               h = port_byte_out 0x40 (of_int (divisor AND 0xFF)) h
           in Some (port_byte_out 0x40 (of_int (drop_bit 8 divisor)) h))"

definition timer_install :: "'h \<Rightarrow> 'cb timer \<times> 'h irq_routines \<times> history \<Rightarrow> ('cb timer \<times> 'h irq_routines \<times> history) option" where
  "timer_install timer_handler st = (case st of (t, routines, h) \<Rightarrow> do {
     h \<leftarrow> set_timer_freq 1000 h;
     routines \<leftarrow> irq_install_handler 0 timer_handler routines;
     Some (t\<lparr>callbacks := replicate MAX_CALLBACKS None\<rparr>, routines, h) })"

definition timer_register_callback :: "'cb \<Rightarrow> 'cb timer \<Rightarrow> (byte \<times> 'cb timer) option" where
  "timer_register_callback callback t = do {
     cs \<leftarrow> wr (callbacks t) (unat (callbacks_count t)) (Some callback);
     Some (callbacks_count t, t\<lparr>callbacks := cs, callbacks_count := callbacks_count t + 1\<rparr>) }"

section \<open>The interrupt\<close>

definition status_color :: color where
  "status_color = color_of 45 79 135"

text \<open>
  The status line: the modifier keys that are down, and three addresses, printed to an array of
  128 characters with unknown contents.
\<close>

definition status_line ::
    "byte list \<Rightarrow> KeyStatus \<Rightarrow> u32 \<Rightarrow> u32 \<Rightarrow> u32 \<Rightarrow> byte list \<Rightarrow> graphics \<Rightarrow> graphics option" where
  "status_line font keys bss_end stack heap junk g =
     (let y = screen_height g - 20 in do {
        g \<leftarrow> fill_rect 0 y (screen_width g) 20 status_color g;
        g \<leftarrow> (if shift_down keys then draw_char font 0 y (of_char CHR ''S'') COLOR_WHITE g else Some g);
        g \<leftarrow> (if ctrl_down keys then draw_char font 10 y (of_char CHR ''C'') COLOR_WHITE g else Some g);
        g \<leftarrow> (if alt_down keys then draw_char font 20 y (of_char CHR ''A'') COLOR_WHITE g else Some g);
        stack_string \<leftarrow> vsprintf (take 128 junk) (str ''BSS End: %8x, Stack: %8x, KHeap: %8x'' @ [0])
          [ArgInt bss_end, ArgInt stack, ArgInt heap];
        g \<leftarrow> draw_string font 50 y stack_string COLOR_WHITE g;
        Some (vesa_copy_buffer g) })"

text \<open>\<open>run\<close> calls a registered function; it may change the console and the history of the ports.\<close>

definition timer_handler ::
    "byte list \<Rightarrow> KeyStatus \<Rightarrow> u32 \<Rightarrow> u32 \<Rightarrow> u32 \<Rightarrow> byte list \<Rightarrow>
     ('cb \<Rightarrow> console \<times> 's \<Rightarrow> (console \<times> 's) option) \<Rightarrow>
     'cb timer \<times> console \<times> 's \<Rightarrow> ('cb timer \<times> console \<times> 's) option" where
  "timer_handler font keys bss_end stack heap junk run st = (case st of (t, con, s) \<Rightarrow>
     let t = t\<lparr>timer_ticks := timer_ticks t + 1\<rparr> in do {
       (t, con) \<leftarrow> (if console_modified t \<or> timer_ticks t mod 400 = 0 then do {
           con \<leftarrow> console_update_cursor font (timer_ticks t mod 800 = 0) con;
           g \<leftarrow> status_line font keys bss_end stack heap junk (screen con);
           Some (t\<lparr>console_modified := False\<rparr>, con\<lparr>screen := g\<rparr>) }
         else Some (t, con));
       (con, s) \<leftarrow> for_loop (\<lambda>i st. do {
           cb \<leftarrow> rd (callbacks t) i;
           case cb of None \<Rightarrow> None | Some f \<Rightarrow> run f st }) [0..<unat (callbacks_count t)] (con, s);
       Some (t, con, s) })"

section \<open>The busy wait\<close>

text \<open>
  \<open>delay\<close> reads the tick count until it has reached its target; between two reads some ticks pass,
  \<open>ticks n\<close> of them after the \<open>n\<close>-th. The number of reads is counted along.
\<close>

partial_function (option) delay_loop :: "(nat \<Rightarrow> u32) \<Rightarrow> u32 \<Rightarrow> nat \<Rightarrow> u32 \<Rightarrow> (nat \<times> u32) option" where
  "delay_loop ticks until n now =
     (if now < until then delay_loop ticks until (n + 1) (now + ticks n) else Some (n, now))"

definition delay :: "(nat \<Rightarrow> u32) \<Rightarrow> u32 \<Rightarrow> u32 \<Rightarrow> (nat \<times> u32) option" where
  "delay ticks ms now =
     (let start_time = now; ticks_to_delay = ms div 1
      in delay_loop ticks (start_time + ticks_to_delay) 0 now)"

section \<open>Facts about the wait\<close>

text \<open>The tick count after \<open>n\<close> reads.\<close>

definition clock :: "(nat \<Rightarrow> u32) \<Rightarrow> u32 \<Rightarrow> nat \<Rightarrow> u32" where
  "clock ticks now n = now + (\<Sum>i < n. ticks i)"

lemma delay_loop_at:
  assumes "\<forall>m < k. clock ticks now (n + m) < until" and "\<not> clock ticks now (n + k) < until"
  shows "delay_loop ticks until n (clock ticks now n) = Some (n + k, clock ticks now (n + k))"
  using assms
proof (induction k arbitrary: n)
  case 0
  then show ?case by (subst delay_loop.simps) simp
next
  case (Suc k)
  have "clock ticks now n < until" using Suc.prems(1) by (metis Nat.add_0_right zero_less_Suc)
  then have "delay_loop ticks until n (clock ticks now n) = delay_loop ticks until (Suc n) (clock ticks now (Suc n))"
    by (subst delay_loop.simps) (simp add: clock_def algebra_simps)
  also have "\<dots> = Some (Suc n + k, clock ticks now (Suc n + k))"
    using Suc.prems by (intro Suc.IH) auto
  finally show ?case by simp
qed

lemma delay_returns_first:
  assumes "\<not> clock ticks now k < now + ms"
  shows "\<exists>n \<le> k. delay ticks ms now = Some (n, clock ticks now n) \<and> \<not> clock ticks now n < now + ms \<and>
    (\<forall>m < n. clock ticks now m < now + ms)"
proof -
  obtain n where n: "\<not> clock ticks now n < now + ms" "\<forall>m < n. clock ticks now m < now + ms"
    using exists_least_iff [of "\<lambda>n. \<not> clock ticks now n < now + ms"] assms by blast
  have "n \<le> k" using n(2) assms by (meson not_le)
  moreover have "delay_loop ticks (now + ms) 0 (clock ticks now 0) = Some (0 + n, clock ticks now (0 + n))"
    using n by (intro delay_loop_at) auto
  ultimately show ?thesis using n by (auto simp: delay_def clock_def)
qed

text \<open>
  while the tick count does not wrap around, a clock that advances by at most one tick between
  two reads and keeps advancing makes \<open>delay\<close> return after exactly \<open>ms\<close> ticks, and never earlier.
\<close>

theorem delay_waits:
  assumes "unat now + unat ms < 2 ^ 32" and "\<forall>i. ticks i \<in> {0, 1}" and "\<forall>i. \<exists>j \<ge> i. ticks j = 1"
  shows "\<exists>n. delay ticks ms now = Some (n, now + ms) \<and> (\<forall>m < n. clock ticks now m < now + ms)"
proof -
  define passed where "passed n = (\<Sum>i < n. unat (ticks i))" for n
  have step: "passed (Suc n) \<le> passed n + 1" for n
    using assms(2) [rule_format, of n] by (auto simp: passed_def)
  have mono: "passed i \<le> passed j" if "i \<le> j" for i j
    using that unfolding passed_def by (intro sum_mono2) auto
  have grows: "\<exists>n. passed n = v" for v
  proof (induction v)
    case 0
    have "passed 0 = 0" by (simp add: passed_def)
    then show ?case ..
  next
    case (Suc v)
    then obtain n where n: "passed n = v" ..
    obtain j where j: "j \<ge> n" "ticks j = 1" using assms(3) by blast
    have "passed (Suc j) = passed j + 1" using j(2) by (simp add: passed_def)
    then have "v + 1 \<le> passed (Suc j)" using mono [OF j(1)] n by simp
    then have ex: "\<exists>k. v + 1 \<le> passed k" ..
    obtain k where k: "v + 1 \<le> passed k" "\<forall>m < k. \<not> v + 1 \<le> passed m"
      using ex exists_least_iff [of "\<lambda>k. v + 1 \<le> passed k"] by blast
    then obtain k' where "k = Suc k'" by (cases k) (auto simp: passed_def)
    moreover from this have "\<not> v + 1 \<le> passed k'" using k(2) by simp
    ultimately have "passed k = Suc v" using k(1) step [of k'] by simp
    then show ?case ..
  qed
  have clock: "clock ticks now n = now + of_nat (passed n)" for n
    unfolding clock_def passed_def by (simp add: of_nat_sum)
  obtain k where k: "passed k = unat ms" using grows by blast
  have "clock ticks now k = now + ms" unfolding clock k by simp
  then obtain n where n: "n \<le> k" "delay ticks ms now = Some (n, clock ticks now n)"
    "\<not> clock ticks now n < now + ms" "\<forall>m < n. clock ticks now m < now + ms"
    using delay_returns_first [of ticks now k ms] by auto
  have le: "passed n \<le> unat ms" using mono [OF n(1)] k by simp
  then have "unat now + passed n < 2 ^ 32" using assms(1) by simp
  then have "unat (clock ticks now n) = unat now + passed n"
    unfolding clock by (intro unat_add_small) simp
  moreover have "unat (now + ms) = unat now + unat ms"
    using unat_add_small [of now "unat ms"] assms(1) by simp
  ultimately have "passed n = unat ms" using n(3) le by (simp add: word_less_nat_alt)
  then have "clock ticks now n = now + ms" unfolding clock by simp
  then show ?thesis using n(2,4) by auto
qed

theorem delay_waits_witness:
  "\<exists>n. delay (\<lambda>i. if even i then 0 else 1) 10 1000 = Some (n, 1010)"
proof -
  have "\<forall>i :: nat. \<exists>j \<ge> i. (if even j then 0 else 1 :: u32) = 1"
    by (rule allI, rule_tac x = "2 * i + 1" in exI) simp
  moreover have "unat (1000 :: u32) + unat (10 :: u32) < 2 ^ 32" by simp
  moreover have "\<forall>i :: nat. (if even i then 0 else 1 :: u32) \<in> {0, 1}" by simp
  ultimately have "\<exists>n. delay (\<lambda>i. if even i then 0 else 1) 10 1000 = Some (n, 1000 + 10) \<and>
      (\<forall>m < n. clock (\<lambda>i. if even i then 0 else 1) 1000 m < 1000 + 10)"
    by (intro delay_waits)
  then show ?thesis by auto
qed

text \<open>
  when the target wraps around the 32 bits, the comparison fails at once: \<open>delay\<close> returns
  without waiting at all.
\<close>

theorem delay_wraps_around:
  assumes "unat now + unat ms \<ge> 2 ^ 32"
  shows "delay ticks ms now = Some (0, now)"
proof -
  have big: "4294967296 \<le> unat now + unat ms" using assms by simp
  have "unat (now + ms) = (unat now + unat ms) mod 4294967296"
    using unat_word_ariths(1) [of now ms] by simp
  also have "\<dots> = (unat now + unat ms - 4294967296) mod 4294967296" using big by (rule le_mod_geq)
  also have "\<dots> \<le> unat now + unat ms - 4294967296" by (rule mod_less_eq_dividend)
  finally have "unat (now + ms) \<le> unat now" using unat_u32_lt [of ms] big by linarith
  then have "\<not> now < now + ms" by (simp only: word_less_nat_alt not_less)
  then show ?thesis by (simp add: delay_def delay_loop.simps)
qed

theorem delay_wraps_around_witness: "delay (\<lambda>_. 1) 1000 0xFFFFFFF0 = Some (0, 0xFFFFFFF0)"
proof -
  have "unat (0xFFFFFFF0 :: u32) + unat (1000 :: u32) \<ge> 2 ^ 32" by simp
  then show ?thesis by (rule delay_wraps_around)
qed

end
