(* ===== verification/Floppy.thy ===== *)
theory Floppy
  imports PortIO BlockTable
begin

text \<open>
  The floppy driver \<open>drivers/block/floppy.c\<close>: the controller's registers and DMA channel as ports,
  interrupt 6 and the ticks of the timer as what the environment delivers between two accesses.
  The result of the DMA transfer, the bytes at \<open>FLOPPY_BUFFER\<close>, is part of that environment.
\<close>

section \<open>Registers, commands and geometry\<close>

definition FLOPPY_144_SECTORS_PER_TRACK :: u32 where
  "FLOPPY_144_SECTORS_PER_TRACK = 18"

definition FLOPPY_STEP_RATE :: byte where
  "FLOPPY_STEP_RATE = 3"

definition FLOPPY_UNLOAD_TIME :: byte where
  "FLOPPY_UNLOAD_TIME = 240"

definition FLOPPY_LOAD_TIME :: byte where
  "FLOPPY_LOAD_TIME = 16"

definition FLOPPY_NDMA :: byte where
  "FLOPPY_NDMA = 0"

definition FLOPPY_MOTOR_ON_TIME :: u32 where
  "FLOPPY_MOTOR_ON_TIME = 2000"

definition DIGITAL_OUTPUT_REGISTER :: u16 where
  "DIGITAL_OUTPUT_REGISTER = 0x3F2"

definition MAIN_STATUS_REGISTER :: u16 where
  "MAIN_STATUS_REGISTER = 0x3F4"

definition DATA_FIFO :: u16 where
  "DATA_FIFO = 0x3F5"

definition CONFIGURATION_CONTROL_REGISTER :: u16 where
  "CONFIGURATION_CONTROL_REGISTER = 0x3F7"

datatype floppy_command =
    READ_TRACK | SPECIFY | SENSE_DRIVE_STATUS | WRITE_DATA | READ_DATA | RECALIBRATE | SENSE_INTERRUPT
  | FORMAT_TRACK | SEEK

fun command_code :: "floppy_command \<Rightarrow> byte" where
  "command_code READ_TRACK = 2"
| "command_code SPECIFY = 3"
| "command_code SENSE_DRIVE_STATUS = 4"
| "command_code WRITE_DATA = 5"
| "command_code READ_DATA = 6"
| "command_code RECALIBRATE = 7"
| "command_code SENSE_INTERRUPT = 8"
| "command_code FORMAT_TRACK = 13"
| "command_code SEEK = 15"

definition FDC_CMD_EXT_SKIP :: byte where
  "FDC_CMD_EXT_SKIP = 0x20"

definition FDC_CMD_EXT_DENSITY :: byte where
  "FDC_CMD_EXT_DENSITY = 0x40"

definition FDC_CMD_EXT_MULTITRACK :: byte where
  "FDC_CMD_EXT_MULTITRACK = 0x80"

definition FLOPPY_DOR_DRIVE0 :: byte where
  "FLOPPY_DOR_DRIVE0 = 0"

definition FLOPPY_DOR_RESET :: byte where
  "FLOPPY_DOR_RESET = 4"

definition FLOPPY_DOR_DMA :: byte where
  "FLOPPY_DOR_DMA = 8"

definition FLOPPY_DOR_DRIVE0_MOTOR :: byte where
  "FLOPPY_DOR_DRIVE0_MOTOR = 16"

definition DMA_START_ADDRESS_REGISTER :: u16 where
  "DMA_START_ADDRESS_REGISTER = 0x04"

definition DMA_COUNT_REGISTER :: u16 where
  "DMA_COUNT_REGISTER = 0x05"

definition DMA_SINGLE_CHANNEL_MASK_REGISTER :: u16 where
  "DMA_SINGLE_CHANNEL_MASK_REGISTER = 0x0A"

definition DMA_FLIP_FLOP_RESET_REGISTER :: u16 where
  "DMA_FLIP_FLOP_RESET_REGISTER = 0x0C"

definition DMA_PAGE_ADDRESS_REGISTER :: u16 where
  "DMA_PAGE_ADDRESS_REGISTER = 0x81"

definition DMA_MODE_REGISTER :: u16 where
  "DMA_MODE_REGISTER = 0x0B"

definition FLPYDSK_SECTOR_DTL_512 :: byte where
  "FLPYDSK_SECTOR_DTL_512 = 2"

definition FLPYDSK_GAP3_LENGTH_3_5 :: byte where
  "FLPYDSK_GAP3_LENGTH_3_5 = 27"

text \<open>The cylinder, head and sector of a logical address, each cut to 16 bits.\<close>

definition lba_2_chs :: "u32 \<Rightarrow> u16 \<times> u16 \<times> u16" where
  "lba_2_chs lba =
     (ucast (lba div (2 * FLOPPY_144_SECTORS_PER_TRACK)),
      ucast ((lba mod (2 * FLOPPY_144_SECTORS_PER_TRACK)) div FLOPPY_144_SECTORS_PER_TRACK),
      ucast ((lba mod (2 * FLOPPY_144_SECTORS_PER_TRACK)) mod FLOPPY_144_SECTORS_PER_TRACK + 1))"

section \<open>The state, and what happens between two accesses\<close>

text \<open>
  The environment: the answers of the ports, whether interrupt 6 arrives after the history so far,
  and the bytes the controller has put at \<open>FLOPPY_BUFFER\<close>.
\<close>

record fdc_env =
  ports :: device
  irq6 :: "history \<Rightarrow> bool"
  dma_bytes :: "history \<Rightarrow> byte list"

record floppy =
  hist :: history
  received_irq :: bool
  motor_on_since :: u32
  ticks :: u32

definition FloppyHandler :: "floppy \<Rightarrow> floppy" where
  "FloppyHandler st = st\<lparr>received_irq := True\<rparr>"

definition interrupts :: "fdc_env \<Rightarrow> floppy \<Rightarrow> floppy" where
  "interrupts env st = (if irq6 env (hist st) then FloppyHandler st else st)"

definition outb :: "fdc_env \<Rightarrow> u16 \<Rightarrow> byte \<Rightarrow> floppy \<Rightarrow> floppy" where
  "outb env port b st = interrupts env (st\<lparr>hist := port_byte_out port b (hist st)\<rparr>)"

definition inb :: "fdc_env \<Rightarrow> u16 \<Rightarrow> floppy \<Rightarrow> byte \<times> floppy" where
  "inb env port st = (case port_byte_in (ports env) port (hist st) of
     (b, h) \<Rightarrow> (b, interrupts env (st\<lparr>hist := h\<rparr>)))"

definition set_motor :: "fdc_env \<Rightarrow> byte \<Rightarrow> floppy \<Rightarrow> floppy" where
  "set_motor env on st =
     (if on \<noteq> 0 then outb env DIGITAL_OUTPUT_REGISTER
        (FLOPPY_DOR_RESET OR FLOPPY_DOR_DMA OR FLOPPY_DOR_DRIVE0 OR FLOPPY_DOR_DRIVE0_MOTOR) st
      else outb env DIGITAL_OUTPUT_REGISTER (FLOPPY_DOR_RESET OR FLOPPY_DOR_DMA) st)"

definition turn_motor_off_if_idle :: "fdc_env \<Rightarrow> floppy \<Rightarrow> floppy" where
  "turn_motor_off_if_idle env st =
     (if motor_on_since st > 0 \<and> ticks st - motor_on_since st > 18 * FLOPPY_MOTOR_ON_TIME div 1000
      then (set_motor env 0 st)\<lparr>motor_on_since := 0\<rparr> else st)"

text \<open>
  A tick of the timer runs \<open>turn_motor_off_if_idle\<close>, which \<open>install_floppy\<close> has registered.
  \<open>delay\<close> lasts as many ticks as its argument says, or none when the target wraps around.
\<close>

definition timer_tick :: "fdc_env \<Rightarrow> floppy \<Rightarrow> floppy" where
  "timer_tick env st =
     interrupts env (turn_motor_off_if_idle env (st\<lparr>hist := Tick # hist st, ticks := ticks st + 1\<rparr>))"

definition fdelay :: "fdc_env \<Rightarrow> u32 \<Rightarrow> floppy \<Rightarrow> floppy" where
  "fdelay env ms st =
     (if ticks st < ticks st + ms then fold (\<lambda>_. timer_tick env) [0..<unat ms] st else st)"

section \<open>Talking to the controller\<close>

definition initial_dma_setup :: "fdc_env \<Rightarrow> floppy \<Rightarrow> floppy" where
  "initial_dma_setup env st =
     (let st = outb env DMA_SINGLE_CHANNEL_MASK_REGISTER 0x06 st;
          st = outb env DMA_FLIP_FLOP_RESET_REGISTER 0xFF st;
          st = outb env DMA_START_ADDRESS_REGISTER 0 st;
          st = outb env DMA_START_ADDRESS_REGISTER 0x10 st;
          st = outb env DMA_FLIP_FLOP_RESET_REGISTER 0xFF st;
          st = outb env DMA_COUNT_REGISTER 0xFF st;
          st = outb env DMA_COUNT_REGISTER 0x23 st;
          st = outb env DMA_PAGE_ADDRESS_REGISTER 0 st
      in outb env DMA_SINGLE_CHANNEL_MASK_REGISTER 0x02 st)"

definition dma_setup_read :: "fdc_env \<Rightarrow> floppy \<Rightarrow> floppy" where
  "dma_setup_read env st =
     (let st = outb env DMA_SINGLE_CHANNEL_MASK_REGISTER 0x06 st;
          st = outb env DMA_MODE_REGISTER 0x56 st
      in outb env DMA_SINGLE_CHANNEL_MASK_REGISTER 0x02 st)"

definition dma_setup_write :: "fdc_env \<Rightarrow> floppy \<Rightarrow> floppy" where
  "dma_setup_write env st =
     (let st = outb env DMA_SINGLE_CHANNEL_MASK_REGISTER 0x06 st;
          st = outb env DMA_MODE_REGISTER 0x56 st
      in outb env DMA_SINGLE_CHANNEL_MASK_REGISTER 0x02 st)"

text \<open>The timeout is a byte counted down from 255 before each look: 254 looks.\<close>

fun wait_data_ready_loop :: "nat \<Rightarrow> fdc_env \<Rightarrow> floppy \<Rightarrow> int \<times> floppy" where
  "wait_data_ready_loop 0 env st = (FAILURE, st)"
| "wait_data_ready_loop (Suc timeout) env st =
     (let (b, st) = inb env MAIN_STATUS_REGISTER st
      in if b AND 0xD0 \<noteq> 0 then (SUCCESS, st) else wait_data_ready_loop timeout env st)"

definition wait_data_ready :: "fdc_env \<Rightarrow> floppy \<Rightarrow> int \<times> floppy" where
  "wait_data_ready env st = wait_data_ready_loop (0xFF - 1) env st"

definition write_floppy_command :: "fdc_env \<Rightarrow> byte \<Rightarrow> floppy \<Rightarrow> int \<times> floppy" where
  "write_floppy_command env command st =
     (let (ready, st) = wait_data_ready env st
      in if ready = SUCCESS then (SUCCESS, outb env DATA_FIFO command st) else (FAILURE, st))"

definition read_data_byte :: "fdc_env \<Rightarrow> floppy \<Rightarrow> byte \<times> floppy" where
  "read_data_byte env st =
     (let (ready, st) = wait_data_ready env st
      in if ready = SUCCESS then inb env DATA_FIFO st else (0, st))"

fun wait_for_irq_loop :: "nat \<Rightarrow> fdc_env \<Rightarrow> floppy \<Rightarrow> int \<times> floppy" where
  "wait_for_irq_loop 0 env st = (FAILURE, st)"
| "wait_for_irq_loop (Suc i) env st =
     (if received_irq st then (SUCCESS, st) else wait_for_irq_loop i env (fdelay env 200 st))"

definition wait_for_irq :: "fdc_env \<Rightarrow> floppy \<Rightarrow> int \<times> floppy" where
  "wait_for_irq env st = wait_for_irq_loop 10 env st"

definition check_interrupt_status :: "fdc_env \<Rightarrow> floppy \<Rightarrow> byte \<times> byte \<times> floppy" where
  "check_interrupt_status env st =
     (let (_, st) = write_floppy_command env (command_code SENSE_INTERRUPT) st;
          (st0, st) = read_data_byte env st;
          (cylinder, st) = read_data_byte env st
      in (st0, cylinder, st))"

definition write_commands :: "fdc_env \<Rightarrow> byte list \<Rightarrow> floppy \<Rightarrow> floppy" where
  "write_commands env cs st = fold (\<lambda>c st. snd (write_floppy_command env c st)) cs st"

section \<open>Operations on the drive\<close>

definition ResetFloppy :: "fdc_env \<Rightarrow> floppy \<Rightarrow> int \<times> floppy" where
  "ResetFloppy env st =
     (let st = st\<lparr>received_irq := False\<rparr>;
          st = outb env DIGITAL_OUTPUT_REGISTER 0 st;
          st = outb env DIGITAL_OUTPUT_REGISTER (FLOPPY_DOR_RESET OR FLOPPY_DOR_DMA) st;
          (r, st) = wait_for_irq env st
      in if r < 0 then (FAILURE, st)
         else let st = fold (\<lambda>_ st. let (_, st) = write_floppy_command env (command_code SENSE_INTERRUPT) st;
                                  (_, st) = read_data_byte env st
                              in snd (read_data_byte env st)) [0..<4 :: nat] st;
                  st = outb env CONFIGURATION_CONTROL_REGISTER 0x00 st;
                  (_, st) = write_floppy_command env (command_code SPECIFY) st;
                  st = outb env DATA_FIFO (push_bit 4 (FLOPPY_STEP_RATE AND 0xF) OR (FLOPPY_UNLOAD_TIME AND 0xF)) st;
                  st = outb env DATA_FIFO (push_bit 1 FLOPPY_LOAD_TIME OR FLOPPY_NDMA) st
              in (SUCCESS, st))"

fun seek_track_loop :: "nat \<Rightarrow> fdc_env \<Rightarrow> byte \<Rightarrow> byte \<Rightarrow> floppy \<Rightarrow> int \<times> floppy" where
  "seek_track_loop 0 env head cyl st = (FAILURE, st)"
| "seek_track_loop (Suc i) env head cyl st =
     (let st = st\<lparr>received_irq := False\<rparr>;
          st = write_commands env [command_code SEEK, push_bit 2 head OR 0, cyl] st;
          (r, st) = wait_for_irq env st
      in if r < 0 then (FAILURE, st)
         else let (st0, current_cylinder, st) = check_interrupt_status env st
              in if current_cylinder = cyl then (SUCCESS, st) else seek_track_loop i env head cyl st)"

definition seek_track :: "fdc_env \<Rightarrow> byte \<Rightarrow> byte \<Rightarrow> floppy \<Rightarrow> int \<times> floppy" where
  "seek_track env head cyl st = seek_track_loop 10 env head cyl st"

text \<open>The bytes of the read command; \<open>sector + 1\<close> is computed as an \<open>int\<close>.\<close>

definition read_command :: "byte \<Rightarrow> byte \<Rightarrow> byte \<Rightarrow> byte \<Rightarrow> byte list" where
  "read_command sector head cylinder drive =
     [command_code READ_DATA OR FDC_CMD_EXT_MULTITRACK OR FDC_CMD_EXT_SKIP OR FDC_CMD_EXT_DENSITY,
      push_bit 2 head OR drive, cylinder, head, sector, FLPYDSK_SECTOR_DTL_512,
      if unat sector + 1 \<ge> 18 then 18 else sector + 1, FLPYDSK_GAP3_LENGTH_3_5, 0xFF]"

text \<open>The result of the seek is not looked at.\<close>

definition read_sector :: "fdc_env \<Rightarrow> byte \<Rightarrow> byte \<Rightarrow> byte \<Rightarrow> byte \<Rightarrow> floppy \<Rightarrow> int \<times> floppy" where
  "read_sector env sector head cylinder drive st =
     (let (_, st) = seek_track env head cylinder st;
          st = dma_setup_read env st;
          st = fdelay env 100 st;
          st = st\<lparr>received_irq := False\<rparr>;
          st = write_commands env (read_command sector head cylinder drive) st;
          (r, st) = wait_for_irq env st
      in if r < 0 then (FAILURE, st)
         else let st = fold (\<lambda>_ st. snd (read_data_byte env st)) [0..<7 :: nat] st;
                  st = st\<lparr>received_irq := False\<rparr>;
                  (st0, cy1, st) = check_interrupt_status env st
              in (SUCCESS, st))"

definition ensure_motor_on :: "fdc_env \<Rightarrow> floppy \<Rightarrow> floppy" where
  "ensure_motor_on env st =
     (let st = (if motor_on_since st = 0 then fdelay env 300 (set_motor env 1 st) else st)
      in st\<lparr>motor_on_since := ticks st\<rparr>)"

text \<open>The 512 bytes of the memory at \<open>FLOPPY_BUFFER\<close>.\<close>

definition floppy_buffer :: "fdc_env \<Rightarrow> floppy \<Rightarrow> byte list" where
  "floppy_buffer env st = take 512 (dma_bytes env (hist st) @ replicate 512 0)"

definition floppy_read_sectors_lba :: "fdc_env \<Rightarrow> floppy read_sectors" where
  "floppy_read_sectors_lba env device lba count buffer st =
     (if device_num device \<noteq> 0 then None
      else if count > 1 then None
      else let (cyl, head, sector) = lba_2_chs lba;
               st = ensure_motor_on env st;
               (r, st) = read_sector env (ucast sector) (ucast head) (ucast cyl) 0 st
           in if r = FAILURE then Some (FAILURE, buffer, st)
              else do {
                buffer \<leftarrow> blit buffer 0 (floppy_buffer env st);
                Some (SUCCESS, buffer, st) })"

definition floppy0 :: disk_device where
  "floppy0 = \<lparr>dev_type = FLOPPY, device_num = 0, partition = UNPARTITIONED, offset = 0, block_size = 0,
     driver = Floppy_Driver, driver_specific_data = 0\<rparr>"

text \<open>
  The registration of \<open>FloppyHandler\<close> for interrupt 6 and of \<open>turn_motor_off_if_idle\<close> with the timer
  has no step of its own here: \<open>interrupts\<close> and \<open>timer_tick\<close> run them.
\<close>

definition install_floppy :: "fdc_env \<Rightarrow> floppy \<times> block_table \<Rightarrow> (floppy \<times> block_table) option" where
  "install_floppy env s = (case s of (st, bt) \<Rightarrow>
     let st = outb env 0x70 0x10 st;
         (drives, st) = inb env 0x71 st
     in if drives = 0 then Some (st, bt)
        else let st = initial_dma_setup env st;
                 (r, st) = ResetFloppy env st
             in if r = FAILURE then Some (st, bt)
                else do { (_, bt) \<leftarrow> register_block_device floppy0 (str ''floppy'' @ [0]) bt; Some (st, bt) })"

section \<open>The contract of a block driver\<close>

lemma floppy_buffer_length [simp]: "length (floppy_buffer env st) = 512"
  by (simp add: floppy_buffer_def)

lemma floppy_reader:
  assumes "floppy_read_sectors_lba env d lba count buf st = Some (r, buf', st')"
  shows "(r = SUCCESS \<or> r = FAILURE) \<and> length buf' = length buf \<and>
    (0 < count \<longrightarrow> drop (512 * unat count) buf' = drop (512 * unat count) buf)"
proof -
  have "unat count = 1" if "0 < count" "\<not> count > 1"
    using that by (simp add: word_less_nat_alt)
  then show ?thesis using assms
    by (auto simp: floppy_read_sectors_lba_def Let_def blit_Some_iff bind_eq_Some_conv split: if_splits prod.splits)
qed

interpretation floppy: block_driver "floppy_read_sectors_lba env" for env
  by unfold_locales (auto dest: floppy_reader)

section \<open>What the controller is sent\<close>

lemma interrupts_simps [simp]:
  "hist (interrupts env st) = hist st" "motor_on_since (interrupts env st) = motor_on_since st"
  "ticks (interrupts env st) = ticks st" "received_irq st \<Longrightarrow> received_irq (interrupts env st)"
  by (simp_all add: interrupts_def FloppyHandler_def)

lemma outb_simps [simp]:
  "hist (outb env p b st) = Out8 p b # hist st" "motor_on_since (outb env p b st) = motor_on_since st"
  "ticks (outb env p b st) = ticks st" "received_irq st \<Longrightarrow> received_irq (outb env p b st)"
  by (simp_all add: outb_def port_byte_out_def)

lemma inb_simps [simp]:
  "hist (snd (inb env p st)) = In8 p # hist st" "motor_on_since (snd (inb env p st)) = motor_on_since st"
  "ticks (snd (inb env p st)) = ticks st" "received_irq st \<Longrightarrow> received_irq (snd (inb env p st))"
  by (simp_all add: inb_def port_byte_in_def)

text \<open>
  What the driver writes: the writes to all ports but the motor's in their order, and the ones to
  the motor's register, to which the timer adds stops at any time.
\<close>

fun writes :: "history \<Rightarrow> (u16 \<times> byte) list" where
  "writes [] = []"
| "writes (Out8 p b # h) = writes h @ (if p = DIGITAL_OUTPUT_REGISTER then [] else [(p, b)])"
| "writes (_ # h) = writes h"

definition sends :: "floppy \<Rightarrow> (u16 \<times> byte) list \<Rightarrow> floppy \<Rightarrow> bool" where
  "sends st bs st' \<longleftrightarrow> writes (hist st') = writes (hist st) @ bs \<and>
     (\<exists>stops. set stops \<subseteq> {0x0C} \<and> sent DIGITAL_OUTPUT_REGISTER (hist st') = sent DIGITAL_OUTPUT_REGISTER (hist st) @ stops)"

lemma sends_refl: "sends st [] st"
  by (auto simp: sends_def intro: exI [of _ "[]"])

lemma sends_trans: "sends st xs st1 \<Longrightarrow> sends st1 ys st2 \<Longrightarrow> sends st (xs @ ys) st2"
proof -
  assume a: "sends st xs st1" and b: "sends st1 ys st2"
  from a b obtain ks ls where "set ks \<subseteq> {0x0C}" "sent DIGITAL_OUTPUT_REGISTER (hist st1) = sent DIGITAL_OUTPUT_REGISTER (hist st) @ ks"
    "set ls \<subseteq> {0x0C}" "sent DIGITAL_OUTPUT_REGISTER (hist st2) = sent DIGITAL_OUTPUT_REGISTER (hist st1) @ ls"
    unfolding sends_def by blast
  then have "\<exists>stops. set stops \<subseteq> {0x0C} \<and> sent DIGITAL_OUTPUT_REGISTER (hist st2) = sent DIGITAL_OUTPUT_REGISTER (hist st) @ stops"
    by (intro exI [of _ "ks @ ls"]) auto
  with a b show ?thesis by (simp add: sends_def)
qed

lemma sends_irq [simp]: "sends (st\<lparr>received_irq := r\<rparr>) bs st' = sends st bs st'" "sends st bs (st'\<lparr>received_irq := r\<rparr>) = sends st bs st'"
  by (simp_all add: sends_def)

lemma sends_outb: "p \<noteq> DIGITAL_OUTPUT_REGISTER \<Longrightarrow> sends st [(p, b)] (outb env p b st)"
  by (auto simp: sends_def intro: exI [of _ "[]"])

lemma sends_inb: "sends st [] (snd (inb env p st))"
  by (auto simp: sends_def intro: exI [of _ "[]"])

lemma sends_tick: "sends st [] (timer_tick env st)"
  by (auto simp: sends_def timer_tick_def turn_motor_off_if_idle_def set_motor_def FLOPPY_DOR_RESET_def FLOPPY_DOR_DMA_def
      intro: exI [of _ "[]"] exI [of _ "[0x0C]"])

lemma sends_fold:
  assumes "\<And>x st. sends st [] (f x st)"
  shows "sends st [] (fold f xs st)"
proof (induction xs arbitrary: st)
  case (Cons x xs)
  from sends_trans [OF assms Cons.IH] show ?case by simp
qed (simp add: sends_refl)

lemma sends_delay: "sends st [] (fdelay env ms st)"
  by (simp add: fdelay_def sends_refl sends_fold sends_tick)

lemma sends_ready: "sends st [] (snd (wait_data_ready_loop n env st))"
proof (induction n arbitrary: st)
  case (Suc n)
  obtain b st1 where i: "inb env MAIN_STATUS_REGISTER st = (b, st1)" by (cases "inb env MAIN_STATUS_REGISTER st")
  have "sends st [] st1" using sends_inb [of st env MAIN_STATUS_REGISTER] by (simp add: i)
  then show ?case using Suc.IH sends_trans [of st "[]" st1 "[]"] by (simp add: i)
qed (simp add: sends_refl)

lemma sends_read: "sends st [] (snd (read_data_byte env st))"
  using sends_ready [of st "0xFF - 1" env]
    sends_trans [OF _ sends_inb, of st "[]" "snd (wait_data_ready_loop (0xFF - 1) env st)"]
  by (simp add: read_data_byte_def wait_data_ready_def split_beta)

lemma sends_wait_irq: "sends st [] (snd (wait_for_irq_loop n env st))"
proof (induction n arbitrary: st)
  case (Suc n)
  from sends_trans [OF sends_delay Suc.IH] show ?case by (simp add: sends_refl)
qed (simp add: sends_refl)

lemma sends_dma:
  "sends st [(DMA_SINGLE_CHANNEL_MASK_REGISTER, 0x06), (DMA_MODE_REGISTER, 0x56), (DMA_SINGLE_CHANNEL_MASK_REGISTER, 0x02)]
     (dma_setup_read env st)"
  by (auto simp: sends_def dma_setup_read_def DIGITAL_OUTPUT_REGISTER_def DMA_SINGLE_CHANNEL_MASK_REGISTER_def
      DMA_MODE_REGISTER_def intro: exI [of _ "[]"])

text \<open>A controller that is ready for the next byte before the driver has looked 254 times.\<close>

definition answering :: "fdc_env \<Rightarrow> bool" where
  "answering env \<longleftrightarrow> (\<forall>h. \<exists>n < 254. (answer (ports env) MAIN_STATUS_REGISTER n h AND 0xD0) \<noteq> 0)"

lemma ready_now:
  assumes "answering env"
  shows "fst (wait_data_ready env st) = SUCCESS"
proof -
  have "fst (wait_data_ready_loop k env st) = SUCCESS"
    if "n < k" and "answer (ports env) MAIN_STATUS_REGISTER n (hist st) AND 0xD0 \<noteq> 0" for n k st
    using that
  proof (induction k arbitrary: n st)
    case (Suc k)
    let ?st = "snd (inb env MAIN_STATUS_REGISTER st)"
    have b: "fst (inb env MAIN_STATUS_REGISTER st) = answer (ports env) MAIN_STATUS_REGISTER 0 (hist st)"
      by (simp add: inb_def port_byte_in_def answer_def polled_def)
    show ?case
    proof (cases n)
      case 0
      then show ?thesis using Suc.prems(2) b by (simp add: split_beta)
    next
      case (Suc m)
      have "answer (ports env) MAIN_STATUS_REGISTER m (hist ?st) = answer (ports env) MAIN_STATUS_REGISTER n (hist st)"
        unfolding Suc by (simp add: answer_def polled_Suc)
      then show ?thesis using Suc.IH [of m ?st] Suc.prems Suc by (simp add: split_beta)
    qed
  qed simp
  moreover obtain n where "n < 254" "answer (ports env) MAIN_STATUS_REGISTER n (hist st) AND 0xD0 \<noteq> 0"
    using assms unfolding answering_def by blast
  ultimately show ?thesis by (simp add: wait_data_ready_def)
qed

abbreviation to_fifo :: "byte list \<Rightarrow> (u16 \<times> byte) list" where
  "to_fifo bs \<equiv> map (\<lambda>b. (DATA_FIFO, b)) bs"

lemma command_write:
  assumes "answering env"
  shows "\<exists>st1. snd (write_floppy_command env c st) = outb env DATA_FIFO c st1 \<and> sends st [] st1"
  using ready_now [OF assms, of st] sends_ready [of st "0xFF - 1" env]
  by (auto simp: write_floppy_command_def wait_data_ready_def split_beta)

lemma sends_command:
  assumes "answering env"
  shows "sends st (to_fifo [c]) (snd (write_floppy_command env c st))"
proof -
  obtain st1 where "snd (write_floppy_command env c st) = outb env DATA_FIFO c st1" "sends st [] st1"
    using command_write [OF assms] by blast
  with sends_trans [OF this(2) sends_outb [of DATA_FIFO]] show ?thesis
    by (simp add: DATA_FIFO_def DIGITAL_OUTPUT_REGISTER_def)
qed

lemma sends_commands:
  assumes "answering env"
  shows "sends st (to_fifo cs) (write_commands env cs st)"
proof (induction cs arbitrary: st)
  case (Cons c cs)
  from sends_trans [OF sends_command [OF assms] Cons.IH] show ?case by (simp add: write_commands_def)
qed (simp add: write_commands_def sends_refl)

lemma sends_sense:
  assumes "answering env"
  shows "sends st (to_fifo [command_code SENSE_INTERRUPT]) (snd (snd (check_interrupt_status env st)))"
  using sends_trans [OF sends_trans [OF sends_command [OF assms] sends_read] sends_read]
  by (simp add: check_interrupt_status_def Let_def split_beta)

text \<open>The seeks before a read: up to ten, each sensed unless its interrupt does not come.\<close>

definition seek_bytes :: "byte \<Rightarrow> byte \<Rightarrow> nat \<Rightarrow> bool \<Rightarrow> byte list" where
  "seek_bytes head cyl k missed =
     concat (replicate k [command_code SEEK, push_bit 2 head, cyl, command_code SENSE_INTERRUPT]) @
     (if missed then [command_code SEEK, push_bit 2 head, cyl] else [])"

lemma sends_seek:
  assumes "answering env"
  shows "\<exists>k missed. k + of_bool missed \<le> i \<and> (0 < i \<longrightarrow> 0 < k + of_bool missed) \<and>
    sends st (to_fifo (seek_bytes head cyl k missed)) (snd (seek_track_loop i env head cyl st))"
proof (induction i arbitrary: st)
  case 0
  then show ?case by (intro exI [of _ 0] exI [of _ False]) (simp add: seek_bytes_def sends_refl)
next
  case (Suc i)
  let ?seek = "[command_code SEEK, push_bit 2 head OR 0, cyl]"
  define st1 where "st1 = write_commands env ?seek (st\<lparr>received_irq := False\<rparr>)"
  obtain r st2 where r: "wait_for_irq env st1 = (r, st2)" by (cases "wait_for_irq env st1")
  obtain st0 cy st3 where c: "check_interrupt_status env st2 = (st0, cy, st3)" by (metis prod_cases3)
  have "sends st (to_fifo ?seek) st1" using sends_commands [OF assms, of "st\<lparr>received_irq := False\<rparr>" ?seek] by (simp add: st1_def)
  from sends_trans [OF this, of "[]" st2] have s2: "sends st (to_fifo ?seek) st2"
    using sends_wait_irq [of st1 10 env] r by (simp add: wait_for_irq_def)
  from sends_trans [OF this, of _ st3] have s3: "sends st (to_fifo (?seek @ [command_code SENSE_INTERRUPT])) st3"
    using sends_sense [OF assms, of st2] c by simp
  have run: "seek_track_loop (Suc i) env head cyl st =
      (if r < 0 then (FAILURE, st2) else if cy = cyl then (SUCCESS, st3) else seek_track_loop i env head cyl st3)"
    using r c unfolding st1_def by simp
  consider "r < 0" | "0 \<le> r" "cy = cyl" | "0 \<le> r" "cy \<noteq> cyl" by linarith
  then show ?case
  proof cases
    case 1
    then show ?thesis using s2 unfolding run
      by (intro exI [of _ 0] exI [of _ True]) (simp add: seek_bytes_def)
  next
    case 2
    then show ?thesis using s3 unfolding run
      by (intro exI [of _ 1] exI [of _ False]) (simp add: seek_bytes_def)
  next
    case 3
    obtain k m where k: "k + of_bool m \<le> i" "sends st3 (to_fifo (seek_bytes head cyl k m)) (snd (seek_track_loop i env head cyl st3))"
      using Suc.IH by blast
    from sends_trans [OF s3 k(2)] have "sends st (to_fifo (seek_bytes head cyl (Suc k) m)) (snd (seek_track_loop i env head cyl st3))"
      by (simp add: seek_bytes_def)
    then show ?thesis using 3 k(1) unfolding run
      by (intro exI [of _ "Suc k"] exI [of _ m]) simp
  qed
qed

text \<open>When the interrupt comes with the last byte of the command, and when it never comes.\<close>

lemma irq_here: "received_irq st \<Longrightarrow> wait_for_irq env st = (SUCCESS, st)"
  by (simp add: wait_for_irq_def eval_nat_numeral)

lemma irq_with_last:
  assumes "answering env" and "\<forall>h. irq6 env (Out8 DATA_FIFO c # h)"
  shows "received_irq (write_commands env (cs @ [c]) st)"
proof -
  obtain st1 where "snd (write_floppy_command env c (write_commands env cs st)) = outb env DATA_FIFO c st1"
    using command_write [OF assms(1)] by blast
  then show ?thesis using assms(2)
    by (simp add: write_commands_def outb_def interrupts_def FloppyHandler_def port_byte_out_def)
qed

lemma no_irq:
  assumes "\<forall>h. \<not> irq6 env h"
  shows "received_irq (outb env p b st) = received_irq st" and "received_irq (snd (inb env p st)) = received_irq st"
    and "received_irq (timer_tick env st) = received_irq st"
  using assms by (simp_all add: outb_def inb_def port_byte_in_def interrupts_def timer_tick_def turn_motor_off_if_idle_def set_motor_def)

lemma no_irq_delay:
  assumes "\<forall>h. \<not> irq6 env h"
  shows "received_irq (fdelay env ms st) = received_irq st"
proof -
  have "received_irq (fold (\<lambda>_. timer_tick env) xs st) = received_irq st" for xs :: "nat list"
    by (induction xs arbitrary: st) (simp_all add: no_irq(3) [OF assms])
  then show ?thesis by (simp add: fdelay_def)
qed

lemma no_irq_wait:
  assumes "\<forall>h. \<not> irq6 env h" and "\<not> received_irq st"
  shows "fst (wait_for_irq_loop n env st) = FAILURE"
  using assms(2) by (induction n arbitrary: st) (simp_all add: no_irq_delay [OF assms(1)])

lemma no_irq_commands:
  assumes "answering env" and "\<forall>h. \<not> irq6 env h"
  shows "received_irq (write_commands env cs st) = received_irq st"
proof (induction cs arbitrary: st)
  case (Cons c cs)
  have ready: "received_irq (snd (wait_data_ready_loop n env st)) = received_irq st" for n
    by (induction n arbitrary: st) (simp_all add: Let_def split_beta no_irq(2) [OF assms(2)])
  have "received_irq (snd (write_floppy_command env c st)) = received_irq st"
    using ready [of "0xFF - 1"] ready_now [OF assms(1), of st]
    by (simp add: write_floppy_command_def Let_def split_beta wait_data_ready_def no_irq(1) [OF assms(2)] del: wait_data_ready_loop.simps)
  then show ?case using Cons.IH by (simp add: write_commands_def)
qed (simp add: write_commands_def)

text \<open>The whole of a read: seek, DMA channel, command, and the sense after the results.\<close>

definition dma_writes :: "(u16 \<times> byte) list" where
  "dma_writes = [(DMA_SINGLE_CHANNEL_MASK_REGISTER, 0x06), (DMA_MODE_REGISTER, 0x56), (DMA_SINGLE_CHANNEL_MASK_REGISTER, 0x02)]"

lemma read_sector_sends:
  assumes "answering env"
  shows "\<exists>r st' k missed. read_sector env sector head cyl 0 st = (r, st') \<and> 0 < k + of_bool missed \<and> k + of_bool missed \<le> 10 \<and>
    sends st (to_fifo (seek_bytes head cyl k missed) @ dma_writes @
      to_fifo (read_command sector head cyl 0 @ (if r = SUCCESS then [command_code SENSE_INTERRUPT] else []))) st' \<and>
    (r = SUCCESS \<or> r = FAILURE) \<and> ((\<forall>h. irq6 env (Out8 DATA_FIFO 0xFF # h)) \<longrightarrow> r = SUCCESS) \<and>
    ((\<forall>h. \<not> irq6 env h) \<longrightarrow> r = FAILURE)"
proof -
  let ?c = "read_command sector head cyl 0"
  define st1 where "st1 = (fdelay env 100 (dma_setup_read env (snd (seek_track env head cyl st))))\<lparr>received_irq := False\<rparr>"
  define st2 where "st2 = write_commands env ?c st1"
  obtain r st3 where r: "wait_for_irq env st2 = (r, st3)" by (cases "wait_for_irq env st2")
  define st4 where "st4 = (fold (\<lambda>_ st. snd (read_data_byte env st)) [0..<7 :: nat] st3)\<lparr>received_irq := False\<rparr>"
  obtain k missed where k: "k + of_bool missed \<le> 10" "0 < k + of_bool missed"
    "sends st (to_fifo (seek_bytes head cyl k missed)) (snd (seek_track env head cyl st))"
    using sends_seek [OF assms, of 10 st head cyl] by (auto simp: seek_track_def)
  have "sends st (to_fifo (seek_bytes head cyl k missed) @ dma_writes) st1"
    using sends_trans [OF k(3) sends_trans [OF sends_dma sends_delay]] by (simp add: st1_def dma_writes_def)
  from sends_trans [OF this sends_commands [OF assms], of ?c]
  have "sends st (to_fifo (seek_bytes head cyl k missed) @ dma_writes @ to_fifo ?c) st2" by (simp add: st2_def)
  from sends_trans [OF this, of "[]" st3]
  have s3: "sends st (to_fifo (seek_bytes head cyl k missed) @ dma_writes @ to_fifo ?c) st3"
    using sends_wait_irq [of st2 10 env] r by (simp add: wait_for_irq_def)
  have "sends st3 [] st4" unfolding st4_def sends_irq by (rule sends_fold [OF sends_read])
  from sends_trans [OF s3 this] have "sends st (to_fifo (seek_bytes head cyl k missed) @ dma_writes @ to_fifo ?c) st4" by simp
  from sends_trans [OF this sends_sense [OF assms]]
  have s5: "sends st (to_fifo (seek_bytes head cyl k missed) @ dma_writes @ to_fifo (?c @ [command_code SENSE_INTERRUPT]))
      (snd (snd (check_interrupt_status env st4)))" by simp
  have rs: "r = SUCCESS \<or> r = FAILURE"
  proof -
    have "fst (wait_for_irq_loop n env st) \<in> {SUCCESS, FAILURE}" for n st by (induction n arbitrary: st) simp_all
    from this [of 10 st2] r show ?thesis by (simp add: wait_for_irq_def)
  qed
  have yes: "r = SUCCESS" if "\<forall>h. irq6 env (Out8 DATA_FIFO 0xFF # h)"
  proof -
    have "?c = butlast ?c @ [0xFF]" by (simp add: read_command_def)
    then have "received_irq st2" using irq_with_last [OF assms that, of "butlast ?c" st1] by (simp add: st2_def)
    from irq_here [OF this, of env] r show ?thesis by simp
  qed
  have no: "r = FAILURE" if "\<forall>h. \<not> irq6 env h"
    using no_irq_wait [OF that, of st2 10] no_irq_commands [OF assms that, of ?c st1] r by (simp add: st2_def st1_def wait_for_irq_def)
  have run: "read_sector env sector head cyl 0 st = (if r < 0 then (FAILURE, st3) else (SUCCESS, snd (snd (check_interrupt_status env st4))))"
    using r by (simp add: read_sector_def Let_def split_beta st4_def flip: st1_def st2_def del: upt_rec_numeral)
  show ?thesis
  proof (cases "r = SUCCESS")
    case True
    then have "\<not> (\<forall>h. \<not> irq6 env h)" using no by (auto simp: SUCCESS_def FAILURE_def)
    with True k s5 run show ?thesis
      by (intro exI [of _ SUCCESS] exI [of _ "snd (snd (check_interrupt_status env st4))"] exI [of _ k] exI [of _ missed],
        simp add: SUCCESS_def, blast)
  next
    case False
    then have "r = FAILURE" "\<not> (\<forall>h. irq6 env (Out8 DATA_FIFO 0xFF # h))" using yes rs by auto
    with k s3 run show ?thesis
      by (intro exI [of _ FAILURE] exI [of _ st3] exI [of _ k] exI [of _ missed]) (simp add: SUCCESS_def FAILURE_def)
  qed
qed

lemma motor_sends:
  "sends (if motor_on_since st = 0 then outb env DIGITAL_OUTPUT_REGISTER 0x1C st else st) [] (ensure_motor_on env st)"
proof -
  have "hist (ensure_motor_on env st) =
      hist (if motor_on_since st = 0 then fdelay env 300 (outb env DIGITAL_OUTPUT_REGISTER 0x1C st) else st)"
    by (simp add: ensure_motor_on_def set_motor_def Let_def FLOPPY_DOR_RESET_def FLOPPY_DOR_DMA_def FLOPPY_DOR_DRIVE0_def
        FLOPPY_DOR_DRIVE0_MOTOR_def)
  then show ?thesis using sends_delay [of "outb env DIGITAL_OUTPUT_REGISTER 0x1C st" env 300] sends_refl [of st]
    by (simp add: sends_def)
qed

lemma chs_bytes:
  assumes "lba < 2880" and "lba_2_chs lba = (c, h, s)"
  shows "unat (ucast c :: byte) = unat lba div 36" and "unat (ucast h :: byte) = unat lba mod 36 div 18"
    and "unat (ucast s :: byte) = unat lba mod 18 + 1"
proof -
  have lt: "unat lba < 2880" using assms(1) by (simp add: word_less_nat_alt)
  then have b: "unat lba div 36 < 80" "unat lba mod 36 div 18 < 2" "unat lba mod 36 mod 18 < 18"
    by (simp_all add: less_mult_imp_div_less)
  have w: "unat (lba div 36) = unat lba div 36" "unat (lba mod 36 div 18) = unat lba mod 36 div 18"
    by (simp_all add: unat_div unat_mod)
  have m: "unat (lba mod 36 mod 18) = unat lba mod 36 mod 18" by (simp add: unat_mod)
  have w3: "unat (lba mod 36 mod 18 + 1) = unat lba mod 36 mod 18 + 1"
    using b(3) unat_add_small [of "lba mod 36 mod 18" 1] m by simp
  have chs: "c = ucast (lba div 36)" "h = ucast (lba mod 36 div 18)" "s = ucast (lba mod 36 mod 18 + 1)"
    using assms(2) by (simp_all add: lba_2_chs_def FLOPPY_144_SECTORS_PER_TRACK_def)
  have small: "unat (ucast (ucast w :: u16) :: byte) = unat w" if "unat w < 256" for w :: u32
    using that by (simp add: unat_ucast_small)
  show "unat (ucast c :: byte) = unat lba div 36" "unat (ucast h :: byte) = unat lba mod 36 div 18"
    unfolding chs using b w by (subst small; simp)+
  have "unat lba mod 36 mod 18 = unat lba mod 18" by (rule mod_mod_cancel) simp
  then show "unat (ucast s :: byte) = unat lba mod 18 + 1"
    unfolding chs using b(3) w3 by (subst small; simp)
qed

lemma chs_address:
  assumes "lba < 2880" and "lba_2_chs lba = (c, h, s)"
  shows "(unat (ucast c :: byte) * 2 + unat (ucast h :: byte)) * 18 + (unat (ucast s :: byte) - 1) = unat lba"
proof -
  have "n div 36 * 36 + n mod 36 = n" "n mod 36 div 18 * 18 + n mod 18 = n mod 36" for n :: nat
    using div_mult_mod_eq [of "n mod 36" 18] by (simp_all add: mod_mod_cancel)
  moreover have "d * 36 + r = n \<Longrightarrow> h * 18 + m = r \<Longrightarrow> (d * 2 + h) * 18 + m = n" for d r n h m :: nat by simp
  ultimately have "(unat lba div 36 * 2 + unat lba mod 36 div 18) * 18 + unat lba mod 18 = unat lba" by blast
  then show ?thesis unfolding chs_bytes [OF assms] by simp
qed

lemma chs_on_disk:
  assumes "lba < 2880" and "lba_2_chs lba = (c, h, s)"
  shows "unat (ucast c :: byte) < 80" and "unat (ucast h :: byte) < 2" and "1 \<le> unat (ucast s :: byte)" and "unat (ucast s :: byte) \<le> 18"
proof -
  have "unat lba < 2880" using assms(1) by (simp add: word_less_nat_alt)
  then have "unat lba div 36 < 80" "unat lba mod 36 div 18 < 2" "unat lba mod 18 < 18"
    by (simp_all add: less_mult_imp_div_less)
  then show "unat (ucast c :: byte) < 80" "unat (ucast h :: byte) < 2" "1 \<le> unat (ucast s :: byte)" "unat (ucast s :: byte) \<le> 18"
    unfolding chs_bytes [OF assms] by simp_all
qed

section \<open>The motor\<close>

lemma tick_keeps:
  assumes "\<not> (motor_on_since st > 0 \<and> ticks st + 1 - motor_on_since st > 36)"
  shows "motor_on_since (timer_tick env st) = motor_on_since st \<and> ticks (timer_tick env st) = ticks st + 1 \<and>
    sent DIGITAL_OUTPUT_REGISTER (hist (timer_tick env st)) = sent DIGITAL_OUTPUT_REGISTER (hist st)"
  using assms by (auto simp: timer_tick_def turn_motor_off_if_idle_def FLOPPY_MOTOR_ON_TIME_def)

lemma tick_stops:
  assumes "motor_on_since st > 0" and "ticks st + 1 - motor_on_since st > 36"
  shows "motor_on_since (timer_tick env st) = 0 \<and>
    sent DIGITAL_OUTPUT_REGISTER (hist (timer_tick env st)) = sent DIGITAL_OUTPUT_REGISTER (hist st) @ [0x0C]"
  using assms by (simp add: timer_tick_def turn_motor_off_if_idle_def FLOPPY_MOTOR_ON_TIME_def set_motor_def
      FLOPPY_DOR_RESET_def FLOPPY_DOR_DMA_def)

text \<open>
  The motor is switched off while the head settles: the callback counts 36 ticks, meant for 18
  of them in a second, but the timer runs at 1000 Hz, and \<open>delay\<close> before the read command takes 100.
  When the command is sent, the last word to the drive has been to stop its motor.
\<close>

lemma motor_stops_before_read:
  assumes "motor_on_since st = ticks st" and "0 < ticks st" and "unat (ticks st) + 100 < 2 ^ 32"
  shows "motor_on_since (fdelay env 100 st) = 0 \<and> last (sent DIGITAL_OUTPUT_REGISTER (hist (fdelay env 100 st))) = 0x0C"
proof -
  define run where "run n = (timer_tick env ^^ n) st" for n
  have run: "run 0 = st" "run (Suc n) = timer_tick env (run n)" for n by (simp_all add: run_def)
  have early: "motor_on_since (run n) = motor_on_since st \<and> ticks (run n) = ticks st + of_nat n" if "n \<le> 36" for n
    using that
  proof (induction n)
    case (Suc n)
    then have "\<not> 36 < (of_nat (Suc n) :: u32)" by (simp add: word_less_nat_alt unat_of_nat del: of_nat_Suc)
    then show ?case using Suc assms(1) tick_keeps [of "run n" env] by (auto simp: run algebra_simps)
  qed (simp add: run)
  have late: "motor_on_since (run (37 + n)) = 0 \<and> last (sent DIGITAL_OUTPUT_REGISTER (hist (run (37 + n)))) = 0x0C" for n
  proof (induction n)
    case 0
    have "run 37 = timer_tick env (run 36)" using run(2) [of 36] by simp
    then show ?case using early [of 36] assms(1,2) tick_stops [of "run 36" env] by simp
  next
    case (Suc n)
    have "37 + Suc n = Suc (37 + n)" by simp
    then show ?case using Suc tick_keeps [of "run (37 + n)" env] by (simp only: run) simp
  qed
  have "ticks st < ticks st + 100"
    using assms(3) unat_add_small [of "ticks st" 100] by (simp add: word_less_nat_alt)
  moreover have "fold (\<lambda>_. timer_tick env) [0..<n] st = run n" for n by (induction n) (simp_all add: run)
  ultimately have "fdelay env 100 st = run (37 + 63)" by (simp add: fdelay_def del: upt_rec_numeral)
  then show ?thesis using late [of 63] by simp
qed

section \<open>Properties\<close>

text \<open>
  C19: what reading one sector of a 1.44 MB disk in drive 0 to a buffer of at least 512 bytes sends to the floppy hardware, in order, whatever the hardware answers
  as long as it is ready for each byte in time: one to ten seeks to the cylinder, each followed by
  the sense of its interrupt unless that does not come; the DMA channel masked, set to mode 0x56 and
  unmasked; the nine bytes of the read command, whose cylinder, head and sector lie on the disk and
  stand for the logical address; and, when the read is answered with success, the sense of its
  interrupt. The motor is switched on first when it is off, and from then on only switched off. The
  read always comes back: with success, when its interrupt comes with the last byte, and the buffer
  then begins with what the DMA transfer has left at \<open>FLOPPY_BUFFER\<close>; with a failure, when no
  interrupt comes, and the buffer is as before.
\<close>

theorem floppy_read_trace:
  assumes "answering env" and "device_num d = 0" and "lba < 2880" and "512 \<le> length buf" and "lba_2_chs lba = (c, h, s)"
  shows "\<exists>r st' k missed stops. floppy_read_sectors_lba env d lba 1 buf st =
      Some (r, if r = SUCCESS then floppy_buffer env st' @ drop 512 buf else buf, st') \<and>
    0 < k + of_bool missed \<and> k + of_bool missed \<le> 10 \<and>
    writes (hist st') = writes (hist st) @ to_fifo (seek_bytes (ucast h) (ucast c) k missed) @ dma_writes @
      to_fifo (read_command (ucast s) (ucast h) (ucast c) 0 @ (if r = SUCCESS then [command_code SENSE_INTERRUPT] else [])) \<and>
    (unat (ucast c :: byte) * 2 + unat (ucast h :: byte)) * 18 + (unat (ucast s :: byte) - 1) = unat lba \<and>
    unat (ucast c :: byte) < 80 \<and> unat (ucast h :: byte) < 2 \<and> 1 \<le> unat (ucast s :: byte) \<and> unat (ucast s :: byte) \<le> 18 \<and>
    set stops \<subseteq> {0x0C} \<and> sent DIGITAL_OUTPUT_REGISTER (hist st') =
      sent DIGITAL_OUTPUT_REGISTER (hist st) @ (if motor_on_since st = 0 then [0x1C] else []) @ stops \<and>
    (r = SUCCESS \<or> r = FAILURE) \<and>
    ((\<forall>h. irq6 env (Out8 DATA_FIFO 0xFF # h)) \<longrightarrow> r = SUCCESS) \<and> ((\<forall>h. \<not> irq6 env h) \<longrightarrow> r = FAILURE)"
proof -
  let ?c = "ucast c :: byte" and ?h = "ucast h :: byte" and ?s = "ucast s :: byte"
  let ?st0 = "if motor_on_since st = 0 then outb env DIGITAL_OUTPUT_REGISTER 0x1C st else st"
  obtain r st' k missed where r: "read_sector env ?s ?h ?c 0 (ensure_motor_on env st) = (r, st')"
    and k: "0 < k + of_bool missed" "k + of_bool missed \<le> 10"
    and w: "sends (ensure_motor_on env st) (to_fifo (seek_bytes ?h ?c k missed) @ dma_writes @
      to_fifo (read_command ?s ?h ?c 0 @ (if r = SUCCESS then [command_code SENSE_INTERRUPT] else []))) st'"
    and o: "r = SUCCESS \<or> r = FAILURE" "(\<forall>h. irq6 env (Out8 DATA_FIFO 0xFF # h)) \<longrightarrow> r = SUCCESS"
      "(\<forall>h. \<not> irq6 env h) \<longrightarrow> r = FAILURE"
    using read_sector_sends [OF assms(1), of ?s ?h ?c "ensure_motor_on env st"] by (elim exE conjE) (rule that)
  from sends_trans [OF motor_sends w] obtain stops where stops: "set stops \<subseteq> {0x0C}"
    "sent DIGITAL_OUTPUT_REGISTER (hist st') = sent DIGITAL_OUTPUT_REGISTER (hist ?st0) @ stops"
    "writes (hist st') = writes (hist ?st0) @ to_fifo (seek_bytes ?h ?c k missed) @ dma_writes @
      to_fifo (read_command ?s ?h ?c 0 @ (if r = SUCCESS then [command_code SENSE_INTERRUPT] else []))"
    unfolding sends_def by auto
  have "floppy_read_sectors_lba env d lba 1 buf st = Some (r, if r = SUCCESS then floppy_buffer env st' @ drop 512 buf else buf, st')"
    using assms(2,4,5) r o(1) by (auto simp: floppy_read_sectors_lba_def Let_def blit_def SUCCESS_def FAILURE_def)
  moreover have "writes (hist ?st0) = writes (hist st)" "sent DIGITAL_OUTPUT_REGISTER (hist ?st0) =
      sent DIGITAL_OUTPUT_REGISTER (hist st) @ (if motor_on_since st = 0 then [0x1C] else [])" by simp_all
  ultimately show ?thesis
    using k stops o chs_on_disk [OF assms(3,5)] chs_address [OF assms(3,5)]
    by (intro exI [of _ r] exI [of _ st'] exI [of _ k] exI [of _ missed] exI [of _ stops]) simp
qed

text \<open>A controller that is ready and interrupts at once, and sector 100 read from a drive at rest.\<close>

definition quick_controller :: "byte list \<Rightarrow> fdc_env" where
  "quick_controller bytes = \<lparr>ports = (\<lambda>h e. 0x80), irq6 = (\<lambda>h. True), dma_bytes = (\<lambda>h. bytes)\<rparr>"

lemma quick_answering: "answering (quick_controller bytes)"
  unfolding answering_def by (intro allI exI [of _ 0]) (simp add: quick_controller_def answer_def)

definition motor_off :: floppy where
  "motor_off = \<lparr>hist = [], received_irq = False, motor_on_since = 0, ticks = 1000\<rparr>"

theorem floppy_read_trace_witness:
  "\<exists>st' k missed. floppy_read_sectors_lba (quick_controller (replicate 512 7)) floppy0 100 1 (replicate 600 0) motor_off =
      Some (SUCCESS, replicate 512 7 @ replicate 88 0, st') \<and>
    writes (hist st') = to_fifo (seek_bytes 1 2 k missed) @ dma_writes @ to_fifo [0xE6, 4, 2, 1, 11, 2, 12, 27, 0xFF, 8] \<and>
    take 1 (sent DIGITAL_OUTPUT_REGISTER (hist st')) = [0x1C]"
proof -
  have chs: "lba_2_chs 100 = (2, 1, 11)" by (simp add: lba_2_chs_def FLOPPY_144_SECTORS_PER_TRACK_def)
  have d: "device_num floppy0 = 0" "\<forall>h. irq6 (quick_controller (replicate 512 7)) (Out8 DATA_FIFO 0xFF # h)"
    by (simp_all add: floppy0_def quick_controller_def)
  have c: "read_command 11 1 2 0 @ [command_code SENSE_INTERRUPT] = [0xE6, 4, 2, 1, 11, 2, 12, 27, 0xFF, 8]"
    by (simp add: read_command_def FDC_CMD_EXT_MULTITRACK_def FDC_CMD_EXT_SKIP_def FDC_CMD_EXT_DENSITY_def
        FLPYDSK_SECTOR_DTL_512_def FLPYDSK_GAP3_LENGTH_3_5_def)
  have "floppy_buffer (quick_controller (replicate 512 7)) st' = replicate 512 7" for st'
    by (simp add: floppy_buffer_def quick_controller_def)
  moreover obtain r st' k missed stops where "floppy_read_sectors_lba (quick_controller (replicate 512 7)) floppy0 100 1 (replicate 600 0) motor_off =
      Some (r, if r = SUCCESS then floppy_buffer (quick_controller (replicate 512 7)) st' @ drop 512 (replicate 600 0) else replicate 600 0, st')"
    and "writes (hist st') = writes (hist motor_off) @ to_fifo (seek_bytes (ucast (1 :: u16)) (ucast (2 :: u16)) k missed) @ dma_writes @
      to_fifo (read_command (ucast (11 :: u16)) (ucast (1 :: u16)) (ucast (2 :: u16)) 0 @ (if r = SUCCESS then [command_code SENSE_INTERRUPT] else []))"
    and "sent DIGITAL_OUTPUT_REGISTER (hist st') =
      sent DIGITAL_OUTPUT_REGISTER (hist motor_off) @ (if motor_on_since motor_off = 0 then [0x1C] else []) @ stops"
    and "(\<forall>h. irq6 (quick_controller (replicate 512 7)) (Out8 DATA_FIFO 0xFF # h)) \<longrightarrow> r = SUCCESS"
    using floppy_read_trace [OF quick_answering d(1) _ _ chs, of "replicate 600 0" "replicate 512 7" motor_off] by force
  ultimately show ?thesis using d(2) c
    by (intro exI [of _ st'] exI [of _ k] exI [of _ missed]) (simp add: motor_off_def)
qed

end
