(* ===== verification/Pci.thy ===== *)
theory Pci
  imports PortIO
begin

text \<open>
  The PCI bus of \<open>drivers/bus/pci.c\<close>: access to the configuration space through the two ports, and
  the enumeration of the devices.
\<close>

section \<open>Configuration space\<close>

record pci_device =
  bus :: byte
  device :: byte
  function_num :: byte
  vendor_id :: u16
  device_id :: u16
  class_id :: byte
  subclass_id :: byte
  prog_if :: byte
  irq_line :: byte

definition config_address :: "byte \<Rightarrow> byte \<Rightarrow> byte \<Rightarrow> byte \<Rightarrow> u32" where
  "config_address b slot func off =
     (let lbus = ucast b; lslot = ucast slot; lfunc = ucast func
      in push_bit 16 lbus OR push_bit 11 lslot OR push_bit 8 lfunc OR (ucast off AND 0xFC) OR 0x80000000)"

definition pci_config_read_word :: "device \<Rightarrow> byte \<Rightarrow> byte \<Rightarrow> byte \<Rightarrow> byte \<Rightarrow> history \<Rightarrow> u16 \<times> history" where
  "pci_config_read_word dv b slot func off h =
     (let h = port_long_out 0xCF8 (config_address b slot func off) h;
          (v, h) = port_long_in dv 0xCFC h
      in (ucast (drop_bit (unat (off AND 2) * 8) v AND 0xFFFF), h))"

definition pci_config_read_dword :: "device \<Rightarrow> byte \<Rightarrow> byte \<Rightarrow> byte \<Rightarrow> byte \<Rightarrow> history \<Rightarrow> u32 \<times> history" where
  "pci_config_read_dword dv b slot func off h =
     (let h = port_long_out 0xCF8 (config_address b slot func off) h in port_long_in dv 0xCFC h)"

definition pci_get_vendor_id :: "device \<Rightarrow> byte \<Rightarrow> byte \<Rightarrow> byte \<Rightarrow> history \<Rightarrow> u16 \<times> history" where
  "pci_get_vendor_id dv b slot func h = pci_config_read_word dv b slot func 0x00 h"

definition pci_get_device_id :: "device \<Rightarrow> byte \<Rightarrow> byte \<Rightarrow> byte \<Rightarrow> history \<Rightarrow> u16 \<times> history" where
  "pci_get_device_id dv b slot func h = pci_config_read_word dv b slot func 0x02 h"

text \<open>These take 16-bit numbers and pass them on as bytes.\<close>

definition pci_get_class_id :: "device \<Rightarrow> u16 \<Rightarrow> u16 \<Rightarrow> u16 \<Rightarrow> history \<Rightarrow> byte \<times> history" where
  "pci_get_class_id dv b d f h =
     (let (r0, h) = pci_config_read_word dv (ucast b) (ucast d) (ucast f) 0x0A h
      in (ucast (drop_bit 8 (r0 AND NOT 0x00FF)), h))"

definition pci_get_subclass_id :: "device \<Rightarrow> u16 \<Rightarrow> u16 \<Rightarrow> u16 \<Rightarrow> history \<Rightarrow> byte \<times> history" where
  "pci_get_subclass_id dv b d f h =
     (let (r0, h) = pci_config_read_word dv (ucast b) (ucast d) (ucast f) 0x0A h
      in (ucast (r0 AND NOT 0xFF00), h))"

definition pci_get_prog_if :: "device \<Rightarrow> u16 \<Rightarrow> u16 \<Rightarrow> u16 \<Rightarrow> history \<Rightarrow> byte \<times> history" where
  "pci_get_prog_if dv b d f h =
     (let (r0, h) = pci_config_read_word dv (ucast b) (ucast d) (ucast f) 0x08 h
      in (ucast (drop_bit 8 (r0 AND NOT 0x00FF)), h))"

definition pci_get_bar :: "device \<Rightarrow> u16 \<Rightarrow> u16 \<Rightarrow> u16 \<Rightarrow> byte \<Rightarrow> history \<Rightarrow> u32 \<times> history" where
  "pci_get_bar dv b d f bar h =
     (let (r0, h) = pci_config_read_word dv (ucast b) (ucast d) (ucast f) (0x10 + bar * 0x04) h
      in (ucast (r0 AND 0xFFFC), h))"

section \<open>Enumeration\<close>

record pci_state =
  pci_devices :: "pci_device list"
  pci_device_count :: nat
  pci_hist :: history

definition pci_check_device :: "device \<Rightarrow> byte \<Rightarrow> byte \<Rightarrow> byte \<Rightarrow> pci_state \<Rightarrow> pci_state option" where
  "pci_check_device dv b d f st =
     (let (vid, h) = pci_get_vendor_id dv b d f (pci_hist st)
      in if vid = 0xFFFF then Some (st\<lparr>pci_hist := h\<rparr>)
         else let (did, h) = pci_get_device_id dv b d f h;
                  (cls, h) = pci_get_class_id dv (ucast b) (ucast d) (ucast f) h;
                  (sub, h) = pci_get_subclass_id dv (ucast b) (ucast d) (ucast f) h;
                  (pif, h) = pci_get_prog_if dv (ucast b) (ucast d) (ucast f) h;
                  (line, h) = pci_config_read_word dv b d f 0x3F h
              in do { ds \<leftarrow> wr (pci_devices st) (pci_device_count st)
                        \<lparr>bus = b, device = d, function_num = f, vendor_id = vid, device_id = did, class_id = cls,
                         subclass_id = sub, prog_if = pif, irq_line = ucast line\<rparr>;
                      Some (st\<lparr>pci_devices := ds, pci_device_count := pci_device_count st + 1, pci_hist := h\<rparr>) })"

definition pci_check_all_buses :: "device \<Rightarrow> pci_state \<Rightarrow> pci_state option" where
  "pci_check_all_buses dv st =
     for_loop (\<lambda>b. for_loop (\<lambda>d. for_loop (\<lambda>f. pci_check_device dv (of_nat b) (of_nat d) (of_nat f))
       [0..<8]) [0..<32]) [0..<16] st"

definition pci_init :: "device \<Rightarrow> pci_state \<Rightarrow> (int \<times> pci_state) option" where
  "pci_init dv st = do {
     st \<leftarrow> pci_check_all_buses dv (st\<lparr>pci_device_count := 0\<rparr>);
     Some (FAILURE, st) }"

section \<open>Addresses\<close>

text \<open>The fields of an address do not overlap for the numbers PCI allows.\<close>

lemma unat_config_address:
  assumes "slot < 32" and "func < 8"
  shows "unat (config_address b slot func off) =
    2147483648 + 65536 * unat b + 2048 * unat slot + 256 * unat func + unat off div 4 * 4"
proof -
  let ?b = "push_bit 16 (ucast b) :: u32" and ?s = "push_bit 11 (ucast slot) :: u32"
    and ?f = "push_bit 8 (ucast func) :: u32" and ?o = "(ucast off :: u32) AND push_bit 2 (mask 6)"
  define e :: u32 where "e = push_bit 31 1"
  have small: "unat slot < 2 ^ 5" "unat func < 2 ^ 3" using assms by (simp_all add: word_less_nat_alt)
  have bits: "bit slot n \<Longrightarrow> n < 5" "bit func n \<Longrightarrow> n < 3" for n
    using bit_less_pow [OF small(1)] bit_less_pow [OF small(2)] by auto
  have ebit: "bit e n \<longleftrightarrow> n = 31" for n by (auto simp only: e_def bit_push_bit_iff) (auto simp: bit_1_iff)
  have dis: "?o AND e = 0" "?f AND (?o OR e) = 0" "?s AND (?f OR (?o OR e)) = 0" "?b AND (?s OR (?f OR (?o OR e))) = 0"
    by (rule bit_word_eqI; auto simp: bit_simps ebit dest!: bits dest: bit_imp_le_length)+
  have u: "unat ?b = 2 ^ 16 * unat (ucast b :: u32)" "unat ?s = 2 ^ 11 * unat (ucast slot :: u32)"
    "unat ?f = 2 ^ 8 * unat (ucast func :: u32)" "unat e = 2 ^ 31"
    by (rule unat_push_bit_less [where k = 8]; simp)+ (simp add: e_def)
  have c: "(0xFC :: u32) = push_bit 2 (mask 6)" "(0x80000000 :: u32) = e"
    by (simp_all add: mask_eq_exp_minus_1 push_bit_eq_mult e_def)
  have "config_address b slot func off = ?b OR (?s OR (?f OR (?o OR e)))"
    unfolding config_address_def Let_def c by (simp only: or.assoc)
  then show ?thesis by (simp add: unat_or_disjoint dis u unat_field)
qed

section \<open>What the enumeration finds\<close>

text \<open>
  A bus: the port answers with the register whose address was written last. The functions of
  the devices in the order of the scan, and the entry each should get.
\<close>

definition pci_bus :: "(u32 \<Rightarrow> u32) \<Rightarrow> device \<Rightarrow> bool" where
  "pci_bus cfg dv \<longleftrightarrow> (\<forall>a h. dv (Out32 0xCF8 a # h) (In32 0xCFC) = cfg a)"

definition config_word :: "(u32 \<Rightarrow> u32) \<Rightarrow> byte \<times> byte \<times> byte \<Rightarrow> byte \<Rightarrow> u16" where
  "config_word cfg p off = (case p of (b, d, f) \<Rightarrow>
     ucast (drop_bit (unat (off AND 2) * 8) (cfg (config_address b d f off)) AND 0xFFFF))"

definition scan_order :: "(byte \<times> byte \<times> byte) list" where
  "scan_order = concat (map (\<lambda>b. concat (map (\<lambda>d. map (\<lambda>f. (of_nat b, of_nat d, of_nat f)) [0..<8]) [0..<32])) [0..<16])"

definition present :: "(u32 \<Rightarrow> u32) \<Rightarrow> byte \<times> byte \<times> byte \<Rightarrow> bool" where
  "present cfg p \<longleftrightarrow> config_word cfg p 0 \<noteq> 0xFFFF"

definition pci_entry :: "(u32 \<Rightarrow> u32) \<Rightarrow> byte \<times> byte \<times> byte \<Rightarrow> pci_device" where
  "pci_entry cfg p = (case p of (b, d, f) \<Rightarrow> \<lparr>bus = b, device = d, function_num = f,
     vendor_id = config_word cfg p 0, device_id = config_word cfg p 2,
     class_id = ucast (drop_bit 8 (config_word cfg p 0x0A)), subclass_id = ucast (config_word cfg p 0x0A),
     prog_if = ucast (drop_bit 8 (config_word cfg p 0x08)), irq_line = ucast (config_word cfg p 0x3F)\<rparr>)"

lemma read_word:
  assumes "pci_bus cfg dv"
  shows "\<exists>h'. pci_config_read_word dv b d f off h = (config_word cfg (b, d, f) off, h')"
  using assms by (simp add: pci_config_read_word_def config_word_def port_long_out_def port_long_in_def pci_bus_def)

lemma byte_of_masked: "(ucast ((v :: u16) AND 255) :: byte) = ucast v" "(ucast ((w :: u16) AND - 65281) :: byte) = ucast w"
proof -
  have m: "(255 :: u16) = mask 8" "(- 65281 :: u16) = mask 8" by (simp_all add: mask_eq_exp_minus_1)
  show "(ucast (v AND 255) :: byte) = ucast v" "(ucast (w AND - 65281) :: byte) = ucast w"
    unfolding m by (rule bit_word_eqI; simp add: bit_simps)+
qed

lemma check_device:
  assumes "pci_bus cfg dv"
  shows "\<exists>h'. pci_check_device dv b d f st =
    (if present cfg (b, d, f) then
       if pci_device_count st < length (pci_devices st)
       then Some (st\<lparr>pci_devices := (pci_devices st)[pci_device_count st := pci_entry cfg (b, d, f)],
                    pci_device_count := pci_device_count st + 1, pci_hist := h'\<rparr>)
       else None
     else Some (st\<lparr>pci_hist := h'\<rparr>))"
proof -
  have id: "ucast (ucast (x :: byte) :: u16) = x" for x by (rule bit_word_eqI) (simp add: bit_simps)
  define w where "w off = config_word cfg (b, d, f) off" for off
  define hh where "hh off h = snd (pci_config_read_word dv b d f off h)" for off h
  have r: "pci_config_read_word dv b d f off h = (w off, hh off h)" for off h
    using read_word [OF assms, of b d f off h] by (auto simp: w_def hh_def)
  show ?thesis
    by (auto simp: pci_check_device_def pci_get_vendor_id_def pci_get_device_id_def pci_get_class_id_def
        pci_get_subclass_id_def pci_get_prog_if_def id r present_def pci_entry_def byte_of_masked wr_def
        simp flip: w_def)
qed

lemma for_loop_concat: "for_loop f (concat (map h xs)) = for_loop (\<lambda>x. for_loop f (h x)) xs"
proof (rule ext)
  show "for_loop f (concat (map h xs)) s = for_loop (\<lambda>x. for_loop f (h x)) xs s" for s
    by (induction xs arbitrary: s) (simp_all add: for_loop_append cong: Option.bind_cong)
qed

lemma for_loop_map: "for_loop f (map g xs) = for_loop (\<lambda>x. f (g x)) xs"
proof (rule ext)
  show "for_loop f (map g xs) s = for_loop (\<lambda>x. f (g x)) xs s" for s
    by (induction xs arbitrary: s) (simp_all cong: Option.bind_cong)
qed

lemma all_buses: "pci_check_all_buses dv st = for_loop (\<lambda>(b, d, f). pci_check_device dv b d f) scan_order st"
  unfolding pci_check_all_buses_def scan_order_def by (simp only: for_loop_concat for_loop_map prod.case)

lemma scan_finds:
  fixes st :: pci_state
  assumes "pci_bus cfg dv"
  shows "pci_device_count st + length (filter (present cfg) ps) \<le> length (pci_devices st) \<Longrightarrow>
      \<exists>h'. for_loop (\<lambda>(b, d, f). pci_check_device dv b d f) ps st = Some (st\<lparr>
        pci_devices := take (pci_device_count st) (pci_devices st) @ map (pci_entry cfg) (filter (present cfg) ps) @
          drop (pci_device_count st + length (filter (present cfg) ps)) (pci_devices st),
        pci_device_count := pci_device_count st + length (filter (present cfg) ps), pci_hist := h'\<rparr>)"
    and "length (pci_devices st) < pci_device_count st + length (filter (present cfg) ps) \<Longrightarrow>
      pci_device_count st \<le> length (pci_devices st) \<Longrightarrow>
      for_loop (\<lambda>(b, d, f). pci_check_device dv b d f) ps st = None"
proof (induction ps arbitrary: st)
  case Nil
  { case 1
    have "st = st\<lparr>pci_hist := pci_hist st\<rparr>" by simp
    then show ?case by (auto intro!: exI [of _ "pci_hist st"])
  next
    case 2
    then show ?case by simp
  }
next
  case (Cons p ps)
  obtain b d f where p: "p = (b, d, f)" by (cases p)
  have step: "\<exists>h1. pci_check_device dv b d f st =
    (if present cfg p then
       if pci_device_count st < length (pci_devices st)
       then Some (st\<lparr>pci_devices := (pci_devices st)[pci_device_count st := pci_entry cfg p],
                    pci_device_count := pci_device_count st + 1, pci_hist := h1\<rparr>)
       else None
     else Some (st\<lparr>pci_hist := h1\<rparr>))" for st
    using check_device [OF assms, of b d f st] p by auto
  { case (1 st)
    obtain h1 where h1: "pci_check_device dv b d f st =
      (if present cfg p then
         if pci_device_count st < length (pci_devices st)
         then Some (st\<lparr>pci_devices := (pci_devices st)[pci_device_count st := pci_entry cfg p],
                      pci_device_count := pci_device_count st + 1, pci_hist := h1\<rparr>)
         else None
       else Some (st\<lparr>pci_hist := h1\<rparr>))"
      using step [of st] ..
    let ?one = "st\<lparr>pci_devices := (pci_devices st)[pci_device_count st := pci_entry cfg p],
        pci_device_count := pci_device_count st + 1, pci_hist := h1\<rparr>"
    show ?case
    proof (cases "present cfg p")
      case True
      with 1 have n: "pci_device_count st < length (pci_devices st)"
        "pci_device_count ?one + length (filter (present cfg) ps) \<le> length (pci_devices ?one)" by auto
      have t: "take (Suc (pci_device_count st)) ((pci_devices st)[pci_device_count st := pci_entry cfg p]) =
          take (pci_device_count st) (pci_devices st) @ [pci_entry cfg p]"
        using n(1) by (simp add: take_Suc_conv_app_nth)
      show ?thesis using Cons.IH(1) [OF n(2)] h1 True n(1) by (auto simp: p t [unfolded p])
    next
      case False
      then show ?thesis using Cons.IH(1) [of "st\<lparr>pci_hist := h1\<rparr>"] 1 h1 by (auto simp: p)
    qed
  next
    case (2 st)
    obtain h1 where h1: "pci_check_device dv b d f st =
      (if present cfg p then
         if pci_device_count st < length (pci_devices st)
         then Some (st\<lparr>pci_devices := (pci_devices st)[pci_device_count st := pci_entry cfg p],
                      pci_device_count := pci_device_count st + 1, pci_hist := h1\<rparr>)
         else None
       else Some (st\<lparr>pci_hist := h1\<rparr>))"
      using step [of st] ..
    let ?one = "st\<lparr>pci_devices := (pci_devices st)[pci_device_count st := pci_entry cfg p],
        pci_device_count := pci_device_count st + 1, pci_hist := h1\<rparr>"
    show ?case using 2 h1 Cons.IH(2) [of ?one] Cons.IH(2) [of "st\<lparr>pci_hist := h1\<rparr>"]
      by (cases "present cfg p") (auto simp: p)
  }
qed

text \<open>
  C35: on a bus whose registers do not change, \<open>pci_init\<close> lists exactly the functions that are
  present, in the order of bus, device and function, as long as the table of 32 holds them; with
  one more the scan writes past its end. The answer is FAILURE in every case.
\<close>

theorem pci_init_lists_present:
  assumes "pci_bus cfg dv" and "length (pci_devices st) = 32"
  shows "let found = filter (present cfg) scan_order in
    if length found \<le> 32
    then \<exists>st'. pci_init dv st = Some (FAILURE, st') \<and> pci_device_count st' = length found \<and>
      take (pci_device_count st') (pci_devices st') = map (pci_entry cfg) found
    else pci_init dv st = None"
proof -
  let ?st = "st\<lparr>pci_device_count := 0\<rparr>"
  show ?thesis
    using scan_finds [OF assms(1), of ?st scan_order] assms(2)
    by (cases "length (filter (present cfg) scan_order) \<le> 32")
      (auto simp: pci_init_def all_buses Let_def simp del: for_loop.simps)
qed

definition empty_pci :: pci_state where
  "empty_pci = \<lparr>pci_devices = replicate 32 \<lparr>bus = 0, device = 0, function_num = 0, vendor_id = 0, device_id = 0,
     class_id = 0, subclass_id = 0, prog_if = 0, irq_line = 0\<rparr>, pci_device_count = 0, pci_hist = []\<rparr>"

theorem pci_init_lists_present_witness:
  "\<exists>st'. pci_init (\<lambda>_ _. 0xFFFFFFFF) empty_pci = Some (FAILURE, st') \<and> pci_device_count st' = 0"
proof -
  have "pci_bus (\<lambda>_. 0xFFFFFFFF) (\<lambda>_ _. 0xFFFFFFFF)" by (simp add: pci_bus_def)
  moreover have none: "filter (present (\<lambda>_. 0xFFFFFFFF)) scan_order = []"
    by (simp add: present_def config_word_def split_beta filter_empty_conv)
  moreover have "length (pci_devices empty_pci) = 32" by (simp add: empty_pci_def)
  ultimately show ?thesis
    using pci_init_lists_present [of "\<lambda>_. 0xFFFFFFFF" "\<lambda>_ _. 0xFFFFFFFF" empty_pci] by auto
qed

end
