(* ===== verification/Ata.thy ===== *)
theory Ata
  imports Pci BlockTable
begin

text \<open>
  The ATA driver \<open>drivers/block/ata.c\<close>: detection of the channels and drives, and reading of
  sectors with programmed input. The command block of a channel is a range of ports.
\<close>

section \<open>Registers and state\<close>

definition PCI_CLASS_MASS_STORAGE :: byte where
  "PCI_CLASS_MASS_STORAGE = 1"

definition PCI_SUBCLASS_IDE_CONTROLLER :: byte where
  "PCI_SUBCLASS_IDE_CONTROLLER = 1"

definition ATA_PRIMARY :: byte where
  "ATA_PRIMARY = 0"

definition ATA_SECONDARY :: byte where
  "ATA_SECONDARY = 1"

definition ATA_REG_DATA :: byte where
  "ATA_REG_DATA = 0x00"

definition ATA_REG_SECCOUNT0 :: byte where
  "ATA_REG_SECCOUNT0 = 0x02"

definition ATA_REG_LBA0 :: byte where
  "ATA_REG_LBA0 = 0x03"

definition ATA_REG_LBA1 :: byte where
  "ATA_REG_LBA1 = 0x04"

definition ATA_REG_LBA2 :: byte where
  "ATA_REG_LBA2 = 0x05"

definition ATA_REG_HDDEVSEL :: byte where
  "ATA_REG_HDDEVSEL = 0x06"

definition ATA_REG_COMMAND :: byte where
  "ATA_REG_COMMAND = 0x07"

definition ATA_REG_STATUS :: byte where
  "ATA_REG_STATUS = 0x07"

definition ATA_REG_CONTROL :: byte where
  "ATA_REG_CONTROL = 0x02"

definition ATA_REG_ALTSTATUS :: byte where
  "ATA_REG_ALTSTATUS = 0x02"

definition ATA_CMD_READ_PIO :: byte where
  "ATA_CMD_READ_PIO = 0x20"

definition ATA_CMD_READ_PIO_EXT :: byte where
  "ATA_CMD_READ_PIO_EXT = 0x24"

definition ATA_CMD_IDENTIFY_PACKET :: byte where
  "ATA_CMD_IDENTIFY_PACKET = 0xA1"

definition ATA_CMD_IDENTIFY :: byte where
  "ATA_CMD_IDENTIFY = 0xEC"

definition ATA_SR_BSY :: byte where
  "ATA_SR_BSY = 0x80"

definition ATA_SR_DF :: byte where
  "ATA_SR_DF = 0x20"

definition ATA_SR_DRQ :: byte where
  "ATA_SR_DRQ = 0x08"

definition ATA_SR_ERR :: byte where
  "ATA_SR_ERR = 0x01"

definition ATA_IDENT_DEVICETYPE :: nat where
  "ATA_IDENT_DEVICETYPE = 0"

definition ATA_IDENT_MODEL :: nat where
  "ATA_IDENT_MODEL = 54"

definition ATA_IDENT_CAPABILITIES :: nat where
  "ATA_IDENT_CAPABILITIES = 98"

definition ATA_IDENT_MAX_LBA :: nat where
  "ATA_IDENT_MAX_LBA = 120"

definition ATA_IDENT_COMMANDSETS :: nat where
  "ATA_IDENT_COMMANDSETS = 164"

definition ATA_IDENT_MAX_LBA_EXT :: nat where
  "ATA_IDENT_MAX_LBA_EXT = 200"

definition IDE_ATA :: byte where
  "IDE_ATA = 0x00"

definition IDE_ATAPI :: byte where
  "IDE_ATAPI = 0x01"

record ide_channel =
  ide_base :: u16
  ide_ctrl :: u16

record ide_device =
  Reserved :: byte
  Channel :: byte
  Drive :: byte
  Type :: u16
  Signature :: u16
  Capabilities :: u16
  CommandSets :: u32
  Size :: u32
  Model :: "byte list"

record ata =
  channels :: "ide_channel list"
  ide_devices :: "ide_device list"
  ide_device_count :: nat
  ide_buf :: "byte list"
  ata_hist :: history

section \<open>Port access\<close>

definition ide_read_base :: "device \<Rightarrow> byte \<Rightarrow> byte \<Rightarrow> ata \<Rightarrow> (byte \<times> ata) option" where
  "ide_read_base dv channel reg st = do {
     c \<leftarrow> rd (channels st) (unat channel);
     let (b, h) = port_byte_in dv (ide_base c + ucast reg) (ata_hist st);
     Some (b, st\<lparr>ata_hist := h\<rparr>) }"

definition ide_write_base :: "byte \<Rightarrow> byte \<Rightarrow> byte \<Rightarrow> ata \<Rightarrow> ata option" where
  "ide_write_base channel reg data st = do {
     c \<leftarrow> rd (channels st) (unat channel);
     Some (st\<lparr>ata_hist := port_byte_out (ide_base c + ucast reg) data (ata_hist st)\<rparr>) }"

definition ide_read_ctrl :: "device \<Rightarrow> byte \<Rightarrow> byte \<Rightarrow> ata \<Rightarrow> (byte \<times> ata) option" where
  "ide_read_ctrl dv channel reg st = do {
     c \<leftarrow> rd (channels st) (unat channel);
     let (b, h) = port_byte_in dv (ide_ctrl c + ucast reg) (ata_hist st);
     Some (b, st\<lparr>ata_hist := h\<rparr>) }"

definition ide_write_ctrl :: "byte \<Rightarrow> byte \<Rightarrow> byte \<Rightarrow> ata \<Rightarrow> ata option" where
  "ide_write_ctrl channel reg data st = do {
     c \<leftarrow> rd (channels st) (unat channel);
     Some (st\<lparr>ata_hist := port_byte_out (ide_ctrl c + ucast reg) data (ata_hist st)\<rparr>) }"

text \<open>A read of the status in a loop, until \<open>ok\<close>.\<close>

definition ide_poll :: "(byte \<Rightarrow> bool) \<Rightarrow> device \<Rightarrow> byte \<Rightarrow> ata \<Rightarrow> (byte \<times> ata) option" where
  "ide_poll ok dv channel st = do {
     c \<leftarrow> rd (channels st) (unat channel);
     (b, h) \<leftarrow> poll_byte ok dv (ide_base c + ucast ATA_REG_STATUS) (ata_hist st);
     Some (b, st\<lparr>ata_hist := h\<rparr>) }"

text \<open>The buffer is an array of 32-bit numbers, given as its bytes.\<close>

definition ide_read_buffer :: "device \<Rightarrow> byte \<Rightarrow> byte \<Rightarrow> byte list \<Rightarrow> nat \<Rightarrow> ata \<Rightarrow> (byte list \<times> ata) option" where
  "ide_read_buffer dv channel reg buffer quads st =
     for_loop (\<lambda>i (buffer, st). do {
         c \<leftarrow> rd (channels st) (unat channel);
         let (v, h) = port_long_in dv (ide_base c + ucast reg) (ata_hist st);
         buffer \<leftarrow> blit buffer (4 * i) (bytes32 v);
         Some (buffer, st\<lparr>ata_hist := h\<rparr>) }) [0..<quads] (buffer, st)"

definition ide_polling :: "device \<Rightarrow> byte \<Rightarrow> bool \<Rightarrow> ata \<Rightarrow> (byte \<times> ata) option" where
  "ide_polling dv channel advanced_check st = do {
     st \<leftarrow> for_loop (\<lambda>_ st. map_option snd (ide_read_ctrl dv channel ATA_REG_ALTSTATUS st)) [0..<4 :: nat] st;
     (_, st) \<leftarrow> ide_poll (\<lambda>b. b AND ATA_SR_BSY = 0) dv channel st;
     if advanced_check then do {
       (state, st) \<leftarrow> ide_read_base dv channel ATA_REG_STATUS st;
       Some (if state AND ATA_SR_ERR \<noteq> 0 then 2
             else if state AND ATA_SR_DF \<noteq> 0 then 1
             else if state AND ATA_SR_DRQ = 0 then 3 else 0, st) }
     else Some (0, st) }"

section \<open>Identification\<close>

definition ata_delay :: "nat \<Rightarrow> ata \<Rightarrow> ata" where
  "ata_delay ms st = st\<lparr>ata_hist := pass_time ms (ata_hist st)\<rparr>"

definition put_device :: "(ide_device \<Rightarrow> ide_device) \<Rightarrow> ata \<Rightarrow> ata option" where
  "put_device f st = do {
     d \<leftarrow> rd (ide_devices st) (ide_device_count st);
     ds \<leftarrow> wr (ide_devices st) (ide_device_count st) (f d);
     Some (st\<lparr>ide_devices := ds\<rparr>) }"

text \<open>The model name is stored with the bytes of each word exchanged.\<close>

definition swap_model :: "byte list \<Rightarrow> byte list option" where
  "swap_model buf = for_loop (\<lambda>k model. do {
       a \<leftarrow> rd buf (ATA_IDENT_MODEL + 2 * k + 1);
       model \<leftarrow> wr model (2 * k) a;
       b \<leftarrow> rd buf (ATA_IDENT_MODEL + 2 * k);
       wr model (2 * k + 1) b }) [0..<20] (replicate 41 0)"

definition read_parameters :: "byte \<Rightarrow> byte \<Rightarrow> byte \<Rightarrow> ata \<Rightarrow> ata option" where
  "read_parameters type channel drive st = do {
     signature \<leftarrow> rd16 (ide_buf st) ATA_IDENT_DEVICETYPE;
     capabilities \<leftarrow> rd16 (ide_buf st) ATA_IDENT_CAPABILITIES;
     command_sets \<leftarrow> rd32 (ide_buf st) ATA_IDENT_COMMANDSETS;
     sectors \<leftarrow> rd32 (ide_buf st) (if bit command_sets 26 then ATA_IDENT_MAX_LBA_EXT else ATA_IDENT_MAX_LBA);
     model \<leftarrow> swap_model (ide_buf st);
     st \<leftarrow> put_device (\<lambda>d. d\<lparr>Reserved := 1, Type := ucast type, Channel := channel, Drive := drive,
       Signature := signature, Capabilities := capabilities, CommandSets := command_sets, Size := sectors,
       Model := model\<rparr>) st;
     Some (st\<lparr>ide_device_count := ide_device_count st + 1\<rparr>) }"

text \<open>The probe of one drive; the early ends of the loop body are the branches that leave the table.\<close>

definition probe_drive :: "device \<Rightarrow> byte \<Rightarrow> byte \<Rightarrow> ata \<Rightarrow> ata option" where
  "probe_drive dv channel drive st = do {
     st \<leftarrow> put_device (\<lambda>d. d\<lparr>Reserved := 0\<rparr>) st;
     st \<leftarrow> ide_write_base channel ATA_REG_HDDEVSEL (0xA0 OR push_bit 4 drive) st;
     let st = ata_delay 100 st;
     st \<leftarrow> ide_write_base channel ATA_REG_COMMAND ATA_CMD_IDENTIFY st;
     let st = ata_delay 100 st;
     (s, st) \<leftarrow> ide_read_base dv channel ATA_REG_STATUS st;
     if s = 0 then Some st
     else do {
       (status, st) \<leftarrow> ide_poll (\<lambda>s. s AND ATA_SR_ERR \<noteq> 0 \<or> s AND ATA_SR_BSY = 0 \<and> s AND ATA_SR_DRQ \<noteq> 0) dv channel st;
       (type, st) \<leftarrow> (if status AND ATA_SR_ERR \<noteq> 0 then do {
           (cl, st) \<leftarrow> ide_read_base dv channel ATA_REG_LBA1 st;
           (ch, st) \<leftarrow> ide_read_base dv channel ATA_REG_LBA2 st;
           if cl = 0x14 \<and> ch = 0xEB \<or> cl = 0x69 \<and> ch = 0x96 then do {
             st \<leftarrow> ide_write_base channel ATA_REG_COMMAND ATA_CMD_IDENTIFY_PACKET st;
             Some (Some IDE_ATAPI, ata_delay 1 st) }
           else Some (None, st) }
         else Some (Some IDE_ATA, st));
       case type of
         None \<Rightarrow> Some st
       | Some type \<Rightarrow> do {
           (buf, st) \<leftarrow> ide_read_buffer dv channel ATA_REG_DATA (ide_buf st) 128 st;
           read_parameters type channel drive (st\<lparr>ide_buf := buf\<rparr>) } } }"

definition ata_disk :: "nat \<Rightarrow> disk_device" where
  "ata_disk i = \<lparr>dev_type = HARD_DISK, device_num = of_nat i, partition = RAW_DEVICE, offset = 0, block_size = 0,
     driver = Ata_Driver, driver_specific_data = 0\<rparr>"

definition ata_identify_drives :: "device \<Rightarrow> ata \<times> block_table \<Rightarrow> (ata \<times> block_table) option" where
  "ata_identify_drives dv s = (case s of (st, bt) \<Rightarrow> do {
     st \<leftarrow> ide_write_ctrl ATA_PRIMARY ATA_REG_CONTROL 2 st;
     st \<leftarrow> ide_write_ctrl ATA_SECONDARY ATA_REG_CONTROL 2 st;
     st \<leftarrow> for_loop (\<lambda>channel. for_loop (\<lambda>drive. probe_drive dv (of_nat channel) (of_nat drive)) [0..<2]) [0..<2] st;
     bt \<leftarrow> for_loop (\<lambda>i bt. do {
         d \<leftarrow> rd (ide_devices st) i;
         if Reserved d = 1 then map_option snd (register_block_device (ata_disk i) (str ''hdd'' @ [0]) bt)
         else Some bt }) [0..<ide_device_count st] bt;
     Some (st, bt) })"

text \<open>
  The first IDE controller on the PCI bus tells the ports of a channel in native mode; an invalid
  port ends the initialisation (\<open>None\<close> of the inner result).
\<close>

definition native_channel :: "device \<Rightarrow> pci_device \<Rightarrow> nat \<Rightarrow> byte \<Rightarrow> ata \<Rightarrow> (bool \<times> ata) option" where
  "native_channel dv d n bar st =
     (let (bar_base, h) = pci_get_bar dv (ucast (bus d)) (ucast (device d)) (ucast (function_num d)) bar (ata_hist st);
          (bar_ctrl, h) = pci_get_bar dv (ucast (bus d)) (ucast (device d)) (ucast (function_num d)) (bar + 1) h;
          st = st\<lparr>ata_hist := h\<rparr>
      in if bar_base = 0 \<or> bar_ctrl = 0 then Some (False, st)
         else do { c \<leftarrow> rd (channels st) n;
                   cs \<leftarrow> wr (channels st) n (c\<lparr>ide_base := ucast bar_base, ide_ctrl := ucast bar_ctrl\<rparr>);
                   Some (True, st\<lparr>channels := cs\<rparr>) })"

definition ata_init :: "device \<Rightarrow> pci_state \<Rightarrow> (nat \<Rightarrow> byte) \<Rightarrow> ata \<times> block_table \<Rightarrow> (ata \<times> block_table) option" where
  "ata_init dv pci junk s = (case s of (st, bt) \<Rightarrow>
     let st = st\<lparr>ide_buf := map junk [0..<2048],
           channels := [\<lparr>ide_base = 0x1F0, ide_ctrl = 0x3F4\<rparr>, \<lparr>ide_base = 0x170, ide_ctrl = 0x374\<rparr>]\<rparr>;
         found = find (\<lambda>d. class_id d = PCI_CLASS_MASS_STORAGE \<and> subclass_id d = PCI_SUBCLASS_IDE_CONTROLLER)
           (take (pci_device_count pci) (pci_devices pci))
     in case found of
          None \<Rightarrow> ata_identify_drives dv (st, bt)
        | Some d \<Rightarrow>
            let (pif, h) = pci_get_prog_if dv (ucast (bus d)) (ucast (device d)) (ucast (function_num d)) (ata_hist st);
                st = st\<lparr>ata_hist := h\<rparr>
            in do { (ok, st) \<leftarrow> (if pif AND 0x01 \<noteq> 0 then native_channel dv d 0 0 st else Some (True, st));
                    if \<not> ok then Some (st, bt)
                    else do {
                      (ok, st) \<leftarrow> (if pif AND 0x04 \<noteq> 0 then native_channel dv d 1 2 st else Some (True, st));
                      if \<not> ok then Some (st, bt) else ata_identify_drives dv (st, bt) } })"

section \<open>Reading\<close>

text \<open>
  How a drive is addressed: the mode, the six bytes for the address registers and the bits for the
  drive register.
\<close>

datatype lba_mode = CHS | LBA28 | LBA48

definition lba_registers :: "ide_device \<Rightarrow> u32 \<Rightarrow> lba_mode \<times> byte list \<times> byte" where
  "lba_registers d lba =
     (if bit (CommandSets d) 26 then
        (LBA48, [ucast (lba AND 0x000000FF), ucast (drop_bit 8 (lba AND 0x0000FF00)),
           ucast (drop_bit 16 (lba AND 0x00FF0000)), ucast (drop_bit 24 (lba AND 0xFF000000)), 0, 0], 0)
      else if Capabilities d AND 0x200 \<noteq> 0 then
        (LBA28, [ucast (lba AND 0x00000FF), ucast (drop_bit 8 (lba AND 0x000FF00)),
           ucast (drop_bit 16 (lba AND 0x0FF0000)), 0, 0, 0], ucast (drop_bit 24 (lba AND 0xF000000)))
      else
        let sect = ucast (lba mod 63 + 1) :: byte;
            cyl = ucast ((lba + 1 - ucast sect) div (16 * 63)) :: u16
        in (CHS, [sect, ucast (cyl AND 0xFF), ucast (drop_bit 8 cyl AND 0xFF), 0, 0, 0],
            ucast ((lba + 1 - ucast sect) mod (16 * 63) div 63)))"

definition write_bytes :: "byte \<Rightarrow> (byte \<times> byte) list \<Rightarrow> ata \<Rightarrow> ata option" where
  "write_bytes channel rs st = for_loop (\<lambda>(reg, b). ide_write_base channel reg b) rs st"

text \<open>
  The data loop: each sector is waited for, and then the words of all sectors are read, to the
  start of the buffer.
\<close>

fun read_data :: "device \<Rightarrow> byte \<Rightarrow> nat \<Rightarrow> nat \<Rightarrow> byte list \<Rightarrow> ata \<Rightarrow> (int \<times> byte list \<times> ata) option" where
  "read_data dv channel quads 0 buffer st = Some (SUCCESS, buffer, st)"
| "read_data dv channel quads (Suc n) buffer st = do {
     (err, st) \<leftarrow> ide_polling dv channel True st;
     if err \<noteq> 0 then Some (FAILURE, buffer, st)
     else do {
       (buffer, st) \<leftarrow> ide_read_buffer dv channel ATA_REG_DATA buffer quads st;
       read_data dv channel quads n buffer st } }"

definition ata_command :: "device \<Rightarrow> disk_device \<Rightarrow> u32 \<Rightarrow> u32 \<Rightarrow> ata \<Rightarrow> (byte \<times> ata) option" where
  "ata_command dv dk lba num_sectors st = do {
     let lba = lba + offset dk;
     d \<leftarrow> rd (ide_devices st) (unat (device_num dk));
     let channel = Channel d;
     let (mode, io, head) = lba_registers d lba;
     (_, st) \<leftarrow> ide_poll (\<lambda>b. b AND ATA_SR_BSY = 0) dv channel st;
     st \<leftarrow> ide_write_base channel ATA_REG_HDDEVSEL
       ((if mode = CHS then 0xA0 else 0xE0) OR push_bit 4 (Drive d) OR head) st;
     st \<leftarrow> (if mode = LBA48 then write_bytes channel
         [(ATA_REG_SECCOUNT0, 0), (ATA_REG_LBA0, io ! 3), (ATA_REG_LBA1, io ! 4), (ATA_REG_LBA2, io ! 5)] st
       else Some st);
     st \<leftarrow> write_bytes channel
       [(ATA_REG_SECCOUNT0, ucast num_sectors), (ATA_REG_LBA0, io ! 0), (ATA_REG_LBA1, io ! 1), (ATA_REG_LBA2, io ! 2)] st;
     st \<leftarrow> ide_write_base channel ATA_REG_COMMAND (if mode = LBA48 then ATA_CMD_READ_PIO_EXT else ATA_CMD_READ_PIO) st;
     Some (channel, st) }"

definition ata_read :: "device \<Rightarrow> ata read_sectors" where
  "ata_read dv dk lba num_sectors buffer st = do {
     (channel, st) \<leftarrow> ata_command dv dk lba num_sectors st;
     read_data dv channel (unat (num_sectors * 128)) (unat num_sectors) buffer st }"

section \<open>The contract of a block driver\<close>

lemma read_buffer_keeps:
  assumes "ide_read_buffer dv channel reg buffer quads st = Some (buffer', st')"
  shows "length buffer' = length buffer \<and> drop (4 * quads) buffer' = drop (4 * quads) buffer"
proof -
  let ?I = "\<lambda>(b :: byte list, st :: ata). length b = length buffer \<and> drop (4 * quads) b = drop (4 * quads) buffer"
  have "?I (buffer', st')"
    using assms unfolding ide_read_buffer_def
  proof (rule for_loop_invariant [where I = ?I])
    fix i and s s' :: "byte list \<times> ata"
    assume i: "i \<in> set [0..<quads]" and I: "?I s" and
      step: "(case s of (buffer, st) \<Rightarrow> do {
         c \<leftarrow> rd (channels st) (unat channel);
         let (v, h) = port_long_in dv (ide_base c + ucast reg) (ata_hist st);
         buffer \<leftarrow> blit buffer (4 * i) (bytes32 v);
         Some (buffer, st\<lparr>ata_hist := h\<rparr>) }) = Some s'"
    obtain b st0 where s: "s = (b, st0)" by (cases s)
    from step s obtain v b' st1 where b': "blit b (4 * i) (bytes32 v) = Some b'" and s': "s' = (b', st1)"
      by (auto simp: bind_eq_Some_conv port_long_in_def)
    have l: "length (bytes32 v) = 4" by (simp add: bytes32_def)
    have b: "4 * i + 4 \<le> length b" "b' = take (4 * i) b @ bytes32 v @ drop (4 * i + 4) b"
      using b' l by (auto simp: blit_Some_iff)
    have le: "4 * i + 4 \<le> 4 * quads" using i by auto
    then obtain k where k: "4 * quads = 4 * i + 4 + k" using le_Suc_ex by blast
    have "drop (4 * quads) b' = drop (4 * quads) b"
      unfolding b(2) k using b(1) l by (simp add: ac_simps)
    then show "?I s'" using I s s' blit_length [OF b'] by simp
  qed simp
  then show ?thesis by simp
qed

lemma read_data_keeps:
  "read_data dv channel quads n buffer st = Some (r, buffer', st') \<Longrightarrow>
     (r = SUCCESS \<or> r = FAILURE) \<and> length buffer' = length buffer \<and> drop (4 * quads) buffer' = drop (4 * quads) buffer"
proof (induction n arbitrary: buffer st)
  case 0
  then show ?case by simp
next
  case (Suc n)
  then obtain err st1 where p: "ide_polling dv channel True st = Some (err, st1)" by (auto simp: bind_eq_Some_conv)
  show ?case
  proof (cases "err = 0")
    case True
    with Suc.prems p obtain b st2 where b: "ide_read_buffer dv channel ATA_REG_DATA buffer quads st1 = Some (b, st2)"
      and r: "read_data dv channel quads n b st2 = Some (r, buffer', st')" by (auto simp: bind_eq_Some_conv)
    from Suc.IH [OF r] read_buffer_keeps [OF b] show ?thesis by simp
  next
    case False
    with Suc.prems p show ?thesis by simp
  qed
qed

lemma ata_reader:
  assumes "ata_read dv dk lba count buf st = Some (r, buf', st')"
  shows "(r = SUCCESS \<or> r = FAILURE) \<and> length buf' = length buf \<and> drop (512 * unat count) buf' = drop (512 * unat count) buf"
proof -
  obtain ch st1 where "read_data dv ch (unat (count * 128)) (unat count) buf st1 = Some (r, buf', st')"
    using assms by (auto simp: ata_read_def bind_eq_Some_conv)
  from read_data_keeps [OF this]
  have k: "(r = SUCCESS \<or> r = FAILURE) \<and> length buf' = length buf"
    and d: "drop (4 * unat (count * 128)) buf' = drop (4 * unat (count * 128)) buf" by auto
  have "unat (count * 128) \<le> unat count * 128" by (simp add: unat_word_ariths)
  then obtain m where m: "512 * unat count = m + 4 * unat (count * 128)"
    using le_iff_add [of "4 * unat (count * 128)" "512 * unat count"] by (auto simp: add.commute)
  have "drop m (drop (4 * unat (count * 128)) buf') = drop m (drop (4 * unat (count * 128)) buf)" using d by simp
  with k show ?thesis by (simp add: m)
qed

interpretation ata: block_driver "ata_read dv" for dv
  by unfold_locales (auto dest: ata_reader)

section \<open>Addresses\<close>

lemma masked_bytes:
  "(ucast ((w :: u32) AND 0x000000FF) :: byte) = ucast w"
  "(ucast (drop_bit 8 (w AND 0x0000FF00)) :: byte) = ucast (drop_bit 8 w)"
  "(ucast (drop_bit 16 (w AND 0x00FF0000)) :: byte) = ucast (drop_bit 16 w)"
  "(ucast (drop_bit 24 (w AND 0xFF000000)) :: byte) = ucast (drop_bit 24 w)"
  "(ucast (drop_bit 24 (w AND 0xF000000)) :: byte) = ucast (drop_bit 24 w) AND 0x0F"
proof -
  have m: "(0x000000FF :: u32) = mask 8" "(0x0000FF00 :: u32) = push_bit 8 (mask 8)" "(0x00FF0000 :: u32) = push_bit 16 (mask 8)"
    "(0xFF000000 :: u32) = push_bit 24 (mask 8)" "(0xF000000 :: u32) = push_bit 24 (mask 4)" "(0x0F :: byte) = mask 4"
    by (simp_all add: mask_eq_exp_minus_1 push_bit_eq_mult)
  show "(ucast (w AND 0x000000FF) :: byte) = ucast w"
    "(ucast (drop_bit 8 (w AND 0x0000FF00)) :: byte) = ucast (drop_bit 8 w)"
    "(ucast (drop_bit 16 (w AND 0x00FF0000)) :: byte) = ucast (drop_bit 16 w)"
    "(ucast (drop_bit 24 (w AND 0xFF000000)) :: byte) = ucast (drop_bit 24 w)"
    "(ucast (drop_bit 24 (w AND 0xF000000)) :: byte) = ucast (drop_bit 24 w) AND 0x0F"
    unfolding m by (rule bit_word_eqI; auto simp: bit_simps)+
qed

text \<open>The sector number that the values of the registers stand for.\<close>

fun addressed :: "lba_mode \<times> byte list \<times> byte \<Rightarrow> nat" where
  "addressed (LBA48, io, head) = le_value io"
| "addressed (LBA28, io, head) = le_value (take 3 io) + 2 ^ 24 * unat (head AND 0x0F)"
| "addressed (CHS, io, head) = (le_value (take 2 (drop 1 io)) * 16 + unat (head AND 0x0F)) * 63 + (unat (io ! 0) - 1)"

text \<open>What a drive in the given mode can address.\<close>

definition addressable :: "ide_device \<Rightarrow> u32 \<Rightarrow> bool" where
  "addressable d lba \<longleftrightarrow> bit (CommandSets d) 26 \<or>
     (if Capabilities d AND 0x200 \<noteq> 0 then unat lba < 2 ^ 28 else unat lba < 65536 * 16 * 63)"

lemma le_value_bytes: "unat lba = le_value [ucast lba, ucast (drop_bit 8 lba), ucast (drop_bit 16 lba), ucast (drop_bit 24 (lba :: u32))]"
  using unat_le32 [of "ucast lba" "ucast (drop_bit 8 lba)" "ucast (drop_bit 16 lba)" "ucast (drop_bit 24 lba)"]
  by (simp add: le32_bytes_of)

lemma low_nibble: "unat b < 16 \<Longrightarrow> b AND 0x0F = (b :: byte)"
proof (rule bit_word_eqI)
  fix n assume "unat b < 16"
  then have "bit b n \<Longrightarrow> n < 4" using bit_less_pow [of b 4 n] by simp
  moreover have m: "(0x0F :: byte) = mask 4" by (simp add: mask_eq_exp_minus_1)
  ultimately show "bit (b AND 0x0F) n = bit b n" unfolding m by (auto simp: bit_simps)
qed

lemma chs_registers:
  fixes lba :: u32
  assumes "unat lba < 65536 * 16 * 63"
  defines "sect \<equiv> ucast (lba mod 63 + 1) :: byte"
  shows "unat sect = unat lba mod 63 + 1"
    and "unat (ucast ((lba + 1 - ucast sect) div (16 * 63)) :: u16) = unat lba div 1008"
    and "unat (ucast ((lba + 1 - ucast sect) mod (16 * 63) div 63) :: byte) = unat lba div 63 mod 16"
proof -
  have m: "unat (lba mod 63) = unat lba mod 63" by (simp add: unat_mod)
  have m1: "unat (lba mod 63 + 1) = unat lba mod 63 + 1"
    using unat_add_small [of "lba mod 63" 1] m by simp
  then show s: "unat sect = unat lba mod 63 + 1" unfolding sect_def by (simp add: unat_ucast_small)
  have "ucast sect = lba mod 63 + 1"
    unfolding word_unat_eq_iff by (simp add: s m1)
  then have "lba + 1 - ucast sect = lba - lba mod 63" by simp
  moreover have "unat (lba - lba mod 63) = unat lba - unat lba mod 63"
    by (subst unat_sub) (simp_all add: m word_le_nat_alt)
  moreover have "unat lba - unat lba mod 63 = unat lba div 63 * 63" by (simp add: minus_mod_eq_mult_div mult.commute)
  ultimately have w: "unat (lba + 1 - ucast sect) = unat lba div 63 * 63" by (simp only:)
  have "unat ((lba + 1 - ucast sect) div (16 * 63)) = unat lba div 63 * 63 div 1008"
    using w by (simp add: unat_div)
  also have "\<dots> = unat lba div 63 div 16" using div_mult_mult2 [of 63 "unat lba div 63" 16] by simp
  also have "\<dots> = unat lba div 1008" by (simp flip: div_mult2_eq)
  finally have c: "unat ((lba + 1 - ucast sect) div (16 * 63)) = unat lba div 1008" .
  moreover have "unat lba div 1008 < 65536" using assms(1) by (simp add: less_mult_imp_div_less)
  ultimately show "unat (ucast ((lba + 1 - ucast sect) div (16 * 63)) :: u16) = unat lba div 1008"
    by (subst unat_ucast_small) simp_all
  have "unat ((lba + 1 - ucast sect) mod (16 * 63) div 63) = unat lba div 63 * 63 mod 1008 div 63"
    using w by (simp add: unat_div unat_mod)
  also have "unat lba div 63 * 63 mod 1008 = unat lba div 63 mod 16 * 63"
    using mult_mod_left [of "unat lba div 63" 16 63] by simp
  also have "\<dots> div 63 = unat lba div 63 mod 16" by simp
  finally have h: "unat ((lba + 1 - ucast sect) mod (16 * 63) div 63) = unat lba div 63 mod 16" .
  moreover have "unat lba div 63 mod 16 < 16" by simp
  ultimately show "unat (ucast ((lba + 1 - ucast sect) mod (16 * 63) div 63) :: byte) = unat lba div 63 mod 16"
    by (subst unat_ucast_small) (auto intro: less_trans)
qed

lemma registers_decode:
  assumes "addressable d lba"
  shows "addressed (lba_registers d lba) = unat lba"
proof -
  consider "bit (CommandSets d) 26" | "\<not> bit (CommandSets d) 26" "Capabilities d AND 0x200 \<noteq> 0" "unat lba < 2 ^ 28"
    | "\<not> bit (CommandSets d) 26" "Capabilities d AND 0x200 = 0" "unat lba < 65536 * 16 * 63"
    using assms by (auto simp: addressable_def split: if_splits)
  then show ?thesis
  proof cases
    case 1
    then show ?thesis by (simp add: lba_registers_def masked_bytes le_value_bytes [of lba])
  next
    case 2
    have "unat (drop_bit 24 lba) < 16" using 2(3) by (simp add: unat_drop_bit less_mult_imp_div_less)
    then have top: "unat (ucast (drop_bit 24 lba) :: byte) = unat (drop_bit 24 lba)" "unat (ucast (drop_bit 24 lba) :: byte) < 16"
      by (simp_all add: unat_ucast_small)
    show ?thesis using 2(1,2)
      by (simp add: lba_registers_def masked_bytes le_value_bytes [of lba] low_nibble [OF top(2)] del: drop_bit_and)
  next
    case 3
    note r = chs_registers [OF 3(3)]
    let ?sect = "ucast (lba mod 63 + 1) :: byte"
    let ?cyl = "ucast ((lba + 1 - ucast ?sect) div (16 * 63)) :: u16"
      and ?head = "ucast ((lba + 1 - ucast ?sect) mod (16 * 63) div 63) :: byte"
    have "unat ?head < 16" unfolding r(3) by simp
    note h = low_nibble [OF this]
    have cyl: "le_value [ucast (?cyl AND 0xFF), ucast (drop_bit 8 ?cyl AND 0xFF)] = unat lba div 1008"
    proof -
      have m: "(0xFF :: u16) = mask 8" by (simp add: mask_eq_exp_minus_1)
      have "(ucast (w AND 0xFF) :: byte) = ucast w" for w :: u16
        unfolding m by (rule bit_word_eqI) (simp add: bit_simps)
      then have "le_value [ucast (?cyl AND 0xFF), ucast (drop_bit 8 ?cyl AND 0xFF)] =
          unat (le16 (ucast ?cyl) (ucast (drop_bit 8 ?cyl)))" by (simp add: unat_le16)
      then show ?thesis unfolding le16_bytes r(2) .
    qed
    have "addressed (lba_registers d lba) = (unat lba div 1008 * 16 + unat lba div 63 mod 16) * 63 + unat lba mod 63"
      using 3(1,2) cyl r h by (simp add: lba_registers_def Let_def)
    also have "unat lba div 1008 = unat lba div 63 div 16" by (simp flip: div_mult2_eq)
    finally show ?thesis by simp
  qed
qed

section \<open>A drive\<close>

text \<open>
  The drives of the channel with base port \<open>p\<close>, as the ATA standard describes them for programmed
  input, without errors: a read command takes the address from the registers, with 48-bit addresses
  from the last two bytes written to each, and the number of sectors; then the drive asks for data to
  be taken (DRQ in the status) until every word has been read from the data port. \<open>disks\<close> are the
  contents of the first and of the second drive. A drive may be busy, and then nothing is promised of its status and
  its data, but not for ever: before the first word of each sector and after the last one, and whenever a register
  has been written.
\<close>

fun written :: "u16 \<Rightarrow> history \<Rightarrow> byte list" where
  "written q (Out8 r b # h) = (if r = q then b # written q h else written q h)"
| "written q (_ # h) = written q h"
| "written q [] = []"

definition latest :: "u16 \<Rightarrow> history \<Rightarrow> byte" where
  "latest q h = (case written q h of [] \<Rightarrow> 0 | b # _ \<Rightarrow> b)"

definition before :: "u16 \<Rightarrow> history \<Rightarrow> byte" where
  "before q h = (case written q h of _ # b # _ \<Rightarrow> b | _ \<Rightarrow> 0)"

definition command_address :: "u16 \<Rightarrow> byte \<Rightarrow> history \<Rightarrow> nat" where
  "command_address p cmd h =
     (if cmd = 0x24
      then addressed (LBA48, [latest (p + 3) h, latest (p + 4) h, latest (p + 5) h,
        before (p + 3) h, before (p + 4) h, before (p + 5) h], 0)
      else addressed (if bit (latest (p + 6) h) 6 then LBA28 else CHS,
        [latest (p + 3) h, latest (p + 4) h, latest (p + 5) h, 0, 0, 0], latest (p + 6) h))"

definition command_sectors :: "u16 \<Rightarrow> byte \<Rightarrow> history \<Rightarrow> nat" where
  "command_sectors p cmd h =
     (let k = unat (latest (p + 2) h) + (if cmd = 0x24 then 256 * unat (before (p + 2) h) else 0)
      in if k = 0 then (if cmd = 0x24 then 65536 else 256) else k)"

text \<open>What is going on: the drive that is selected, the next byte of it, and the words left.\<close>

fun transfer :: "u16 \<Rightarrow> history \<Rightarrow> bool \<times> nat \<times> nat" where
  "transfer p (Out8 q b # h) =
     (if q = p + 7 \<and> (b = 0x20 \<or> b = 0x24)
      then (bit (latest (p + 6) h) 4, 512 * command_address p b h, 128 * command_sectors p b h)
      else transfer p h)"
| "transfer p (In32 q # h) =
     (case transfer p h of (slave, pos, k) \<Rightarrow> if q = p \<and> 0 < k then (slave, pos + 4, k - 1) else (slave, pos, k))"
| "transfer p (_ # h) = transfer p h"
| "transfer p [] = (False, 0, 0)"







lemma transfer_polled [simp]: "transfer p (polled q n h) = transfer p h"
  by (induction n) (simp_all add: polled_def)









section \<open>Properties\<close>

text \<open>
  C34: in each of the three modes the bytes for the address registers stand for the sector that
  is asked for, as long as the mode can address it: all of 32 bits with 48-bit addresses, 28 bits, or
  65536 cylinders of 16 heads and 63 sectors.
\<close>

theorem lba_registers_address:
  assumes "addressable d lba"
  shows "addressed (lba_registers d lba) = unat lba"
  by (rule registers_decode [OF assms])

definition old_drive :: ide_device where
  "old_drive = \<lparr>Reserved = 1, Channel = 0, Drive = 0, Type = 0, Signature = 0, Capabilities = 0, CommandSets = 0,
     Size = 0, Model = []\<rparr>"

theorem lba_registers_address_witness:
  "addressed (lba_registers old_drive 123456) = 123456"
proof -
  have "addressable old_drive 123456" by (simp add: addressable_def old_drive_def)
  from lba_registers_address [OF this] show ?thesis by simp
qed









end
