(* ===== verification/UsbData.thy ===== *)
theory UsbData
  imports Memory CString PortIO
begin

text \<open>
  The data of the USB drivers: the declarations of \<open>include/usb.h\<close> and the transfer descriptors of
  \<open>drivers/bus/usb/uhci.c\<close>. What the host controller reads and writes lies in the memory of theory
  Memory, in the layout the compiler gives the structures; a structure only the processor touches
  is a record.
\<close>

section \<open>Numbers of the USB specification\<close>

definition MAX_DEVICES :: nat where "MAX_DEVICES = 127"

definition DESCRIPTOR_DEVICE :: byte where "DESCRIPTOR_DEVICE = 0x01"
definition DESCRIPTOR_CONFIGURATION :: byte where "DESCRIPTOR_CONFIGURATION = 0x02"
definition DESCRIPTOR_STRING :: byte where "DESCRIPTOR_STRING = 0x03"
definition DESCRIPTOR_INTERFACE :: byte where "DESCRIPTOR_INTERFACE = 0x04"
definition DESCRIPTOR_ENDPOINT :: byte where "DESCRIPTOR_ENDPOINT = 0x05"

definition MASS_STORAGE :: byte where "MASS_STORAGE = 0x08"
definition SCSI_TRANSPARENT_COMMAND_SET :: byte where "SCSI_TRANSPARENT_COMMAND_SET = 0x06"
definition BULK_ONLY_TRANSPORT :: byte where "BULK_ONLY_TRANSPORT = 0x50"

definition USB_ENDPOINT_VALUE :: byte where "USB_ENDPOINT_VALUE = 0x0F"
definition USB_ENDPOINT_DIRECTION_IN :: byte where "USB_ENDPOINT_DIRECTION_IN = 0x80"
definition USB_ENDPOINT_TYPE_MASK :: byte where "USB_ENDPOINT_TYPE_MASK = 0x03"
definition BULK :: byte where "BULK = 2"

definition REQ_PKT_DIR_HOST_TO_DEVICE :: byte where "REQ_PKT_DIR_HOST_TO_DEVICE = 0"
definition REQ_PKT_DIR_DEVICE_TO_HOST :: byte where "REQ_PKT_DIR_DEVICE_TO_HOST = push_bit 7 1"
definition REQ_PKT_TYPE_CLASS :: byte where "REQ_PKT_TYPE_CLASS = push_bit 5 1"
definition REQ_PKT_RECIPIENT_INTERFACE :: byte where "REQ_PKT_RECIPIENT_INTERFACE = 1"
definition REQ_PKT_REQ_CODE_SET_ADDRESS :: byte where "REQ_PKT_REQ_CODE_SET_ADDRESS = 0x05"
definition REQ_PKT_REQ_CODE_GET_DESCRIPTOR :: byte where "REQ_PKT_REQ_CODE_GET_DESCRIPTOR = 0x06"
definition REQ_PKT_REQ_CODE_SET_CONFIGURATION :: byte where "REQ_PKT_REQ_CODE_SET_CONFIGURATION = 0x09"

section \<open>Words and bytes in memory\<close>

definition load16 :: "memory \<Rightarrow> u32 \<Rightarrow> u16" where
  "load16 m a = le16 (m a) (m (a + 1))"

definition store16 :: "u32 \<Rightarrow> u16 \<Rightarrow> memory \<Rightarrow> memory" where
  "store16 a v m = m(a := ucast v, a + 1 := ucast (drop_bit 8 v))"

definition store8 :: "u32 \<Rightarrow> byte \<Rightarrow> memory \<Rightarrow> memory" where
  "store8 a v m = m(a := v)"

definition mem_bytes :: "memory \<Rightarrow> u32 \<Rightarrow> nat \<Rightarrow> byte list" where
  "mem_bytes m a n = map (\<lambda>i. m (a + of_nat i)) [0..<n]"

fun put_bytes :: "u32 \<Rightarrow> byte list \<Rightarrow> memory \<Rightarrow> memory" where
  "put_bytes a [] m = m"
| "put_bytes a (b # bs) m = put_bytes (a + 1) bs (m(a := b))"

section \<open>Descriptors\<close>

record usb_standard_device_descriptor =
  dd_length :: byte
  dd_type :: byte
  dd_release_num :: u16
  dd_device_class :: byte
  dd_sub_class :: byte
  dd_protocol :: byte
  dd_max_packet_size :: byte
  dd_vendor_id :: u16
  dd_product_id :: u16
  dd_device_rel :: u16
  dd_manufacturer :: byte
  dd_product :: byte
  dd_serial_num :: byte
  dd_configurations :: byte

definition load_device_descriptor :: "memory \<Rightarrow> u32 \<Rightarrow> usb_standard_device_descriptor" where
  "load_device_descriptor m a =
     \<lparr>dd_length = m a, dd_type = m (a + 1), dd_release_num = load16 m (a + 2),
      dd_device_class = m (a + 4), dd_sub_class = m (a + 5), dd_protocol = m (a + 6),
      dd_max_packet_size = m (a + 7), dd_vendor_id = load16 m (a + 8), dd_product_id = load16 m (a + 10),
      dd_device_rel = load16 m (a + 12), dd_manufacturer = m (a + 14), dd_product = m (a + 15),
      dd_serial_num = m (a + 16), dd_configurations = m (a + 17)\<rparr>"

record usb_configuration_descriptor =
  cd_length :: byte
  cd_type :: byte
  cd_total_length :: u16
  cd_num_interfaces :: byte
  cd_config_val :: byte
  cd_config_string :: byte
  cd_attributes :: byte
  cd_max_power :: byte

definition load_configuration_descriptor :: "memory \<Rightarrow> u32 \<Rightarrow> usb_configuration_descriptor" where
  "load_configuration_descriptor m a =
     \<lparr>cd_length = m a, cd_type = m (a + 1), cd_total_length = load16 m (a + 2),
      cd_num_interfaces = m (a + 4), cd_config_val = m (a + 5), cd_config_string = m (a + 6),
      cd_attributes = m (a + 7), cd_max_power = m (a + 8)\<rparr>"

record usb_interface_descriptor =
  id_length :: byte
  id_type :: byte
  id_interface_number :: byte
  id_alternate_setting :: byte
  id_num_endpoints :: byte
  id_interface_class :: byte
  id_interface_subclass :: byte
  id_interface_protocol :: byte
  id_index :: byte

definition load_interface_descriptor :: "memory \<Rightarrow> u32 \<Rightarrow> usb_interface_descriptor" where
  "load_interface_descriptor m a =
     \<lparr>id_length = m a, id_type = m (a + 1), id_interface_number = m (a + 2),
      id_alternate_setting = m (a + 3), id_num_endpoints = m (a + 4), id_interface_class = m (a + 5),
      id_interface_subclass = m (a + 6), id_interface_protocol = m (a + 7), id_index = m (a + 8)\<rparr>"

record usb_endpoint_descriptor =
  ed_length :: byte
  ed_type :: byte
  ed_address :: byte
  ed_attributes :: byte
  ed_max_packet_size :: u16
  ed_interval :: byte

definition load_endpoint_descriptor :: "memory \<Rightarrow> u32 \<Rightarrow> usb_endpoint_descriptor" where
  "load_endpoint_descriptor m a =
     \<lparr>ed_length = m a, ed_type = m (a + 1), ed_address = m (a + 2), ed_attributes = m (a + 3),
      ed_max_packet_size = load16 m (a + 4), ed_interval = m (a + 6)\<rparr>"

record device_request_packet =
  request_type :: byte
  request :: byte
  req_value :: u16
  req_index :: u16
  req_length :: u16

definition load_packet :: "memory \<Rightarrow> u32 \<Rightarrow> device_request_packet" where
  "load_packet m a =
     \<lparr>request_type = m a, request = m (a + 1), req_value = load16 m (a + 2),
      req_index = load16 m (a + 4), req_length = load16 m (a + 6)\<rparr>"

definition store_packet :: "u32 \<Rightarrow> device_request_packet \<Rightarrow> memory \<Rightarrow> memory" where
  "store_packet a p m =
     store16 (a + 6) (req_length p) (store16 (a + 4) (req_index p) (store16 (a + 2) (req_value p)
       (store8 (a + 1) (request p) (store8 a (request_type p) m))))"

section \<open>Devices, controllers and transactions\<close>

text \<open>
  A pointer to a controller is its index in the array of controllers. The strings and the
  configuration descriptor inside a \<open>UsbDevice\<close>, which the controller and the decoder fill, are
  given by their addresses. The name of a controller, which only the messages show, is left out.
\<close>

record usb_device =
  ud_controller :: nat
  ud_port :: byte
  ud_address :: byte
  ud_descriptor :: usb_standard_device_descriptor
  ud_manufacturer :: u32
  ud_product :: u32
  ud_serial_num :: u32
  ud_configuration_descriptor :: u32

record uhci_controller =
  uc_id :: int
  uc_pci_device :: nat
  io_base :: u32
  stack_frame :: u32
  queue_default :: u32
  uc_devices :: "nat option list"

record usb_endpoint =
  ep_address :: byte
  ep_max_packet_size :: u16
  ep_toggle :: byte

datatype usb_txn_type = USB_TXNTYPE_CONTROL | USB_TXNTYPE_BULK_IN | USB_TXNTYPE_BULK_OUT

record usb_transaction =
  txn_type :: usb_txn_type
  txn_buffer :: u32
  txn_setup_packet :: u32
  txn_actual_length :: u32

record usb_bulk_transaction =
  bulk_endpoint :: usb_endpoint
  bulk_type :: usb_txn_type
  bulk_buffer :: u32
  bulk_length :: u32
  bulk_actual_length :: u32

section \<open>Transfer descriptors\<close>

text \<open>The bit fields of a transfer descriptor; the reserved ones are left out.\<close>

record transfer_descriptor =
  terminate :: bool
  qh_td_select :: bool
  depth_first :: bool
  link_pointer :: "28 word"
  actual_length :: "11 word"
  status_bitstuff_err :: bool
  status_crc_time_out_err :: bool
  status_nak_received :: bool
  status_babble_detected :: bool
  status_data_buffer_err :: bool
  status_stalled :: bool
  status_active :: bool
  interrupt_on_complete :: bool
  isochronous_select :: bool
  low_speed_device :: bool
  error_count :: "2 word"
  short_packet_detect :: bool
  packet_identification :: byte
  device_address :: "7 word"
  td_endpoint :: "4 word"
  data_toggle :: bool
  max_length :: "11 word"
  buffer_pointer :: u32

definition TD_PID_SETUP :: byte where "TD_PID_SETUP = 0x2D"
definition TD_PID_IN :: byte where "TD_PID_IN = 0x69"
definition TD_PID_OUT :: byte where "TD_PID_OUT = 0xE1"

text \<open>Bit fields, given from the lowest bit up with their widths, and the number they make up.\<close>

fun pack :: "(nat \<times> nat) list \<Rightarrow> nat" where
  "pack [] = 0"
| "pack ((w, v) # fs) = v mod 2 ^ w + 2 ^ w * pack fs"

fun unpack :: "nat list \<Rightarrow> nat \<Rightarrow> nat list" where
  "unpack [] n = []"
| "unpack (w # ws) n = n mod 2 ^ w # unpack ws (n div 2 ^ w)"

definition td_fields0 :: "transfer_descriptor \<Rightarrow> (nat \<times> nat) list" where
  "td_fields0 td = [(1, of_bool (terminate td)), (1, of_bool (qh_td_select td)), (1, of_bool (depth_first td)),
     (1, 0), (28, unat (link_pointer td))]"

definition td_fields1 :: "transfer_descriptor \<Rightarrow> (nat \<times> nat) list" where
  "td_fields1 td = [(11, unat (actual_length td)), (5, 0), (1, 0), (1, of_bool (status_bitstuff_err td)),
     (1, of_bool (status_crc_time_out_err td)), (1, of_bool (status_nak_received td)),
     (1, of_bool (status_babble_detected td)), (1, of_bool (status_data_buffer_err td)),
     (1, of_bool (status_stalled td)), (1, of_bool (status_active td)), (1, of_bool (interrupt_on_complete td)),
     (1, of_bool (isochronous_select td)), (1, of_bool (low_speed_device td)), (2, unat (error_count td)),
     (1, of_bool (short_packet_detect td)), (2, 0)]"

definition td_fields2 :: "transfer_descriptor \<Rightarrow> (nat \<times> nat) list" where
  "td_fields2 td = [(8, unat (packet_identification td)), (7, unat (device_address td)), (4, unat (td_endpoint td)),
     (1, of_bool (data_toggle td)), (1, 0), (11, unat (max_length td))]"

definition store_td :: "u32 \<Rightarrow> transfer_descriptor \<Rightarrow> memory \<Rightarrow> memory" where
  "store_td a td m =
     store32 (a + 12) (buffer_pointer td) (store32 (a + 8) (of_nat (pack (td_fields2 td)))
       (store32 (a + 4) (of_nat (pack (td_fields1 td))) (store32 a (of_nat (pack (td_fields0 td))) m)))"

definition decode_td :: "u32 \<Rightarrow> u32 \<Rightarrow> u32 \<Rightarrow> u32 \<Rightarrow> transfer_descriptor" where
  "decode_td w0 w1 w2 w3 =
     (let f = unpack [1, 1, 1, 1, 28] (unat w0);
          g = unpack [11, 5, 1, 1, 1, 1, 1, 1, 1, 1, 1, 1, 1, 2, 1, 2] (unat w1);
          k = unpack [8, 7, 4, 1, 1, 11] (unat w2)
      in \<lparr>terminate = f ! 0 = 1, qh_td_select = f ! 1 = 1, depth_first = f ! 2 = 1, link_pointer = of_nat (f ! 4),
          actual_length = of_nat (g ! 0), status_bitstuff_err = g ! 3 = 1, status_crc_time_out_err = g ! 4 = 1,
          status_nak_received = g ! 5 = 1, status_babble_detected = g ! 6 = 1, status_data_buffer_err = g ! 7 = 1,
          status_stalled = g ! 8 = 1, status_active = g ! 9 = 1, interrupt_on_complete = g ! 10 = 1,
          isochronous_select = g ! 11 = 1, low_speed_device = g ! 12 = 1, error_count = of_nat (g ! 13),
          short_packet_detect = g ! 14 = 1,
          packet_identification = of_nat (k ! 0), device_address = of_nat (k ! 1), td_endpoint = of_nat (k ! 2),
          data_toggle = k ! 3 = 1, max_length = of_nat (k ! 5), buffer_pointer = w3\<rparr>)"

definition load_td :: "memory \<Rightarrow> u32 \<Rightarrow> transfer_descriptor" where
  "load_td m a = decode_td (load32 m a) (load32 m (a + 4)) (load32 m (a + 8)) (load32 m (a + 12))"

text \<open>What \<open>memset\<close> leaves of a descriptor.\<close>

definition zero_td :: transfer_descriptor where
  "zero_td = decode_td 0 0 0 0"

section \<open>Facts about the layout\<close>

lemma unpack_pack: "unpack (map fst fs) (pack fs) = map (\<lambda>(w, v). v mod 2 ^ w) fs"
  by (induction fs rule: pack.induct) simp_all

lemma pack_less: "pack fs < 2 ^ sum_list (map fst fs)"
proof (induction fs rule: pack.induct)
  case (2 w v fs)
  have "v mod 2 ^ w < 2 ^ w" by simp
  moreover have "2 ^ w * (pack fs + 1) \<le> 2 ^ w * 2 ^ sum_list (map fst fs)"
    using 2 by (intro mult_le_mono2) simp
  ultimately have "v mod 2 ^ w + 2 ^ w * pack fs < 2 ^ w * 2 ^ sum_list (map fst fs)"
    by (rule_tac less_le_trans [of _ "2 ^ w + 2 ^ w * pack fs"]) simp_all
  then show ?case by (simp add: power_add)
qed simp

lemma unat_pack: "sum_list (map fst fs) = 32 \<Longrightarrow> unat (of_nat (pack fs) :: u32) = pack fs"
  using pack_less [of fs] by (simp add: unat_of_nat)

lemma apart [simp]: "(a :: u32) + numeral k = a + numeral l \<longleftrightarrow> (numeral k :: u32) = numeral l"
  "(a :: u32) + numeral k = a \<longleftrightarrow> (numeral k :: u32) = 0"
  "a = (a :: u32) + numeral k \<longleftrightarrow> (numeral k :: u32) = 0"
  "(a :: u32) + 1 = a + numeral l \<longleftrightarrow> (1 :: u32) = numeral l"
  "(a :: u32) + numeral l = a + 1 \<longleftrightarrow> numeral l = (1 :: u32)"
  by (simp_all add: eq_commute)

lemma load32_store32 [simp]: "load32 (store32 a v m) a = v"
  by (simp add: load32_def store32_def le32_bytes_of)

lemma load32_store32_other:
  assumes "{a, a + 1, a + 2, a + 3} \<inter> {b, b + 1, b + 2, b + 3} = {}"
  shows "load32 (store32 b v m) a = load32 m a"
  using assms by (auto simp: load32_def store32_def)

lemma field_words:
  "of_nat (unat (w :: 28 word) mod 2 ^ 28) = w" "of_nat (unat (x :: 11 word) mod 2 ^ 11) = x"
  "of_nat (unat (t :: 2 word) mod 2 ^ 2) = t" "of_nat (unat (p :: byte) mod 2 ^ 8) = p"
  "of_nat (unat (d :: 7 word) mod 2 ^ 7) = d" "of_nat (unat (e :: 4 word) mod 2 ^ 4) = e"
  using unat_lt_pow [of w] unat_lt_pow [of x] unat_lt_pow [of t] unat_lt_pow [of p] unat_lt_pow [of d]
    unat_lt_pow [of e] by simp_all

lemma nth_second: "(x # y # xs) ! 1 = y"
  by simp

lemma field_flag: "of_bool b mod 2 ^ 1 = (1 :: nat) \<longleftrightarrow> b"
  by simp

lemma unat_td_fields:
  "unat (of_nat (pack (td_fields0 td)) :: u32) = pack (td_fields0 td)"
  "unat (of_nat (pack (td_fields1 td)) :: u32) = pack (td_fields1 td)"
  "unat (of_nat (pack (td_fields2 td)) :: u32) = pack (td_fields2 td)"
  by (rule unat_pack, simp add: td_fields0_def td_fields1_def td_fields2_def)+

lemma decode_pack:
  "decode_td (of_nat (pack (td_fields0 td))) (of_nat (pack (td_fields1 td))) (of_nat (pack (td_fields2 td)))
     (buffer_pointer td) = td"
proof -
  have widths: "map fst (td_fields0 td) = [1, 1, 1, 1, 28]"
    "map fst (td_fields1 td) = [11, 5, 1, 1, 1, 1, 1, 1, 1, 1, 1, 1, 1, 2, 1, 2]"
    "map fst (td_fields2 td) = [8, 7, 4, 1, 1, 11]"
    by (simp_all add: td_fields0_def td_fields1_def td_fields2_def)
  note fields = unpack_pack [of "td_fields0 td", unfolded widths] unpack_pack [of "td_fields1 td", unfolded widths]
    unpack_pack [of "td_fields2 td", unfolded widths]
  have before: "2 - 1 = (1 :: nat)" "3 - 1 = (2 :: nat)" "4 - 1 = (3 :: nat)" "5 - 1 = (4 :: nat)" "6 - 1 = (5 :: nat)" "7 - 1 = (6 :: nat)" "8 - 1 = (7 :: nat)" 
    "9 - 1 = (8 :: nat)" "10 - 1 = (9 :: nat)" "11 - 1 = (10 :: nat)" "12 - 1 = (11 :: nat)" "13 - 1 = (12 :: nat)" "14 - 1 = (13 :: nat)"
    by simp_all
  show ?thesis
    unfolding decode_td_def unat_td_fields fields Let_def
    by (simp only: td_fields0_def td_fields1_def td_fields2_def list.map prod.case nth_Cons_0 nth_Cons_numeral
      nth_second before field_words field_flag) simp
qed

lemma store32_outside [simp]:
  "x \<notin> {b, b + 1, b + 2, b + 3} \<Longrightarrow> store32 b v m x = m x"
  by (auto simp: store32_def)

lemma load_store_td: "load_td (store_td a td m) a = td"
proof -
  have "load_td (store_td a td m) a = decode_td (of_nat (pack (td_fields0 td))) (of_nat (pack (td_fields1 td)))
      (of_nat (pack (td_fields2 td))) (buffer_pointer td)"
    by (simp add: load_td_def store_td_def load32_store32_other add.assoc)
  then show ?thesis by (simp only: decode_pack)
qed

lemma small_fields:
  "unat (w :: 28 word) mod 2 ^ 28 = unat w" "unat (x :: 11 word) mod 2 ^ 11 = unat x"
  "unat (t :: 2 word) mod 2 ^ 2 = unat t" "unat (p :: byte) mod 2 ^ 8 = unat p"
  "unat (d :: 7 word) mod 2 ^ 7 = unat d" "unat (e :: 4 word) mod 2 ^ 4 = unat e"
  "of_bool b mod 2 ^ 1 = (of_bool b :: nat)" "0 mod 2 ^ k = (0 :: nat)"
  using unat_lt_pow [of w] unat_lt_pow [of x] unat_lt_pow [of t] unat_lt_pow [of p] unat_lt_pow [of d]
    unat_lt_pow [of e] by simp_all

lemma store_td_dwords:
  "load32 (store_td a td m) a = of_nat (pack (td_fields0 td))"
  "load32 (store_td a td m) (a + 4) = of_nat (pack (td_fields1 td))"
  "load32 (store_td a td m) (a + 8) = of_nat (pack (td_fields2 td))"
  "load32 (store_td a td m) (a + 12) = buffer_pointer td"
  by (simp_all add: store_td_def load32_store32_other add.assoc)

lemma td_dword_values:
  "pack (td_fields0 td) = of_bool (terminate td) + 2 * of_bool (qh_td_select td) + 4 * of_bool (depth_first td) +
     16 * unat (link_pointer td)"
  "pack (td_fields1 td) = unat (actual_length td) + 2 ^ 17 * of_bool (status_bitstuff_err td) +
     2 ^ 18 * of_bool (status_crc_time_out_err td) + 2 ^ 19 * of_bool (status_nak_received td) +
     2 ^ 20 * of_bool (status_babble_detected td) + 2 ^ 21 * of_bool (status_data_buffer_err td) +
     2 ^ 22 * of_bool (status_stalled td) + 2 ^ 23 * of_bool (status_active td) +
     2 ^ 24 * of_bool (interrupt_on_complete td) + 2 ^ 25 * of_bool (isochronous_select td) +
     2 ^ 26 * of_bool (low_speed_device td) + 2 ^ 27 * unat (error_count td) + 2 ^ 29 * of_bool (short_packet_detect td)"
  "pack (td_fields2 td) = unat (packet_identification td) + 2 ^ 8 * unat (device_address td) +
     2 ^ 15 * unat (td_endpoint td) + 2 ^ 19 * of_bool (data_toggle td) + 2 ^ 21 * unat (max_length td)"
  unfolding td_fields0_def td_fields1_def td_fields2_def pack.simps small_fields
  by (simp_all add: algebra_simps)

text \<open>
  C40: The bit fields of \<open>TransferDescriptor\<close> lie where the UHCI specification has them (the number of
  each dword is given, so that for example the active bit is bit 23 of the second), and a
  descriptor read back from memory is the one that was stored.
\<close>

theorem transfer_descriptor_layout:
  "load_td (store_td a td m) a = td \<and>
   unat (load32 (store_td a td m) a) = of_bool (terminate td) + 2 * of_bool (qh_td_select td) +
     4 * of_bool (depth_first td) + 16 * unat (link_pointer td) \<and>
   unat (load32 (store_td a td m) (a + 4)) = unat (actual_length td) + 2 ^ 17 * of_bool (status_bitstuff_err td) +
     2 ^ 18 * of_bool (status_crc_time_out_err td) + 2 ^ 19 * of_bool (status_nak_received td) +
     2 ^ 20 * of_bool (status_babble_detected td) + 2 ^ 21 * of_bool (status_data_buffer_err td) +
     2 ^ 22 * of_bool (status_stalled td) + 2 ^ 23 * of_bool (status_active td) +
     2 ^ 24 * of_bool (interrupt_on_complete td) + 2 ^ 25 * of_bool (isochronous_select td) +
     2 ^ 26 * of_bool (low_speed_device td) + 2 ^ 27 * unat (error_count td) + 2 ^ 29 * of_bool (short_packet_detect td) \<and>
   unat (load32 (store_td a td m) (a + 8)) = unat (packet_identification td) + 2 ^ 8 * unat (device_address td) +
     2 ^ 15 * unat (td_endpoint td) + 2 ^ 19 * of_bool (data_toggle td) + 2 ^ 21 * unat (max_length td) \<and>
   load32 (store_td a td m) (a + 12) = buffer_pointer td"
  unfolding load_store_td store_td_dwords unat_td_fields by (simp only: td_dword_values simp_thms)

end
