(* ===== verification/Uhci.thy ===== *)
theory Uhci
  imports UsbData Pci
begin

text \<open>
  The host controller driver \<open>drivers/bus/usb/uhci.c\<close>: the reset of controllers and ports, and the
  transactions, each a chain of transfer descriptors hung into the queue of the controller. The
  controller reads and writes the memory on its own while the driver waits: what it does in a
  millisecond is a parameter.
\<close>

section \<open>The machine the driver runs on\<close>

text \<open>
  \<open>'d\<close> is the state of the bus and of what is plugged into it. \<open>frame\<close> is one frame of the bus: from
  the accesses to the ports so far, the state of the bus and the memory to the next two. The addresses are those of the array
  \<open>usb_devices\<close> and of the buffer \<open>uhci_get_string_descriptor\<close> has on the stack.
\<close>

record 'd usb_hw =
  ports_of :: device
  frame :: "history \<Rightarrow> 'd \<times> memory \<Rightarrow> 'd \<times> memory"
  usb_devices_at :: u32
  utf16buf_at :: u32

record 'd usb_state =
  hp :: heap
  mem :: memory
  ports :: history
  usb_bus :: 'd
  uhci_controllers :: "uhci_controller list"
  uhci_controller_count :: nat
  usb_devices :: "usb_device list"
  usb_device_count :: nat

definition run_frame :: "'d usb_hw \<Rightarrow> 'd usb_state \<Rightarrow> 'd usb_state" where
  "run_frame hw st =
     (let (d, m) = frame hw (ports st) (usb_bus st, mem st)
      in st\<lparr>ports := Tick # ports st, usb_bus := d, mem := m\<rparr>)"

text \<open>\<open>delay\<close>: one frame of the bus in each millisecond.\<close>

definition usb_delay :: "'d usb_hw \<Rightarrow> nat \<Rightarrow> 'd usb_state \<Rightarrow> 'd usb_state" where
  "usb_delay hw ms = run_frame hw ^^ ms"

definition out16 :: "u32 \<Rightarrow> u16 \<Rightarrow> 'd usb_state \<Rightarrow> 'd usb_state" where
  "out16 p v st = st\<lparr>ports := port_word_out (ucast p) v (ports st)\<rparr>"

definition out32 :: "u32 \<Rightarrow> u32 \<Rightarrow> 'd usb_state \<Rightarrow> 'd usb_state" where
  "out32 p v st = st\<lparr>ports := port_long_out (ucast p) v (ports st)\<rparr>"

definition in16 :: "'d usb_hw \<Rightarrow> u32 \<Rightarrow> 'd usb_state \<Rightarrow> u16 \<times> 'd usb_state" where
  "in16 hw p st = (let (v, h) = port_word_in (ports_of hw) (ucast p) (ports st) in (v, st\<lparr>ports := h\<rparr>))"

definition in8 :: "'d usb_hw \<Rightarrow> u32 \<Rightarrow> 'd usb_state \<Rightarrow> byte \<times> 'd usb_state" where
  "in8 hw p st = (let (v, h) = port_byte_in (ports_of hw) (ucast p) (ports st) in (v, st\<lparr>ports := h\<rparr>))"

definition with_mem :: "(memory \<Rightarrow> memory) \<Rightarrow> 'd usb_state \<Rightarrow> 'd usb_state" where
  "with_mem f st = st\<lparr>mem := f (mem st)\<rparr>"

definition alloc :: "u32 \<Rightarrow> u32 \<Rightarrow> 'd usb_state \<Rightarrow> u32 \<times> 'd usb_state" where
  "alloc alignment sz st = (let (a, hp') = memalign alignment sz (hp st) in (a, st\<lparr>hp := hp'\<rparr>))"

section \<open>Registers\<close>

definition MAX_CONTROLLERS :: nat where "MAX_CONTROLLERS = 16"
definition RESET_TIMEOUT :: nat where "RESET_TIMEOUT = 50"
definition PORT_ENABLE_TIMEOUT :: nat where "PORT_ENABLE_TIMEOUT = 50"
definition PCI_CLASS_SERIAL_BUS :: byte where "PCI_CLASS_SERIAL_BUS = 0x0C"
definition PCI_SUBCLASS_USB :: byte where "PCI_SUBCLASS_USB = 0x03"
definition PCI_PROG_IF_UHCI :: byte where "PCI_PROG_IF_UHCI = 0x00"
definition ERR_NO_DEVICE :: int where "ERR_NO_DEVICE = -2"

definition REG_USB_COMMAND :: u32 where "REG_USB_COMMAND = 0x00"
definition REG_USB_STATUS :: u32 where "REG_USB_STATUS = 0x02"
definition REG_USB_INTERRUPT_ENABLE :: u32 where "REG_USB_INTERRUPT_ENABLE = 0x04"
definition REG_FRAME_NUM :: u32 where "REG_FRAME_NUM = 0x06"
definition REG_FRBASEADD :: u32 where "REG_FRBASEADD = 0x08"
definition REG_SOFMOD :: u32 where "REG_SOFMOD = 0x0C"
definition REG_PORTSC1 :: byte where "REG_PORTSC1 = 0x10"
definition REG_PORTSC2 :: byte where "REG_PORTSC2 = 0x12"

definition USBCMD_GLOBAL_RESET :: u16 where "USBCMD_GLOBAL_RESET = 0x0004"
definition USBCMD_HCRESET :: u16 where "USBCMD_HCRESET = 0x0002"
definition USBCMD_RUN_STOP :: u16 where "USBCMD_RUN_STOP = 0x0001"

definition PORTSC_PORT_RESET :: u16 where "PORTSC_PORT_RESET = 0x0200"
definition PORTSC_LOW_SPEED_DEVICE :: u16 where "PORTSC_LOW_SPEED_DEVICE = 0x0100"
definition PORTSC_PORT_ENABLE_CHANGED :: u16 where "PORTSC_PORT_ENABLE_CHANGED = 0x0008"
definition PORTSC_PORT_ENABLED :: u16 where "PORTSC_PORT_ENABLED = 0x0004"
definition PORTSC_CONNECT_STATUS_CHANGE :: u16 where "PORTSC_CONNECT_STATUS_CHANGE = 0x0002"
definition PORTSC_CURRENT_CONNECT_STATUS :: u16 where "PORTSC_CURRENT_CONNECT_STATUS = 0x0001"

definition port_reg :: "uhci_controller \<Rightarrow> byte \<Rightarrow> u32" where
  "port_reg c p = io_base c + ucast (if p = 1 then REG_PORTSC1 else REG_PORTSC2)"

definition read_port_sc :: "'d usb_hw \<Rightarrow> uhci_controller \<Rightarrow> byte \<Rightarrow> 'd usb_state \<Rightarrow> u16 \<times> 'd usb_state" where
  "read_port_sc hw c p st = in16 hw (port_reg c p) st"

definition write_port_sc :: "uhci_controller \<Rightarrow> byte \<Rightarrow> u16 \<Rightarrow> 'd usb_state \<Rightarrow> 'd usb_state" where
  "write_port_sc c p data st = out16 (port_reg c p) data st"

section \<open>Resetting\<close>

fun reset_wait :: "'d usb_hw \<Rightarrow> uhci_controller \<Rightarrow> nat \<Rightarrow> 'd usb_state \<Rightarrow> int \<times> 'd usb_state" where
  "reset_wait hw c 0 st = (FAILURE, st)"
| "reset_wait hw c (Suc n) st =
     (let (v, st) = in16 hw (io_base c + REG_USB_COMMAND) st
      in if v AND USBCMD_HCRESET = 0 then (SUCCESS, st) else reset_wait hw c n (usb_delay hw 1 st))"

definition uhci_controller_reset :: "'d usb_hw \<Rightarrow> uhci_controller \<Rightarrow> 'd usb_state \<Rightarrow> int \<times> 'd usb_state" where
  "uhci_controller_reset hw c st =
     reset_wait hw c RESET_TIMEOUT (out16 (io_base c + REG_USB_COMMAND) USBCMD_HCRESET st)"

fun enable_wait :: "'d usb_hw \<Rightarrow> uhci_controller \<Rightarrow> byte \<Rightarrow> nat \<Rightarrow> 'd usb_state \<Rightarrow> int \<times> 'd usb_state" where
  "enable_wait hw c p 0 st = (FAILURE, st)"
| "enable_wait hw c p (Suc n) st =
     (let (v, st) = in16 hw (port_reg c p) st
      in if v AND PORTSC_PORT_ENABLED \<noteq> 0 then (SUCCESS, st)
         else enable_wait hw c p n (usb_delay hw 1 (out16 (port_reg c p) (v OR PORTSC_PORT_ENABLED) st)))"

definition uhci_reset_port :: "'d usb_hw \<Rightarrow> uhci_controller \<Rightarrow> byte \<Rightarrow> 'd usb_state \<Rightarrow> int \<times> 'd usb_state" where
  "uhci_reset_port hw c p st =
     (let (v, st) = in16 hw (port_reg c p) st
      in if v AND PORTSC_CURRENT_CONNECT_STATUS = 0 then (ERR_NO_DEVICE, st)
         else
           let v = v OR PORTSC_CONNECT_STATUS_CHANGE OR PORTSC_PORT_ENABLE_CHANGED;
               st = out16 (port_reg c p) v st;
               (v, st) = in16 hw (port_reg c p) st;
               st = usb_delay hw 50 (out16 (port_reg c p) (v OR PORTSC_PORT_RESET) st);
               st = usb_delay hw 10 (out16 (port_reg c p) (v AND NOT PORTSC_PORT_RESET) st);
               v = v OR PORTSC_CONNECT_STATUS_CHANGE OR PORTSC_PORT_ENABLE_CHANGED;
               st = out16 (port_reg c p) v st
           in enable_wait hw c p PORT_ENABLE_TIMEOUT st)"

section \<open>Waiting for a transfer\<close>

fun transfer_wait :: "'d usb_hw \<Rightarrow> u32 \<Rightarrow> nat \<Rightarrow> 'd usb_state \<Rightarrow> bool \<times> 'd usb_state" where
  "transfer_wait hw td 0 st = (False, st)"
| "transfer_wait hw td (Suc n) st =
     (if \<not> status_active (load_td (mem st) td) then (True, usb_delay hw 50 st)
      else transfer_wait hw td n (usb_delay hw 1 st))"

definition set_element :: "uhci_controller \<Rightarrow> u32 \<Rightarrow> 'd usb_state \<Rightarrow> 'd usb_state" where
  "set_element c v = with_mem (store32 (queue_default c + 4) v)"

definition wait_for_transfer ::
  "'d usb_hw \<Rightarrow> uhci_controller \<Rightarrow> u32 \<Rightarrow> u16 \<Rightarrow> 'd usb_state \<Rightarrow> int \<times> 'd usb_state" where
  "wait_for_transfer hw c td timeout st =
     (let (finished, st) = transfer_wait hw td (unat timeout) st;
          st = usb_delay hw 2 (set_element c 0x01 st)
      in (if finished then SUCCESS else FAILURE, st))"

section \<open>Chains of transfer descriptors\<close>

definition td_at :: "u32 \<Rightarrow> nat \<Rightarrow> u32" where
  "td_at tds i = tds + 32 * of_nat i"

definition link_to :: "u32 \<Rightarrow> 28 word" where
  "link_to a = ucast (drop_bit 4 a)"

definition plain_td :: "bool \<Rightarrow> byte \<Rightarrow> transfer_descriptor" where
  "plain_td low adr = zero_td\<lparr>depth_first := True, error_count := 3, device_address := ucast adr,
     low_speed_device := low, status_active := True\<rparr>"

definition setup_td :: "bool \<Rightarrow> byte \<Rightarrow> u32 \<Rightarrow> u32 \<Rightarrow> transfer_descriptor" where
  "setup_td low adr next_td packet = (plain_td low adr)\<lparr>link_pointer := link_to next_td, max_length := 7,
     data_toggle := False, packet_identification := TD_PID_SETUP, buffer_pointer := packet\<rparr>"

definition data_td ::
  "bool \<Rightarrow> byte \<Rightarrow> u32 \<Rightarrow> 11 word \<Rightarrow> bool \<Rightarrow> byte \<Rightarrow> u32 \<Rightarrow> transfer_descriptor" where
  "data_td low adr next_td len tog pid buf = (plain_td low adr)\<lparr>link_pointer := link_to next_td, max_length := len,
     data_toggle := tog, packet_identification := pid, buffer_pointer := buf\<rparr>"

definition status_td :: "bool \<Rightarrow> byte \<Rightarrow> byte \<Rightarrow> transfer_descriptor" where
  "status_td low adr pid = (plain_td low adr)\<lparr>link_pointer := 0, max_length := 0x7FF, data_toggle := True,
     packet_identification := pid, buffer_pointer := 0, interrupt_on_complete := False, terminate := True\<rparr>"

text \<open>Memory for \<open>n\<close> descriptors, cleared.\<close>

definition alloc_tds :: "u32 \<Rightarrow> 'd usb_state \<Rightarrow> u32 \<times> 'd usb_state" where
  "alloc_tds n st =
     (let (tds, st) = alloc 16 (n * 32) st in (tds, with_mem (memset tds 0 (n * 32)) st))"

definition put_td :: "u32 \<Rightarrow> nat \<Rightarrow> transfer_descriptor \<Rightarrow> 'd usb_state \<Rightarrow> 'd usb_state" where
  "put_td tds i td = with_mem (store_td (td_at tds i) td)"

definition run_chain ::
  "'d usb_hw \<Rightarrow> uhci_controller \<Rightarrow> u32 \<Rightarrow> u32 \<Rightarrow> u16 \<Rightarrow> 'd usb_state \<Rightarrow> int \<times> 'd usb_state" where
  "run_chain hw c tds last_td timeout st =
     wait_for_transfer hw c last_td timeout (set_element c tds st)"

definition new_packet :: "device_request_packet \<Rightarrow> 'd usb_state \<Rightarrow> u32 \<times> 'd usb_state" where
  "new_packet p st = (let (a, st) = alloc 16 8 st in (a, with_mem (store_packet a p) st))"

text \<open>The registers that the print-out of the driver's status reads.\<close>

definition print_driver_status :: "'d usb_hw \<Rightarrow> uhci_controller \<Rightarrow> 'd usb_state \<Rightarrow> 'd usb_state" where
  "print_driver_status hw c st =
     (let st = fold (\<lambda>r st. snd (in16 hw (io_base c + r) st))
            [REG_USB_COMMAND, REG_USB_STATUS, REG_USB_INTERRUPT_ENABLE, REG_FRAME_NUM] st;
          st = st\<lparr>ports := snd (port_long_in (ports_of hw) (ucast (io_base c + REG_FRBASEADD)) (ports st))\<rparr>
      in fold (\<lambda>r st. snd (in16 hw (io_base c + r) st)) [REG_SOFMOD, ucast REG_PORTSC1, ucast REG_PORTSC2] st)"

section \<open>Control transactions\<close>

definition low_speed :: "u16 \<Rightarrow> bool" where
  "low_speed port_sc \<longleftrightarrow> port_sc AND PORTSC_LOW_SPEED_DEVICE \<noteq> 0"

definition packets_for :: "nat \<Rightarrow> nat \<Rightarrow> nat" where
  "packets_for len size1 = len div size1 + (if len mod size1 \<noteq> 0 then 1 else 0)"

definition uhci_execute_transaction ::
  "'d usb_hw \<Rightarrow> uhci_controller \<Rightarrow> usb_device \<Rightarrow> usb_transaction \<Rightarrow> 'd usb_state \<Rightarrow>
     (int \<times> usb_transaction \<times> 'd usb_state) option" where
  "uhci_execute_transaction hw c dv txn st =
     (let (port_sc, st) = read_port_sc hw c (ud_port dv) st;
          low = low_speed port_sc;
          max_packet_size = dd_max_packet_size (ud_descriptor dv);
          len = unat (req_length (load_packet (mem st) (txn_setup_packet txn)))
      in if max_packet_size = 0 then None
         else
           let num_setup = (if txn_type txn = USB_TXNTYPE_CONTROL then 1 else 0);
               num_data = packets_for len (unat max_packet_size);
               num_packets = num_setup + num_data + 1;
               (tds, st) = alloc_tds (of_nat num_packets) st;
               st = (if num_setup = 1
                     then put_td tds 0 (setup_td low (ud_address dv) (tds + 0x20) (txn_setup_packet txn)) st else st);
               st = fold (\<lambda>i. put_td tds i (data_td low (ud_address dv) (td_at tds (i + 1)) (ucast (max_packet_size - 1))
                       (odd i) TD_PID_IN (txn_buffer txn + 8 * (of_nat i - 1)))) [num_setup..<num_packets - 1] st;
               st = put_td tds (num_packets - 1)
                      (status_td low (ud_address dv) (if num_data > 0 then TD_PID_OUT else TD_PID_IN)) st;
               (r, st) = run_chain hw c tds (td_at tds (num_packets - 1)) 500 st
           in if r < 0 then Some (FAILURE, txn, print_driver_status hw c st)
              else
                let got = fold (\<lambda>i n. n + (ucast (actual_length (load_td (mem st) (td_at tds (i + num_setup)))) + 1))
                            [0..<num_data] 0
                in Some (SUCCESS, txn\<lparr>txn_actual_length := got\<rparr>, st))"

definition uhci_set_address :: "'d usb_hw \<Rightarrow> uhci_controller \<Rightarrow> byte \<Rightarrow> byte \<Rightarrow> 'd usb_state \<Rightarrow> int \<times> 'd usb_state" where
  "uhci_set_address hw c p dev_id st =
     (let (port_sc, st) = read_port_sc hw c p st;
          low = low_speed port_sc;
          (packet, st) = new_packet \<lparr>request_type = REQ_PKT_DIR_HOST_TO_DEVICE,
            request = REQ_PKT_REQ_CODE_SET_ADDRESS, req_value = ucast dev_id, req_index = 0, req_length = 0\<rparr> st;
          (tds, st) = alloc_tds 2 st;
          st = put_td tds 0 (setup_td low 0 (tds + 0x20) packet) st;
          st = put_td tds 1 (status_td low 0 TD_PID_IN) st;
          (r, st) = run_chain hw c tds (td_at tds 1) 2000 st
      in if r < 0 then (FAILURE, st) else (SUCCESS, usb_delay hw 50 st))"

text \<open>The device descriptor: as much as comes in one packet first, then, if that was not all, all of it.\<close>

definition descriptor_packet :: "byte \<Rightarrow> byte \<Rightarrow> u16 \<Rightarrow> u16 \<Rightarrow> device_request_packet" where
  "descriptor_packet type index1 language len =
     \<lparr>request_type = REQ_PKT_DIR_DEVICE_TO_HOST, request = REQ_PKT_REQ_CODE_GET_DESCRIPTOR,
      req_value = push_bit 8 (ucast type) + ucast index1, req_index = language, req_length = len\<rparr>"

definition first_descriptor_read ::
  "'d usb_hw \<Rightarrow> uhci_controller \<Rightarrow> bool \<Rightarrow> u32 \<Rightarrow> u32 \<Rightarrow> 'd usb_state \<Rightarrow> int \<times> u32 \<times> 'd usb_state" where
  "first_descriptor_read hw c low packet buf st =
     (let initial_length = (if low then 8 else 64);
          (tds, st) = alloc_tds 3 st;
          st = put_td tds 0 (setup_td low 0 (tds + 0x20) packet) st;
          st = put_td tds 1 (data_td low 0 (tds + 0x40) (initial_length - 1) True TD_PID_IN buf) st;
          st = put_td tds 2 (status_td low 0 TD_PID_OUT) st;
          (r, st) = run_chain hw c tds (td_at tds 2) 2000 st
      in (r, tds, st))"

definition full_descriptor_read ::
  "'d usb_hw \<Rightarrow> uhci_controller \<Rightarrow> bool \<Rightarrow> u32 \<Rightarrow> u32 \<Rightarrow> nat \<Rightarrow> 'd usb_state \<Rightarrow> int \<times> 'd usb_state" where
  "full_descriptor_read hw c low packet buf full_length st =
     (let num_packets = 2 + packets_for full_length 8;
          (tds, st) = alloc_tds (of_nat num_packets) st;
          st = put_td tds 0 (setup_td low 0 (td_at tds 1) packet) st;
          st = fold (\<lambda>i. put_td tds i (data_td low 0 (td_at tds (i + 1)) 7 (odd i) TD_PID_IN
                 (buf + 8 * (of_nat i - 1)))) [1..<num_packets - 1] st;
          st = put_td tds (num_packets - 1) (status_td low 0 TD_PID_OUT) st;
          (r, st) = run_chain hw c tds (td_at tds (num_packets - 1)) 2000 st
      in (if r < 0 then FAILURE else SUCCESS, st))"

definition uhci_get_device_descriptor ::
  "'d usb_hw \<Rightarrow> uhci_controller \<Rightarrow> byte \<Rightarrow> u32 \<Rightarrow> 'd usb_state \<Rightarrow> int \<times> 'd usb_state" where
  "uhci_get_device_descriptor hw c p buf st =
     (let (port_sc, st) = read_port_sc hw c p st;
          low = low_speed port_sc;
          (packet, st) = new_packet (descriptor_packet DESCRIPTOR_DEVICE 0 0 (if low then 8 else 64)) st;
          (r, tds, st) = first_descriptor_read hw c low packet buf st
      in if r < 0 then (FAILURE, st)
         else
           let got = unat (actual_length (load_td (mem st) (td_at tds 1)));
               full_length = unat (dd_length (load_device_descriptor (mem st) buf))
           in if got > 7 \<and> got + 1 = full_length then (SUCCESS, st)
              else
                let st = with_mem (store_packet packet
                           (descriptor_packet DESCRIPTOR_DEVICE 0 0 (of_nat full_length))) st
                in full_descriptor_read hw c low packet buf full_length st)"

section \<open>Bulk transactions\<close>

definition bulk_td ::
  "bool \<Rightarrow> byte \<Rightarrow> usb_bulk_transaction \<Rightarrow> byte \<Rightarrow> byte \<Rightarrow> u32 \<Rightarrow> int \<Rightarrow> nat \<Rightarrow> byte \<Rightarrow> transfer_descriptor" where
  "bulk_td low adr txn pid max_packet_size tds num_packets i tog =
     (let is_last = int i = num_packets - 1;
          rest = bulk_length txn mod ucast max_packet_size;
          len = (if rest \<noteq> 0 \<and> is_last then ucast rest - 1 else max_packet_size - 1) :: byte
      in (plain_td low adr)\<lparr>link_pointer := (if is_last then 0 else link_to (td_at tds (i + 1))), terminate := is_last,
           td_endpoint := ucast (ep_address (bulk_endpoint txn)), max_length := ucast len, data_toggle := bit tog 0,
           packet_identification := pid, buffer_pointer := bulk_buffer txn + ucast max_packet_size * of_nat i\<rparr>)"

definition put_bulk_tds ::
  "bool \<Rightarrow> byte \<Rightarrow> usb_bulk_transaction \<Rightarrow> byte \<Rightarrow> byte \<Rightarrow> u32 \<Rightarrow> int \<Rightarrow> byte \<times> 'd usb_state \<Rightarrow> byte \<times> 'd usb_state" where
  "put_bulk_tds low adr txn pid max_packet_size tds num_packets =
     fold (\<lambda>i (tog, st). (1 - tog, put_td tds i (bulk_td low adr txn pid max_packet_size tds num_packets i tog) st))
       [0..<nat num_packets]"

text \<open>The chain, hung into the queue: where it is, its length, the toggle bit after it and the new state.\<close>

definition prepare_bulk ::
  "'d usb_hw \<Rightarrow> uhci_controller \<Rightarrow> usb_device \<Rightarrow> usb_bulk_transaction \<Rightarrow> byte \<Rightarrow> 'd usb_state \<Rightarrow>
     u32 \<times> int \<times> byte \<times> 'd usb_state" where
  "prepare_bulk hw c dv txn max_packet_size st =
     (let pid = (if bulk_type txn = USB_TXNTYPE_BULK_IN then TD_PID_IN else TD_PID_OUT);
          (port_sc, st) = read_port_sc hw c (ud_port dv) st;
          num_packets = sint (bulk_length txn div ucast max_packet_size)
            + (if bulk_length txn mod ucast max_packet_size \<noteq> 0 then 1 else 0);
          (tds, st) = alloc_tds (of_int num_packets) st;
          (tog, st) = put_bulk_tds (low_speed port_sc) (ud_address dv) txn pid max_packet_size tds num_packets
                        (ep_toggle (bulk_endpoint txn), st)
      in (tds, num_packets, tog, set_element c tds st))"

definition uhci_execute_bulk_transaction ::
  "'d usb_hw \<Rightarrow> uhci_controller \<Rightarrow> usb_device \<Rightarrow> usb_bulk_transaction \<Rightarrow> 'd usb_state \<Rightarrow>
     (int \<times> usb_bulk_transaction \<times> 'd usb_state) option" where
  "uhci_execute_bulk_transaction hw c dv txn st =
     (let txn = txn\<lparr>bulk_actual_length := 0\<rparr>;
          max_packet_size = ucast (ep_max_packet_size (bulk_endpoint txn)) :: byte
      in if bulk_type txn = USB_TXNTYPE_CONTROL then Some (FAILURE, txn, st)
         else if max_packet_size = 0 then None
         else
           let (tds, num_packets, tog, st) = prepare_bulk hw c dv txn max_packet_size st;
               txn = txn\<lparr>bulk_endpoint := (bulk_endpoint txn)\<lparr>ep_toggle := tog\<rparr>\<rparr>;
               (r, st) = wait_for_transfer hw c (tds + 32 * (of_int num_packets - 1)) 1000 st
           in if r < 0 then Some (FAILURE, txn, print_driver_status hw c st)
              else if actual_length (load_td (mem st) tds) = 0x7FF
              then Some (FAILURE, txn, print_driver_status hw c st)
              else
                let got = fold (\<lambda>i n. n + (ucast (actual_length (load_td (mem st) (td_at tds i))) + 1))
                            [0..<nat num_packets] 0
                in Some (SUCCESS, txn\<lparr>bulk_actual_length := got\<rparr>, usb_delay hw 50 st))"

section \<open>Facts about waiting\<close>

lemma usb_delay_0 [simp]: "usb_delay hw 0 st = st"
  by (simp add: usb_delay_def)

lemma usb_delay_1 [simp]: "usb_delay hw (Suc 0) st = run_frame hw st"
  by (simp add: usb_delay_def)

lemma usb_delay_Suc: "usb_delay hw (Suc k) st = usb_delay hw k (run_frame hw st)"
  by (simp add: usb_delay_def funpow_swap1)

lemma transfer_wait_done:
  assumes "k < n" and "\<forall>j < k. status_active (load_td (mem (usb_delay hw j st)) td)"
    and "\<not> status_active (load_td (mem (usb_delay hw k st)) td)"
  shows "transfer_wait hw td n st = (True, usb_delay hw 50 (usb_delay hw k st))"
  using assms
proof (induction n arbitrary: k st)
  case (Suc n)
  show ?case
  proof (cases k)
    case 0
    with Suc.prems show ?thesis by simp
  next
    case (Suc i)
    have "status_active (load_td (mem st) td)" using Suc Suc.prems(2) by force
    moreover have "transfer_wait hw td n (run_frame hw st) = (True, usb_delay hw 50 (usb_delay hw i (run_frame hw st)))"
    proof (rule Suc.IH)
      show "i < n" using Suc Suc.prems(1) by simp
      show "\<forall>j < i. status_active (load_td (mem (usb_delay hw j (run_frame hw st))) td)"
        using Suc Suc.prems(2) usb_delay_Suc [of hw _ st] by fastforce
      show "\<not> status_active (load_td (mem (usb_delay hw i (run_frame hw st))) td)"
        using Suc Suc.prems(3) by (simp add: usb_delay_Suc)
    qed
    ultimately show ?thesis using Suc by (simp add: usb_delay_Suc)
  qed
qed simp

lemma transfer_wait_late:
  assumes "\<forall>j < n. status_active (load_td (mem (usb_delay hw j st)) td)"
  shows "transfer_wait hw td n st = (False, usb_delay hw n st)"
  using assms
proof (induction n arbitrary: st)
  case (Suc n)
  have "status_active (load_td (mem st) td)" using Suc.prems by force
  moreover have "\<forall>j < n. status_active (load_td (mem (usb_delay hw j (run_frame hw st))) td)"
    using Suc.prems usb_delay_Suc [of hw _ st] by fastforce
  ultimately show ?case using Suc.IH [of "run_frame hw st"] by (simp add: usb_delay_Suc)
qed simp

section \<open>Facts about chains\<close>

lemma td_at_apart:
  assumes "i < 2 ^ 27" and "j < 2 ^ 27" and "p < 32" and "q < 32"
    and "td_at tds i + of_nat p = td_at tds j + of_nat q"
  shows "i = j"
proof -
  have "(of_nat (32 * i + p) :: u32) = of_nat (32 * j + q)"
    using assms(5) by (simp add: td_at_def add.assoc)
  moreover have "32 * i + p < 2 ^ 32" "32 * j + q < 2 ^ 32" using assms(1-4) by auto
  ultimately have "32 * i + p = 32 * j + q"
    by (simp only: word_of_nat_eq_iff) (simp add: take_bit_nat_eq_self)
  then have "(32 * i + p) div 32 = (32 * j + q) div 32" by simp
  with assms(3,4) show ?thesis by simp
qed

lemma store_td_outside:
  assumes "\<forall>p < 16. x \<noteq> a + of_nat p"
  shows "store_td a td m x = m x"
  using assms [rule_format, of 0] assms [rule_format, of 1] assms [rule_format, of 2] assms [rule_format, of 3]
    assms [rule_format, of 4] assms [rule_format, of 5] assms [rule_format, of 6] assms [rule_format, of 7]
    assms [rule_format, of 8] assms [rule_format, of 9] assms [rule_format, of 10] assms [rule_format, of 11]
    assms [rule_format, of 12] assms [rule_format, of 13] assms [rule_format, of 14] assms [rule_format, of 15]
  by (simp add: store_td_def add.assoc)

lemma load_td_cong:
  assumes "\<forall>p < 16. m' (a + of_nat p) = m (a + of_nat p)"
  shows "load_td m' a = load_td m a"
  using assms [rule_format, of 0] assms [rule_format, of 1] assms [rule_format, of 2] assms [rule_format, of 3]
    assms [rule_format, of 4] assms [rule_format, of 5] assms [rule_format, of 6] assms [rule_format, of 7]
    assms [rule_format, of 8] assms [rule_format, of 9] assms [rule_format, of 10] assms [rule_format, of 11]
    assms [rule_format, of 12] assms [rule_format, of 13] assms [rule_format, of 14] assms [rule_format, of 15]
  by (simp add: load_td_def load32_def add.assoc)

lemma load_td_other:
  assumes "i < 2 ^ 27" and "j < 2 ^ 27" and "i \<noteq> j"
  shows "load_td (store_td (td_at tds j) td m) (td_at tds i) = load_td m (td_at tds i)"
proof (rule load_td_cong, intro allI impI)
  fix p :: nat assume p: "p < 16"
  show "store_td (td_at tds j) td m (td_at tds i + of_nat p) = m (td_at tds i + of_nat p)"
  proof (rule store_td_outside, intro allI impI notI)
    fix q :: nat assume "q < 16" and "td_at tds i + of_nat p = td_at tds j + of_nat q"
    with p assms td_at_apart [of i j p q tds] show False by simp
  qed
qed

section \<open>The chain of a bulk transaction\<close>

definition toggle_after :: "byte \<Rightarrow> nat \<Rightarrow> byte" where
  "toggle_after tog n = (if even n then tog else 1 - tog)"

lemma put_bulk_tds_spec:
  assumes "n \<le> 2 ^ 27"
  shows "\<exists>m. fold (\<lambda>i (tog, st). (1 - tog, put_td tds i (f i tog) st)) [0..<n] (tog, st) =
      (toggle_after tog n, st\<lparr>mem := m\<rparr>) \<and>
    (\<forall>i < n. load_td m (td_at tds i) = f i (toggle_after tog i))"
  using assms
proof (induction n)
  case 0
  then show ?case by (intro exI [of _ "mem st"]) (simp add: toggle_after_def)
next
  case (Suc n)
  then obtain m where m: "fold (\<lambda>i (tog, st). (1 - tog, put_td tds i (f i tog) st)) [0..<n] (tog, st) =
      (toggle_after tog n, st\<lparr>mem := m\<rparr>)" and
    old: "\<forall>i < n. load_td m (td_at tds i) = f i (toggle_after tog i)" by auto
  let ?m = "store_td (td_at tds n) (f n (toggle_after tog n)) m"
  have "fold (\<lambda>i (tog, st). (1 - tog, put_td tds i (f i tog) st)) [0..<Suc n] (tog, st) =
      (toggle_after tog (Suc n), st\<lparr>mem := ?m\<rparr>)"
    using m by (simp add: toggle_after_def) (simp add: put_td_def with_mem_def)
  moreover have "load_td ?m (td_at tds i) = f i (toggle_after tog i)" if "i < Suc n" for i
  proof (cases "i = n")
    case False
    with that Suc.prems old show ?thesis by (simp add: load_td_other)
  qed (simp add: load_store_td)
  ultimately show ?case by blast
qed

lemma packets_for_bounds:
  assumes "0 < s" and "0 < len"
  shows "(packets_for len s - 1) * s < len" and "len \<le> packets_for len s * s" and "0 < packets_for len s"
    and "packets_for len s \<le> len"
proof -
  have d: "len = len div s * s + len mod s" by simp
  have "len mod s < s" using assms by simp
  have pos: "len mod s = 0 \<Longrightarrow> 0 < len div s" using assms d by (metis add.right_neutral mult_is_0 neq0_conv)
  show "0 < packets_for len s" using pos by (auto simp: packets_for_def)
  show "len \<le> packets_for len s * s"
  proof (cases "len mod s = 0")
    case False
    then have "packets_for len s * s = len div s * s + s" by (simp add: packets_for_def)
    with d \<open>len mod s < s\<close> show ?thesis by linarith
  qed (use d in \<open>simp add: packets_for_def\<close>)
  show "(packets_for len s - 1) * s < len"
  proof (cases "len mod s = 0")
    case True
    then show ?thesis using d assms pos by (simp add: packets_for_def algebra_simps)
  next
    case False
    then have "(packets_for len s - 1) * s = len div s * s" by (simp add: packets_for_def)
    with d False show ?thesis by linarith
  qed
  then have "packets_for len s - 1 < len" using assms by (metis le_less_trans mult_le_mono2 nat_mult_1_right One_nat_def Suc_leI)
  then show "packets_for len s \<le> len" by simp
qed

lemma unat_div_mod: "unat (a div b) = unat a div unat b" "unat (a mod b) = unat a mod unat (b :: 'a :: len word)"
  by (simp_all add: unat_div_distrib unat_mod_distrib)

lemma sint_small_u32: "unat (w :: u32) < 2 ^ 31 \<Longrightarrow> sint w = int (unat w)"
proof -
  assume "unat w < 2 ^ 31"
  then have "unat w < 2147483648" by simp
  moreover have "int (unat w) = uint w" by simp
  ultimately have "uint w < 2147483648" "- 2147483648 \<le> uint w" by linarith+
  then show ?thesis by (simp add: sint_uint signed_take_bit_int_eq_self)
qed

lemma bulk_packet_count:
  assumes "unat (len :: u32) < 2 ^ 31"
  shows "sint (len div ucast s) + (if len mod ucast s \<noteq> 0 then 1 else 0) = int (packets_for (unat len) (unat (s :: byte)))"
proof -
  have "unat (len div ucast s) < 2 ^ 31"
    using assms by (simp add: unat_div_mod) (meson div_le_dividend le_less_trans)
  then have "sint (len div ucast s) = int (unat len div unat s)"
    by (simp only: sint_small_u32) (simp add: unat_div_mod)
  moreover have "len mod ucast s \<noteq> 0 \<longleftrightarrow> unat len mod unat s \<noteq> 0"
    by (simp add: unat_div_mod flip: unat_eq_0)
  ultimately show ?thesis by (simp add: packets_for_def)
qed

text \<open>The part of the buffer packet \<open>i\<close> carries.\<close>

lemma bulk_td_length:
  assumes "unat (bulk_length txn) = len" and "s \<noteq> 0" and "0 < len" and "i < packets_for len (unat s)"
  shows "unat (max_length (bulk_td low adr txn pid s tds (int (packets_for len (unat s))) i tog)) + 1 =
    min (unat s) (len - i * unat s)"
proof -
  have s: "0 < unat s" "unat s < 256" using assms(2) by (simp_all add: unat_gt_0)
  have d: "len = len div unat s * unat s + len mod unat s" by simp
  let ?rest = "bulk_length txn mod ucast s"
  have r: "unat ?rest = len mod unat s" using assms(1) by (simp add: unat_div_mod)
  have rs: "len mod unat s < unat s" using s by simp
  have rest: "unat (ucast ?rest :: byte) = len mod unat s"
  proof -
    have "len mod unat s < 256" using rs s(2) by linarith
    with r show ?thesis by (subst unat_ucast_small) simp_all
  qed
  have nz: "?rest \<noteq> 0 \<longleftrightarrow> len mod unat s \<noteq> 0" using r by (metis unat_eq_0)
  have m: "unat (ucast (w - 1 :: byte) :: 11 word) + 1 = unat w" if "0 < unat w" for w :: byte
    using that by (simp add: unat_minus_one unat_gt_0)
  have last: "int i = int (packets_for len (unat s)) - 1 \<longleftrightarrow> i = packets_for len (unat s) - 1"
    using assms(4) by auto
  show ?thesis
  proof (cases "len mod unat s \<noteq> 0 \<and> i = packets_for len (unat s) - 1")
    case True
    then have "i = len div unat s" by (simp add: packets_for_def)
    then have "len - i * unat s = len mod unat s" using d by (metis add_diff_cancel_left')
    moreover have "int i = int (packets_for len (unat s)) - 1" using last True by blast
    ultimately show ?thesis using conjunct1 [OF True] rs m [of "ucast ?rest"] rest nz
      unfolding bulk_td_def Let_def by simp
  next
    case False
    then have "i + 1 \<le> len div unat s" using assms(4) by (auto simp: packets_for_def split: if_splits)
    then have "(i + 1) * unat s \<le> len div unat s * unat s" by (rule mult_le_mono1)
    also have "\<dots> \<le> len" by (rule div_times_less_eq_dividend)
    finally have "unat s \<le> len - i * unat s" by simp
    then show ?thesis using False m [of s] s by (auto simp: bulk_td_def Let_def last nz)
  qed
qed

lemma bit_flip: "bit (1 - w :: 'a :: len word) 0 \<longleftrightarrow> \<not> bit w 0"
  by (simp add: bit_0)

lemma bit_toggle_after: "bit (toggle_after tog i) 0 \<longleftrightarrow> bit tog 0 \<noteq> odd i"
  by (simp add: toggle_after_def bit_flip)

text \<open>What the chain says, packet by packet.\<close>

definition bulk_packet :: "bool \<Rightarrow> byte \<Rightarrow> usb_bulk_transaction \<Rightarrow> byte \<Rightarrow> u32 \<Rightarrow> nat \<Rightarrow> nat \<Rightarrow> transfer_descriptor \<Rightarrow> bool" where
  "bulk_packet low adr txn pid tds s i td \<longleftrightarrow>
     (let len = unat (bulk_length txn); n = packets_for len s
      in status_active td \<and> packet_identification td = pid \<and> device_address td = ucast adr \<and>
         td_endpoint td = ucast (ep_address (bulk_endpoint txn)) \<and> low_speed_device td = low \<and>
         buffer_pointer td = bulk_buffer txn + of_nat (i * s) \<and>
         unat (max_length td) + 1 = min s (len - i * s) \<and>
         (data_toggle td \<longleftrightarrow> bit (ep_toggle (bulk_endpoint txn)) 0 \<noteq> odd i) \<and>
         (terminate td \<longleftrightarrow> i = n - 1) \<and>
         (\<not> terminate td \<longrightarrow> link_pointer td = link_to (td_at tds (i + 1)) \<and> \<not> qh_td_select td))"

lemma zero_td_select [simp]: "\<not> qh_td_select zero_td"
  by (simp add: zero_td_def decode_td_def)

lemma bulk_td_packet:
  assumes "s \<noteq> 0" and "0 < unat (bulk_length txn)" and "i < packets_for (unat (bulk_length txn)) (unat s)"
  shows "bulk_packet low adr txn pid tds (unat s) i
    (bulk_td low adr txn pid s tds (int (packets_for (unat (bulk_length txn)) (unat s))) i
      (toggle_after (ep_toggle (bulk_endpoint txn)) i))"
proof -
  have last: "int i = int (packets_for (unat (bulk_length txn)) (unat s)) - 1 \<longleftrightarrow>
      i = packets_for (unat (bulk_length txn)) (unat s) - 1"
    using assms(3) by auto
  have "(ucast s :: u32) * of_nat i = of_nat (i * unat s)"
    by (simp add: of_nat_unat mult.commute)
  then show ?thesis
    using bulk_td_length [OF refl assms, of low adr pid tds "toggle_after (ep_toggle (bulk_endpoint txn)) i"]
    by (simp add: bulk_packet_def Let_def)
      (simp add: bulk_td_def plain_td_def last bit_toggle_after Let_def)
qed

lemma prepare_bulk_chain:
  assumes "s \<noteq> 0" and "0 < unat (bulk_length txn)" and "unat (bulk_length txn) \<le> 2 ^ 27"
    and "prepare_bulk hw c dv txn s st = (tds, num, tog, st')"
  shows "num = int (packets_for (unat (bulk_length txn)) (unat s))"
    and "tog = toggle_after (ep_toggle (bulk_endpoint txn)) (packets_for (unat (bulk_length txn)) (unat s))"
    and "\<exists>h h' m low. st' = set_element c tds (st\<lparr>hp := h, ports := h', mem := m\<rparr>) \<and>
      (\<forall>i < packets_for (unat (bulk_length txn)) (unat s).
        bulk_packet low (ud_address dv) txn (if bulk_type txn = USB_TXNTYPE_BULK_IN then TD_PID_IN else TD_PID_OUT)
          tds (unat s) i (load_td m (td_at tds i)))"
proof -
  let ?n = "packets_for (unat (bulk_length txn)) (unat s)"
    and ?pid = "if bulk_type txn = USB_TXNTYPE_BULK_IN then TD_PID_IN else TD_PID_OUT"
  have len: "unat (bulk_length txn) < 2 ^ 31" using assms(3) by simp
  obtain sc st1 where sc: "read_port_sc hw c (ud_port dv) st = (sc, st1)" by force
  obtain st2 where al: "alloc_tds (of_nat ?n) st1 = (tds, st2)"
    using assms(4) by (auto simp: prepare_bulk_def Let_def sc bulk_packet_count [OF len] split: prod.splits)
  have n: "?n \<le> 2 ^ 27"
    using packets_for_bounds(4) [of "unat s" "unat (bulk_length txn)"] assms(1-3) by (simp add: unat_gt_0)
  obtain m where m: "put_bulk_tds (low_speed sc) (ud_address dv) txn ?pid s tds (int ?n)
        (ep_toggle (bulk_endpoint txn), st2) = (toggle_after (ep_toggle (bulk_endpoint txn)) ?n, st2\<lparr>mem := m\<rparr>)"
    and each: "\<forall>i < ?n. load_td m (td_at tds i) =
      bulk_td (low_speed sc) (ud_address dv) txn ?pid s tds (int ?n) i (toggle_after (ep_toggle (bulk_endpoint txn)) i)"
    using put_bulk_tds_spec [OF n, of _ "bulk_td (low_speed sc) (ud_address dv) txn ?pid s tds (int ?n)"
      "ep_toggle (bulk_endpoint txn)" st2]
    unfolding put_bulk_tds_def by auto
  have eq: "num = int ?n \<and> tog = toggle_after (ep_toggle (bulk_endpoint txn)) ?n \<and> st' = set_element c tds (st2\<lparr>mem := m\<rparr>)"
    using assms(4) by (simp add: prepare_bulk_def Let_def sc bulk_packet_count [OF len] al m)
  then show "num = int ?n" "tog = toggle_after (ep_toggle (bulk_endpoint txn)) ?n" by simp_all
  show "\<exists>h h' m low. st' = set_element c tds (st\<lparr>hp := h, ports := h', mem := m\<rparr>) \<and>
      (\<forall>i < ?n. bulk_packet low (ud_address dv) txn ?pid tds (unat s) i (load_td m (td_at tds i)))"
  proof (intro exI [of _ m] exI [of _ "low_speed sc"] exI [of _ "hp st2"] exI [of _ "ports st2"] conjI allI impI)
    have "st2 = st\<lparr>hp := hp st2, ports := ports st2, mem := mem st2\<rparr>"
      using sc al by (auto simp: read_port_sc_def in16_def alloc_tds_def alloc_def with_mem_def split: prod.splits)
    then show "st' = set_element c tds (st\<lparr>hp := hp st2, ports := ports st2, mem := m\<rparr>)"
      using eq by (cases st2) simp
  next
    fix i assume "i < ?n"
    with each bulk_td_packet [OF assms(1,2)] show
      "bulk_packet (low_speed sc) (ud_address dv) txn ?pid tds (unat s) i (load_td m (td_at tds i))" by simp
  qed
qed

lemma packets_cover: "0 < s \<Longrightarrow> (\<Sum>i < k. min s (len - i * s)) = min (k * s) (len :: nat)"
  by (induction k) (auto simp: min_def algebra_simps)

text \<open>
  The host controller serves the chain of \<open>n\<close> descriptors at \<open>tds\<close> in \<open>k\<close> frames: the last one is
  active until then, and each has moved all its bytes when the driver looks at it again.
\<close>

definition chain_served :: "'d usb_hw \<Rightarrow> uhci_controller \<Rightarrow> u32 \<Rightarrow> nat \<Rightarrow> nat \<Rightarrow> 'd usb_state \<Rightarrow> bool" where
  "chain_served hw c tds n k st \<longleftrightarrow>
     (\<forall>j < k. status_active (load_td (mem (usb_delay hw j st)) (td_at tds (n - 1)))) \<and>
     \<not> status_active (load_td (mem (usb_delay hw k st)) (td_at tds (n - 1))) \<and>
     (\<forall>i < n. actual_length (load_td (mem (usb_delay hw 2 (set_element c 1 (usb_delay hw 50 (usb_delay hw k st)))))
        (td_at tds i)) = max_length (load_td (mem st) (td_at tds i)))"

definition queue_apart :: "uhci_controller \<Rightarrow> u32 \<Rightarrow> nat \<Rightarrow> bool" where
  "queue_apart c tds n \<longleftrightarrow>
     (\<forall>i < n. \<forall>p < 16. td_at tds i + of_nat p \<notin> {queue_default c + 4, queue_default c + 5, queue_default c + 6, queue_default c + 7})"

lemma set_element_td:
  assumes "queue_apart c tds n" and "i < n"
  shows "load_td (mem (set_element c v st)) (td_at tds i) = load_td (mem st) (td_at tds i)"
  using assms unfolding set_element_def with_mem_def queue_apart_def
  by (intro load_td_cong) (simp add: add.assoc)

lemma wait_for_transfer_done:
  assumes "k < unat timeout" and "\<forall>j < k. status_active (load_td (mem (usb_delay hw j st)) td)"
    and "\<not> status_active (load_td (mem (usb_delay hw k st)) td)"
  shows "wait_for_transfer hw c td timeout st =
    (SUCCESS, usb_delay hw 2 (set_element c 1 (usb_delay hw 50 (usb_delay hw k st))))"
  by (simp add: wait_for_transfer_def transfer_wait_done [OF assms])

lemma wait_for_transfer_late:
  assumes "\<forall>j < unat timeout. status_active (load_td (mem (usb_delay hw j st)) td)"
  shows "wait_for_transfer hw c td timeout st =
    (FAILURE, usb_delay hw 2 (set_element c 1 (usb_delay hw (unat timeout) st)))"
  by (simp add: wait_for_transfer_def transfer_wait_late [OF assms])

lemma fold_add_words:
  "fold (\<lambda>i n. n + f i) [0..<k] (0 :: 'a :: len word) = of_nat (\<Sum>i < k. unat (f i))"
  by (induction k) (simp_all add: of_nat_unat)

lemma bulk_transaction_served:
  assumes "bulk_type txn \<noteq> USB_TXNTYPE_CONTROL"
    and "s = ucast (ep_max_packet_size (bulk_endpoint txn))" and "s \<noteq> 0"
    and "0 < unat (bulk_length txn)" and "unat (bulk_length txn) \<le> 2 ^ 27"
    and "prepare_bulk hw c dv (txn\<lparr>bulk_actual_length := 0\<rparr>) s st = (tds, num, tog, st1)"
    and "queue_apart c tds (nat num)" and "k < 1000" and "chain_served hw c tds (nat num) k st1"
  shows "uhci_execute_bulk_transaction hw c dv txn st = Some (SUCCESS,
      txn\<lparr>bulk_endpoint := (bulk_endpoint txn)\<lparr>ep_toggle := toggle_after (ep_toggle (bulk_endpoint txn))
            (packets_for (unat (bulk_length txn)) (unat s))\<rparr>, bulk_actual_length := bulk_length txn\<rparr>,
      usb_delay hw 52 (set_element c 1 (usb_delay hw (50 + k) st1)))"
proof -
  let ?len = "unat (bulk_length txn)" let ?n = "packets_for ?len (unat s)"
  let ?after = "usb_delay hw 2 (set_element c 1 (usb_delay hw 50 (usb_delay hw k st1)))"
  have s: "0 < unat s" using assms(3) by (simp add: unat_gt_0)
  note chain = prepare_bulk_chain [OF assms(3) _ _ assms(6), simplified, OF assms(4) assms(5) [simplified]]
  have num: "num = int ?n" and tog: "tog = toggle_after (ep_toggle (bulk_endpoint txn)) ?n"
    using chain(1,2) by simp_all
  have n: "0 < ?n" using packets_for_bounds(3) s assms(4) by simp
  have max: "unat (max_length (load_td (mem st1) (td_at tds i))) + 1 = min (unat s) (?len - i * unat s)"
    if "i < ?n" for i
  proof -
    obtain h h' m low where st1: "st1 = set_element c tds (st\<lparr>hp := h, ports := h', mem := m\<rparr>)"
      and all: "\<forall>i < ?n. bulk_packet low (ud_address dv) (txn\<lparr>bulk_actual_length := 0\<rparr>)
        (if bulk_type txn = USB_TXNTYPE_BULK_IN then TD_PID_IN else TD_PID_OUT) tds (unat s) i (load_td m (td_at tds i))"
      using chain(3) by blast
    have "load_td (mem st1) (td_at tds i) = load_td m (td_at tds i)"
      using set_element_td [OF assms(7), of i tds "st\<lparr>hp := h, ports := h', mem := m\<rparr>"] that num by (simp add: st1)
    with all that show ?thesis by (simp add: bulk_packet_def Let_def)
  qed
  have got: "unat (ucast (actual_length (load_td (mem ?after) (td_at tds i))) + 1 :: u32) = min (unat s) (?len - i * unat s)"
    if "i < ?n" for i
  proof -
    have "actual_length (load_td (mem ?after) (td_at tds i)) = max_length (load_td (mem st1) (td_at tds i))"
      using assms(9) that num by (simp add: chain_served_def)
    moreover have "unat (ucast (w :: 11 word) + 1 :: u32) = unat w + 1" for w
      using unat_lt_pow [of w] by (simp add: unat_word_ariths unat_ucast_small)
    ultimately show ?thesis using max [OF that] by simp
  qed
  have sum: "fold (\<lambda>i n. n + (ucast (actual_length (load_td (mem ?after) (td_at tds i))) + 1)) [0..<?n] 0 = bulk_length txn"
  proof -
    have "(\<Sum>i < ?n. unat (ucast (actual_length (load_td (mem ?after) (td_at tds i))) + 1 :: u32)) =
        (\<Sum>i < ?n. min (unat s) (?len - i * unat s))"
      by (rule sum.cong) (simp_all add: got)
    also have "\<dots> = ?len" using packets_cover [OF s] packets_for_bounds(2) [OF s assms(4)] by simp
    finally show ?thesis unfolding fold_add_words by (simp add: of_nat_unat)
  qed
  have first: "actual_length (load_td (mem ?after) tds) \<noteq> 0x7FF"
  proof
    assume "actual_length (load_td (mem ?after) tds) = 0x7FF"
    with got [OF n] have "(2048 :: nat) = min (unat s) ?len" by (simp add: td_at_def)
    then have "2048 \<le> unat s" by (metis min.cobounded1)
    then show False using unat_byte_lt [of s] by linarith
  qed
  have last: "tds + 32 * (of_int num - 1) = td_at tds (nat num - 1)"
    using n num by (simp add: td_at_def of_nat_diff)
  have wait: "wait_for_transfer hw c (tds + 32 * (of_int num - 1)) 1000 st1 = (SUCCESS, ?after)"
    unfolding last using assms(8,9) by (intro wait_for_transfer_done) (simp_all add: chain_served_def)
  have delay: "usb_delay hw 50 (usb_delay hw 2 x) = usb_delay hw 52 x" "usb_delay hw 50 (usb_delay hw k y) = usb_delay hw (50 + k) y" for x y
    by (simp_all add: usb_delay_def flip: funpow_add [THEN fun_cong, unfolded o_apply])
  show ?thesis
    using assms(1-3,6) wait first sum
    by (simp add: uhci_execute_bulk_transaction_def Let_def num tog delay)
qed

section \<open>Transfers and the time they take\<close>

text \<open>
  \<open>wait_for_transfer\<close> always returns, after at most \<open>timeout\<close> looks at the descriptor: with success,
  50 frames after the first look that finds it inactive, with a failure when all of them find it
  active. In both cases it empties the queue and waits two frames more.
\<close>

theorem wait_for_transfer_outcome:
  "wait_for_transfer hw c td timeout st =
     (let active = (\<lambda>j. status_active (load_td (mem (usb_delay hw j st)) td));
          empty_queue = (\<lambda>s. usb_delay hw 2 (set_element c 0x01 s))
      in if \<exists>j < unat timeout. \<not> active j
         then (SUCCESS, empty_queue (usb_delay hw 50 (usb_delay hw (LEAST j. \<not> active j) st)))
         else (FAILURE, empty_queue (usb_delay hw (unat timeout) st)))"
proof -
  let ?active = "\<lambda>j. status_active (load_td (mem (usb_delay hw j st)) td)"
  show ?thesis
  proof (cases "\<exists>j < unat timeout. \<not> ?active j")
    case True
    then obtain j where j: "j < unat timeout" "\<not> ?active j" by blast
    then have "\<not> ?active (LEAST j. \<not> ?active j)" "(LEAST j. \<not> ?active j) \<le> j"
      using LeastI [of "\<lambda>j. \<not> ?active j" j] Least_le [of "\<lambda>j. \<not> ?active j" j] by blast+
    moreover have "\<forall>i < (LEAST j. \<not> ?active j). ?active i" by (auto dest: not_less_Least)
    ultimately show ?thesis
      using j True wait_for_transfer_done [of "LEAST j. \<not> ?active j" timeout hw st td c] by (simp add: Let_def)
  next
    case False
    then show ?thesis by (simp add: Let_def wait_for_transfer_late)
  qed
qed

section \<open>Bulk transfers\<close>

text \<open>A controller that serves single descriptors at a fixed place, and no device behind the ports.\<close>

definition serve_td :: "transfer_descriptor \<Rightarrow> transfer_descriptor" where
  "serve_td td = td\<lparr>status_active := False, actual_length := max_length td\<rparr>"

definition serving_hw :: "unit usb_hw" where
  "serving_hw = \<lparr>ports_of = (\<lambda>_ _. 0), frame = (\<lambda>_ (d, m). (d, store_td 0x1000000 (serve_td (load_td m 0x1000000)) m)),
     usb_devices_at = 0x200000, utf16buf_at = 0x80000\<rparr>"

definition serving_controller :: uhci_controller where
  "serving_controller = \<lparr>uc_id = 0, uc_pci_device = 0, io_base = 0xC000, stack_frame = 0x2000, queue_default = 0x3000,
     uc_devices = replicate 128 None\<rparr>"

definition serving_state :: "unit usb_state" where
  "serving_state = \<lparr>hp = \<lparr>free_memory_start = 0x1000000\<rparr>, mem = (\<lambda>_. 0), ports = [], usb_bus = (),
     uhci_controllers = [serving_controller], uhci_controller_count = 1, usb_devices = [], usb_device_count = 0\<rparr>"

definition sample_device :: usb_device where
  "sample_device = \<lparr>ud_controller = 0, ud_port = 0, ud_address = 1,
     ud_descriptor = load_device_descriptor (\<lambda>_. 64) 0, ud_manufacturer = 0, ud_product = 0, ud_serial_num = 0,
     ud_configuration_descriptor = 0\<rparr>"

definition status_txn :: usb_bulk_transaction where
  "status_txn = \<lparr>bulk_endpoint = \<lparr>ep_address = 1, ep_max_packet_size = 64, ep_toggle = 1\<rparr>,
     bulk_type = USB_TXNTYPE_BULK_IN, bulk_buffer = 0x90000, bulk_length = 13, bulk_actual_length = 0\<rparr>"

lemma packets_status: "packets_for 13 64 = 1"
  by (simp add: packets_for_def)

text \<open>
  C12: The chain of descriptors of a bulk transaction. However its length divides into packets, the
  descriptors in memory are as many as it takes, each carries the bytes of the buffer that follow
  those of the one before, none has more than the endpoint takes, together they carry exactly
  \<open>length\<close> bytes, each links to the next and only the last one ends the chain, and the data toggle
  alternates from where the endpoint's last transaction left it.
\<close>

theorem bulk_chain_carries_buffer:
  assumes "s \<noteq> 0" and "0 < unat (bulk_length txn)" and "unat (bulk_length txn) \<le> 2 ^ 27"
    and "prepare_bulk hw c dv txn s st = (tds, num, tog, st')"
  shows "num = int (packets_for (unat (bulk_length txn)) (unat s)) \<and>
    (\<Sum>i < nat num. min (unat s) (unat (bulk_length txn) - i * unat s)) = unat (bulk_length txn) \<and>
    (bit tog 0 \<longleftrightarrow> bit (ep_toggle (bulk_endpoint txn)) 0 \<noteq> odd (nat num)) \<and>
    (\<exists>h h' m low. st' = set_element c tds (st\<lparr>hp := h, ports := h', mem := m\<rparr>) \<and>
      (\<forall>i < nat num. bulk_packet low (ud_address dv) txn
        (if bulk_type txn = USB_TXNTYPE_BULK_IN then TD_PID_IN else TD_PID_OUT) tds (unat s) i (load_td m (td_at tds i))))"
proof -
  have s: "0 < unat s" using assms(1) by (simp add: unat_gt_0)
  note chain = prepare_bulk_chain [OF assms]
  show ?thesis
    using chain packets_cover [OF s] packets_for_bounds(2) [OF s assms(2)] by (simp add: bit_toggle_after)
qed

theorem bulk_chain_carries_buffer_witness:
  "\<exists>tds tog st'. prepare_bulk serving_hw serving_controller sample_device status_txn 64 serving_state = (tds, 1, tog, st') \<and>
     \<not> bit tog 0 \<and> (\<exists>m low. bulk_packet low 1 status_txn TD_PID_IN tds 64 0 (load_td m (td_at tds 0)))"
proof -
  obtain tds num tog st' where p:
    "prepare_bulk serving_hw serving_controller sample_device status_txn 64 serving_state = (tds, num, tog, st')"
    by (metis prod_cases4)
  have "unat (bulk_length status_txn) = 13" "bulk_type status_txn = USB_TXNTYPE_BULK_IN" "ud_address sample_device = 1"
    "bit (ep_toggle (bulk_endpoint status_txn)) 0"
    by (simp_all add: status_txn_def sample_device_def)
  note facts = this
  have "num = 1 \<and> \<not> bit tog 0" "\<exists>m low. \<forall>i < 1. bulk_packet low 1 status_txn TD_PID_IN tds 64 i (load_td m (td_at tds i))"
    using bulk_chain_carries_buffer [OF _ _ _ p] facts packets_status by fastforce+
  then have "num = 1 \<and> \<not> bit tog 0" "\<exists>m low. bulk_packet low 1 status_txn TD_PID_IN tds 64 0 (load_td m (td_at tds 0))"
    by auto
  with p show ?thesis by blast
qed

lemma serving_tds:
  assumes "prepare_bulk serving_hw serving_controller sample_device status_txn 64 serving_state = (tds, num, tog, st1)"
  shows "tds = 0x1000000"
  using assms
  by (auto simp: prepare_bulk_def Let_def alloc_tds_def alloc_def memalign_def malloc_def read_port_sc_def in16_def
    serving_state_def port_word_in_def split: prod.splits)

lemma serving_apart: "queue_apart serving_controller 0x1000000 1"
  unfolding queue_apart_def
proof (intro allI impI)
  fix i p :: nat assume "i < 1" and "p < 16"
  with less_16_cases [of p] show "td_at 0x1000000 i + of_nat p \<notin> {queue_default serving_controller + 4,
      queue_default serving_controller + 5, queue_default serving_controller + 6, queue_default serving_controller + 7}"
    by (auto simp: td_at_def serving_controller_def)
qed

lemma serving_element [simp]:
  "load_td (mem (set_element serving_controller v st)) 0x1000000 = load_td (mem st) 0x1000000"
  using set_element_td [OF serving_apart, of 0 v st] by (simp add: td_at_def)

lemma serving_delay:
  "load_td (mem (usb_delay serving_hw j st)) 0x1000000 =
     (if j = 0 then load_td (mem st) 0x1000000 else serve_td (load_td (mem st) 0x1000000))"
proof (induction j)
  case (Suc j)
  have "usb_delay serving_hw (Suc j) st = run_frame serving_hw (usb_delay serving_hw j st)"
    by (simp add: usb_delay_def)
  then show ?case using Suc by (simp add: run_frame_def serving_hw_def load_store_td serve_td_def)
qed simp

lemma serving_served:
  assumes "status_active (load_td (mem st) 0x1000000)"
  shows "chain_served serving_hw serving_controller 0x1000000 1 1 st"
  using assms
  by (simp add: chain_served_def td_at_def serving_delay serve_td_def flip: usb_delay_1)

text \<open>
  C11: A bulk transaction whose chain the host controller serves within a second succeeds, reports the
  full length as transferred, leaves the toggle bit of the endpoint as it must be for the next
  transaction, and the queue empty.
\<close>

theorem bulk_transaction_completes:
  assumes "bulk_type txn \<noteq> USB_TXNTYPE_CONTROL"
    and "s = ucast (ep_max_packet_size (bulk_endpoint txn))" and "s \<noteq> 0"
    and "0 < unat (bulk_length txn)" and "unat (bulk_length txn) \<le> 2 ^ 27"
    and "prepare_bulk hw c dv (txn\<lparr>bulk_actual_length := 0\<rparr>) s st = (tds, num, tog, st1)"
    and "queue_apart c tds (nat num)" and "k < 1000" and "chain_served hw c tds (nat num) k st1"
  shows "uhci_execute_bulk_transaction hw c dv txn st = Some (SUCCESS,
      txn\<lparr>bulk_endpoint := (bulk_endpoint txn)\<lparr>ep_toggle := toggle_after (ep_toggle (bulk_endpoint txn))
            (packets_for (unat (bulk_length txn)) (unat s))\<rparr>, bulk_actual_length := bulk_length txn\<rparr>,
      usb_delay hw 52 (set_element c 1 (usb_delay hw (50 + k) st1)))"
  using assms by (rule bulk_transaction_served)

theorem bulk_transaction_completes_witness:
  "\<exists>st'. uhci_execute_bulk_transaction serving_hw serving_controller sample_device status_txn serving_state = Some (SUCCESS,
     status_txn\<lparr>bulk_endpoint := \<lparr>ep_address = 1, ep_max_packet_size = 64, ep_toggle = 0\<rparr>, bulk_actual_length := 13\<rparr>, st')"
proof -
  obtain tds num tog st1 where p:
    "prepare_bulk serving_hw serving_controller sample_device status_txn 64 serving_state = (tds, num, tog, st1)"
    by (metis prod_cases4)
  have tds: "tds = 0x1000000" by (rule serving_tds [OF p])
  have len: "unat (bulk_length status_txn) = 13" by (simp add: status_txn_def)
  note chain = prepare_bulk_chain [OF _ _ _ p, simplified len packets_status, simplified]
  have num: "num = 1" using chain(1) by (simp add: packets_status)
  obtain h h' m low where st1: "st1 = set_element serving_controller tds (serving_state\<lparr>hp := h, ports := h', mem := m\<rparr>)"
    and "bulk_packet low (ud_address sample_device) status_txn
      (if bulk_type status_txn = USB_TXNTYPE_BULK_IN then TD_PID_IN else TD_PID_OUT) tds 64 0 (load_td m (td_at tds 0))"
    using chain(3) by (auto simp: packets_status)
  then have "status_active (load_td m 0x1000000)" by (simp add: bulk_packet_def Let_def td_at_def tds)
  then have "status_active (load_td (mem st1) 0x1000000)"
    by (simp add: st1 tds)
  from serving_served [OF this] show ?thesis
    using bulk_transaction_completes [of status_txn 64 serving_hw serving_controller sample_device serving_state tds num tog st1 1]
      p num tds serving_apart packets_status
    by (simp add: status_txn_def toggle_after_def)
qed

end
