(* ===== verification/UhciInit.thy ===== *)
theory UhciInit
  imports Uhci "HOL-Library.Signed_Division"
begin

text \<open>
  The part of \<open>drivers/bus/usb/uhci.c\<close> that finds the controllers and the devices behind them, and
  the driver \<open>drivers/bus/usb/ehci.c\<close>, which only switches its controllers off so that the devices
  come to the UHCI controllers.
\<close>

section \<open>Descriptors of a device\<close>

text \<open>
  A string descriptor is read to the buffer on the stack and then written, one byte of each
  character, to \<open>buf\<close>, an array of 128 bytes in the device.
\<close>

definition decode_string :: "'d usb_hw \<Rightarrow> u32 \<Rightarrow> 'd usb_state \<Rightarrow> (int \<times> 'd usb_state) option" where
  "decode_string hw buf st =
     (let utf16buf = mem_bytes (mem st) (utf16buf_at hw) 256 in do {
        b \<leftarrow> rd utf16buf 0;
        text8 \<leftarrow> utf16to8 utf16buf (mem_bytes (mem st) buf 128) ((sint b - 2) sdiv 2);
        Some (SUCCESS, with_mem (put_bytes buf text8) st) })"

definition uhci_get_string_descriptor ::
  "'d usb_hw \<Rightarrow> uhci_controller \<Rightarrow> usb_device \<Rightarrow> byte \<Rightarrow> u32 \<Rightarrow> 'd usb_state \<Rightarrow> (int \<times> 'd usb_state) option" where
  "uhci_get_string_descriptor hw c dv index1 buf st =
     (let (packet, st) = new_packet (descriptor_packet DESCRIPTOR_STRING index1 0x0409
                           (ucast (dd_max_packet_size (ud_descriptor dv)))) st;
          txn = \<lparr>txn_type = USB_TXNTYPE_CONTROL, txn_buffer = utf16buf_at hw, txn_setup_packet = packet,
                 txn_actual_length = 0\<rparr>
      in do {
        (r, txn, st) \<leftarrow> uhci_execute_transaction hw c dv txn st;
        if r < 0 then Some (FAILURE, st)
        else
          let full_length = mem st (utf16buf_at hw)
          in if txn_actual_length txn > 0 \<and> txn_actual_length txn = ucast full_length
             then decode_string hw buf st
             else
               let st = with_mem (store16 (packet + 6) (ucast full_length)) st
               in do {
                 (r, txn, st) \<leftarrow> uhci_execute_transaction hw c dv (txn\<lparr>txn_actual_length := 0\<rparr>) st;
                 if r < 0 then Some (FAILURE, st) else decode_string hw buf st } })"

definition uhci_get_configuration_descriptor ::
  "'d usb_hw \<Rightarrow> uhci_controller \<Rightarrow> usb_device \<Rightarrow> byte \<Rightarrow> u32 \<Rightarrow> 'd usb_state \<Rightarrow> (int \<times> 'd usb_state) option" where
  "uhci_get_configuration_descriptor hw c dv index1 buf st =
     (let (packet, st) = new_packet (descriptor_packet DESCRIPTOR_CONFIGURATION index1 0
                           (ucast (dd_max_packet_size (ud_descriptor dv)))) st;
          txn = \<lparr>txn_type = USB_TXNTYPE_CONTROL, txn_buffer = buf, txn_setup_packet = packet,
                 txn_actual_length = 0\<rparr>
      in do {
        (r, txn, st) \<leftarrow> uhci_execute_transaction hw c dv txn st;
        if r < 0 then Some (FAILURE, st)
        else
          let full_length = cd_total_length (load_configuration_descriptor (mem st) buf)
          in if txn_actual_length txn > 0 \<and> txn_actual_length txn = ucast full_length then Some (SUCCESS, st)
             else
               let st = with_mem (store16 (packet + 6) full_length) st
               in do {
                 (r, txn, st) \<leftarrow> uhci_execute_transaction hw c dv (txn\<lparr>txn_actual_length := 0\<rparr>) st;
                 if r < 0 then Some (FAILURE, st) else Some (SUCCESS, st) } })"

section \<open>A device behind a port\<close>

text \<open>The layout of \<open>UsbDevice\<close>: its size, and where the parts are that have an address of their own.\<close>

definition usb_device_at :: "'d usb_hw \<Rightarrow> nat \<Rightarrow> u32" where
  "usb_device_at hw i = usb_devices_at hw + 65944 * of_nat i"

definition new_usb_device :: "'d usb_hw \<Rightarrow> nat \<Rightarrow> nat \<Rightarrow> byte \<Rightarrow> byte \<Rightarrow> usb_standard_device_descriptor \<Rightarrow> usb_device" where
  "new_usb_device hw i ci p dev_id desc =
     \<lparr>ud_controller = ci, ud_port = p, ud_address = dev_id, ud_descriptor = desc,
      ud_manufacturer = usb_device_at hw i + 24, ud_product = usb_device_at hw i + 152,
      ud_serial_num = usb_device_at hw i + 280, ud_configuration_descriptor = usb_device_at hw i + 408\<rparr>"

text \<open>The first address no device has, from 1 to 126; 127 if there is none.\<close>

fun free_address :: "nat option list \<Rightarrow> nat \<Rightarrow> nat \<Rightarrow> nat option" where
  "free_address devs i 0 = Some i"
| "free_address devs i (Suc n) = do { d \<leftarrow> rd devs i; if d = None then Some i else free_address devs (i + 1) n }"

text \<open>The strings of a device that has them, and its configuration.\<close>

definition read_strings :: "'d usb_hw \<Rightarrow> uhci_controller \<Rightarrow> usb_device \<Rightarrow> 'd usb_state \<Rightarrow> 'd usb_state option" where
  "read_strings hw c dv st = do {
     let desc = ud_descriptor dv;
     st \<leftarrow> (if dd_manufacturer desc \<noteq> 0 then map_option snd
              (uhci_get_string_descriptor hw c dv (dd_manufacturer desc) (ud_manufacturer dv) st) else Some st);
     st \<leftarrow> (if dd_product desc \<noteq> 0 then map_option snd
              (uhci_get_string_descriptor hw c dv (dd_product desc) (ud_product dv) st) else Some st);
     st \<leftarrow> (if dd_serial_num desc \<noteq> 0 then map_option snd
              (uhci_get_string_descriptor hw c dv (dd_serial_num desc) (ud_serial_num dv) st) else Some st);
     map_option snd (uhci_get_configuration_descriptor hw c dv 0 (ud_configuration_descriptor dv) st) }"

definition register_device ::
  "'d usb_hw \<Rightarrow> nat \<Rightarrow> byte \<Rightarrow> nat \<Rightarrow> u32 \<Rightarrow> 'd usb_state \<Rightarrow> 'd usb_state option" where
  "register_device hw ci p dev_id descriptor_at st = do {
     c \<leftarrow> rd (uhci_controllers st) ci;
     let n = usb_device_count st;
     devs \<leftarrow> wr (uc_devices c) dev_id (Some n);
     cs \<leftarrow> wr (uhci_controllers st) ci (c\<lparr>uc_devices := devs\<rparr>);
     let dv = new_usb_device hw n ci p (of_nat dev_id) (load_device_descriptor (mem st) descriptor_at);
     ds \<leftarrow> wr (usb_devices st) n dv;
     read_strings hw c dv (st\<lparr>usb_device_count := n + 1, usb_devices := ds, uhci_controllers := cs\<rparr>) }"

text \<open>
  One port. The first component of the answer says that the function returns from within the
  loop over the ports.
\<close>

definition probe_port :: "'d usb_hw \<Rightarrow> nat \<Rightarrow> byte \<Rightarrow> 'd usb_state \<Rightarrow> (bool \<times> 'd usb_state) option" where
  "probe_port hw ci p st = do {
     c \<leftarrow> rd (uhci_controllers st) ci;
     let (r, st) = uhci_reset_port hw c p st;
     if r \<noteq> SUCCESS then Some (False, st)
     else do {
       let (_, st) = read_port_sc hw c p st;
       let (d, st) = alloc 16 18 st;
       let st = with_mem (memset d 0x45 18) st;
       let (r, st) = uhci_get_device_descriptor hw c p d st;
       if \<not> r > 0 then Some (False, print_driver_status hw c st)
       else if dd_configurations (load_device_descriptor (mem st) d) \<noteq> 1 then Some (False, st)
       else do {
         dev_id \<leftarrow> free_address (uc_devices c) 1 (MAX_DEVICES - 1);
         if dev_id = MAX_DEVICES - 1 then Some (True, st)
         else do {
           let (_, st) = uhci_reset_port hw c p st;
           let (r, st) = uhci_set_address hw c p (of_nat dev_id) st;
           if r > 0 then do { st \<leftarrow> register_device hw ci p dev_id d st; Some (False, st) }
           else Some (False, st) } } } }"

fun probe_ports :: "'d usb_hw \<Rightarrow> nat \<Rightarrow> byte list \<Rightarrow> 'd usb_state \<Rightarrow> 'd usb_state option" where
  "probe_ports hw ci [] st = Some st"
| "probe_ports hw ci (p # ps) st =
     (case probe_port hw ci p st of
        None \<Rightarrow> None
      | Some (returned, st) \<Rightarrow> if returned then Some st else probe_ports hw ci ps st)"

section \<open>A controller\<close>

definition start_schedule :: "'d usb_hw \<Rightarrow> uhci_controller \<Rightarrow> 'd usb_state \<Rightarrow> uhci_controller \<times> 'd usb_state" where
  "start_schedule hw c st =
     (let st = out32 (io_base c + REG_FRBASEADD) (stack_frame c) st;
          st = out16 (io_base c + REG_USB_STATUS) 0xFFFF st;
          st = out16 (io_base c + REG_USB_COMMAND) USBCMD_RUN_STOP st;
          (q, st) = alloc 16 16 st;
          st = with_mem (store32 q 0x01) st;
          st = with_mem (store32 (q + 4) 0x01) st;
          st = fold (\<lambda>i. with_mem (store32 (stack_frame c + 4 * of_nat i) (q OR 0x02))) [0..<1024] st
      in (c\<lparr>queue_default := q\<rparr>, st))"

definition usb_uhci_init_controller ::
  "'d usb_hw \<Rightarrow> pci_device list \<Rightarrow> nat \<Rightarrow> 'd usb_state \<Rightarrow> 'd usb_state option" where
  "usb_uhci_init_controller hw pci i st = do {
     let ci = uhci_controller_count st;
     let st = st\<lparr>uhci_controller_count := ci + 1\<rparr>;
     c \<leftarrow> rd (uhci_controllers st) ci;
     pd \<leftarrow> rd pci i;
     let (w, h) = pci_config_read_word (ports_of hw) (bus pd) (device pd) (function_num pd) 0x20 (ports st);
     let c = c\<lparr>uc_id := int ci, uc_pci_device := i, io_base := ucast (w AND 0xFFFC)\<rparr>;
     let st = st\<lparr>ports := h, uhci_controllers := (uhci_controllers st)[ci := c]\<rparr>;
     let st = usb_delay hw 55 (out16 (io_base c + REG_USB_COMMAND) USBCMD_GLOBAL_RESET st);
     let st = out16 (io_base c + REG_USB_COMMAND) 0 st;
     let (v, st) = in16 hw (io_base c + REG_USB_COMMAND) st;
     if v \<noteq> 0 then Some st
     else do {
       let (usbsts, st) = in16 hw (io_base c + REG_USB_STATUS) st;
       if usbsts \<noteq> 0x0020 then Some st
       else do {
         let st = out16 (io_base c + REG_USB_STATUS) usbsts st;
         let (sof, st) = in8 hw (io_base c + REG_SOFMOD) st;
         if sof \<noteq> 0x40 then Some st
         else do {
           let (r, st) = uhci_controller_reset hw c st;
           if r < 0 then Some st
           else do {
             let st = out16 (io_base c + REG_USB_INTERRUPT_ENABLE) 0 st;
             let st = out16 (io_base c + REG_FRAME_NUM) 0 st;
             let (f, st) = alloc 4096 4096 st;
             let c = c\<lparr>stack_frame := f\<rparr>;
             let st = st\<lparr>uhci_controllers := (uhci_controllers st)[ci := c]\<rparr>;
             if f = 0 then Some st
             else do {
               let (c, st) = start_schedule hw c st;
               let st = st\<lparr>uhci_controllers := (uhci_controllers st)[ci := c]\<rparr>;
               let st = write_port_sc c 1 0 (write_port_sc c 0 0 st);
               probe_ports hw ci [0, 1] st } } } } } }"

section \<open>All controllers\<close>

definition zero_controller :: uhci_controller where
  "zero_controller = \<lparr>uc_id = 0, uc_pci_device = 0, io_base = 0, stack_frame = 0, queue_default = 0,
     uc_devices = replicate 128 None\<rparr>"

definition is_uhci :: "pci_device \<Rightarrow> bool" where
  "is_uhci pd \<longleftrightarrow> class_id pd = PCI_CLASS_SERIAL_BUS \<and> subclass_id pd = PCI_SUBCLASS_USB \<and> prog_if pd = PCI_PROG_IF_UHCI"

definition usb_uhci_init :: "'d usb_hw \<Rightarrow> pci_device list \<Rightarrow> nat \<Rightarrow> 'd usb_state \<Rightarrow> (int \<times> 'd usb_state) option" where
  "usb_uhci_init hw pci count st = do {
     let st = st\<lparr>uhci_controller_count := 0, uhci_controllers := replicate MAX_CONTROLLERS zero_controller,
                hp := snd (malloc (of_nat MAX_CONTROLLERS * 540) (hp st))\<rparr>;
     (found, st) \<leftarrow> for_loop (\<lambda>i (found, st). do {
         pd \<leftarrow> rd pci i;
         if is_uhci pd then do { st \<leftarrow> usb_uhci_init_controller hw pci i st; Some (True, st) }
         else Some (found, st) }) [0..<count] (False, st);
     Some (if found then SUCCESS else FAILURE, st) }"

section \<open>EHCI\<close>

definition EHCI_MAX_CONTROLLERS :: nat where "EHCI_MAX_CONTROLLERS = 16"
definition EHCI_PCI_CLASS_SERIAL_BUS :: byte where "EHCI_PCI_CLASS_SERIAL_BUS = 0x0C"
definition EHCI_PCI_SUBCLASS_USB :: byte where "EHCI_PCI_SUBCLASS_USB = 0x03"
definition EHCI_PCI_PROG_IF_EHCI :: byte where "EHCI_PCI_PROG_IF_EHCI = 0x20"

record ehci_controller =
  ec_id :: int
  ec_pci_device :: nat
  mmio_base :: u32

text \<open>The registers are in memory: the length of the first block tells where the second starts.\<close>

definition usb_ehci_disable_controller ::
  "'d usb_hw \<Rightarrow> pci_device list \<Rightarrow> nat \<Rightarrow> ehci_controller list \<times> nat \<times> 'd usb_state \<Rightarrow>
     (int \<times> ehci_controller list \<times> nat \<times> 'd usb_state) option" where
  "usb_ehci_disable_controller hw pci i = (\<lambda>(cs, n, st). do {
     pd \<leftarrow> rd pci i;
     let (w, h) = pci_config_read_dword (ports_of hw) (bus pd) (device pd) (function_num pd) 0x10 (ports st);
     let base = w AND 0xFFFFFF00;
     cs \<leftarrow> wr cs n \<lparr>ec_id = int n, ec_pci_device = i, mmio_base = base\<rparr>;
     let st = st\<lparr>ports := h\<rparr>;
     let opregs = base + (load32 (mem st) base AND 0x0FF);
     let st = usb_delay hw 100 (with_mem (store8 (opregs + 0x40) 0x00) st);
     Some (SUCCESS, cs, n + 1, st) })"

definition is_ehci :: "pci_device \<Rightarrow> bool" where
  "is_ehci pd \<longleftrightarrow> class_id pd = EHCI_PCI_CLASS_SERIAL_BUS \<and> subclass_id pd = EHCI_PCI_SUBCLASS_USB \<and>
     prog_if pd = EHCI_PCI_PROG_IF_EHCI"

definition usb_ehci_init ::
  "'d usb_hw \<Rightarrow> pci_device list \<Rightarrow> nat \<Rightarrow> ehci_controller list \<Rightarrow> 'd usb_state \<Rightarrow>
     (int \<times> ehci_controller list \<times> nat \<times> 'd usb_state) option" where
  "usb_ehci_init hw pci count cs st = do {
     let st = st\<lparr>hp := snd (malloc (of_nat EHCI_MAX_CONTROLLERS * 12) (hp st))\<rparr>;
     (found, cs, n, st) \<leftarrow> for_loop (\<lambda>i (found, cs, n, st). do {
         pd \<leftarrow> rd pci i;
         if is_ehci pd then do { (_, s) \<leftarrow> usb_ehci_disable_controller hw pci i (cs, n, st); Some (True, s) }
         else Some (found, cs, n, st) }) [0..<count] (False, cs, 0, st);
     Some (if found then SUCCESS else FAILURE, cs, n, st) }"

end
