(* ===== verification/UsbStorage.thy ===== *)
theory UsbStorage
  imports UhciInit BlockTable
begin

text \<open>
  USB mass storage: \<open>drivers/block/usb_storage.c\<close> with \<open>usb_storage.h\<close> and \<open>scsi.h\<close>, and the byte
  swaps of \<open>core/byteswap.c\<close>. A command is a command block wrapper sent to the device, a transfer of
  data and a command status wrapper read back, each a bulk transaction.
\<close>

section \<open>Byte order\<close>

definition bswap_16 :: "u16 \<Rightarrow> u16" where
  "bswap_16 num = push_bit 8 num OR drop_bit 8 num"

definition bswap_32 :: "u32 \<Rightarrow> u32" where
  "bswap_32 num = push_bit 24 num OR (push_bit 8 num AND 0x00FF0000) OR (drop_bit 8 num AND 0x0000FF00) OR drop_bit 24 num"

section \<open>Wrappers and commands\<close>

record command_block_wrapper =
  cbw_signature :: u32
  cbw_tag :: u32
  cbw_transfer_length :: u32
  cbw_flags :: byte
  cbw_lun :: byte
  cbw_command_len :: byte
  cbw_command :: "byte list"

record command_status_wrapper =
  csw_signature :: u32
  csw_tag :: u32
  csw_data_residue :: u32
  csw_status :: byte

definition WRITE :: byte where "WRITE = 0x00"
definition READ :: byte where "READ = 0x80"
definition REQUEST_SENSE :: byte where "REQUEST_SENSE = 0x03"
definition INQUIRY :: byte where "INQUIRY = 0x12"
definition READ_CAPACITY_10 :: byte where "READ_CAPACITY_10 = 0x25"
definition READ_10 :: byte where "READ_10 = 0x28"
definition REQ_PKT_REQ_CODE_GET_MAX_LUN :: byte where "REQ_PKT_REQ_CODE_GET_MAX_LUN = 0xFE"

text \<open>The 31 bytes of a command block wrapper; both wrappers are packed.\<close>

definition cbw_bytes :: "command_block_wrapper \<Rightarrow> byte list" where
  "cbw_bytes c = bytes32 (cbw_signature c) @ bytes32 (cbw_tag c) @ bytes32 (cbw_transfer_length c) @
     [cbw_flags c, cbw_lun c, cbw_command_len c] @ cbw_command c"

definition load_csw :: "memory \<Rightarrow> u32 \<Rightarrow> command_status_wrapper" where
  "load_csw m a = \<lparr>csw_signature = load32 m a, csw_tag = load32 m (a + 4), csw_data_residue = load32 m (a + 8),
     csw_status = m (a + 12)\<rparr>"

text \<open>The command of up to 16 bytes, padded with the zeros of \<open>memset\<close>.\<close>

definition new_cbw :: "u32 \<Rightarrow> byte \<Rightarrow> byte \<Rightarrow> byte list \<Rightarrow> command_block_wrapper" where
  "new_cbw transfer_length lun command_len command =
     \<lparr>cbw_signature = 0x43425355, cbw_tag = 0, cbw_transfer_length = transfer_length, cbw_flags = READ,
      cbw_lun = lun, cbw_command_len = command_len, cbw_command = command @ replicate (16 - length command) 0\<rparr>"

section \<open>Storage devices\<close>

text \<open>
  The two endpoints are objects of their own, to which the device points: they keep the toggle bit
  from one transaction to the next.
\<close>

record usb_storage_device =
  sd_usb_device :: usb_device
  sd_interface_number :: byte
  bulk_in_endpoint :: usb_endpoint
  bulk_out_endpoint :: usb_endpoint
  sd_block_size :: u32
  sd_num_blocks :: u32

text \<open>Where the stack has the objects that the commands hand to the host controller.\<close>

record storage_locals =
  cbw_at :: u32
  csw_at :: u32
  lun_count_at :: u32
  inquiry_at :: u32
  capacity_at :: u32
  sense_at :: u32

section \<open>Commands\<close>

definition bulk_out ::
  "'d usb_hw \<Rightarrow> usb_storage_device \<Rightarrow> u32 \<Rightarrow> u32 \<Rightarrow> 'd usb_state \<Rightarrow> (int \<times> usb_storage_device \<times> 'd usb_state) option" where
  "bulk_out hw sd buf len st = do {
     c \<leftarrow> rd (uhci_controllers st) (ud_controller (sd_usb_device sd));
     (r, txn, st) \<leftarrow> uhci_execute_bulk_transaction hw c (sd_usb_device sd)
       \<lparr>bulk_endpoint = bulk_out_endpoint sd, bulk_type = USB_TXNTYPE_BULK_OUT, bulk_buffer = buf,
        bulk_length = len, bulk_actual_length = 0\<rparr> st;
     Some (r, sd\<lparr>bulk_out_endpoint := bulk_endpoint txn\<rparr>, st) }"

definition bulk_in ::
  "'d usb_hw \<Rightarrow> usb_storage_device \<Rightarrow> u32 \<Rightarrow> u32 \<Rightarrow> 'd usb_state \<Rightarrow> (int \<times> usb_storage_device \<times> 'd usb_state) option" where
  "bulk_in hw sd buf len st = do {
     c \<leftarrow> rd (uhci_controllers st) (ud_controller (sd_usb_device sd));
     (r, txn, st) \<leftarrow> uhci_execute_bulk_transaction hw c (sd_usb_device sd)
       \<lparr>bulk_endpoint = bulk_in_endpoint sd, bulk_type = USB_TXNTYPE_BULK_IN, bulk_buffer = buf,
        bulk_length = len, bulk_actual_length = 0\<rparr> st;
     Some (r, sd\<lparr>bulk_in_endpoint := bulk_endpoint txn\<rparr>, st) }"

text \<open>The three transactions all the commands are made of.\<close>

definition scsi_command ::
  "'d usb_hw \<Rightarrow> storage_locals \<Rightarrow> usb_storage_device \<Rightarrow> command_block_wrapper \<Rightarrow> u32 \<Rightarrow> 'd usb_state \<Rightarrow>
     (int \<times> usb_storage_device \<times> 'd usb_state) option" where
  "scsi_command hw loc sd cbw buf st = do {
     let st = with_mem (put_bytes (cbw_at loc) (cbw_bytes cbw)) st;
     (r, sd, st) \<leftarrow> bulk_out hw sd (cbw_at loc) 31 st;
     if r < 0 then Some (FAILURE, sd, st)
     else do {
       (r, sd, st) \<leftarrow> bulk_in hw sd buf (cbw_transfer_length cbw) st;
       if r < 0 then Some (FAILURE, sd, st)
       else do {
         (r, sd, st) \<leftarrow> bulk_in hw sd (csw_at loc) 13 (with_mem (memset (csw_at loc) 0 13) st);
         if r < 0 then Some (FAILURE, sd, st)
         else
           let csw = load_csw (mem st) (csw_at loc)
           in if csw_signature csw \<noteq> 0x53425355 then Some (FAILURE, sd, st)
              else if csw_status csw \<noteq> 0 then Some (FAILURE, sd, st)
              else Some (SUCCESS, sd, st) } } }"

definition scsi_inquiry ::
  "'d usb_hw \<Rightarrow> storage_locals \<Rightarrow> usb_storage_device \<Rightarrow> byte \<Rightarrow> u32 \<Rightarrow> 'd usb_state \<Rightarrow>
     (int \<times> usb_storage_device \<times> 'd usb_state) option" where
  "scsi_inquiry hw loc sd lun buf st = scsi_command hw loc sd (new_cbw 0x24 lun 6 [INQUIRY, 0, 0, 0, 0x24]) buf st"

definition scsi_read_capacity_10 ::
  "'d usb_hw \<Rightarrow> storage_locals \<Rightarrow> usb_storage_device \<Rightarrow> byte \<Rightarrow> u32 \<Rightarrow> 'd usb_state \<Rightarrow>
     (int \<times> usb_storage_device \<times> 'd usb_state) option" where
  "scsi_read_capacity_10 hw loc sd lun buf st = do {
     (r, sd, st) \<leftarrow> scsi_command hw loc sd (new_cbw 8 lun 12 [READ_CAPACITY_10]) buf st;
     if r < 0 then Some (FAILURE, sd, st)
     else
       let st = with_mem (\<lambda>m. store32 (buf + 4) (bswap_32 (load32 m (buf + 4))) m) st;
           st = with_mem (\<lambda>m. store32 buf (bswap_32 (load32 m buf)) m) st
       in Some (SUCCESS, sd, st) }"

definition scsi_request_sense ::
  "'d usb_hw \<Rightarrow> storage_locals \<Rightarrow> usb_storage_device \<Rightarrow> byte \<Rightarrow> u32 \<Rightarrow> 'd usb_state \<Rightarrow>
     (int \<times> usb_storage_device \<times> 'd usb_state) option" where
  "scsi_request_sense hw loc sd lun buf st =
     scsi_command hw loc sd (new_cbw 18 lun 6 [REQUEST_SENSE, 0, 0, 0, 18]) buf st"

definition read_10_command :: "u32 \<Rightarrow> u16 \<Rightarrow> byte list" where
  "read_10_command lba blocks = [READ_10, 0] @ bytes32 (bswap_32 lba) @ [0] @ bytes16 (bswap_16 blocks)"

definition scsi_read_10 ::
  "'d usb_hw \<Rightarrow> storage_locals \<Rightarrow> usb_storage_device \<Rightarrow> byte \<Rightarrow> u32 \<Rightarrow> u16 \<Rightarrow> u32 \<Rightarrow> 'd usb_state \<Rightarrow>
     (int \<times> usb_storage_device \<times> 'd usb_state) option" where
  "scsi_read_10 hw loc sd lun lba blocks buf st =
     scsi_command hw loc sd (new_cbw (ucast blocks * sd_block_size sd) lun 10 (read_10_command lba blocks)) buf st"

section \<open>The driver\<close>

text \<open>
  The pointer a \<open>DiskDevice\<close> keeps to its storage device is an index into the storage devices set up
  so far.
\<close>

record 'd storage_state =
  usb_state :: "'d usb_state"
  storage_devices :: "usb_storage_device list"
  block_devs :: block_table

definition usb_storage_read ::
  "'d usb_hw \<Rightarrow> storage_locals \<Rightarrow> disk_device \<Rightarrow> u32 \<Rightarrow> u32 \<Rightarrow> u32 \<Rightarrow> 'd storage_state \<Rightarrow>
     (int \<times> 'd storage_state) option" where
  "usb_storage_read hw loc dv lba num_sectors buf s = do {
     sd \<leftarrow> rd (storage_devices s) (driver_specific_data dv);
     (r, sd, st) \<leftarrow> scsi_read_10 hw loc sd (device_num dv) (lba + offset dv) (ucast num_sectors) buf (usb_state s);
     Some (r, s\<lparr>usb_state := st, storage_devices := (storage_devices s)[driver_specific_data dv := sd]\<rparr>) }"

section \<open>Setting a device up\<close>

definition set_configuration :: "'d usb_hw \<Rightarrow> usb_device \<Rightarrow> byte \<Rightarrow> 'd usb_state \<Rightarrow> (int \<times> 'd usb_state) option" where
  "set_configuration hw dv configuration_number st = do {
     c \<leftarrow> rd (uhci_controllers st) (ud_controller dv);
     let (packet, st) = new_packet \<lparr>request_type = REQ_PKT_DIR_HOST_TO_DEVICE,
       request = REQ_PKT_REQ_CODE_SET_CONFIGURATION, req_value = ucast configuration_number, req_index = 0,
       req_length = 0\<rparr> st;
     (r, txn, st) \<leftarrow> uhci_execute_transaction hw c dv \<lparr>txn_type = USB_TXNTYPE_CONTROL, txn_buffer = 0,
       txn_setup_packet = packet, txn_actual_length = 0\<rparr> st;
     Some (if r < 0 then FAILURE else SUCCESS, st) }"

definition get_max_lun ::
  "'d usb_hw \<Rightarrow> storage_locals \<Rightarrow> usb_storage_device \<Rightarrow> 'd usb_state \<Rightarrow> (int \<times> 'd usb_state) option" where
  "get_max_lun hw loc sd st = do {
     let dv = sd_usb_device sd;
     c \<leftarrow> rd (uhci_controllers st) (ud_controller dv);
     let (packet, st) = new_packet \<lparr>request_type = REQ_PKT_DIR_DEVICE_TO_HOST OR REQ_PKT_TYPE_CLASS OR REQ_PKT_RECIPIENT_INTERFACE,
       request = REQ_PKT_REQ_CODE_GET_MAX_LUN, req_value = 0, req_index = ucast (sd_interface_number sd), req_length = 1\<rparr> st;
     (r, txn, st) \<leftarrow> uhci_execute_transaction hw c dv \<lparr>txn_type = USB_TXNTYPE_CONTROL, txn_buffer = lun_count_at loc,
       txn_setup_packet = packet, txn_actual_length = 0\<rparr> st;
     Some (if r < 0 then FAILURE else int (unat (mem st (lun_count_at loc))), st) }"

text \<open>
  The loop over the endpoints of an interface. The pointers to the two endpoints are not
  initialised: \<open>ins\<close> and \<open>outs\<close> start as whatever the stack held. \<open>None\<close> inside is the early return.
\<close>

fun find_endpoints :: "memory \<Rightarrow> u32 \<Rightarrow> nat list \<Rightarrow> u32 \<times> u32 \<Rightarrow> (u32 \<times> u32) option" where
  "find_endpoints m buf [] found = Some found"
| "find_endpoints m buf (i # is) (ins, outs) =
     (let a = buf + 7 * of_nat i; ep = load_endpoint_descriptor m a
      in if ed_type ep \<noteq> DESCRIPTOR_ENDPOINT then None
         else if ed_length ep \<noteq> 7 then None
         else if ed_attributes ep AND USB_ENDPOINT_TYPE_MASK = BULK then
           if ed_address ep AND USB_ENDPOINT_DIRECTION_IN \<noteq> 0
           then find_endpoints m buf is (a, outs) else find_endpoints m buf is (ins, a)
         else find_endpoints m buf is (ins, outs))"

definition endpoint_of :: "memory \<Rightarrow> u32 \<Rightarrow> usb_endpoint" where
  "endpoint_of m a = (let ep = load_endpoint_descriptor m a
     in \<lparr>ep_address = ed_address ep AND USB_ENDPOINT_VALUE, ep_max_packet_size = ed_max_packet_size ep, ep_toggle = 0\<rparr>)"

text \<open>Up to three attempts to read the capacity of a unit, with a look at the error in between.\<close>

fun try_capacity ::
  "nat \<Rightarrow> 'd usb_hw \<Rightarrow> storage_locals \<Rightarrow> byte \<Rightarrow> usb_storage_device \<Rightarrow> 'd usb_state \<Rightarrow>
     (bool \<times> usb_storage_device \<times> 'd usb_state) option" where
  "try_capacity 0 hw loc lun sd st = Some (False, sd, st)"
| "try_capacity (Suc n) hw loc lun sd st =
     (case scsi_read_capacity_10 hw loc sd lun (capacity_at loc) st of
        None \<Rightarrow> None
      | Some (r, sd, st) \<Rightarrow>
          if r > 0 then Some (True, sd\<lparr>sd_block_size := load32 (mem st) (capacity_at loc + 4),
                                     sd_num_blocks := load32 (mem st) (capacity_at loc)\<rparr>, st)
          else (case scsi_request_sense hw loc sd lun (sense_at loc) st of
                  None \<Rightarrow> None
                | Some (_, sd, st) \<Rightarrow> try_capacity n hw loc lun sd st))"

text \<open>A logical unit of the storage device \<open>k\<close>.\<close>

definition setup_lun :: "'d usb_hw \<Rightarrow> storage_locals \<Rightarrow> nat \<Rightarrow> nat \<Rightarrow> 'd storage_state \<Rightarrow> 'd storage_state option" where
  "setup_lun hw loc k lun s = do {
     sd \<leftarrow> rd (storage_devices s) k;
     (r, sd, st) \<leftarrow> scsi_inquiry hw loc sd (of_nat lun) (inquiry_at loc) (usb_state s);
     let s = s\<lparr>usb_state := st, storage_devices := (storage_devices s)[k := sd]\<rparr>;
     if \<not> r > 0 then Some s
     else do {
       (success, sd, st) \<leftarrow> try_capacity 3 hw loc (of_nat lun) sd st;
       let s = s\<lparr>usb_state := st, storage_devices := (storage_devices s)[k := sd]\<rparr>;
       if \<not> success then Some s
       else do {
         let st = st\<lparr>hp := snd (malloc 20 (hp st))\<rparr>;
         (_, bt) \<leftarrow> register_block_device \<lparr>dev_type = HARD_DISK, device_num = of_nat lun, partition = RAW_DEVICE, offset = 0,
           block_size = sd_block_size sd, driver = Usb_Msd_Driver, driver_specific_data = k\<rparr> (str ''usb'' @ [0]) (block_devs s);
         Some (s\<lparr>usb_state := st, block_devs := bt\<rparr>) } } }"

definition usb_storage_setup_device ::
  "'d usb_hw \<Rightarrow> storage_locals \<Rightarrow> u32 \<times> u32 \<Rightarrow> usb_device \<Rightarrow> u32 \<Rightarrow> 'd storage_state \<Rightarrow> 'd storage_state option" where
  "usb_storage_setup_device hw loc junk dv interface s =
     (let st = usb_state s; m = mem st; itf = load_interface_descriptor m interface;
          buf = interface + ucast (id_length itf)
      in case find_endpoints m buf [0..<unat (id_num_endpoints itf)] junk of
           None \<Rightarrow> Some s
         | Some (ins, outs) \<Rightarrow>
             if ins = 0 \<or> outs = 0 then Some s
             else do {
               let st = st\<lparr>hp := snd (malloc 24 (snd (malloc 6 (snd (malloc 6 (hp st))))))\<rparr>;
               let sd = \<lparr>sd_usb_device = dv, sd_interface_number = id_index itf, bulk_in_endpoint = endpoint_of m ins,
                 bulk_out_endpoint = endpoint_of m outs, sd_block_size = 0, sd_num_blocks = 0\<rparr>;
               (_, st) \<leftarrow> set_configuration hw dv
                 (cd_config_val (load_configuration_descriptor m (ud_configuration_descriptor dv))) st;
               (max_lun, st) \<leftarrow> get_max_lun hw loc sd st;
               let lun_count = (if max_lun \<ge> 0 \<and> max_lun \<le> 15 then nat max_lun + 1 else 1);
               let k = length (storage_devices s);
               for_loop (setup_lun hw loc k) [0..<lun_count]
                 (s\<lparr>usb_state := st, storage_devices := storage_devices s @ [sd]\<rparr>) })"

definition usb_storage_check_device ::
  "'d usb_hw \<Rightarrow> storage_locals \<Rightarrow> u32 \<times> u32 \<Rightarrow> usb_device \<Rightarrow> 'd storage_state \<Rightarrow> 'd storage_state option" where
  "usb_storage_check_device hw loc junk dv s =
     (let m = mem (usb_state s); cfg = load_configuration_descriptor m (ud_configuration_descriptor dv)
      in if cd_num_interfaces cfg = 0 then Some s
         else
           let a = ud_configuration_descriptor dv + ucast (cd_length cfg); itf = load_interface_descriptor m a
           in if id_type itf \<noteq> DESCRIPTOR_INTERFACE then Some s
              else if id_interface_class itf = MASS_STORAGE \<and> id_interface_subclass itf = SCSI_TRANSPARENT_COMMAND_SET \<and>
                id_interface_protocol itf = BULK_ONLY_TRANSPORT
              then usb_storage_setup_device hw loc junk dv a s
              else Some s)"

definition usb_storage_init ::
  "'d usb_hw \<Rightarrow> storage_locals \<Rightarrow> (nat \<Rightarrow> u32 \<times> u32) \<Rightarrow> 'd storage_state \<Rightarrow> 'd storage_state option" where
  "usb_storage_init hw loc junk s =
     for_loop (\<lambda>i s. do { dv \<leftarrow> rd (usb_devices (usb_state s)) i; usb_storage_check_device hw loc (junk i) dv s })
       [0..<usb_device_count (usb_state s)] s"

section \<open>What the device is told\<close>

text \<open>The number a device reads in a command, whose bytes come with the highest first.\<close>

definition be_value :: "byte list \<Rightarrow> nat" where
  "be_value bs = le_value (rev bs)"

lemma le_value_of_bytes:
  "le_value [ucast w, ucast (drop_bit 8 w), ucast (drop_bit 16 w), ucast (drop_bit 24 w)] = unat (w :: u32)"
  "le_value [ucast v, ucast (drop_bit 8 v)] = unat (v :: u16)"
proof -
  have "unat (le32 (ucast w) (ucast (drop_bit 8 w)) (ucast (drop_bit 16 w)) (ucast (drop_bit 24 w))) = unat w"
    by (simp only: le32_bytes_of)
  then show "le_value [ucast w, ucast (drop_bit 8 w), ucast (drop_bit 16 w), ucast (drop_bit 24 w)] = unat w"
    by (simp add: unat_le32)
  have "unat (le16 (ucast v) (ucast (drop_bit 8 v))) = unat v" by (simp only: le16_bytes)
  then show "le_value [ucast v, ucast (drop_bit 8 v)] = unat v" by (simp add: unat_le16)
qed

lemma bswap_32_bytes:
  "bytes32 (bswap_32 w) = [ucast (drop_bit 24 w), ucast (drop_bit 16 w), ucast (drop_bit 8 w), ucast w]"
proof -
  have m: "(0x00FF0000 :: u32) = push_bit 16 (mask 8)" "(0x0000FF00 :: u32) = push_bit 8 (mask 8)"
    by (simp_all add: mask_eq_exp_minus_1 push_bit_eq_mult)
  show ?thesis unfolding bswap_32_def bytes32_def m
    by (auto intro!: bit_word_eqI simp: bit_simps bit_ucast_iff)
qed

lemma bswap_16_bytes: "bytes16 (bswap_16 w) = [ucast (drop_bit 8 w), ucast w]"
  unfolding bswap_16_def bytes16_def by (auto intro!: bit_word_eqI simp: bit_simps bit_ucast_iff)

text \<open>
  The wrapper \<open>scsi_read_10\<close> sends is the one the bulk-only transport asks for: 31 bytes that begin
  with the letters USBC, the number of bytes to transfer in little-endian order, the direction, the
  unit, and a READ(10) command whose address and number of blocks, read with the highest byte
  first, are those asked for.
\<close>

theorem read_10_wrapper:
  "let w = cbw_bytes (new_cbw (ucast blocks * sd_block_size sd) lun 10 (read_10_command lba blocks))
   in length w = 31 \<and> take 4 w = str ''USBC'' \<and>
      le_value (take 4 (drop 8 w)) = unat blocks * unat (sd_block_size sd) mod 2 ^ 32 \<and>
      w ! 12 = 0x80 \<and> w ! 13 = lun \<and> w ! 14 = 10 \<and> w ! 15 = 0x28 \<and> w ! 16 = 0 \<and> w ! 21 = 0 \<and>
      be_value (take 4 (drop 17 w)) = unat lba \<and> be_value (take 2 (drop 22 w)) = unat blocks \<and>
      drop 24 w = replicate 7 0"
proof -
  let ?n = "ucast blocks * sd_block_size sd"
  have n: "unat ?n = unat blocks * unat (sd_block_size sd) mod 2 ^ 32"
  proof -
    have "unat (ucast blocks :: u32) = unat blocks" by (rule unat_ucast_small) (simp add: order.strict_trans [OF unat_u16_lt])
    then show ?thesis by (simp add: unat_word_ariths)
  qed
  have padding: "replicate 7 (0 :: byte) = [0, 0, 0, 0, 0, 0, 0]" by (simp add: numeral_eq_Suc)
  have command_length: "16 - length (read_10_command lba blocks) = 7"
    by (simp add: read_10_command_def bytes32_def bytes16_def)
  have w: "cbw_bytes (new_cbw ?n lun 10 (read_10_command lba blocks)) =
      [0x55, 0x53, 0x42, 0x43, 0, 0, 0, 0,
       ucast ?n, ucast (drop_bit 8 ?n), ucast (drop_bit 16 ?n), ucast (drop_bit 24 ?n), 0x80, lun, 10, 0x28, 0,
       ucast (drop_bit 24 lba), ucast (drop_bit 16 lba), ucast (drop_bit 8 lba), ucast lba, 0,
       ucast (drop_bit 8 blocks), ucast blocks, 0, 0, 0, 0, 0, 0, 0]"
    unfolding cbw_bytes_def new_cbw_def command_length using bswap_32_bytes [of lba]
    by (simp add: read_10_command_def bswap_16_bytes READ_def READ_10_def padding bytes32_def)
  show ?thesis unfolding Let_def w be_value_def using n le_value_of_bytes by (simp add: str_def padding)
qed

section \<open>Endpoints\<close>

definition bad_endpoint :: "memory \<Rightarrow> u32 \<Rightarrow> nat \<Rightarrow> bool" where
  "bad_endpoint m buf i \<longleftrightarrow> m (buf + 7 * of_nat i + 1) \<noteq> DESCRIPTOR_ENDPOINT \<or> m (buf + 7 * of_nat i) \<noteq> 7"

definition bulk_endpoint_in :: "memory \<Rightarrow> u32 \<Rightarrow> nat \<Rightarrow> bool" where
  "bulk_endpoint_in m buf i \<longleftrightarrow> m (buf + 7 * of_nat i + 3) AND 3 = 2 \<and> bit (m (buf + 7 * of_nat i + 2)) 7"

definition bulk_endpoint_out :: "memory \<Rightarrow> u32 \<Rightarrow> nat \<Rightarrow> bool" where
  "bulk_endpoint_out m buf i \<longleftrightarrow> m (buf + 7 * of_nat i + 3) AND 3 = 2 \<and> \<not> bit (m (buf + 7 * of_nat i + 2)) 7"

definition last_such :: "(nat \<Rightarrow> bool) \<Rightarrow> u32 \<Rightarrow> nat list \<Rightarrow> u32 \<Rightarrow> u32" where
  "last_such P buf is junk = (case find P (rev is) of None \<Rightarrow> junk | Some i \<Rightarrow> buf + 7 * of_nat i)"

lemma find_append: "find P (xs @ ys) = (case find P xs of None \<Rightarrow> find P ys | Some x \<Rightarrow> Some x)"
  by (induction xs) simp_all

lemma last_such_Cons: "last_such P buf (i # is) junk = last_such P buf is (if P i then buf + 7 * of_nat i else junk)"
  by (auto simp: last_such_def find_append split: option.splits)

lemma find_endpoints_eq:
  "find_endpoints m buf is (ins, outs) = (if \<exists>i \<in> set is. bad_endpoint m buf i then None
     else Some (last_such (bulk_endpoint_in m buf) buf is ins, last_such (bulk_endpoint_out m buf) buf is outs))"
proof (induction "is" arbitrary: ins outs)
  case (Cons i rest)
  have dir: "b AND USB_ENDPOINT_DIRECTION_IN \<noteq> 0 \<longleftrightarrow> bit b 7" for b :: byte
    by (simp add: USB_ENDPOINT_DIRECTION_IN_def and_exp_eq_0_iff_not_bit [of b 7, simplified])
  show ?case
    by (simp add: Cons load_endpoint_descriptor_def Let_def bad_endpoint_def [of m buf i] bulk_endpoint_in_def [of m buf i] bulk_endpoint_out_def [of m buf i]
      last_such_Cons dir USB_ENDPOINT_TYPE_MASK_def BULK_def)
qed (simp add: last_such_def)

text \<open>
  The loop over the endpoints gives up at a descriptor of a wrong type or length, and else finds
  the last bulk endpoint of each direction. A direction without one keeps the pointer it had, which
  nothing has initialised.
\<close>

theorem endpoints_found:
  "find_endpoints m buf [0..<n] (junk_in, junk_out) =
     (if \<exists>i < n. bad_endpoint m buf i then None
      else Some (last_such (bulk_endpoint_in m buf) buf [0..<n] junk_in,
                 last_such (bulk_endpoint_out m buf) buf [0..<n] junk_out))"
  by (simp add: find_endpoints_eq)

section \<open>Reading\<close>

lemma scsi_command_status:
  assumes "scsi_command hw loc sd cbw buf st = Some (r, sd', st')"
  shows "r = FAILURE \<or> r = SUCCESS \<and> csw_signature (load_csw (mem st') (csw_at loc)) = 0x53425355 \<and>
    csw_status (load_csw (mem st') (csw_at loc)) = 0"
  using assms by (auto simp: scsi_command_def Let_def split: Option.bind_splits if_splits)

text \<open>
  A read reports success only when the status wrapper the device has sent at its end lies in memory,
  with its signature and the status that says the command was carried out. It has no other answers
  than SUCCESS and FAILURE, and it keeps the set of storage devices.
\<close>

theorem read_success_has_status:
  "case usb_storage_read hw loc dv lba n buf s of
     None \<Rightarrow> True
   | Some (r, s') \<Rightarrow> length (storage_devices s') = length (storage_devices s) \<and>
       (r = FAILURE \<or> r = SUCCESS \<and> load32 (mem (usb_state s')) (csw_at loc) = 0x53425355 \<and>
          mem (usb_state s') (csw_at loc + 12) = 0)"
  by (auto simp: usb_storage_read_def scsi_read_10_def load_csw_def split: option.splits Option.bind_splits
    dest!: scsi_command_status)

end
