(* ===== verification/UsbRead.thy ===== *)
theory UsbRead
  imports UsbStorage
begin

text \<open>
  Reading from a USB drive, from the sectors asked for to the bytes in the buffer. The host
  controller and the drive are parameters: what the controller does with a chain of descriptors, and
  what a drive answers to a READ(10) command, are stated as documented (\<open>controller_serves\<close>,
  \<open>serves_blocks\<close>), and the driver is proved to deliver the sectors under them.
\<close>

section \<open>Areas of memory\<close>

definition area :: "u32 \<Rightarrow> nat \<Rightarrow> u32 set" where
  "area a n = {x. unat a \<le> unat x \<and> unat x < unat a + n}"

lemma unat_in_area: "unat (a :: u32) + n \<le> 2 ^ 32 \<Longrightarrow> i < n \<Longrightarrow> unat (a + of_nat i) = unat a + i"
  by (simp add: unat_word_ariths unat_of_nat)

lemma in_area: "unat (a :: u32) + n \<le> 2 ^ 32 \<Longrightarrow> i < n \<Longrightarrow> a + of_nat i \<in> area a n"
  by (simp add: area_def unat_in_area)

lemma area_offset: "x \<in> area a n \<Longrightarrow> x = a + of_nat (unat x - unat a)"
  by (simp add: area_def of_nat_diff of_nat_unat)

lemma area_4: "unat a + 4 \<le> 2 ^ 32 \<Longrightarrow> area a 4 = {a, a + 1, a + 2, a + 3}"
proof
  assume a: "unat a + 4 \<le> 2 ^ 32"
  show "{a, a + 1, a + 2, a + 3} \<subseteq> area a 4"
    using in_area [OF a, of 0] in_area [OF a, of 1] in_area [OF a, of 2] in_area [OF a, of 3] by simp
  show "area a 4 \<subseteq> {a, a + 1, a + 2, a + 3}"
  proof
    fix x assume x: "x \<in> area a 4"
    then have "unat x - unat a < 4" by (auto simp: area_def)
    then have "unat x - unat a \<in> {0, 1, 2, 3}" by auto
    with area_offset [OF x] show "x \<in> {a, a + 1, a + 2, a + 3}" by auto
  qed
qed

lemma area_diff:
  assumes "unat a + n \<le> 2 ^ 32"
  shows "x \<in> area a n \<longleftrightarrow> unat (x - a) < n"
proof (cases "unat a \<le> unat x")
  case True
  then show ?thesis by (auto simp: area_def unat_sub word_le_nat_alt)
next
  case False
  then have "unat (x - a) = unat x + 2 ^ 32 - unat a" by (simp add: unat_sub_if')
  moreover have "n + unat a \<le> 4294967296" using assms by simp
  ultimately show ?thesis using False unfolding area_def by simp
qed

lemma load32_cong: "unat a + 4 \<le> 2 ^ 32 \<Longrightarrow> \<forall>x \<in> area a 4. m x = m' x \<Longrightarrow> load32 m a = load32 m' a"
  by (simp add: area_4 load32_def)

lemma store32_area: "unat a + 4 \<le> 2 ^ 32 \<Longrightarrow> x \<notin> area a 4 \<Longrightarrow> store32 a v m x = m x"
  by (simp add: area_4)

lemma put_bytes_at:
  "unat a + length bs \<le> 2 ^ 32 \<Longrightarrow> put_bytes a bs m x = (if x \<in> area a (length bs) then bs ! (unat x - unat a) else m x)"
proof (induction bs arbitrary: a m)
  case Nil
  have "area a 0 = {}" by (auto simp: area_def)
  then show ?case by simp
next
  case (Cons b bs)
  show ?case
  proof (cases "bs = []")
    case True
    then show ?thesis by (auto simp: area_def word_unat_eq_iff le_less_Suc_eq)
  next
    case False
    then have "0 < length bs" by simp
    with Cons.prems have n: "unat (a + 1) = Suc (unat a)" using unat_in_area [of a "length (b # bs)" 1] by simp
    then have fit: "unat (a + 1) + length bs \<le> 2 ^ 32" using Cons.prems by simp
    define m1 where "m1 = m(a := b)"
    note IH = Cons.IH [OF fit, of m1]
    have put: "put_bytes a (b # bs) m = put_bytes (a + 1) bs m1" by (simp add: m1_def)
    show ?thesis
    proof (cases "x = a")
      case True
      have "x \<notin> area (a + 1) (length bs)" "m1 x = b" using True n by (simp_all add: area_def m1_def)
      then show ?thesis unfolding put IH using True by (auto simp: area_def)
    next
      case other: False
      then have "unat x \<noteq> unat a" by (simp add: word_unat_eq_iff)
      then have "unat x - unat a = Suc (unat x - unat (a + 1))" if "unat a \<le> unat x" using that n by simp
      moreover have "m1 x = m x" using other by (simp add: m1_def)
      ultimately show ?thesis unfolding put IH using n \<open>unat x \<noteq> unat a\<close> by (auto simp: area_def Suc_le_eq)
    qed
  qed
qed

section \<open>The memory around a chain\<close>

definition element_area :: "uhci_controller \<Rightarrow> u32 set" where
  "element_area c = area (queue_default c + 4) 4"

lemma set_element_other:
  "unat (queue_default c + 4) + 4 \<le> 2 ^ 32 \<Longrightarrow> x \<notin> element_area c \<Longrightarrow> mem (set_element c v st) x = mem st x"
  by (simp add: set_element_def with_mem_def element_area_def store32_area)

lemma td_above:
  assumes "unat tds + 32 * n \<le> 2 ^ 32" and "i < n" and "p < 16" and "unat x < unat tds"
  shows "x \<noteq> td_at tds i + of_nat p"
proof
  assume "x = td_at tds i + of_nat p"
  then have "x = tds + of_nat (32 * i + p)" by (simp add: td_at_def add.assoc)
  moreover have "unat (tds + of_nat (32 * i + p)) = unat tds + (32 * i + p)"
    using assms(1-3) by (intro unat_in_area [where n = "32 * n"]) simp_all
  ultimately show False using assms(4) by simp
qed

lemma put_bulk_tds_below:
  assumes "unat tds + 32 * n \<le> 2 ^ 32" and "unat x < unat tds"
  shows "mem (snd (fold (\<lambda>i (tog, st). (1 - tog, put_td tds i (f i tog) st)) [0..<n] (tog, st))) x = mem st x"
  using assms
proof (induction n)
  case (Suc n)
  have "x \<noteq> td_at tds n + of_nat p" if "p < 16" for p
    using td_above [OF Suc.prems(1) _ that Suc.prems(2)] by simp
  moreover obtain t s where "fold (\<lambda>i (tog, st). (1 - tog, put_td tds i (f i tog) st)) [0..<n] (tog, st) = (t, s)"
    by force
  ultimately show ?case using Suc by (simp add: put_td_def with_mem_def store_td_outside)
qed simp

lemma queue_element_fits:
  assumes "unat (queue_default c) + 8 \<le> unat (w :: u32)"
  shows "unat (queue_default c + 4) + 4 \<le> 2 ^ 32"
proof -
  have le: "unat (queue_default c) + 8 \<le> 4294967296" using assms unat_u32_lt [of w] by linarith
  then have "unat (queue_default c) + 8 \<le> 2 ^ 32" by simp
  from unat_in_area [OF this, of 4] le show ?thesis by simp
qed

text \<open>
  What \<open>prepare_bulk\<close> leaves: descriptors above everything allocated before, and below them the old
  memory, apart from the element of the queue, which points to the first descriptor.
\<close>

lemma prepare_bulk_memory:
  assumes s: "s \<noteq> 0" "0 < unat (bulk_length txn)" "unat (bulk_length txn) \<le> 2 ^ 27"
    and p: "prepare_bulk hw c dv txn s st = (tds, num, tog, st')"
    and n: "n = packets_for (unat (bulk_length txn)) (unat s)"
    and room: "unat (free_memory_start (hp st)) + 16 + 32 * n < 2 ^ 32"
    and qe: "unat (queue_default c) + 8 \<le> unat (free_memory_start (hp st))"
  shows "num = int n" and "tog = toggle_after (ep_toggle (bulk_endpoint txn)) n"
    and "unat (free_memory_start (hp st)) \<le> unat tds" and "unat tds mod 16 = 0"
    and "unat (free_memory_start (hp st')) = unat tds + 32 * n" and "unat tds \<le> unat (free_memory_start (hp st)) + 16"
    and "\<forall>x. unat x < unat (free_memory_start (hp st)) \<longrightarrow> x \<notin> element_area c \<longrightarrow> mem st' x = mem st x"
    and "load32 (mem st') (queue_default c + 4) = tds"
    and "\<exists>low. \<forall>i < n. bulk_packet low (ud_address dv) txn (if bulk_type txn = USB_TXNTYPE_BULK_IN then TD_PID_IN else TD_PID_OUT)
      tds (unat s) i (load_td (mem st') (td_at tds i))"
    and "queue_apart c tds n" and "usb_bus st' = usb_bus st" and "uhci_controllers st' = uhci_controllers st"
    and "ports st' = In16 (ucast (port_reg c (ud_port dv))) # ports st"
proof -
  note chain = prepare_bulk_chain [OF s p, folded n]
  show num: "num = int n" and "tog = toggle_after (ep_toggle (bulk_endpoint txn)) n" using chain(1,2) by simp_all
  have len: "unat (bulk_length txn) < 2 ^ 31" using s(3) by simp
  let ?W = "free_memory_start (hp st)"
    and ?pid = "if bulk_type txn = USB_TXNTYPE_BULK_IN then TD_PID_IN else TD_PID_OUT"
  have sz: "unat (of_nat n * 32 :: u32) = 32 * n" using room by (simp add: unat_word_ariths unat_of_nat)
  have no: "unat ?W + 16 + unat (of_nat n * 32 :: u32) < 2 ^ 32" using room sz by simp
  obtain sc st1 where sc: "read_port_sc hw c (ud_port dv) st = (sc, st1)" by force
  have st1: "hp st1 = hp st" "mem st1 = mem st" "usb_bus st1 = usb_bus st" "uhci_controllers st1 = uhci_controllers st"
    "ports st1 = In16 (ucast (port_reg c (ud_port dv))) # ports st"
    using sc by (auto simp: read_port_sc_def in16_def port_word_in_def split: prod.splits)
  obtain st2 where al: "alloc_tds (of_nat n) st1 = (tds, st2)"
    unfolding n using p by (auto simp: prepare_bulk_def Let_def sc bulk_packet_count [OF len] split: prod.splits)
  have a: "tds = fst (memalign 16 (of_nat n * 32) (hp st))" "hp st2 = snd (memalign 16 (of_nat n * 32) (hp st))"
    "mem st2 = memset tds 0 (of_nat n * 32) (mem st)" "usb_bus st2 = usb_bus st" "uhci_controllers st2 = uhci_controllers st"
    "ports st2 = ports st1"
    using al st1 by (auto simp: alloc_tds_def alloc_def with_mem_def split: prod.splits)
  show above: "unat ?W \<le> unat tds" and "unat tds mod 16 = 0" and high: "unat tds \<le> unat ?W + 16"
    using memalign16.above [OF no] memalign16.aligned [OF no] memalign16.waste [OF no] a(1) by simp_all
  have top: "unat (free_memory_start (hp st2)) = unat tds + 32 * n"
    using memalign16.watermark [OF no] a(1,2) sz by simp
  have fit: "unat tds + 32 * n \<le> 2 ^ 32" using high room by simp
  let ?put = "put_bulk_tds (low_speed sc) (ud_address dv) txn ?pid s tds (int n) (ep_toggle (bulk_endpoint txn), st2)"
  have "n \<le> 2 ^ 27" using room by simp
  from put_bulk_tds_spec [OF this, of tds "bulk_td (low_speed sc) (ud_address dv) txn ?pid s tds (int n)"
      "ep_toggle (bulk_endpoint txn)" st2]
  obtain m where m: "?put = (toggle_after (ep_toggle (bulk_endpoint txn)) n, st2\<lparr>mem := m\<rparr>)"
    and each: "\<forall>i < n. load_td m (td_at tds i) = bulk_td (low_speed sc) (ud_address dv) txn ?pid s tds (int n) i
      (toggle_after (ep_toggle (bulk_endpoint txn)) i)"
    unfolding put_bulk_tds_def by auto
  have st': "st' = set_element c tds (st2\<lparr>mem := m\<rparr>)"
    using p al m unfolding n by (simp add: prepare_bulk_def Let_def sc bulk_packet_count [OF len])
  then show "unat (free_memory_start (hp st')) = unat tds + 32 * n" "usb_bus st' = usb_bus st"
    "uhci_controllers st' = uhci_controllers st" "ports st' = In16 (ucast (port_reg c (ud_port dv))) # ports st"
    using top a(4-6) st1(5) by (simp_all add: set_element_def with_mem_def)
  have q: "unat (queue_default c + 4) = unat (queue_default c) + 4"
  proof -
    have "unat (queue_default c) + 8 \<le> 4294967296" using qe unat_u32_lt [of ?W] by linarith
    then have "unat (queue_default c) + 8 \<le> 2 ^ 32" by simp
    from unat_in_area [OF this, of 4] show ?thesis by simp
  qed
  moreover have "unat (queue_default c) + 8 \<le> 4294967296" using qe unat_u32_lt [of ?W] by linarith
  ultimately have q4: "unat (queue_default c + 4) + 4 \<le> 2 ^ 32" by simp
  have below: "m x = mem st x" if "unat x < unat ?W" for x
  proof -
    have "unat x < unat tds" using that above by simp
    from put_bulk_tds_below [OF fit this, of "bulk_td (low_speed sc) (ud_address dv) txn ?pid s tds (int n)"
        "ep_toggle (bulk_endpoint txn)" st2] m
    have "m x = mem st2 x" by (simp add: put_bulk_tds_def)
    moreover have "\<not> unat (x - tds) < 32 * n"
    proof -
      have "unat (x - tds) = unat x + 2 ^ 32 - unat tds" using \<open>unat x < unat tds\<close> by (simp add: unat_sub_if')
      then show ?thesis using fit unat_u32_lt [of tds] by linarith
    qed
    ultimately show ?thesis using a(3) sz by (simp add: memset_eq)
  qed
  show "\<forall>x. unat x < unat ?W \<longrightarrow> x \<notin> element_area c \<longrightarrow> mem st' x = mem st x"
    by (simp add: st' set_element_other [OF q4] below)
  show "load32 (mem st') (queue_default c + 4) = tds" by (simp add: st' set_element_def with_mem_def)
  show apart: "queue_apart c tds n"
    unfolding queue_apart_def
  proof (intro allI impI)
    fix i p :: nat assume ip: "i < n" "p < 16"
    have "unat (tds + of_nat (32 * i + p)) = unat tds + (32 * i + p)"
      using ip fit by (intro unat_in_area [where n = "32 * n"]) simp_all
    then have "td_at tds i + of_nat p \<notin> area (queue_default c + 4) 4"
      using above qe q by (simp add: area_def td_at_def add.assoc)
    then show "td_at tds i + of_nat p \<notin> {queue_default c + 4, queue_default c + 5, queue_default c + 6, queue_default c + 7}"
      by (simp add: area_4 [OF q4] add.assoc)
  qed
  show "\<exists>low. \<forall>i < n. bulk_packet low (ud_address dv) txn ?pid tds (unat s) i (load_td (mem st') (td_at tds i))"
  proof (intro exI [of _ "low_speed sc"] allI impI)
    fix i assume i: "i < n"
    show "bulk_packet (low_speed sc) (ud_address dv) txn ?pid tds (unat s) i (load_td (mem st') (td_at tds i))"
      using bulk_td_packet [OF s(1,2), of i] i each by (simp add: st' set_element_td [OF apart i] n)
  qed
qed

section \<open>The schedule of the controller\<close>

text \<open>
  The registers that say where the frame list is and that the controller runs: what was written
  to them last.
\<close>

fun last_word :: "u16 \<Rightarrow> history \<Rightarrow> u16 option" where
  "last_word p [] = None"
| "last_word p (Out16 q v # h) = (if q = p then Some v else last_word p h)"
| "last_word p (_ # h) = last_word p h"

fun last_long :: "u16 \<Rightarrow> history \<Rightarrow> u32 option" where
  "last_long p [] = None"
| "last_long p (Out32 q v # h) = (if q = p then Some v else last_long p h)"
| "last_long p (_ # h) = last_long p h"

definition running :: "uhci_controller \<Rightarrow> history \<Rightarrow> bool" where
  "running c h \<longleftrightarrow> last_word (ucast (io_base c + REG_USB_COMMAND)) h = Some USBCMD_RUN_STOP \<and>
     last_long (ucast (io_base c + REG_FRBASEADD)) h = Some (stack_frame c)"

lemma running_steps [simp]: "running c (Tick # h) = running c h" "running c (In16 p # h) = running c h"
  by (simp_all add: running_def)

lemma running_ticks [simp]: "running c (replicate j Tick @ h) = running c h"
  by (induction j) simp_all

text \<open>
  The schedule in memory: every one of the 1024 entries of the frame list leads to the queue, and
  nothing follows the queue. Its element, where the chains are hung, is the driver's to change.
\<close>

definition schedule_set :: "uhci_controller \<Rightarrow> memory \<Rightarrow> bool" where
  "schedule_set c m \<longleftrightarrow> (\<forall>i < 1024. load32 m (stack_frame c + 4 * of_nat i) = queue_default c OR 2) \<and> load32 m (queue_default c) = 1"

definition schedule_area :: "uhci_controller \<Rightarrow> u32 set" where
  "schedule_area c = area (stack_frame c) 4096 \<union> area (queue_default c) 4 \<union> element_area c"

definition schedule_placed :: "uhci_controller \<Rightarrow> nat \<Rightarrow> bool" where
  "schedule_placed c w \<longleftrightarrow> unat (stack_frame c) + 4096 \<le> w \<and> unat (queue_default c) + 8 \<le> w \<and>
     area (stack_frame c) 4096 \<inter> area (queue_default c) 8 = {}"

lemma unat_frame_entry: "unat (a :: u32) + 4 * n \<le> 2 ^ 32 \<Longrightarrow> i < n \<Longrightarrow> unat (a + 4 * of_nat i) = unat a + 4 * i"
  using unat_in_area [of a "4 * n" "4 * i"] by simp

lemma schedule_kept:
  assumes "schedule_set c m" and w: "schedule_placed c w" "w \<le> 2 ^ 32"
    and same: "\<forall>x. unat x < w \<longrightarrow> x \<in> schedule_area c \<longrightarrow> x \<notin> element_area c \<longrightarrow> m' x = m x"
  shows "schedule_set c m'"
proof -
  have q: "unat (queue_default c) + 8 \<le> 2 ^ 32" and f: "unat (stack_frame c) + 4 * 1024 \<le> 2 ^ 32"
    using w by (simp_all add: schedule_placed_def)
  have q4: "unat (queue_default c + 4) = unat (queue_default c) + 4" using unat_in_area [OF q, of 4] by simp
  have "load32 m' (queue_default c) = load32 m (queue_default c)"
    using w q4 q by (intro load32_cong ballI same [rule_format])
      (auto simp: schedule_placed_def schedule_area_def element_area_def area_def)
  moreover have "load32 m' (stack_frame c + 4 * of_nat i) = load32 m (stack_frame c + 4 * of_nat i)" if i: "i < 1024" for i
  proof (rule load32_cong)
    show "unat (stack_frame c + 4 * of_nat i) + 4 \<le> 2 ^ 32" using unat_frame_entry [OF f i] f i by simp
    show "\<forall>x \<in> area (stack_frame c + 4 * of_nat i) 4. m' x = m x"
    proof
      fix x assume "x \<in> area (stack_frame c + 4 * of_nat i) 4"
      then have x: "x \<in> area (stack_frame c) 4096" using unat_frame_entry [OF f i] i by (auto simp: area_def)
      then have "x \<notin> area (queue_default c) 8" using w(1) by (auto simp: schedule_placed_def)
      then have "x \<notin> element_area c" using q4 by (auto simp: element_area_def area_def)
      moreover have "unat x < w" using x w(1) by (simp add: area_def schedule_placed_def)
      ultimately show "m' x = m x" using x same by (simp add: schedule_area_def)
    qed
  qed
  ultimately show ?thesis using assms(1) by (simp add: schedule_set_def)
qed

lemma frame_list_stored:
  assumes "unat a + 4 * n \<le> 2 ^ 32"
  shows "(\<forall>i < n. load32 (fold (\<lambda>i. store32 (a + 4 * of_nat i) v) [0..<n] m) (a + 4 * of_nat i) = v) \<and>
    (\<forall>x. x \<notin> area a (4 * n) \<longrightarrow> fold (\<lambda>i. store32 (a + 4 * of_nat i) v) [0..<n] m x = m x)"
  using assms
proof (induction n)
  case (Suc n)
  let ?m = "fold (\<lambda>i. store32 (a + 4 * of_nat i) v) [0..<n] m"
  have n: "unat (a + 4 * of_nat n) = unat a + 4 * n" by (rule unat_frame_entry [OF Suc.prems]) simp
  then have fits: "unat (a + 4 * of_nat n) + 4 \<le> 2 ^ 32" using Suc.prems by simp
  have "load32 (store32 (a + 4 * of_nat n) v ?m) (a + 4 * of_nat i) = v" if "i < Suc n" for i
  proof (cases "i = n")
    case False
    then have i: "unat (a + 4 * of_nat i) = unat a + 4 * i" "i < n" using that unat_frame_entry [OF Suc.prems that] by simp_all
    then have "load32 (store32 (a + 4 * of_nat n) v ?m) (a + 4 * of_nat i) = load32 ?m (a + 4 * of_nat i)"
      using n Suc.prems by (intro load32_cong ballI store32_area [OF fits]) (auto simp: area_def)
    with Suc i show ?thesis by simp
  qed simp
  moreover have "store32 (a + 4 * of_nat n) v ?m x = m x" if x: "x \<notin> area a (4 * Suc n)" for x
  proof -
    have "x \<notin> area (a + 4 * of_nat n) 4" "x \<notin> area a (4 * n)" using x n by (auto simp: area_def)
    then show ?thesis using store32_area [OF fits] Suc by simp
  qed
  ultimately show ?case by simp
qed simp

lemma fold_with_mem: "fold (\<lambda>i. with_mem (f i)) is st = with_mem (fold f is) st"
  by (induction "is" arbitrary: st) (simp_all add: with_mem_def)

text \<open>
  \<open>start_schedule\<close>, the end of the driver's initialisation, leaves the controller running on such a
  schedule, apart from the frame list it was given.
\<close>

lemma start_schedule_runs:
  assumes run: "start_schedule hw c st = (c', st')"
    and below: "unat (stack_frame c) + 4096 \<le> unat (free_memory_start (hp st))"
    and room: "unat (free_memory_start (hp st)) + 32 < 2 ^ 32"
  shows "running c' (ports st')" and "schedule_set c' (mem st')" and "schedule_placed c' (unat (free_memory_start (hp st')))"
    and "stack_frame c' = stack_frame c" and "bit (load32 (mem st') (queue_default c' + 4)) 0"
proof -
  let ?W = "free_memory_start (hp st)"
  define q where "q = fst (memalign 16 16 (hp st))"
  have no: "unat ?W + 16 + unat (16 :: u32) < 2 ^ 32" using room by simp
  have above: "unat ?W \<le> unat q" and top: "unat (free_memory_start (snd (memalign 16 16 (hp st)))) = unat q + 16"
    and aligned: "unat q mod 16 = 0"
    using memalign16.above [OF no] memalign16.watermark [OF no] memalign16.aligned [OF no] by (simp_all add: q_def)
  have qfit: "unat q + 16 \<le> 2 ^ 32" using memalign16.waste [OF no] room by (simp add: q_def)
  let ?m = "store32 (q + 4) 1 (store32 q 1 (mem st))"
  let ?list = "fold (\<lambda>i. store32 (stack_frame c + 4 * of_nat i) (q OR 2)) [0..<1024] ?m"
  obtain al where al: "memalign 16 16 (hp st) = (q, al)" "unat (free_memory_start al) = unat q + 16"
    using top by (metis q_def prod.collapse)
  have end_state: "c' = c\<lparr>queue_default := q\<rparr>" "mem st' = ?list" "hp st' = al"
    "ports st' = Out16 (ucast (io_base c + REG_USB_COMMAND)) USBCMD_RUN_STOP # Out16 (ucast (io_base c + REG_USB_STATUS)) 0xFFFF #
       Out32 (ucast (io_base c + REG_FRBASEADD)) (stack_frame c) # ports st"
    using run al(1)
    by (auto simp: start_schedule_def alloc_def out32_def out16_def port_long_out_def port_word_out_def fold_with_mem with_mem_def)
  then show "stack_frame c' = stack_frame c" "running c' (ports st')" by (simp_all add: running_def)
  have q4: "unat (q + 4) = unat q + 4" using unat_in_area [OF qfit, of 4] by simp
  have f: "unat (stack_frame c) + 4 * 1024 \<le> 2 ^ 32" using below room by simp
  note stored = frame_list_stored [OF f, of "q OR 2" ?m]
  have off: "?list x = ?m x" if "unat q \<le> unat x" for x
    using stored that below above by (auto simp: area_def)
  have "load32 ?list q = load32 ?m q"
    by (intro load32_cong ballI off) (use qfit in \<open>auto simp: area_def\<close>)
  also have "\<dots> = load32 (store32 q 1 (mem st)) q"
    using qfit q4 by (intro load32_cong ballI store32_area) (auto simp: area_def)
  finally have head: "load32 ?list q = 1" by simp
  have "load32 ?list (q + 4) = load32 ?m (q + 4)"
    by (intro load32_cong ballI off) (use qfit q4 in \<open>auto simp: area_def\<close>)
  then show "bit (load32 (mem st') (queue_default c' + 4)) 0" by (simp add: end_state)
  show "schedule_set c' (mem st')" using stored head by (simp add: schedule_set_def end_state)
  show "schedule_placed c' (unat (free_memory_start (hp st')))"
    using below above al(2) by (auto simp: schedule_placed_def end_state area_def)
qed

section \<open>The controller and the device behind it\<close>

text \<open>
  A device with a bulk endpoint in each direction: its addresses, what it makes of the bytes it is
  sent (\<open>accept\<close>) and has to send (\<open>give\<close>), and the toggle bit it expects next on an endpoint.
  \<open>protocol\<close> is the state of the device that the commands see; \<open>configured\<close> tells that it is there
  under its address, with its configuration chosen. \<open>chain_time\<close> is how many frames of a millisecond
  a transfer of so many bytes takes at most in a direction, with the answers by which the device puts the controller
  off and the bandwidth of the bus counted in; for a transfer the device gives no time for, nothing is promised.
\<close>

record ('d, 'e) bulk_device =
  usb_address :: byte
  in_address :: byte
  out_address :: byte
  packet_size :: byte
  configured :: "history \<Rightarrow> 'd \<Rightarrow> bool"
  chain_time :: "byte \<Rightarrow> nat \<Rightarrow> nat option"
  toggle_of :: "byte \<Rightarrow> 'd \<Rightarrow> bool"
  protocol :: "'d \<Rightarrow> 'e"
  accept :: "byte list \<Rightarrow> 'e \<Rightarrow> 'e"
  give :: "nat \<Rightarrow> 'e \<Rightarrow> byte list \<times> 'e"

definition bytes_at :: "memory \<Rightarrow> u32 \<Rightarrow> nat \<Rightarrow> byte list" where
  "bytes_at m a n = map (\<lambda>i. m (a + of_nat i)) [0..<n]"

lemma bytes_at_cong: "unat a + n \<le> 2 ^ 32 \<Longrightarrow> \<forall>x \<in> area a n. m x = m' x \<Longrightarrow> bytes_at m a n = bytes_at m' a n"
  by (simp add: bytes_at_def in_area)

text \<open>A chain for the device is hung into the queue, for \<open>txn\<close>, in the direction \<open>pid\<close>.\<close>

definition chain_hung ::
  "uhci_controller \<Rightarrow> ('d, 'e) bulk_device \<Rightarrow> byte \<Rightarrow> usb_bulk_transaction \<Rightarrow> u32 \<Rightarrow> 'd usb_state \<Rightarrow> bool" where
  "chain_hung c bd pid txn tds st \<longleftrightarrow>
     load32 (mem st) (queue_default c + 4) = tds \<and> unat tds mod 16 = 0 \<and>
     ep_address (bulk_endpoint txn) = (if pid = TD_PID_IN then in_address bd else out_address bd) \<and>
     bit (ep_toggle (bulk_endpoint txn)) 0 = toggle_of bd pid (usb_bus st) \<and>
     (\<exists>low. \<forall>i < packets_for (unat (bulk_length txn)) (unat (packet_size bd)).
        bulk_packet low (usb_address bd) txn pid tds (unat (packet_size bd)) i (load_td (mem st) (td_at tds i)))"

text \<open>
  What has become of a chain that was carried out: the bytes have gone from the buffer to the
  device, or come from the device to the buffer; the element of the queue is terminated and nothing
  else below the descriptors has changed; each descriptor is inactive and tells that it has moved all
  its bytes; the toggle bit has alternated with every packet; the device is still there.
\<close>

definition chain_done ::
  "uhci_controller \<Rightarrow> ('d, 'e) bulk_device \<Rightarrow> byte \<Rightarrow> usb_bulk_transaction \<Rightarrow> u32 \<Rightarrow> 'd usb_state \<Rightarrow> 'd usb_state \<Rightarrow> bool" where
  "chain_done c bd pid txn tds st st' \<longleftrightarrow>
     (let len = unat (bulk_length txn); n = packets_for len (unat (packet_size bd));
          d = protocol bd (usb_bus st); d' = protocol bd (usb_bus st')
      in bit (load32 (mem st') (queue_default c + 4)) 0 \<and>
         (\<forall>i < n. \<not> status_active (load_td (mem st') (td_at tds i)) \<and>
            actual_length (load_td (mem st') (td_at tds i)) = max_length (load_td (mem st) (td_at tds i))) \<and>
         d' = (if pid = TD_PID_IN then snd (give bd len d) else accept bd (bytes_at (mem st) (bulk_buffer txn) len) d) \<and>
         (\<forall>x. unat x < unat tds \<longrightarrow> x \<notin> element_area c \<longrightarrow>
            mem st' x = (if pid = TD_PID_IN \<and> x \<in> area (bulk_buffer txn) len
                         then fst (give bd len d) ! (unat x - unat (bulk_buffer txn)) else mem st x)) \<and>
         toggle_of bd pid (usb_bus st') = (toggle_of bd pid (usb_bus st) \<noteq> odd n) \<and>
         (\<forall>p \<noteq> pid. toggle_of bd p (usb_bus st') = toggle_of bd p (usb_bus st)) \<and>
         configured bd (ports st') (usb_bus st'))"

text \<open>
  What the controller and the device do, as the specification of the controller has it: a controller
  that runs on the driver's schedule leaves the memory and the device alone in each frame in which the
  queue is terminated, and reading its registers does not disturb the device. A chain hung
  into the queue is carried out as fast as the device and the bus allow: for a transfer that takes at
  most \<open>t\<close> frames, the last descriptor becomes inactive in the \<open>k\<close>th of them, and then all is done.
  This holds for chains whose descriptors lie above buffer, schedule and queue, when the buffer does not overlap
  these and the device has as many bytes to give as the chain asks for.
\<close>

definition idle_quiet :: "'d usb_hw \<Rightarrow> uhci_controller \<Rightarrow> ('d, 'e) bulk_device \<Rightarrow> bool" where
  "idle_quiet hw c bd \<longleftrightarrow>
     (\<forall>h d m. running c h \<longrightarrow> schedule_set c m \<longrightarrow> bit (load32 m (queue_default c + 4)) 0 \<longrightarrow>
        frame hw h (d, m) = (d, m) \<and> (configured bd h d \<longrightarrow> configured bd (Tick # h) d)) \<and>
     (\<forall>h d p. configured bd h d \<longrightarrow> configured bd (In16 p # h) d)"

definition controller_serves :: "'d usb_hw \<Rightarrow> uhci_controller \<Rightarrow> ('d, 'e) bulk_device \<Rightarrow> bool" where
  "controller_serves hw c bd \<longleftrightarrow> idle_quiet hw c bd \<and>
     (\<forall>pid txn tds st t. let len = unat (bulk_length txn); n = packets_for len (unat (packet_size bd)) in
        pid \<in> {TD_PID_IN, TD_PID_OUT} \<longrightarrow> chain_time bd pid len = Some t \<longrightarrow>
        running c (ports st) \<longrightarrow> schedule_set c (mem st) \<longrightarrow> schedule_placed c (unat tds) \<longrightarrow>
        chain_hung c bd pid txn tds st \<longrightarrow> configured bd (ports st) (usb_bus st) \<longrightarrow> 0 < len \<longrightarrow>
        unat (bulk_buffer txn) + len \<le> unat tds \<longrightarrow> unat tds + 32 * n < 2 ^ 32 \<longrightarrow>
        area (bulk_buffer txn) len \<inter> schedule_area c = {} \<longrightarrow>
        (pid = TD_PID_IN \<longrightarrow> length (fst (give bd len (protocol bd (usb_bus st)))) = len) \<longrightarrow>
        (\<exists>k \<le> t. (\<forall>j < k. status_active (load_td (mem (usb_delay hw j st)) (td_at tds (n - 1)))) \<and>
           chain_done c bd pid txn tds st (usb_delay hw k st)))"

text \<open>The driver waits for a transfer for a second, whatever its length.\<close>

definition in_time :: "('d, 'e) bulk_device \<Rightarrow> byte \<Rightarrow> nat \<Rightarrow> bool" where
  "in_time bd pid len \<longleftrightarrow> (case chain_time bd pid len of None \<Rightarrow> False | Some t \<Rightarrow> t < 1000)"

lemma controller_served:
  assumes "controller_serves hw c bd" and "pid \<in> {TD_PID_IN, TD_PID_OUT}" and "in_time bd pid len"
    and "running c (ports st)" and "schedule_set c (mem st)" and "schedule_placed c (unat tds)"
    and "chain_hung c bd pid txn tds st"
    and "configured bd (ports st) (usb_bus st)" and "len = unat (bulk_length txn)" and "n = packets_for len (unat (packet_size bd))"
    and "0 < len" and "unat (bulk_buffer txn) + len \<le> unat tds"
    and "unat tds + 32 * n < 2 ^ 32" and "area (bulk_buffer txn) len \<inter> schedule_area c = {}"
    and "pid = TD_PID_IN \<longrightarrow> length (fst (give bd len (protocol bd (usb_bus st)))) = len"
  shows "\<exists>k < 1000. (\<forall>j < k. status_active (load_td (mem (usb_delay hw j st)) (td_at tds (n - 1)))) \<and>
    chain_done c bd pid txn tds st (usb_delay hw k st)"
proof -
  obtain t where t: "chain_time bd pid len = Some t" "t < 1000" using assms(3) by (auto simp: in_time_def split: option.splits)
  have "\<exists>k \<le> t. (\<forall>j < k. status_active (load_td (mem (usb_delay hw j st)) (td_at tds (n - 1)))) \<and>
    chain_done c bd pid txn tds st (usb_delay hw k st)"
    using assms(1) [unfolded controller_serves_def Let_def, THEN conjunct2, rule_format, of pid txn t st tds] assms(2,4-) t(1) by simp
  with t(2) show ?thesis by (meson le_less_trans)
qed

lemma quiet_frames:
  assumes "idle_quiet hw c bd" and "bit (load32 (mem st) (queue_default c + 4)) 0" and "running c (ports st)" and "schedule_set c (mem st)"
  shows "usb_delay hw j st = st\<lparr>ports := replicate j Tick @ ports st\<rparr>"
proof (induction j)
  case (Suc j)
  have "usb_delay hw (Suc j) st = run_frame hw (usb_delay hw j st)" by (simp add: usb_delay_def)
  then show ?case using assms Suc by (simp add: run_frame_def idle_quiet_def)
qed simp

lemma quiet_configured:
  assumes "idle_quiet hw c bd" and "bit (load32 m (queue_default c + 4)) 0" and "running c h" and "schedule_set c m" and "configured bd h d"
  shows "configured bd (replicate j Tick @ h) d"
  by (induction j) (use assms in \<open>auto simp: idle_quiet_def\<close>)

lemma usb_delay_ports: "ports (usb_delay hw j st) = replicate j Tick @ ports st"
proof (induction j)
  case (Suc j)
  have "usb_delay hw (Suc j) st = run_frame hw (usb_delay hw j st)" by (simp add: usb_delay_def)
  then show ?case using Suc by (simp add: run_frame_def split: prod.splits)
qed simp

lemma usb_delay_rest:
  "hp (usb_delay hw j st) = hp st" "uhci_controllers (usb_delay hw j st) = uhci_controllers st"
proof (induction j)
  case (Suc j)
  have "usb_delay hw (Suc j) st = run_frame hw (usb_delay hw j st)" by (simp add: usb_delay_def)
  then show "hp (usb_delay hw (Suc j) st) = hp st" "uhci_controllers (usb_delay hw (Suc j) st) = uhci_controllers st"
    using Suc by (simp_all add: run_frame_def split: prod.splits)
qed simp_all

section \<open>A bulk transaction\<close>

text \<open>What a transaction does to the device and to the memory that was in use before it.\<close>

definition watermark :: "'d usb_state \<Rightarrow> nat" where
  "watermark st = unat (free_memory_start (hp st))"

definition moved ::
  "uhci_controller \<Rightarrow> ('d, 'e) bulk_device \<Rightarrow> byte \<Rightarrow> u32 \<Rightarrow> nat \<Rightarrow> 'd usb_state \<Rightarrow> 'd usb_state \<Rightarrow> bool" where
  "moved c bd pid buf len st st' \<longleftrightarrow>
     (let n = packets_for len (unat (packet_size bd)); d = protocol bd (usb_bus st)
      in protocol bd (usb_bus st') = (if pid = TD_PID_IN then snd (give bd len d) else accept bd (bytes_at (mem st) buf len) d) \<and>
         (\<forall>x. unat x < watermark st \<longrightarrow> x \<notin> element_area c \<longrightarrow>
            mem st' x = (if pid = TD_PID_IN \<and> x \<in> area buf len then fst (give bd len d) ! (unat x - unat buf) else mem st x)) \<and>
         toggle_of bd pid (usb_bus st') = (toggle_of bd pid (usb_bus st) \<noteq> odd n) \<and>
         (\<forall>p \<noteq> pid. toggle_of bd p (usb_bus st') = toggle_of bd p (usb_bus st)) \<and>
         running c (ports st') \<and> schedule_set c (mem st') \<and> configured bd (ports st') (usb_bus st') \<and> uhci_controllers st' = uhci_controllers st \<and>
         watermark st \<le> watermark st' \<and> watermark st' \<le> watermark st + 16 + 32 * n)"

definition fits_device :: "('d, 'e) bulk_device \<Rightarrow> usb_device \<Rightarrow> byte \<Rightarrow> usb_endpoint \<Rightarrow> 'd \<Rightarrow> bool" where
  "fits_device bd dv pid ep d \<longleftrightarrow> ud_address dv = usb_address bd \<and> packet_size bd \<noteq> 0 \<and>
     ucast (ep_max_packet_size ep) = packet_size bd \<and>
     ep_address ep = (if pid = TD_PID_IN then in_address bd else out_address bd) \<and> bit (ep_toggle ep) 0 = toggle_of bd pid d"

lemma bulk_moves:
  assumes cs: "controller_serves hw c bd" and kind: "bulk_type txn \<noteq> USB_TXNTYPE_CONTROL"
    and pid: "pid = (if bulk_type txn = USB_TXNTYPE_BULK_IN then TD_PID_IN else TD_PID_OUT)"
    and dev: "fits_device bd dv pid (bulk_endpoint txn) (usb_bus st)" "configured bd (ports st) (usb_bus st)"
    and schedule: "running c (ports st)" "schedule_set c (mem st)" "schedule_placed c (watermark st)"
    and len: "len = unat (bulk_length txn)" "0 < len" "len \<le> 2 ^ 27" "in_time bd pid len"
    and n: "n = packets_for len (unat (packet_size bd))"
    and room: "watermark st + 16 + 32 * n < 2 ^ 32"
    and below: "unat (bulk_buffer txn) + len \<le> watermark st"
    and apart: "area (bulk_buffer txn) len \<inter> schedule_area c = {}"
    and has: "pid = TD_PID_IN \<longrightarrow> length (fst (give bd len (protocol bd (usb_bus st)))) = len"
  shows "\<exists>st'. uhci_execute_bulk_transaction hw c dv txn st = Some (SUCCESS,
      txn\<lparr>bulk_endpoint := (bulk_endpoint txn)\<lparr>ep_toggle := toggle_after (ep_toggle (bulk_endpoint txn)) n\<rparr>,
        bulk_actual_length := bulk_length txn\<rparr>, st') \<and> moved c bd pid (bulk_buffer txn) len st st'"
proof -
  let ?txn = "txn\<lparr>bulk_actual_length := 0\<rparr>" let ?s = "packet_size bd"
  have s: "?s = ucast (ep_max_packet_size (bulk_endpoint txn))" "?s \<noteq> 0" using dev(1) by (simp_all add: fits_device_def)
  obtain tds num tog st1 where p: "prepare_bulk hw c dv ?txn ?s st = (tds, num, tog, st1)" by (metis prod_cases4)
  have room': "unat (free_memory_start (hp st)) + 16 + 32 * n < 2 ^ 32"
    and below': "unat (queue_default c) + 8 \<le> unat (free_memory_start (hp st))"
    using room schedule(3) by (simp_all add: watermark_def schedule_placed_def)
  have args: "0 < unat (bulk_length ?txn)" "unat (bulk_length ?txn) \<le> 2 ^ 27" "n = packets_for (unat (bulk_length ?txn)) (unat ?s)"
    using len n by simp_all
  note prep = prepare_bulk_memory [OF s(2) args(1,2) p args(3) room' below']
  note num = prep(1) and above = prep(3) and aligned = prep(4) and top = prep(5) and high = prep(6) and old = prep(7)
    and hung = prep(8) and packets = prep(9) and qapart = prep(10) and bus1 = prep(11) and ctl1 = prep(12)
  have apart_element: "area (bulk_buffer txn) len \<inter> element_area c = {}" using apart by (auto simp: schedule_area_def)
  have w32: "watermark st \<le> 2 ^ 32" using room by simp
  have quiet: "idle_quiet hw c bd" using cs by (simp add: controller_serves_def)
  have configured1: "configured bd (ports st1) (usb_bus st1)" and running1: "running c (ports st1)"
    using quiet dev(2) schedule(1) prep(13) bus1 by (simp_all add: idle_quiet_def)
  have set1: "schedule_set c (mem st1)"
    using schedule_kept [OF schedule(2,3) w32, of "mem st1"] old by (simp add: watermark_def)
  have "chain_hung c bd pid ?txn tds st1"
    using hung aligned packets dev(1) bus1 len(1) n by (auto simp: chain_hung_def fits_device_def pid)
  moreover have "pid \<in> {TD_PID_IN, TD_PID_OUT}" by (simp add: pid)
  moreover have "unat (bulk_buffer txn) + len \<le> unat tds" "schedule_placed c (unat tds)" "unat tds + 32 * n < 2 ^ 32"
    using below above high room schedule(3) by (auto simp: watermark_def schedule_placed_def)
  ultimately obtain k where k: "k < 1000" "\<forall>j < k. status_active (load_td (mem (usb_delay hw j st1)) (td_at tds (n - 1)))"
    "chain_done c bd pid ?txn tds st1 (usb_delay hw k st1)"
    using controller_served [OF cs _ len(4) running1 set1 _ _ configured1, of tds ?txn n] len(1,2) n apart has bus1 by auto
  let ?stk = "usb_delay hw k st1" let ?fin = "set_element c 1 (usb_delay hw (50 + k) st1)"
  have stop: "bit (load32 (mem ?stk) (queue_default c + 4)) 0" using k(3) by (simp add: chain_done_def Let_def)
  have runningk: "running c (ports ?stk)" using running1 by (simp add: usb_delay_ports)
  have setk: "schedule_set c (mem ?stk)"
  proof (rule schedule_kept [OF set1 schedule(3) w32], intro allI impI)
    fix x assume "unat x < watermark st" and x: "x \<in> schedule_area c" "x \<notin> element_area c"
    then have "unat x < unat tds" using above by (simp add: watermark_def)
    moreover have "x \<notin> area (bulk_buffer txn) len" using apart x(1) by auto
    ultimately show "mem ?stk x = mem st1 x" using k(3) x(2) by (simp add: chain_done_def Let_def flip: len(1))
  qed
  have configuredk: "configured bd (ports ?stk) (usb_bus ?stk)" using k(3) by (simp add: chain_done_def Let_def)
  have "usb_delay hw (50 + k) st1 = usb_delay hw 50 ?stk"
    by (simp only: usb_delay_def funpow_add o_apply)
  also have "\<dots> = ?stk\<lparr>ports := replicate 50 Tick @ ports ?stk\<rparr>" by (rule quiet_frames [OF quiet stop runningk setk])
  finally have wait: "usb_delay hw (50 + k) st1 = ?stk\<lparr>ports := replicate 50 Tick @ ports ?stk\<rparr>" .
  have stop': "bit (load32 (mem (set_element c 1 st2)) (queue_default c + 4)) 0" for st2
    by (simp add: set_element_def with_mem_def)
  have q4: "unat (queue_default c + 4) + 4 \<le> 2 ^ 32" by (rule queue_element_fits [OF below'])
  have set_stop: "schedule_set c (mem (set_element c 1 st2))" if "schedule_set c (mem st2)" for st2
    using schedule_kept [OF that schedule(3) w32] set_element_other [OF q4] by blast
  have rest: "usb_delay hw j (set_element c 1 st2) = (set_element c 1 st2)\<lparr>ports := replicate j Tick @ ports (set_element c 1 st2)\<rparr>"
    if "running c (ports st2)" "schedule_set c (mem st2)" for j st2
    by (rule quiet_frames [OF quiet stop' _ set_stop]) (use that in \<open>simp_all add: set_element_def with_mem_def\<close>)
  have served: "chain_served hw c tds n k st1"
    unfolding chain_served_def
  proof (intro conjI k(2) allI impI)
    show "\<not> status_active (load_td (mem ?stk) (td_at tds (n - 1)))"
      using k(3) packets_for_bounds(3) [of "unat ?s" len] s(2) len(2) n
      by (simp add: chain_done_def Let_def unat_gt_0 flip: len(1))
    fix i assume i: "i < n"
    have "actual_length (load_td (mem (usb_delay hw 2 (set_element c 1 (usb_delay hw 50 ?stk)))) (td_at tds i)) =
        actual_length (load_td (mem ?stk) (td_at tds i))"
      by (simp add: rest runningk setk quiet_frames [OF quiet stop runningk setk] set_element_td [OF qapart i])
    also have "\<dots> = max_length (load_td (mem st1) (td_at tds i))"
      using k(3) i by (simp add: chain_done_def Let_def n flip: len(1))
    finally show "actual_length (load_td (mem (usb_delay hw 2 (set_element c 1 (usb_delay hw 50 ?stk)))) (td_at tds i)) =
        max_length (load_td (mem st1) (td_at tds i))" .
  qed
  have "uhci_execute_bulk_transaction hw c dv txn st = Some (SUCCESS,
      txn\<lparr>bulk_endpoint := (bulk_endpoint txn)\<lparr>ep_toggle := toggle_after (ep_toggle (bulk_endpoint txn)) n\<rparr>,
        bulk_actual_length := bulk_length txn\<rparr>, usb_delay hw 52 ?fin)"
    using bulk_transaction_served [OF kind s(1) s(2) _ _ p _ k(1)] served qapart num len n by simp
  moreover have "moved c bd pid (bulk_buffer txn) len st (usb_delay hw 52 ?fin)"
  proof -
    have final: "usb_delay hw 52 ?fin = ?stk\<lparr>ports := replicate 52 Tick @ replicate 50 Tick @ ports ?stk,
        mem := store32 (queue_default c + 4) 1 (mem ?stk)\<rparr>"
      using rest [of "usb_delay hw (50 + k) st1" 52] runningk setk by (simp add: wait set_element_def with_mem_def)
    have mem: "mem (usb_delay hw 52 ?fin) x = mem ?stk x" if "x \<notin> element_area c" for x
      using that by (simp add: final element_area_def store32_area [OF q4])
    have fields: "usb_bus (usb_delay hw 52 ?fin) = usb_bus ?stk" "watermark (usb_delay hw 52 ?fin) = unat tds + 32 * n"
      "uhci_controllers (usb_delay hw 52 ?fin) = uhci_controllers st"
      using top ctl1 by (simp_all add: final watermark_def usb_delay_rest)
    have "configured bd (replicate 50 Tick @ ports ?stk) (usb_bus ?stk)"
      by (rule quiet_configured [OF quiet stop runningk setk configuredk])
    then have "configured bd (replicate 52 Tick @ replicate 50 Tick @ ports ?stk) (usb_bus ?stk)"
      using quiet_configured [OF quiet stop' [of ?stk] _ set_stop [OF setk]] runningk by (simp add: set_element_def with_mem_def)
    then have ready: "configured bd (ports (usb_delay hw 52 ?fin)) (usb_bus (usb_delay hw 52 ?fin))"
      "running c (ports (usb_delay hw 52 ?fin))" "schedule_set c (mem (usb_delay hw 52 ?fin))"
      unfolding final using runningk set_stop [OF setk] by (simp_all add: set_element_def with_mem_def)
    have same: "bytes_at (mem st1) (bulk_buffer txn) len = bytes_at (mem st) (bulk_buffer txn) len"
    proof (rule bytes_at_cong)
      show "unat (bulk_buffer txn) + len \<le> 2 ^ 32" using below room by simp
      show "\<forall>x \<in> area (bulk_buffer txn) len. mem st1 x = mem st x"
      proof
        fix x assume x: "x \<in> area (bulk_buffer txn) len"
        then have "x \<notin> element_area c" using apart_element by blast
        moreover have "unat x < unat (free_memory_start (hp st))" using x below by (simp add: area_def watermark_def)
        ultimately show "mem st1 x = mem st x" using old by blast
      qed
    qed
    have below_tds: "unat x < unat tds" if "unat x < watermark st" for x using that above by (simp add: watermark_def)
    show ?thesis
      using k(3) mem old below_tds bus1 fields ready same above high
      by (simp add: moved_def chain_done_def Let_def watermark_def n flip: len(1))
  qed
  ultimately show ?thesis by blast
qed

section \<open>The drive\<close>

text \<open>The state between two commands: the drive hangs on the controller, and both agree on the toggles.\<close>

definition attached :: "uhci_controller \<Rightarrow> ('d, 'e) bulk_device \<Rightarrow> usb_storage_device \<Rightarrow> 'd usb_state \<Rightarrow> bool" where
  "attached c bd sd st \<longleftrightarrow> rd (uhci_controllers st) (ud_controller (sd_usb_device sd)) = Some c \<and>
     fits_device bd (sd_usb_device sd) TD_PID_OUT (bulk_out_endpoint sd) (usb_bus st) \<and>
     fits_device bd (sd_usb_device sd) TD_PID_IN (bulk_in_endpoint sd) (usb_bus st) \<and>
     configured bd (ports st) (usb_bus st) \<and> running c (ports st) \<and> schedule_set c (mem st) \<and> schedule_placed c (watermark st)"

definition same_drive :: "usb_storage_device \<Rightarrow> usb_storage_device \<Rightarrow> bool" where
  "same_drive sd sd' \<longleftrightarrow> sd' = sd\<lparr>bulk_in_endpoint := bulk_in_endpoint sd', bulk_out_endpoint := bulk_out_endpoint sd'\<rparr>"

lemma same_drive_trans: "same_drive a b \<Longrightarrow> same_drive b d \<Longrightarrow> same_drive a d"
  by (cases a; cases b; cases d) (simp add: same_drive_def)

lemma pids_differ [simp]: "TD_PID_IN \<noteq> TD_PID_OUT" "TD_PID_OUT \<noteq> TD_PID_IN"
  by (simp_all add: TD_PID_IN_def TD_PID_OUT_def)

text \<open>An object of \<open>n\<close> bytes that was there before the command, apart from the schedule.\<close>

definition in_use :: "uhci_controller \<Rightarrow> u32 \<Rightarrow> nat \<Rightarrow> 'd usb_state \<Rightarrow> bool" where
  "in_use c a n st \<longleftrightarrow> unat a + n \<le> watermark st \<and> area a n \<inter> schedule_area c = {}"

lemma schedule_placed_later: "schedule_placed c w \<Longrightarrow> w \<le> w' \<Longrightarrow> schedule_placed c w'"
  by (auto simp: schedule_placed_def)

lemma bulk_out_moves:
  assumes cs: "controller_serves hw c bd" and at: "attached c bd sd st"
    and len: "len = unat l" "0 < len" "len \<le> 2 ^ 27" "in_time bd TD_PID_OUT len" and buf: "in_use c buf len st"
    and room: "watermark st + 16 + 32 * packets_for len (unat (packet_size bd)) < 2 ^ 32"
  shows "\<exists>sd' st'. bulk_out hw sd buf l st = Some (SUCCESS, sd', st') \<and> attached c bd sd' st' \<and> same_drive sd sd' \<and>
    moved c bd TD_PID_OUT buf len st st'"
proof -
  let ?n = "packets_for len (unat (packet_size bd))"
  let ?txn = "\<lparr>bulk_endpoint = bulk_out_endpoint sd, bulk_type = USB_TXNTYPE_BULK_OUT, bulk_buffer = buf,
        bulk_length = l, bulk_actual_length = 0\<rparr>"
  have "fits_device bd (sd_usb_device sd) TD_PID_OUT (bulk_endpoint ?txn) (usb_bus st)" "configured bd (ports st) (usb_bus st)"
    "running c (ports st)" "schedule_set c (mem st)" "schedule_placed c (watermark st)" using at by (simp_all add: attached_def)
  then obtain st' where st': "uhci_execute_bulk_transaction hw c (sd_usb_device sd) ?txn st = Some (SUCCESS,
      ?txn\<lparr>bulk_endpoint := (bulk_endpoint ?txn)\<lparr>ep_toggle := toggle_after (ep_toggle (bulk_endpoint ?txn)) ?n\<rparr>,
        bulk_actual_length := l\<rparr>, st')" "moved c bd TD_PID_OUT buf len st st'"
    using bulk_moves [OF cs, of ?txn TD_PID_OUT "sd_usb_device sd" st len ?n] len buf room by (auto simp: in_use_def)
  let ?sd = "sd\<lparr>bulk_out_endpoint := (bulk_out_endpoint sd)\<lparr>ep_toggle := toggle_after (ep_toggle (bulk_out_endpoint sd)) ?n\<rparr>\<rparr>"
  have "bulk_out hw sd buf l st = Some (SUCCESS, ?sd, st')"
    using at st'(1) by (simp add: bulk_out_def attached_def)
  moreover have "attached c bd ?sd st'"
    using at st'(2) by (auto simp: attached_def moved_def Let_def fits_device_def bit_toggle_after intro: schedule_placed_later)
  ultimately show ?thesis using st'(2) by (auto simp: same_drive_def)
qed

lemma bulk_in_moves:
  assumes cs: "controller_serves hw c bd" and at: "attached c bd sd st"
    and len: "len = unat l" "0 < len" "len \<le> 2 ^ 27" "in_time bd TD_PID_IN len" and buf: "in_use c buf len st"
    and room: "watermark st + 16 + 32 * packets_for len (unat (packet_size bd)) < 2 ^ 32"
    and has: "length (fst (give bd len (protocol bd (usb_bus st)))) = len"
  shows "\<exists>sd' st'. bulk_in hw sd buf l st = Some (SUCCESS, sd', st') \<and> attached c bd sd' st' \<and> same_drive sd sd' \<and>
    moved c bd TD_PID_IN buf len st st'"
proof -
  let ?n = "packets_for len (unat (packet_size bd))"
  let ?txn = "\<lparr>bulk_endpoint = bulk_in_endpoint sd, bulk_type = USB_TXNTYPE_BULK_IN, bulk_buffer = buf,
        bulk_length = l, bulk_actual_length = 0\<rparr>"
  have "fits_device bd (sd_usb_device sd) TD_PID_IN (bulk_endpoint ?txn) (usb_bus st)" "configured bd (ports st) (usb_bus st)"
    "running c (ports st)" "schedule_set c (mem st)" "schedule_placed c (watermark st)" using at by (simp_all add: attached_def)
  then obtain st' where st': "uhci_execute_bulk_transaction hw c (sd_usb_device sd) ?txn st = Some (SUCCESS,
      ?txn\<lparr>bulk_endpoint := (bulk_endpoint ?txn)\<lparr>ep_toggle := toggle_after (ep_toggle (bulk_endpoint ?txn)) ?n\<rparr>,
        bulk_actual_length := l\<rparr>, st')" "moved c bd TD_PID_IN buf len st st'"
    using bulk_moves [OF cs, of ?txn TD_PID_IN "sd_usb_device sd" st len ?n] len buf room has by (auto simp: in_use_def)
  let ?sd = "sd\<lparr>bulk_in_endpoint := (bulk_in_endpoint sd)\<lparr>ep_toggle := toggle_after (ep_toggle (bulk_in_endpoint sd)) ?n\<rparr>\<rparr>"
  have "bulk_in hw sd buf l st = Some (SUCCESS, ?sd, st')"
    using at st'(1) by (simp add: bulk_in_def attached_def)
  moreover have "attached c bd ?sd st'"
    using at st'(2) by (auto simp: attached_def moved_def Let_def fits_device_def bit_toggle_after intro: schedule_placed_later)
  ultimately show ?thesis using st'(2) by (auto simp: same_drive_def)
qed

section \<open>A command\<close>

lemma watermark_mem [simp]: "watermark (with_mem f st) = watermark st" "usb_bus (with_mem f st) = usb_bus st"
  by (simp_all add: with_mem_def watermark_def)

lemma in_use_mem [simp]: "in_use c a n (with_mem f st) = in_use c a n st"
  by (simp add: in_use_def)

lemma in_use_later: "in_use c a n st \<Longrightarrow> watermark st \<le> watermark st' \<Longrightarrow> in_use c a n st'"
  by (simp add: in_use_def)

lemma in_use_bound: "in_use c a n st \<Longrightarrow> unat a + n \<le> 2 ^ 32"
proof -
  assume "in_use c a n st"
  then have "unat a + n \<le> 4294967296"
    using unat_u32_lt [of "free_memory_start (hp st)"] unfolding in_use_def watermark_def by linarith
  then show ?thesis by simp
qed

lemma watermark_bound: "watermark st \<le> 2 ^ 32"
  using unat_u32_lt [of "free_memory_start (hp st)"] by (simp add: watermark_def)

text \<open>Writing to an object that is in use leaves the schedule as it is.\<close>

lemma attached_mem:
  assumes at: "attached c bd sd st" and "in_use c a n st" and "\<forall>x. x \<notin> area a n \<longrightarrow> f (mem st) x = mem st x"
  shows "attached c bd sd (with_mem f st)"
proof -
  have "schedule_set c (f (mem st))"
    by (rule schedule_kept [OF _ _ watermark_bound]) (use assms in \<open>auto simp: attached_def in_use_def\<close>)
  then show ?thesis using at by (simp add: attached_def with_mem_def watermark_def)
qed

lemma bytes_at_put: "unat a + length bs \<le> 2 ^ 32 \<Longrightarrow> bytes_at (put_bytes a bs m) a (length bs) = bs"
  by (rule nth_equalityI) (simp_all add: bytes_at_def put_bytes_at in_area unat_in_area)

lemma moved_outside:
  "moved c bd pid buf len st st' \<Longrightarrow> unat x < watermark st \<Longrightarrow> x \<notin> element_area c \<Longrightarrow> x \<notin> area buf len \<or> pid \<noteq> TD_PID_IN \<Longrightarrow>
     mem st' x = mem st x"
  by (auto simp: moved_def Let_def)

lemma moved_inside:
  assumes "moved c bd TD_PID_IN buf len st st'" and "in_use c buf len st" and "i < len"
  shows "mem st' (buf + of_nat i) = fst (give bd len (protocol bd (usb_bus st))) ! i"
proof -
  have "buf + of_nat i \<in> area buf len" by (rule in_area [OF in_use_bound [OF assms(2)] assms(3)])
  moreover from this have "buf + of_nat i \<notin> element_area c" "unat (buf + of_nat i) < watermark st"
    using assms(2) by (auto simp: in_use_def area_def schedule_area_def)
  moreover have "unat (buf + of_nat i) - unat buf = i" using unat_in_area [OF in_use_bound [OF assms(2)] assms(3)] by simp
  ultimately show ?thesis using assms(1) by (simp add: moved_def Let_def)
qed

text \<open>The memory a command takes for its descriptors, which is never given back.\<close>

definition command_space :: "('d, 'e) bulk_device \<Rightarrow> nat \<Rightarrow> nat" where
  "command_space bd len = 48 + 32 * (packets_for 31 (unat (packet_size bd)) + packets_for len (unat (packet_size bd))
     + packets_for 13 (unat (packet_size bd)))"

text \<open>The wrapper, the data and the status each get to the other side before the driver gives up.\<close>

definition command_in_time :: "('d, 'e) bulk_device \<Rightarrow> nat \<Rightarrow> bool" where
  "command_in_time bd len \<longleftrightarrow> in_time bd TD_PID_OUT 31 \<and> in_time bd TD_PID_IN len \<and> in_time bd TD_PID_IN 13"

lemma scsi_command_served:
  assumes cs: "controller_serves hw c bd" and at: "attached c bd sd st"
    and objects: "in_use c (cbw_at loc) 31 st" "in_use c (csw_at loc) 13 st" "in_use c buf len st"
      "area buf len \<inter> area (csw_at loc) 13 = {}"
    and len: "len = unat (cbw_transfer_length cbw)" "0 < len" "len \<le> 2 ^ 27" and w: "length (cbw_bytes cbw) = 31"
    and data: "give bd len (accept bd (cbw_bytes cbw) (protocol bd (usb_bus st))) = (data, d2)" "length data = len"
    and status: "give bd 13 d2 = (status, d3)" "take 4 status = str ''USBS''" "status ! 12 = 0" "length status = 13"
    and room: "watermark st + command_space bd len < 2 ^ 32" and fast: "command_in_time bd len"
  shows "\<exists>sd' st'. scsi_command hw loc sd cbw buf st = Some (SUCCESS, sd', st') \<and> attached c bd sd' st' \<and> same_drive sd sd' \<and>
    protocol bd (usb_bus st') = d3 \<and> (\<forall>i < len. mem st' (buf + of_nat i) = data ! i) \<and>
    (\<forall>x. unat x < watermark st \<longrightarrow> x \<notin> element_area c \<union> area (cbw_at loc) 31 \<union> area (csw_at loc) 13 \<union> area buf len \<longrightarrow>
       mem st' x = mem st x) \<and>
    watermark st \<le> watermark st' \<and> watermark st' \<le> watermark st + command_space bd len"
proof -
  let ?p = "\<lambda>n. packets_for n (unat (packet_size bd))"
  let ?st0 = "with_mem (put_bytes (cbw_at loc) (cbw_bytes cbw)) st"
  have u31: "unat (31 :: u32) = 31" and u13: "unat (13 :: u32) = 13" by simp_all
  have room0: "watermark ?st0 + 16 + 32 * ?p 31 < 2 ^ 32" using room by (simp add: command_space_def)
  have times: "in_time bd TD_PID_OUT 31" "in_time bd TD_PID_IN len" "in_time bd TD_PID_IN 13"
    using fast by (simp_all add: command_in_time_def)
  have at0: "attached c bd sd ?st0"
    using attached_mem [OF at objects(1), of "put_bytes (cbw_at loc) (cbw_bytes cbw)"] in_use_bound [OF objects(1)] w
    by (simp add: put_bytes_at)
  obtain sd1 st1 where r1: "bulk_out hw sd (cbw_at loc) 31 ?st0 = Some (SUCCESS, sd1, st1)" "attached c bd sd1 st1"
    "same_drive sd sd1" "moved c bd TD_PID_OUT (cbw_at loc) 31 ?st0 st1"
    using bulk_out_moves [OF cs at0 u31 [symmetric], of "cbw_at loc"] objects(1) room0 times(1) by auto
  have w1: "watermark st \<le> watermark st1" "watermark st1 \<le> watermark st + 16 + 32 * ?p 31"
    using r1(4) by (simp_all add: moved_def Let_def)
  have sent: "protocol bd (usb_bus st1) = accept bd (cbw_bytes cbw) (protocol bd (usb_bus st))"
    using r1(4) bytes_at_put [of "cbw_at loc" "cbw_bytes cbw" "mem st"] in_use_bound [OF objects(1)] w
    by (simp add: moved_def Let_def with_mem_def)
  have room1: "watermark st1 + 16 + 32 * ?p len < 2 ^ 32" using room w1 by (simp add: command_space_def)
  obtain sd2 st2 where r2: "bulk_in hw sd1 buf (cbw_transfer_length cbw) st1 = Some (SUCCESS, sd2, st2)" "attached c bd sd2 st2"
    "same_drive sd1 sd2" "moved c bd TD_PID_IN buf len st1 st2"
    using bulk_in_moves [OF cs r1(2) len times(2) in_use_later [OF objects(3) w1(1)] room1] data by (auto simp: sent)
  have w2: "watermark st1 \<le> watermark st2" "watermark st2 \<le> watermark st1 + 16 + 32 * ?p len"
    and got: "protocol bd (usb_bus st2) = d2" using r2(4) data by (simp_all add: moved_def Let_def sent)
  let ?st2 = "with_mem (memset (csw_at loc) 0 13) st2"
  have room2: "watermark ?st2 + 16 + 32 * ?p 13 < 2 ^ 32" using room w1 w2 by (simp add: command_space_def)
  have csw: "in_use c (csw_at loc) 13 ?st2" using in_use_later [OF objects(2), of st2] w1(1) w2(1) by simp
  have at2: "attached c bd sd2 ?st2"
    using attached_mem [OF r2(2), of "csw_at loc" 13] csw area_diff [OF in_use_bound [OF objects(2)]]
    by (simp add: memset_eq)
  obtain sd3 st3 where r3: "bulk_in hw sd2 (csw_at loc) 13 ?st2 = Some (SUCCESS, sd3, st3)" "attached c bd sd3 st3"
    "same_drive sd2 sd3" "moved c bd TD_PID_IN (csw_at loc) 13 ?st2 st3"
    using bulk_in_moves [OF cs at2 u13 [symmetric], of "csw_at loc"] csw room2 status(1,4) times(3) by (auto simp: got)
  have w3: "watermark st2 \<le> watermark st3" "watermark st3 \<le> watermark st2 + 16 + 32 * ?p 13"
    and told: "protocol bd (usb_bus st3) = d3" using r3(4) status(1) by (simp_all add: moved_def Let_def got)
  have status_at: "mem st3 (csw_at loc + of_nat i) = status ! i" if "i < 13" for i
    using moved_inside [OF r3(4) csw that] status(1) by (simp add: got)
  have "status ! i = str ''USBS'' ! i" if "i < 4" for i using status(2) that by (metis nth_take)
  then have ok: "csw_signature (load_csw (mem st3) (csw_at loc)) = 0x53425355" "csw_status (load_csw (mem st3) (csw_at loc)) = 0"
    using status_at [of 0] status_at [of 1] status_at [of 2] status_at [of 3] status_at [of 12] status(3)
    by (simp_all add: load_csw_def load32_def str_def le32_def)
  have run: "scsi_command hw loc sd cbw buf st = Some (SUCCESS, sd3, st3)"
    using r1(1) r2(1) r3(1) ok by (simp add: scsi_command_def Let_def SUCCESS_def)
  have memset: "mem ?st2 x = mem st2 x" if "x \<notin> area (csw_at loc) 13" for x
    using that area_diff [OF in_use_bound [OF objects(2)], of x] by (simp add: with_mem_def memset_eq)
  have "mem st3 (buf + of_nat i) = data ! i" if i: "i < len" for i
  proof -
    have buf: "in_use c buf len st1" by (rule in_use_later [OF objects(3) w1(1)])
    let ?y = "buf + of_nat i"
    have y: "?y \<in> area buf len" by (rule in_area [OF in_use_bound [OF buf] i])
    then have off: "?y \<notin> area (csw_at loc) 13" "?y \<notin> element_area c" "unat ?y < watermark st2"
      using objects(3,4) w1(1) w2(1) by (auto simp: in_use_def area_def schedule_area_def)
    have "mem st3 ?y = mem ?st2 ?y" using moved_outside [OF r3(4)] off by simp
    also have "\<dots> = mem st2 ?y" by (rule memset [OF off(1)])
    also have "\<dots> = data ! i" using moved_inside [OF r2(4) buf i] data by (simp add: sent)
    finally show ?thesis .
  qed
  moreover have "mem st3 x = mem st x" if x: "unat x < watermark st"
    "x \<notin> element_area c \<union> area (cbw_at loc) 31 \<union> area (csw_at loc) 13 \<union> area buf len" for x
  proof -
    have "unat x < watermark st1" "unat x < watermark st2" using x(1) w1(1) w2(1) by simp_all
    then have "mem st3 x = mem ?st2 x" "mem st2 x = mem st1 x" "mem st1 x = mem ?st0 x"
      using moved_outside [OF r3(4), of x] moved_outside [OF r2(4), of x] moved_outside [OF r1(4), of x] x by simp_all
    moreover have "mem ?st0 x = mem st x"
      using put_bytes_at [of "cbw_at loc" "cbw_bytes cbw" "mem st" x] in_use_bound [OF objects(1)] w x(2)
      by (simp add: with_mem_def)
    ultimately show ?thesis using memset x(2) by simp
  qed
  ultimately show ?thesis
    using run r3(2) same_drive_trans [OF same_drive_trans [OF r1(3) r2(3)] r3(3)] told w1 w2 w3
    by (auto simp: command_space_def)
qed

section \<open>Reading blocks\<close>

text \<open>
  A wrapper of the bulk-only transport with the command READ(10), for \<open>n\<close> blocks from \<open>lba\<close> on and
  \<open>len\<close> bytes of data, and what a drive with 512 bytes in a block answers to it: the blocks, and a status
  wrapper that says the command was carried out. \<open>ready\<close> are the states in which it takes a command.
\<close>

definition asks_read :: "byte list \<Rightarrow> byte \<Rightarrow> nat \<Rightarrow> nat \<Rightarrow> nat \<Rightarrow> bool" where
  "asks_read w lun len lba n \<longleftrightarrow> length w = 31 \<and> take 4 w = str ''USBC'' \<and> le_value (take 4 (drop 8 w)) = len \<and>
     w ! 12 = 0x80 \<and> w ! 13 = lun \<and> w ! 14 = 10 \<and> w ! 15 = 0x28 \<and> w ! 16 = 0 \<and> w ! 21 = 0 \<and>
     be_value (take 4 (drop 17 w)) = lba \<and> be_value (take 2 (drop 22 w)) = n \<and> drop 24 w = replicate 7 0"

definition serves_blocks :: "('d, 'e) bulk_device \<Rightarrow> ('e \<Rightarrow> bool) \<Rightarrow> byte \<Rightarrow> byte list list \<Rightarrow> bool" where
  "serves_blocks bd ready lun disk \<longleftrightarrow> (\<forall>w lba n e.
     ready e \<longrightarrow> asks_read w lun (512 * n) lba n \<longrightarrow> 0 < n \<longrightarrow> lba + n \<le> length disk \<longrightarrow>
     (let (data, e1) = give bd (512 * n) (accept bd w e); (status, e2) = give bd 13 e1
      in data = concat (take n (drop lba disk)) \<and> length status = 13 \<and> take 4 status = str ''USBS'' \<and> status ! 12 = 0 \<and> ready e2))"

lemma length_blocks:
  "\<forall>b \<in> set disk. length b = 512 \<Longrightarrow> lba + n \<le> length disk \<Longrightarrow> length (concat (take n (drop lba disk))) = 512 * n"
proof -
  assume disk: "\<forall>b \<in> set disk. length b = 512" and fit: "lba + n \<le> length disk"
  have "map length (take n (drop lba disk)) = replicate n 512"
    using disk fit by (simp add: list_eq_iff_nth_eq)
  then show ?thesis by (simp add: length_concat sum_list_replicate)
qed

text \<open>
  What the caller of the driver has to see to: the drive on its controller, the number of blocks, the buffer, the
  room on the heap, and that the drive is fast enough for as much data at once.
\<close>

definition can_read ::
  "uhci_controller \<Rightarrow> ('d, 'e) bulk_device \<Rightarrow> ('e \<Rightarrow> bool) \<Rightarrow> storage_locals \<Rightarrow> usb_storage_device \<Rightarrow> u32 \<Rightarrow> nat \<Rightarrow> 'd usb_state \<Rightarrow> bool" where
  "can_read c bd ready loc sd buf n st \<longleftrightarrow> attached c bd sd st \<and> ready (protocol bd (usb_bus st)) \<and> sd_block_size sd = 512 \<and>
     0 < n \<and> n < 2 ^ 16 \<and> in_use c (cbw_at loc) 31 st \<and> in_use c (csw_at loc) 13 st \<and> in_use c buf (512 * n) st \<and>
     area buf (512 * n) \<inter> area (csw_at loc) 13 = {} \<and> watermark st + command_space bd (512 * n) < 2 ^ 32 \<and>
     command_in_time bd (512 * n)"

lemma usb_storage_read_blocks:
  assumes cs: "controller_serves hw c bd" and drive: "serves_blocks bd ready (device_num dv) disk"
    and disk: "\<forall>b \<in> set disk. length b = 512" "unat lba + unat (offset dv) + unat n \<le> length disk" "length disk \<le> 2 ^ 32"
    and sd: "rd (storage_devices s) (driver_specific_data dv) = Some sd"
    and can: "can_read c bd ready loc sd buf (unat n) (usb_state s)"
  shows "\<exists>sd' st'. usb_storage_read hw loc dv lba n buf s =
      Some (SUCCESS, s\<lparr>usb_state := st', storage_devices := (storage_devices s)[driver_specific_data dv := sd']\<rparr>) \<and>
    bytes_at (mem st') buf (512 * unat n) = concat (take (unat n) (drop (unat lba + unat (offset dv)) disk)) \<and>
    attached c bd sd' st' \<and> same_drive sd sd' \<and> ready (protocol bd (usb_bus st')) \<and>
    (\<forall>x. unat x < watermark (usb_state s) \<longrightarrow>
       x \<notin> element_area c \<union> area (cbw_at loc) 31 \<union> area (csw_at loc) 13 \<union> area buf (512 * unat n) \<longrightarrow> mem st' x = mem (usb_state s) x) \<and>
    watermark st' \<le> watermark (usb_state s) + command_space bd (512 * unat n)"
proof -
  let ?st = "usb_state s" and ?n = "unat n" and ?lba = "lba + offset dv"
  let ?cbw = "new_cbw (ucast (ucast n :: u16) * sd_block_size sd) (device_num dv) 10 (read_10_command ?lba (ucast n))"
  let ?data = "concat (take ?n (drop (unat lba + unat (offset dv)) disk))"
  have n: "0 < ?n" "?n < 2 ^ 16" "sd_block_size sd = 512" using can by (simp_all add: can_read_def)
  have n16: "unat (ucast n :: u16) = ?n" using n(2) by (simp add: unat_ucast_small)
  then have n32: "unat (ucast (ucast n :: u16) :: u32) = ?n" using n(2) by (simp add: unat_ucast_small)
  have at: "unat ?lba = unat lba + unat (offset dv)"
    using disk(2,3) n(1) by (intro unat_add_no_wrap) simp
  have len: "512 * ?n = unat (cbw_transfer_length ?cbw)"
    using n32 n(2) n(3) by (simp add: new_cbw_def unat_word_ariths)
  have asks: "asks_read (cbw_bytes ?cbw) (device_num dv) (512 * ?n) (unat lba + unat (offset dv)) ?n"
    using read_10_wrapper [of "ucast n" sd "device_num dv" ?lba] n16 n(2) n(3) at by (simp add: asks_read_def Let_def mult.commute)
  obtain data e1 status e2 where d: "give bd (512 * ?n) (accept bd (cbw_bytes ?cbw) (protocol bd (usb_bus ?st))) = (data, e1)"
    "give bd 13 e1 = (status, e2)" by (metis prod.exhaust)
  have good: "data = ?data" "take 4 status = str ''USBS''" "status ! 12 = 0" "ready e2" "length status = 13"
    using drive [unfolded serves_blocks_def, rule_format, OF _ asks n(1), of "protocol bd (usb_bus ?st)"] can disk(2) d
    by (simp_all add: can_read_def)
  have dlen: "length data = 512 * ?n" using length_blocks [OF disk(1,2)] good(1) by simp
  have w: "length (cbw_bytes ?cbw) = 31" using asks by (simp add: asks_read_def)
  obtain sd' st' where run: "scsi_command hw loc sd ?cbw buf ?st = Some (SUCCESS, sd', st')" "attached c bd sd' st'" "same_drive sd sd'"
    "protocol bd (usb_bus st') = e2" "\<forall>i < 512 * ?n. mem st' (buf + of_nat i) = data ! i"
    "\<forall>x. unat x < watermark ?st \<longrightarrow> x \<notin> element_area c \<union> area (cbw_at loc) 31 \<union> area (csw_at loc) 13 \<union> area buf (512 * ?n) \<longrightarrow>
       mem st' x = mem ?st x" "watermark st' \<le> watermark ?st + command_space bd (512 * ?n)"
    using scsi_command_served [where sd = sd and st = ?st and loc = loc and buf = buf, OF cs _ _ _ _ _ len _ _ w d(1) dlen d(2) good(2,3,5)] can n by (auto simp: can_read_def)
  have "bytes_at (mem st') buf (512 * ?n) = ?data"
    using run(5) length_blocks [OF disk(1,2)] by (simp add: list_eq_iff_nth_eq bytes_at_def good(1))
  then show ?thesis
    using run good(4) sd by (auto simp: usb_storage_read_def scsi_read_10_def)
qed

section \<open>Properties\<close>

text \<open>
  C3: a read from a USB drive delivers the blocks asked for. The host controller runs on the frame
  list and the queue that the driver has laid out in memory, and carries out a chain hung into the queue
  within the time the device needs for a transfer of that length; the drive answers READ(10) commands as the bulk-only
  transport says. Provided that the wrapper, the data and the status each take less than the second that the
  driver waits for any transfer (a read of too many blocks at once takes longer), that the buffer and
  the driver's own objects do not overlap the schedule, and that the heap has room for the
  descriptors, the driver reports success and the buffer holds the blocks of the disk
  from the address on, the offset of the partition added. Everything else that was in memory before is as it
  was, but for the two wrappers and the element of the queue; the schedule stands, driver and drive agree on the toggle
  bits again, so that the next read works too. What the heap has lost by then is bounded.
\<close>

theorem usb_read_delivers:
  assumes "controller_serves hw c bd" and "serves_blocks bd ready (device_num dv) disk"
    and "\<forall>b \<in> set disk. length b = 512" and "unat lba + unat (offset dv) + unat n \<le> length disk" and "length disk \<le> 2 ^ 32"
    and "rd (storage_devices s) (driver_specific_data dv) = Some sd" and "can_read c bd ready loc sd buf (unat n) (usb_state s)"
  shows "\<exists>sd' st'. usb_storage_read hw loc dv lba n buf s =
      Some (SUCCESS, s\<lparr>usb_state := st', storage_devices := (storage_devices s)[driver_specific_data dv := sd']\<rparr>) \<and>
    bytes_at (mem st') buf (512 * unat n) = concat (take (unat n) (drop (unat lba + unat (offset dv)) disk)) \<and>
    attached c bd sd' st' \<and> same_drive sd sd' \<and> ready (protocol bd (usb_bus st')) \<and>
    (\<forall>x. unat x < watermark (usb_state s) \<longrightarrow>
       x \<notin> element_area c \<union> area (cbw_at loc) 31 \<union> area (csw_at loc) 13 \<union> area buf (512 * unat n) \<longrightarrow> mem st' x = mem (usb_state s) x) \<and>
    watermark st' \<le> watermark (usb_state s) + command_space bd (512 * unat n)"
  using assms by (rule usb_storage_read_blocks)

text \<open>
  A controller that follows the entry of the frame list for the frame it is in to the queue, and carries out a
  chain in one frame, with a drive of two blocks behind it. Nineteen packets of 64 bytes fit into a frame; for longer transfers the
  drive gives no time. The state of the bus is what the drive still has to send, and the two toggle bits.
\<close>

type_synonym drive_bus = "byte list \<times> bool \<times> bool"

definition two_blocks :: "byte list list" where
  "two_blocks = [replicate 512 7, replicate 512 9]"

definition drive_accept :: "byte list \<Rightarrow> byte list \<Rightarrow> byte list" where
  "drive_accept w e = concat (take (be_value (take 2 (drop 22 w))) (drop (be_value (take 4 (drop 17 w))) two_blocks)) @
     str ''USBS'' @ replicate 9 0"

definition sample_drive :: "(drive_bus, byte list) bulk_device" where
  "sample_drive = \<lparr>usb_address = 1, in_address = 1, out_address = 2, packet_size = 64, configured = (\<lambda>_ _. True),
     chain_time = (\<lambda>pid n. if packets_for n 64 \<le> 19 then Some 1 else None),
     toggle_of = (\<lambda>pid (e, ti, tou). if pid = TD_PID_IN then ti else if pid = TD_PID_OUT then tou else False),
     protocol = fst, accept = drive_accept, give = (\<lambda>n e. (take n e, drop n e))\<rparr>"

fun chain_from :: "nat \<Rightarrow> memory \<Rightarrow> u32 \<Rightarrow> u32 list" where
  "chain_from 0 m a = []"
| "chain_from (Suc k) m a = a # (let td = load_td m a in
     if terminate td then [] else chain_from k m (push_bit 4 (ucast (link_pointer td))))"

definition serve_frame :: "nat \<Rightarrow> drive_bus \<times> memory \<Rightarrow> drive_bus \<times> memory" where
  "serve_frame i = (\<lambda>((e, ti, tou), m).
     let q = load32 m (0x2000 + 4 * of_nat (i mod 1024)) AND 0xFFFFFFF0;
         a = load32 m (q + 4)
     in if bit a 0 then ((e, ti, tou), m)
        else let as = chain_from (2 ^ 27) m a; td = load_td m a;
                 len = sum_list (map (\<lambda>a. unat (max_length (load_td m a)) + 1) as);
                 get = packet_identification td = TD_PID_IN;
                 m1 = (if get then put_bytes (buffer_pointer td) (take len e) m else m);
                 m2 = fold (\<lambda>a m. store_td a (serve_td (load_td m a)) m) as m1
             in ((if get then drop len e else drive_accept (bytes_at m (buffer_pointer td) len) e,
                  if get then ti \<noteq> odd (length as) else ti, if get then tou else tou \<noteq> odd (length as)),
                 store32 (q + 4) 1 m2))"

definition drive_hw :: "drive_bus usb_hw" where
  "drive_hw = \<lparr>ports_of = (\<lambda>_ _. 0), frame = (\<lambda>h. if running serving_controller h then serve_frame (count_list h Tick) else id),
     usb_devices_at = 0x200000, utf16buf_at = 0x80000\<rparr>"

lemma link_follows: "unat a mod 16 = 0 \<Longrightarrow> push_bit 4 (ucast (link_to a)) = a"
proof -
  assume "unat a mod 16 = 0"
  then have "take_bit 4 a = 0"
    by (simp add: take_bit_eq_mod flip: unat_eq_0) (simp add: unat_mod)
  then have "\<not> bit a k" if "k < 4" for k using that by (metis bit_take_bit_iff bit_0_eq bot_apply bot_bool_def)
  then have low: "4 \<le> k" if "bit a k" for k using that by (meson not_le)
  show ?thesis
  proof (rule bit_word_eqI)
    fix k assume "k < LENGTH(32)"
    then have "4 \<le> k \<Longrightarrow> k - 4 < 28 \<and> 4 + (k - 4) = k" by simp
    then show "bit (push_bit 4 (ucast (link_to a)) :: u32) k = bit a k"
      using low [of k] \<open>k < LENGTH(32)\<close> by (cases "4 \<le> k") (auto simp: link_to_def bit_simps)
  qed
qed

lemma served_tds:
  assumes "unat tds + 32 * n \<le> 2 ^ 32"
  shows "(\<forall>i < n. load_td (fold (\<lambda>a m. store_td a (serve_td (load_td m a)) m) (map (td_at tds) [0..<n]) m) (td_at tds i) =
      serve_td (load_td m (td_at tds i))) \<and>
    (\<forall>i. n \<le> i \<longrightarrow> i < 2 ^ 27 \<longrightarrow>
      load_td (fold (\<lambda>a m. store_td a (serve_td (load_td m a)) m) (map (td_at tds) [0..<n]) m) (td_at tds i) = load_td m (td_at tds i)) \<and>
    (\<forall>x. unat x < unat tds \<longrightarrow> fold (\<lambda>a m. store_td a (serve_td (load_td m a)) m) (map (td_at tds) [0..<n]) m x = m x)"
  using assms
proof (induction n)
  case (Suc n)
  let ?m = "fold (\<lambda>a m. store_td a (serve_td (load_td m a)) m) (map (td_at tds) [0..<n]) m"
  let ?m1 = "store_td (td_at tds n) (serve_td (load_td ?m (td_at tds n))) ?m"
  have n: "n < 2 ^ 27" using Suc.prems by simp
  have fold: "fold (\<lambda>a m. store_td a (serve_td (load_td m a)) m) (map (td_at tds) [0..<Suc n]) m = ?m1" by simp
  have IH: "\<forall>i < n. load_td ?m (td_at tds i) = serve_td (load_td m (td_at tds i))"
    "\<forall>i. n \<le> i \<longrightarrow> i < 2 ^ 27 \<longrightarrow> load_td ?m (td_at tds i) = load_td m (td_at tds i)" "\<forall>x. unat x < unat tds \<longrightarrow> ?m x = m x"
    using Suc by simp_all
  have "load_td ?m1 (td_at tds i) = serve_td (load_td m (td_at tds i))" if "i < Suc n" for i
  proof (cases "i = n")
    case True
    then show ?thesis using IH(2) n by (simp add: load_store_td)
  next
    case False
    with that have "i < n" "i < 2 ^ 27" using n by simp_all
    then show ?thesis using IH(1) n by (simp add: load_td_other)
  qed
  moreover have "load_td ?m1 (td_at tds i) = load_td m (td_at tds i)" if "Suc n \<le> i" "i < 2 ^ 27" for i
    using that n IH(2) by (simp add: load_td_other)
  moreover have "?m1 x = m x" if "unat x < unat tds" for x
  proof -
    have "?m1 x = ?m x"
      using td_above [OF Suc.prems lessI _ that] by (intro store_td_outside) simp
    then show ?thesis using IH(3) that by simp
  qed
  ultimately show ?case unfolding fold by blast
qed simp

lemma chain_from_hung:
  assumes "\<forall>i < n. terminate (load_td m (td_at tds i)) \<longleftrightarrow> i = n - 1"
    and "\<forall>i < n. i \<noteq> n - 1 \<longrightarrow> link_pointer (load_td m (td_at tds i)) = link_to (td_at tds (i + 1))"
    and "unat tds mod 16 = 0" and "unat tds + 32 * n \<le> 2 ^ 32" and "j < n" and "n - j \<le> k"
  shows "chain_from k m (td_at tds j) = map (td_at tds) [j..<n]"
  using assms(5,6)
proof (induction k arbitrary: j)
  case (Suc k)
  show ?case
  proof (cases "j = n - 1")
    case True
    then have "[j..<n] = [j]" using Suc.prems(1) by (simp add: upt_conv_Cons)
    with True assms(1) Suc.prems(1) show ?thesis by (simp add: Let_def)
  next
    case False
    then have j: "Suc j < n" using Suc.prems(1) by simp
    have "unat (td_at tds (j + 1)) = unat tds + 32 * (j + 1)"
      using unat_in_area [OF assms(4), of "32 * (j + 1)"] j by (simp add: td_at_def)
    then have "unat (td_at tds (j + 1)) mod 16 = 0"
      using assms(3) by (simp add: mod_add_eq [symmetric] mod_mult_eq)
    then have "push_bit 4 (ucast (link_pointer (load_td m (td_at tds j)))) = td_at tds (Suc j)"
      using assms(2) Suc.prems(1) False link_follows [of "td_at tds (j + 1)"] by simp
    moreover have "[j..<n] = j # [Suc j..<n]" using Suc.prems(1) by (simp add: upt_conv_Cons)
    moreover have "\<not> terminate (load_td m (td_at tds j))" using assms(1) Suc.prems(1) False by simp
    ultimately show ?thesis using Suc.IH [OF j] Suc.prems(2) by (simp add: Let_def)
  qed
qed simp

lemma frame_entry:
  assumes "schedule_set serving_controller m"
  shows "load32 m (0x2000 + 4 * of_nat (i mod 1024)) AND 0xFFFFFFF0 = 0x3000"
proof -
  have "load32 m (0x2000 + 4 * of_nat (i mod 1024)) = 0x3000 OR 2"
    using assms unfolding schedule_set_def by (simp add: serving_controller_def del: or_numerals)
  then show ?thesis by simp
qed

lemma serve_frame_chain:
  assumes schedule: "schedule_set serving_controller (mem st)" "running serving_controller (ports st)" and hung: "chain_hung serving_controller sample_drive pid txn tds st" and pid: "pid \<in> {TD_PID_IN, TD_PID_OUT}"
    and len: "len = unat (bulk_length txn)" "0 < len" and n: "n = packets_for len 64"
    and fit: "unat (bulk_buffer txn) + len \<le> unat tds" "0x3008 \<le> unat tds" "unat tds + 32 * n < 2 ^ 32"
    and apart: "area (bulk_buffer txn) len \<inter> element_area serving_controller = {}"
    and has: "pid = TD_PID_IN \<longrightarrow> len \<le> length (fst (usb_bus st))"
  shows "chain_done serving_controller sample_drive pid txn tds st (usb_delay drive_hw 1 st)"
proof -
  let ?m = "mem st"
  obtain e ti tou where bus: "usb_bus st = (e, ti, tou)" by (metis prod_cases3)
  have s64: "unat (packet_size sample_drive) = 64" by (simp add: sample_drive_def)
  have qd: "queue_default serving_controller = 0x3000" by (simp add: serving_controller_def)
  have element: "load32 ?m (0x3000 + 4) = tds" and align: "unat tds mod 16 = 0"
    using hung by (simp_all add: chain_hung_def qd)
  obtain low where td: "\<forall>i < n. bulk_packet low 1 txn pid tds 64 i (load_td ?m (td_at tds i))"
    using hung by (auto simp: chain_hung_def s64 n len(1) sample_drive_def)
  have pos: "0 < n" using packets_for_bounds(3) [of 64 len] len(2) by (simp add: n)
  have n27: "n \<le> 2 ^ 27" using fit(3) by simp
  have fits: "unat tds + 32 * n \<le> 2 ^ 32" using fit(3) by simp
  have "chain_from (2 ^ 27) ?m (td_at tds 0) = map (td_at tds) [0..<n]"
    by (rule chain_from_hung [OF _ _ align fits pos])
      (use td n27 in \<open>auto simp: bulk_packet_def Let_def n simp flip: len(1)\<close>)
  then have as: "chain_from (2 ^ 27) ?m tds = map (td_at tds) [0..<n]" by (simp add: td_at_def)
  have "map (\<lambda>i. unat (max_length (load_td ?m (td_at tds i))) + 1) [0..<n] = map (\<lambda>i. min 64 (len - i * 64)) [0..<n]"
    using td by (intro map_cong refl) (auto simp: bulk_packet_def Let_def simp flip: len(1))
  moreover have "sum_list (map (\<lambda>i. min 64 (len - i * 64)) [0..<n]) = len"
    using packets_cover [of 64 len n] packets_for_bounds(2) [of 64 len] len(2)
    by (simp add: n interv_sum_list_conv_sum_set_nat atLeast0LessThan)
  ultimately have total: "sum_list (map (\<lambda>a. unat (max_length (load_td ?m a)) + 1) (map (td_at tds) [0..<n])) = len"
    by (simp only: map_map comp_def)
  have first: "packet_identification (load_td ?m tds) = pid" "buffer_pointer (load_td ?m tds) = bulk_buffer txn"
    using td [rule_format, OF pos] by (simp_all add: bulk_packet_def Let_def td_at_def)
  have facts: "\<not> bit tds 0"
  proof -
    have "even (unat tds)" using align by presburger
    then have "\<not> bit (unat tds) 0" by (simp add: bit_0)
    then show ?thesis by (simp add: bit_unsigned_iff)
  qed
  define m1 where "m1 = (if pid = TD_PID_IN then put_bytes (bulk_buffer txn) (take len e) ?m else ?m)"
  define m2 where "m2 = fold (\<lambda>a m. store_td a (serve_td (load_td m a)) m) (map (td_at tds) [0..<n]) m1"
  define d where "d = (if pid = TD_PID_IN then drop len e else drive_accept (bytes_at ?m (bulk_buffer txn) len) e,
    if pid = TD_PID_IN then ti \<noteq> odd n else ti, if pid = TD_PID_IN then tou else tou \<noteq> odd n)"
  have run: "usb_delay drive_hw 1 st = st\<lparr>ports := Tick # ports st, usb_bus := d, mem := store32 (0x3000 + 4) 1 m2\<rparr>"
    using element as total first facts
    by (simp add: run_frame_def drive_hw_def serve_frame_def bus Let_def m1_def m2_def d_def schedule(2) frame_entry [OF schedule(1)])
  have q4: "unat (0x3000 + 4 :: u32) + 4 \<le> 2 ^ 32" by simp
  have buf: "unat (bulk_buffer txn) + len \<le> 2 ^ 32" using fit by simp
  have m1: "m1 x = (if pid = TD_PID_IN \<and> x \<in> area (bulk_buffer txn) len then take len e ! (unat x - unat (bulk_buffer txn)) else ?m x)" for x
    using has buf by (auto simp: m1_def bus put_bytes_at min_def)
  have kept: "load_td m1 (td_at tds i) = load_td ?m (td_at tds i)" if "i < n" for i
  proof (rule load_td_cong, intro allI impI)
    fix p :: nat assume "p < 16"
    have "unat (tds + of_nat (32 * i + p)) = unat tds + (32 * i + p)"
      using that \<open>p < 16\<close> fits by (intro unat_in_area [where n = "32 * n"]) simp_all
    then have "td_at tds i + of_nat p \<notin> area (bulk_buffer txn) len"
      using fit(1) by (simp add: area_def td_at_def add.assoc)
    then show "m1 (td_at tds i + of_nat p) = ?m (td_at tds i + of_nat p)" by (simp add: m1)
  qed
  have apart_q: "queue_apart serving_controller tds n"
    unfolding queue_apart_def
  proof (intro allI impI)
    fix i p :: nat assume ip: "i < n" "p < 16"
    have "unat tds \<le> unat (td_at tds i + of_nat p)"
      using td_above [OF fits ip, of "td_at tds i + of_nat p"] by (meson not_le)
    then have "12296 \<le> unat (td_at tds i + of_nat p)" using fit(2) by simp
    then show "td_at tds i + of_nat p \<notin> {queue_default serving_controller + 4, queue_default serving_controller + 5,
        queue_default serving_controller + 6, queue_default serving_controller + 7}"
      by (auto simp: qd)
  qed
  note served = served_tds [OF fits, of m1, folded m2_def]
  have tds_done: "load_td (store32 (0x3000 + 4) 1 m2) (td_at tds i) = serve_td (load_td ?m (td_at tds i))" if "i < n" for i
    using set_element_td [OF apart_q that, of 1 "st\<lparr>mem := m2\<rparr>"] served kept [OF that] that
    by (simp add: set_element_def with_mem_def qd)
  have below: "store32 (0x3000 + 4) 1 m2 x = m1 x" if "unat x < unat tds" "x \<notin> element_area serving_controller" for x
    using store32_area [OF q4] served that by (simp add: element_area_def qd)
  show ?thesis
    unfolding chain_done_def Let_def run
    using tds_done below m1 pid bus
    by (auto simp: qd s64 serve_td_def d_def sample_drive_def n simp flip: len(1))
qed

lemma drive_quiet: "idle_quiet drive_hw serving_controller sample_drive"
proof -
  have "queue_default serving_controller = 0x3000" by (simp add: serving_controller_def)
  then show ?thesis by (auto simp: idle_quiet_def drive_hw_def serve_frame_def frame_entry sample_drive_def Let_def)
qed

lemma drive_served: "controller_serves drive_hw serving_controller sample_drive"
  unfolding controller_serves_def Let_def
proof (intro conjI allI impI drive_quiet)
  fix pid tds t and txn :: usb_bulk_transaction and st :: "drive_bus usb_state"
  let ?len = "unat (bulk_length txn)" let ?n = "packets_for ?len (unat (packet_size sample_drive))"
  assume a: "pid \<in> {TD_PID_IN, TD_PID_OUT}" "chain_time sample_drive pid ?len = Some t"
    "running serving_controller (ports st)" "schedule_set serving_controller (mem st)" "schedule_placed serving_controller (unat tds)"
    "chain_hung serving_controller sample_drive pid txn tds st"
    "0 < ?len" "unat (bulk_buffer txn) + ?len \<le> unat tds"
    "unat tds + 32 * ?n < 2 ^ 32" "area (bulk_buffer txn) ?len \<inter> schedule_area serving_controller = {}"
    "pid = TD_PID_IN \<longrightarrow> length (fst (give sample_drive ?len (protocol sample_drive (usb_bus st)))) = ?len"
  have n: "?n = packets_for ?len 64" "unat (packet_size sample_drive) = 64" by (simp_all add: sample_drive_def)
  have t: "t = 1" using a(2) by (simp add: sample_drive_def split: if_splits)
  have above: "0x3008 \<le> unat tds" using a(5) by (simp add: schedule_placed_def serving_controller_def)
  have apart: "area (bulk_buffer txn) ?len \<inter> element_area serving_controller = {}" using a(10) by (auto simp: schedule_area_def)
  have has: "pid = TD_PID_IN \<longrightarrow> ?len \<le> length (fst (usb_bus st))" using a(11) by (auto simp: sample_drive_def)
  have fits: "unat tds + 32 * packets_for ?len 64 < 2 ^ 32" using a(9) by (simp only: n)
  have "status_active (load_td (mem st) (td_at tds (?n - 1)))"
    using a(6,7) packets_for_bounds(3) [of 64 ?len] by (auto simp: chain_hung_def n bulk_packet_def Let_def)
  moreover have "chain_done serving_controller sample_drive pid txn tds st (usb_delay drive_hw 1 st)"
    by (rule serve_frame_chain [OF a(4,3,6,1) refl a(7) refl a(8) above fits apart has])
  ultimately show "\<exists>k \<le> t. (\<forall>j < k. status_active (load_td (mem (usb_delay drive_hw j st)) (td_at tds (?n - 1)))) \<and>
      chain_done serving_controller sample_drive pid txn tds st (usb_delay drive_hw k st)"
    by (intro exI [of _ 1]) (simp add: t)
qed

lemma drive_blocks: "serves_blocks sample_drive (\<lambda>e. e = []) lun two_blocks"
  unfolding serves_blocks_def
proof (intro allI impI)
  fix w lba n and e :: "byte list"
  assume a: "asks_read w lun (512 * n) lba n" "lba + n \<le> length two_blocks"
  have "\<forall>b \<in> set two_blocks. length b = 512" by (simp add: two_blocks_def)
  from length_blocks [OF this a(2)] have "length (concat (take n (drop lba two_blocks))) = 512 * n" .
  then show "let (data, e1) = give sample_drive (512 * n) (accept sample_drive w e); (status, e2) = give sample_drive 13 e1
      in data = concat (take n (drop lba two_blocks)) \<and> length status = 13 \<and> take 4 status = str ''USBS'' \<and> status ! 12 = 0 \<and> e2 = []"
    using a(1) by (simp add: asks_read_def sample_drive_def drive_accept_def str_def)
qed

text \<open>A partition that begins at the second block of the drive.\<close>

definition stick :: usb_storage_device where
  "stick = \<lparr>sd_usb_device = sample_device, sd_interface_number = 0,
     bulk_in_endpoint = \<lparr>ep_address = 1, ep_max_packet_size = 64, ep_toggle = 0\<rparr>,
     bulk_out_endpoint = \<lparr>ep_address = 2, ep_max_packet_size = 64, ep_toggle = 1\<rparr>, sd_block_size = 512, sd_num_blocks = 2\<rparr>"

definition stick_partition :: disk_device where
  "stick_partition = \<lparr>dev_type = HARD_DISK, device_num = 0, partition = 1, offset = 1, block_size = 512,
     driver = Usb_Msd_Driver, driver_specific_data = 0\<rparr>"

definition stick_memory :: memory where
  "stick_memory = fold (\<lambda>i. store32 (0x2000 + 4 * of_nat i) 0x3002) [0..<1024] (store32 0x3000 1 (store32 0x3004 1 (\<lambda>_. 0)))"

lemma stick_schedule: "schedule_set serving_controller stick_memory"
proof -
  note stored = frame_list_stored [of "0x2000" 1024 "0x3002" "store32 0x3000 1 (store32 0x3004 1 (\<lambda>_. 0))", folded stick_memory_def]
  have "load32 stick_memory 0x3000 = load32 (store32 0x3000 1 (store32 0x3004 1 (\<lambda>_. 0))) 0x3000"
    using stored by (intro load32_cong ballI) (auto simp: area_def)
  then show ?thesis using stored by (simp add: schedule_set_def serving_controller_def)
qed

definition stick_state :: "drive_bus storage_state" where
  "stick_state = \<lparr>usb_state = \<lparr>hp = \<lparr>free_memory_start = 0x1000000\<rparr>, mem = stick_memory, ports = [Out16 0xC000 1, Out32 0xC008 0x2000], usb_bus = ([], False, True),
       uhci_controllers = [serving_controller], uhci_controller_count = 1, usb_devices = [sample_device], usb_device_count = 1\<rparr>,
     storage_devices = [stick], block_devs = \<lparr>block_devices = [], block_devices_count = 0\<rparr>\<rparr>"

definition stick_locals :: storage_locals where
  "stick_locals = \<lparr>cbw_at = 0x70000, csw_at = 0x70020, lun_count_at = 0x70030, inquiry_at = 0x70040, capacity_at = 0x70080,
     sense_at = 0x70090\<rparr>"

theorem usb_read_delivers_witness:
  "\<exists>sd' st'. usb_storage_read drive_hw stick_locals stick_partition 0 1 0x90000 stick_state =
      Some (SUCCESS, stick_state\<lparr>usb_state := st', storage_devices := [sd']\<rparr>) \<and>
    bytes_at (mem st') 0x90000 512 = replicate 512 9"
proof -
  have "can_read serving_controller sample_drive (\<lambda>e. e = []) stick_locals stick 0x90000 (unat (1 :: u32)) (usb_state stick_state)"
    using stick_schedule
    by (auto simp: can_read_def attached_def fits_device_def in_use_def schedule_placed_def schedule_area_def area_def element_area_def
      watermark_def command_space_def command_in_time_def in_time_def running_def REG_USB_COMMAND_def REG_FRBASEADD_def USBCMD_RUN_STOP_def
      packets_for_def stick_state_def stick_def stick_locals_def serving_controller_def sample_drive_def sample_device_def TD_PID_IN_def
      TD_PID_OUT_def)
  then have "\<exists>sd' st'. usb_storage_read drive_hw stick_locals stick_partition 0 1 0x90000 stick_state =
      Some (SUCCESS, stick_state\<lparr>usb_state := st', storage_devices := (storage_devices stick_state)[driver_specific_data stick_partition := sd']\<rparr>) \<and>
    bytes_at (mem st') 0x90000 (512 * unat (1 :: u32)) =
      concat (take (unat (1 :: u32)) (drop (unat (0 :: u32) + unat (offset stick_partition)) two_blocks))"
    using usb_read_delivers [where dv = stick_partition and lba = 0 and n = 1 and s = stick_state and sd = stick and loc = stick_locals
      and buf = "0x90000", OF drive_served drive_blocks]
    by (auto simp: two_blocks_def stick_partition_def stick_state_def)
  then show ?thesis by (simp add: stick_partition_def stick_state_def two_blocks_def)
qed

end
