(* ===== verification/UserLib.thy ===== *)
theory UserLib
  imports CString Format Memory "HOL-Library.Signed_Division"
begin

text \<open>
  The part of the programs' library \<open>userland/lib/system.c\<close> that needs no kernel: an allocator, the
  block and string routines and the formatter. They were written a second time for the programs,
  with bytes where the kernel's copy double words and with counters where the kernel's move
  pointers; the lemmas show that they compute what the kernel's do.
\<close>

section \<open>Memory\<close>

definition USER_HEAP_START :: u32 where
  "USER_HEAP_START = 0xB00000"

definition user_memset :: "byte list \<Rightarrow> byte \<Rightarrow> nat \<Rightarrow> byte list option" where
  "user_memset source value n = for_loop (\<lambda>i b. wr b i value) [0..<n] source"

definition user_memcpy :: "byte list \<Rightarrow> byte list \<Rightarrow> nat \<Rightarrow> byte list option" where
  "user_memcpy source dest n = for_loop (\<lambda>i d. do { b \<leftarrow> rd source i; wr d i b }) [0..<n] dest"

definition user_malloc :: "u32 \<Rightarrow> heap \<Rightarrow> u32 \<times> heap" where
  "user_malloc sz hp =
     (let block_to_allocate = free_memory_start hp
      in (block_to_allocate, hp\<lparr>free_memory_start := free_memory_start hp + sz\<rparr>))"

definition user_free :: "u32 \<Rightarrow> heap \<Rightarrow> heap" where
  "user_free ptr hp = hp"

section \<open>Strings\<close>

lemma unat_next: "i < n \<Longrightarrow> unat (i + 1 :: u32) = Suc (unat i)"
proof -
  assume "i < n"
  then have "unat i < unat n" by (simp add: word_less_nat_alt)
  moreover have "unat n < 2 ^ 32" using unat_u32_lt [of n] by simp
  ultimately have "unat i + 1 < 2 ^ 32" by linarith
  then show ?thesis by (simp add: unat_word_ariths)
qed

text \<open>The index \<open>i\<close> of the loop is a \<open>uint32_t\<close>.\<close>

function user_strcmp_loop :: "byte list \<Rightarrow> byte list \<Rightarrow> u32 \<Rightarrow> u32 \<Rightarrow> bool option" where
  "user_strcmp_loop string1 string2 length_to_compare i =
     (if i < length_to_compare then do {
        a \<leftarrow> rd string1 (unat i);
        b \<leftarrow> rd string2 (unat i);
        if a = 0 \<and> b = 0 then Some True
        else if a \<noteq> b then Some False
        else user_strcmp_loop string1 string2 length_to_compare (i + 1) }
      else Some True)"
  by pat_completeness auto

termination
  by (relation "measure (\<lambda>(a, b, n, i). unat n - unat i)") (auto simp: unat_next word_less_nat_alt)

declare user_strcmp_loop.simps [simp del]

definition user_strcmp_wl :: "byte list \<Rightarrow> byte list \<Rightarrow> u32 \<Rightarrow> bool option" where
  "user_strcmp_wl string1 string2 length_to_compare = user_strcmp_loop string1 string2 length_to_compare 0"

definition user_strcmp :: "byte list \<Rightarrow> byte list \<Rightarrow> bool option" where
  "user_strcmp string1 string2 = user_strcmp_wl string1 string2 0xFFFFFFFF"

text \<open>The pointer \<open>dest\<close> is the position \<open>pos\<close> in the buffer.\<close>

fun user_strcpy_loop :: "byte list \<Rightarrow> byte list \<Rightarrow> nat \<Rightarrow> byte list option" where
  "user_strcpy_loop [] dest pos = None"
| "user_strcpy_loop (c # src) dest pos =
     (if c \<noteq> 0 then do { dest \<leftarrow> wr dest pos c; user_strcpy_loop src dest (pos + 1) }
      else wr dest pos 0)"

definition user_strcpy :: "byte list \<Rightarrow> byte list \<Rightarrow> byte list option" where
  "user_strcpy src dest = user_strcpy_loop src dest 0"

fun user_strlen_loop :: "byte list \<Rightarrow> nat \<Rightarrow> nat option" where
  "user_strlen_loop [] len = None"
| "user_strlen_loop (c # cs) len = (if c \<noteq> 0 then user_strlen_loop cs (len + 1) else Some len)"

definition user_strlen :: "byte list \<Rightarrow> nat option" where
  "user_strlen cs = user_strlen_loop cs 0"

section \<open>Formats\<close>

text \<open>The digits of a number, the last one first, in a buffer of 16 bytes.\<close>

function place_loop :: "int \<Rightarrow> byte list \<Rightarrow> byte list option" where
  "place_loop number buffer =
     (if 16 \<le> length buffer then None
      else
        let buffer = buffer @ [48 + of_int (number smod 10)]; number' = number sdiv 10
        in if number' > 0 then place_loop number' buffer else Some buffer)"
  by pat_completeness auto
termination
proof (relation "measure (\<lambda>(number, buffer). 16 - length buffer)")
qed auto

declare place_loop.simps [simp del]

definition intToString :: "int \<Rightarrow> byte list \<Rightarrow> byte list option" where
  "intToString number string = do {
     buffer \<leftarrow> place_loop number [];
     string \<leftarrow> blit string 0 (rev buffer);
     wr string (length buffer) 0 }"

fun user_vsprintf_loop :: "byte list \<Rightarrow> vararg list \<Rightarrow> byte list \<Rightarrow> nat \<Rightarrow> (byte list \<times> nat) option" where
  "user_vsprintf_loop [] args buffer pos = None"
| "user_vsprintf_loop (c # xs) args buffer pos =
     (if c = 0 then Some (buffer, pos)
      else if c = 37 then
        (case xs of
           [] \<Rightarrow> None
         | d # ys \<Rightarrow>
             if d = 37 then do { b \<leftarrow> wr buffer pos d; user_vsprintf_loop ys args b (pos + 1) }
             else if d = 115 then
               (case args of
                  ArgStr s # args \<Rightarrow> do {
                    b \<leftarrow> user_strcpy s (drop pos buffer);
                    n \<leftarrow> user_strlen s;
                    user_vsprintf_loop ys args (take pos buffer @ b) (pos + n) }
                | _ \<Rightarrow> None)
             else if d = 100 then
               (case args of
                  ArgInt number # args \<Rightarrow> do {
                    num_string \<leftarrow> intToString (sint number) (replicate 16 0);
                    b \<leftarrow> user_strcpy num_string (drop pos buffer);
                    n \<leftarrow> user_strlen num_string;
                    user_vsprintf_loop ys args (take pos buffer @ b) (pos + n) }
                | _ \<Rightarrow> None)
             else user_vsprintf_loop ys args buffer pos)
      else do { b \<leftarrow> wr buffer pos c; user_vsprintf_loop xs args b (pos + 1) })"

definition user_vsprintf :: "byte list \<Rightarrow> byte list \<Rightarrow> vararg list \<Rightarrow> byte list option" where
  "user_vsprintf buffer string args = do {
     (buffer, pos) \<leftarrow> user_vsprintf_loop string args buffer 0;
     wr buffer pos 0 }"

section \<open>The library against the kernel\<close>

interpretation user_heap: allocator user_malloc 1
proof -
  have "user_malloc = malloc" by (simp add: fun_eq_iff user_malloc_def malloc_def)
  then show "allocator user_malloc 1" using malloc.allocator_axioms by simp
qed

lemma user_strcmp_loop_eq:
  "i \<le> n \<Longrightarrow> user_strcmp_loop a b n i = strcmp_wl (drop (unat i) a) (drop (unat i) b) (unat n - unat i)"
proof (induction a b n i rule: user_strcmp_loop.induct)
  case (1 a b n i)
  show ?case
  proof (cases "i < n \<and> unat i < length a \<and> unat i < length b")
    case True
    then have d: "drop (unat i) a = a ! unat i # drop (Suc (unat i)) a"
      "drop (unat i) b = b ! unat i # drop (Suc (unat i)) b" "i + 1 \<le> n" "0 < unat n - unat i"
      by (simp_all add: Cons_nth_drop_Suc inc_le word_less_nat_alt)
    show ?thesis
      using "1.IH" [of "a ! unat i" "b ! unat i"] True d(3,4)
      by (simp add: user_strcmp_loop.simps [of a b n i] d(1,2) rd_in unat_next [of i n])
  next
    case False
    then show ?thesis using "1.prems"
      by (cases "drop (unat i) a"; cases "drop (unat i) b"; cases "i < n")
        (auto simp: user_strcmp_loop.simps [of a b n i] rd_def word_less_nat_alt word_le_nat_alt)
  qed
qed

lemma user_strcmp_eq [simp]: "user_strcmp = strcmp"
  by (simp add: fun_eq_iff user_strcmp_def user_strcmp_wl_def user_strcmp_loop_eq strcmp_def UINT32_T_MAX_def)

lemma user_strcpy_loop_eq:
  "pos \<le> length dest \<Longrightarrow> user_strcpy_loop src dest pos = map_option ((@) (take pos dest)) (strcpy src (drop pos dest))"
proof (induction src dest pos rule: user_strcpy_loop.induct)
  case (2 c src dest pos)
  show ?case
  proof (cases "pos < length dest")
    case True
    then obtain xs y ys where "dest = xs @ y # ys" "length xs = pos" by (metis id_take_nth_drop length_take min.absorb2 less_imp_le)
    with 2 show ?thesis by (auto simp: wr_def option.map_comp comp_def intro!: option.map_cong0)
  next
    case False
    with 2 show ?thesis by (simp add: wr_def)
  qed
qed simp

lemma user_strcpy_eq [simp]: "user_strcpy = strcpy"
proof (intro ext)
  fix a b
  show "user_strcpy a b = strcpy a b" by (cases "strcpy a b") (simp_all add: user_strcpy_def user_strcpy_loop_eq)
qed

lemma user_strlen_loop_eq: "user_strlen_loop cs len = map_option ((+) len) (strlen cs)"
  by (induction cs len rule: user_strlen_loop.induct) (auto simp: option.map_comp comp_def intro!: option.map_cong0)

lemma user_strlen_eq [simp]: "user_strlen = strlen"
proof (intro ext)
  fix a
  show "user_strlen a = strlen a" by (cases "strlen a") (simp_all add: user_strlen_def user_strlen_loop_eq)
qed

section \<open>Numbers\<close>

lemma nonneg_sdiv_smod: "0 \<le> a \<Longrightarrow> a sdiv 10 = a div 10" "0 \<le> a \<Longrightarrow> a smod 10 = a mod (10 :: int)"
  by (simp_all add: signed_divide_int_def signed_modulo_int_def sgn_if)

lemma place_loop_digits:
  assumes "0 < n" and "n < 10 ^ k" and "length buffer + k \<le> 16"
  shows "place_loop (int n) buffer = Some (buffer @ digits 10 n)"
  using assms
proof (induction k arbitrary: n buffer)
  case (Suc k)
  have "int n mod 10 = int (n mod 10)" by (simp add: zmod_int)
  then have d: "(48 :: byte) + of_int (int n mod 10) = bchars ! (n mod 10)"
    by (simp only: of_int_of_nat_eq) (simp add: bchars_decimal)
  have step: "digits 10 n = bchars ! (n mod 10) # digits 10 (n div 10)"
    using Suc.prems by (simp add: digits.simps [of 10 n])
  have q: "int n div 10 = int (n div 10)" by (simp add: zdiv_int)
  show ?case
  proof (cases "n div 10 = 0")
    case True
    then show ?thesis using Suc.prems d step
      by (simp add: place_loop.simps [of "int n"] Let_def nonneg_sdiv_smod q)
  next
    case False
    have "place_loop (int (n div 10)) (buffer @ [bchars ! (n mod 10)]) =
        Some ((buffer @ [bchars ! (n mod 10)]) @ digits 10 (n div 10))"
      using Suc.prems False by (intro Suc.IH) (auto simp: less_mult_imp_div_less mult.commute)
    then show ?thesis using Suc.prems False d step
      by (simp add: place_loop.simps [of "int n"] Let_def nonneg_sdiv_smod q)
  qed
qed simp

lemma intToString_digits:
  assumes "n < 10 ^ 10" and "length (numeral_text 10 n) < length string"
  shows "intToString (int n) string = Some (numeral_text 10 n @ 0 # drop (Suc (length (numeral_text 10 n))) string)"
proof -
  have "\<exists>b. place_loop (int n) [] = Some b \<and> rev b = numeral_text 10 n"
  proof (cases "n = 0")
    case True
    then show ?thesis by (simp add: place_loop.simps [of 0] nonneg_sdiv_smod numeral_text_def)
  next
    case False
    then show ?thesis using place_loop_digits [of n 10 "[]"] assms(1) by (simp add: numeral_text_def)
  qed
  then obtain b where b: "place_loop (int n) [] = Some b" "rev b = numeral_text 10 n" by blast
  moreover have "length b = length (numeral_text 10 n)" by (metis b(2) length_rev)
  ultimately show ?thesis using assms(2)
    by (simp add: intToString_def blit_def wr_def list_update_append flip: Cons_nth_drop_Suc)
qed

text \<open>
  The library's \<open>intToString\<close> and the kernel's \<open>int_to_string\<close> write the same decimal text for every
  number that is not negative as an \<open>int\<close>.
\<close>

theorem intToString_is_kernels:
  assumes "unat i < 2 ^ 31" and "11 \<le> length string"
  shows "intToString (sint i) string = int_to_string i 10 string"
proof -
  have i: "unat i < 10 ^ 10" using assms(1) by simp
  then have len: "length (numeral_text 10 (unat i)) \<le> 10" by (intro length_numeral_text) simp_all
  have "sint i = int (unat i)"
  proof -
    have "unat i < 2147483648" "int (unat i) = uint i" using assms(1) by simp_all
    then have "uint i < 2147483648" "- 2147483648 \<le> uint i" by linarith+
    then show ?thesis by (simp add: sint_uint signed_take_bit_int_eq_self)
  qed
  then have "intToString (sint i) string =
      Some (numeral_text 10 (unat i) @ 0 # drop (Suc (length (numeral_text 10 (unat i)))) string)"
    using intToString_digits [OF i, of string] len assms(2) by simp
  moreover have "int_to_string i 10 string =
      Some (numeral_text 10 (unat i) @ 0 # drop (Suc (length (numeral_text 10 (unat i)))) string)"
    using int_to_string_eq [of 10 i string] len assms(2) by simp
  ultimately show ?thesis by simp
qed

theorem intToString_is_kernels_witness:
  "intToString (sint (1440 :: u32)) (replicate 16 0) = int_to_string 1440 10 (replicate 16 0)"
  by (rule intToString_is_kernels) simp_all

section \<open>What a program prints\<close>

text \<open>
  The formats of the library are those of the kernel without widths and hexadecimal numbers; a
  negative number comes out wrong and is left aside.
\<close>

fun user_item_ok :: "item \<Rightarrow> bool" where
  "user_item_ok (Num dig hex) \<longleftrightarrow> dig = [] \<and> \<not> hex"
| "user_item_ok it \<longleftrightarrow> item_ok it"

fun small_arg :: "vararg \<Rightarrow> bool" where
  "small_arg (ArgInt i) \<longleftrightarrow> unat i < 2 ^ 31"
| "small_arg (ArgStr s) \<longleftrightarrow> True"

lemma wrote_append:
  assumes "wrote buf pos p b1" and "wrote b1 (pos + length p) q b2"
  shows "wrote buf pos (p @ q) b2"
proof -
  have "drop (length q) (drop (Suc (pos + length p)) b1) = drop (length q) (drop (Suc (pos + length p)) buf)"
    using assms(1) by (simp add: wrote_def)
  then show ?thesis using assms by (simp add: wrote_def ac_simps)
qed

lemma strcpy_wrote:
  assumes "holds ob s" and "pos + length s < length buf"
  shows "\<exists>b. strcpy ob (drop pos buf) = Some b \<and> wrote buf pos s (take pos buf @ b)"
proof -
  have "strcpy ob (drop pos buf) = Some (s @ 0 # drop (Suc (length s)) (drop pos buf))"
    using assms by (intro strcpy_of_holds) auto
  then show ?thesis
    using assms(2) by (auto intro!: wroteI [where c = 0] simp: add.commute)
qed

lemma intToString_small:
  fixes i :: u32
  assumes "unat i < 2 ^ 31"
  shows "\<exists>s. intToString (sint i) (replicate 16 0) = Some s \<and> holds s (numeral_text 10 (unat i))"
proof -
  have len: "length (numeral_text 10 (unat i)) \<le> 10"
    using assms by (intro length_numeral_text) simp_all
  have "unat i < 2147483648" "int (unat i) = uint i" using assms by simp_all
  then have "uint i < 2147483648" "- 2147483648 \<le> uint i" by linarith+
  then have "sint i = int (unat i)" by (simp add: sint_uint signed_take_bit_int_eq_self)
  then show ?thesis
    using intToString_digits [of "unat i" "replicate 16 0"] len assms
      holds_intro [OF numeral_text_cstr [of 10 "unat i"]] by simp
qed

lemma user_loop_render:
  "list_all user_item_ok its \<Longrightarrow> list_all small_arg args \<Longrightarrow> render its args = Some out \<Longrightarrow> pos + length out < length buf \<Longrightarrow>
     \<exists>buf'. user_vsprintf_loop (concat (map unparse its) @ [0]) args buf pos = Some (buf', pos + length out) \<and>
       wrote buf pos out buf'"
proof (induction its args arbitrary: buf pos out rule: render.induct)
  case (1 args)
  then show ?case by (simp add: wrote_def)
next
  case (2 c its args)
  then obtain out' where o': "render its args = Some out'" "out = c # out'" by auto
  have w: "wrote buf pos [c] (buf[pos := c])" using 2 o' by (intro wrote_update) simp
  obtain b where "user_vsprintf_loop (concat (map unparse its) @ [0]) args (buf[pos := c]) (pos + 1) = Some (b, pos + 1 + length out')"
    "wrote (buf[pos := c]) (pos + 1) out' b"
    using "2.IH" [OF _ _ o'(1), of "pos + 1" "buf[pos := c]"] 2 o' by auto
  with 2 o' wrote_append [OF w, of out' b] show ?case by simp
next
  case (3 its args)
  then obtain out' where o': "render its args = Some out'" "out = 37 # out'" by auto
  have w: "wrote buf pos [37] (buf[pos := 37])" using 3 o' by (intro wrote_update) simp
  obtain b where "user_vsprintf_loop (concat (map unparse its) @ [0]) args (buf[pos := 37]) (pos + 1) = Some (b, pos + 1 + length out')"
    "wrote (buf[pos := 37]) (pos + 1) out' b"
    using "3.IH" [OF _ _ o'(1), of "pos + 1" "buf[pos := 37]"] 3 o' by auto
  with 3 o' wrote_append [OF w, of out' b] show ?case by simp
next
  case (4 its s args)
  let ?t = "takeWhile (\<lambda>c. c \<noteq> 0) s"
  from 4 obtain out' where o': "render its args = Some out'" "out = ?t @ out'" and z: "0 \<in> set s"
    by (auto split: if_splits)
  have h: "holds s ?t" using z by (rule takeWhile_holds)
  obtain b where b: "strcpy s (drop pos buf) = Some b" "wrote buf pos ?t (take pos buf @ b)"
    using strcpy_wrote [OF h, of pos buf] "4.prems"(4) o' by auto
  obtain b' where "user_vsprintf_loop (concat (map unparse its) @ [0]) args (take pos buf @ b) (pos + length ?t) =
      Some (b', pos + length ?t + length out')" "wrote (take pos buf @ b) (pos + length ?t) out' b'"
    using "4.IH" [OF z _ _ o'(1), of "pos + length ?t" "take pos buf @ b"] "4.prems" o' wrote_length [OF b(2)] by auto
  with o' b wrote_append [OF b(2), of out' b'] strlen_of_holds [OF h] show ?case by (simp add: add.assoc)
next
  case (5 dig hex its i args)
  let ?t = "numeral_text 10 (unat i)"
  have ds: "dig = []" "\<not> hex" using "5.prems"(1) by simp_all
  from 5 obtain out' where o': "render its args = Some out'" "out = ?t @ out'" using ds by (auto simp: padded_def)
  obtain n where n: "intToString (sint i) (replicate 16 0) = Some n" "holds n ?t"
    using intToString_small [of i] "5.prems"(2) by auto
  obtain b where b: "strcpy n (drop pos buf) = Some b" "wrote buf pos ?t (take pos buf @ b)"
    using strcpy_wrote [OF n(2), of pos buf] "5.prems"(4) o' by auto
  obtain b' where "user_vsprintf_loop (concat (map unparse its) @ [0]) args (take pos buf @ b) (pos + length ?t) =
      Some (b', pos + length ?t + length out')" "wrote (take pos buf @ b) (pos + length ?t) out' b'"
    using "5.IH" [OF _ _ o'(1), of "pos + length ?t" "take pos buf @ b"] "5.prems" o' wrote_length [OF b(2)] by auto
  with ds o' b n wrote_append [OF b(2), of out' b'] strlen_of_holds [OF n(2)] show ?case by (simp add: add.assoc)
qed simp_all

lemma user_vsprintf_renders:
  assumes "list_all user_item_ok its" and "list_all small_arg args" and "render its args = Some out" and "length out < 128"
  shows "\<exists>buf. user_vsprintf (replicate 128 0) (concat (map unparse its) @ [0]) args = Some buf \<and>
    take (length out) buf = out \<and> buf ! length out = 0 \<and> length buf = 128"
proof -
  obtain b where b: "user_vsprintf_loop (concat (map unparse its) @ [0]) args (replicate 128 0) 0 = Some (b, length out)"
    "wrote (replicate 128 0) 0 out b"
    using user_loop_render [OF assms(1-3), of 0 "replicate 128 0"] assms(4) by auto
  have len: "length b = 128" using wrote_length [OF b(2)] by simp
  moreover have "take (length out) b = out" using b(2) by (simp add: wrote_def)
  ultimately show ?thesis
    using b(1) assms(4) by (intro exI [of _ "b[length out := 0]"]) (simp add: user_vsprintf_def)
qed

end
