(* ===== verification/Userland.thy ===== *)
theory Userland
  imports Interrupts UserLib FsDriver
begin

text \<open>
  The programs that run on the kernel: the system calls of \<open>userland/lib\<close> and the shell
  \<open>userland/programs/shell.c\<close>. The kernel behind the system calls is a parameter, the record
  \<open>kernel_calls\<close>; what a call does to the registers is shown against theory Interrupts.
\<close>

section \<open>System calls\<close>

text \<open>
  \<open>int $0x7F\<close>: the processor saves the registers, the kernel's stub hands them to
  \<open>fault_handler\<close>, and what the program finds in \<open>eax\<close> afterwards is the answer.
\<close>

definition trap :: "u32 \<Rightarrow> regs \<Rightarrow> regs" where
  "trap vector r = r\<lparr>int_no := vector\<rparr>"

definition sys_call1 :: "u32 \<Rightarrow> u32 \<Rightarrow> regs \<Rightarrow> regs" where
  "sys_call1 num p1 r = trap 0x7F (r\<lparr>eax := num, ebx := p1\<rparr>)"

definition sys_call3 :: "u32 \<Rightarrow> u32 \<Rightarrow> u32 \<Rightarrow> u32 \<Rightarrow> regs \<Rightarrow> regs" where
  "sys_call3 num p1 p2 p3 r = trap 0x7F (r\<lparr>eax := num, ebx := p1, ecx := p2, edx := p3\<rparr>)"

definition sys_write_regs :: "u32 \<Rightarrow> u32 \<Rightarrow> u32 \<Rightarrow> regs \<Rightarrow> regs" where "sys_write_regs = sys_call3 0"
definition sys_read_regs :: "u32 \<Rightarrow> u32 \<Rightarrow> u32 \<Rightarrow> regs \<Rightarrow> regs" where "sys_read_regs = sys_call3 1"
definition sys_list_dir_regs :: "u32 \<Rightarrow> u32 \<Rightarrow> u32 \<Rightarrow> regs \<Rightarrow> regs" where "sys_list_dir_regs = sys_call3 2"
definition sys_exec_regs :: "u32 \<Rightarrow> regs \<Rightarrow> regs" where "sys_exec_regs = sys_call1 3"
definition sys_getcwd_regs :: "u32 \<Rightarrow> regs \<Rightarrow> regs" where "sys_getcwd_regs = sys_call1 4"
definition sys_chdir_regs :: "u32 \<Rightarrow> regs \<Rightarrow> regs" where "sys_chdir_regs = sys_call1 5"
definition sys_open_regs :: "u32 \<Rightarrow> regs \<Rightarrow> regs" where "sys_open_regs = sys_call1 6"

text \<open>What a program can ask of the kernel, with the memory it points to written out.\<close>

record 's kernel_calls =
  sys_write :: "int \<Rightarrow> byte list \<Rightarrow> int \<Rightarrow> 's \<Rightarrow> (int \<times> 's) option"
  sys_read :: "int \<Rightarrow> byte list \<Rightarrow> int \<Rightarrow> 's \<Rightarrow> (int \<times> byte list \<times> 's) option"
  sys_list_dir :: "byte list \<Rightarrow> dir_entry list \<Rightarrow> u16 \<Rightarrow> 's \<Rightarrow> (int \<times> dir_entry list \<times> u16 \<times> 's) option"
  sys_exec :: "byte list \<Rightarrow> 's \<Rightarrow> (int \<times> 's) option"
  sys_getcwd :: "byte list \<Rightarrow> 's \<Rightarrow> (byte list \<times> 's) option"
  sys_chdir :: "byte list \<Rightarrow> 's \<Rightarrow> (int \<times> 's) option"
  sys_open :: "byte list \<Rightarrow> 's \<Rightarrow> (int \<times> 's) option"

section \<open>Printing\<close>

definition user_printf :: "'s kernel_calls \<Rightarrow> byte list \<Rightarrow> vararg list \<Rightarrow> 's \<Rightarrow> 's option" where
  "user_printf k string args s = do {
     buffer \<leftarrow> user_vsprintf (replicate 128 0) string args;
     n \<leftarrow> user_strlen buffer;
     (_, s) \<leftarrow> sys_write k 1 buffer (int n) s;
     Some s }"

text \<open>The smallest program that does something, \<open>programs/sayhi.c\<close>.\<close>

definition sayhi_main :: "'s kernel_calls \<Rightarrow> 's \<Rightarrow> 's option" where
  "sayhi_main k s = do {
     n \<leftarrow> user_strlen (str ''Hi\<newline>'' @ [0]);
     (_, s) \<leftarrow> sys_write k 1 (str ''Hi\<newline>'' @ [0]) (int n) s;
     Some s }"

section \<open>The shell\<close>

definition MAX_TOKENS :: nat where "MAX_TOKENS = 16"
definition COMMAND_BUFFER_SIZE :: nat where "COMMAND_BUFFER_SIZE = 256"

text \<open>The two loops of \<open>tokenise_command\<close>; the table is one array of 16 times 256 bytes.\<close>

fun token_chars :: "byte \<Rightarrow> byte list \<Rightarrow> nat \<Rightarrow> nat \<Rightarrow> byte list \<Rightarrow> (byte list \<times> byte list) option" where
  "token_chars sep [] token i tokens = None"
| "token_chars sep (c # xs) token i tokens =
     (if c \<noteq> sep \<and> c \<noteq> 0 then do {
        tokens \<leftarrow> wr tokens (COMMAND_BUFFER_SIZE * token + i) c;
        token_chars sep xs token (i + 1) tokens }
      else Some (c # xs, tokens))"

lemma token_chars_shorter: "token_chars sep xs token i tokens = Some (rest, tokens') \<Longrightarrow> length rest \<le> length xs"
  by (induction sep xs token i tokens rule: token_chars.induct) (auto split: Option.bind_splits if_splits)

declare token_chars.simps [simp del]

function tokens_loop :: "byte \<Rightarrow> byte list \<Rightarrow> nat \<Rightarrow> byte list \<Rightarrow> byte list option" where
  "tokens_loop sep string token tokens =
     (case string of
        [] \<Rightarrow> None
      | c # _ \<Rightarrow>
          if c = 0 then Some tokens
          else (case token_chars sep string token 0 tokens of
                  Some (_ # rest, tokens) \<Rightarrow> tokens_loop sep rest (token + 1) tokens
                | _ \<Rightarrow> None))"
  by pat_completeness auto
termination
  by (relation "measure (\<lambda>(sep, string, token, tokens). length string)") (auto dest: token_chars_shorter)

declare tokens_loop.simps [simp del]

definition tokenise_command :: "byte list \<Rightarrow> byte \<Rightarrow> byte list option" where
  "tokenise_command string separator = tokens_loop separator string 0 (replicate (MAX_TOKENS * COMMAND_BUFFER_SIZE) 0)"

definition print_directory_listing :: "'s kernel_calls \<Rightarrow> dir_entry list \<Rightarrow> u16 \<Rightarrow> 's \<Rightarrow> 's option" where
  "print_directory_listing k dirbuf num s = do {
     (r, dirbuf, num, s) \<leftarrow> sys_list_dir k [0] dirbuf num s;
     if sint (of_int r :: byte) < 0 then user_printf k (str ''Could not list the directory\<newline>'' @ [0]) [] s
     else do {
       s \<leftarrow> for_loop (\<lambda>i s. do {
           e \<leftarrow> rd dirbuf i;
           user_printf k (str ''%s%s\<newline>'' @ [0]) [ArgStr (filename e), ArgStr (if directory e then [47, 0] else [0])] s })
         [0..<unat num] s;
       user_printf k (str ''Number of files: %d\<newline>'' @ [0]) [ArgInt (ucast num)] s } }"

definition cat_file :: "'s kernel_calls \<Rightarrow> byte list \<Rightarrow> byte list \<Rightarrow> 's \<Rightarrow> 's option" where
  "cat_file k buffer fname s = do {
     (fp, s) \<leftarrow> sys_open k fname s;
     if fp < 0 then user_printf k (str ''Could not open %s\<newline>'' @ [0]) [ArgStr fname] s
     else do {
       (len, buffer, s) \<leftarrow> sys_read k fp buffer 10000 s;
       if len < 0 then user_printf k (str ''Could not read file\<newline>'' @ [0]) [] s
       else do {
         s \<leftarrow> user_printf k (str ''Read %d bytes\<newline>'' @ [0]) [ArgInt (of_int len)] s;
         (_, s) \<leftarrow> sys_write k 1 buffer len s;
         user_printf k (str ''\<newline>'' @ [0]) [] s } } }"

definition token :: "byte list \<Rightarrow> nat \<Rightarrow> byte list" where
  "token tokens i = drop (COMMAND_BUFFER_SIZE * i) tokens"

text \<open>
  What the memory of the program holds before it is written: the buffers of \<open>cat_file\<close> and of the
  directory listing.
\<close>

record shell_memory =
  cat_buffer :: "byte list"
  dir_buffer :: "dir_entry list"
  num_entries :: u16

definition run_command :: "'s kernel_calls \<Rightarrow> shell_memory \<Rightarrow> byte list \<Rightarrow> 's \<Rightarrow> 's option" where
  "run_command k sm tokens s = do {
     let command = token tokens 0;
     sayhi \<leftarrow> user_strcmp command (str ''sayhi'' @ [0]);
     if sayhi then user_printf k (str ''Hi!\<newline>'' @ [0]) [] s
     else do {
       dir \<leftarrow> user_strcmp command (str ''dir'' @ [0]);
       if dir then print_directory_listing k (dir_buffer sm) (num_entries sm) s
       else do {
         cd \<leftarrow> user_strcmp command (str ''cd'' @ [0]);
         if cd then map_option snd (sys_chdir k (token tokens 1) s)
         else do {
           cat \<leftarrow> user_strcmp command (str ''cat'' @ [0]);
           if cat then cat_file k (cat_buffer sm) (token tokens 1) s
           else do {
             exec \<leftarrow> user_strcmp command (str ''exec'' @ [0]);
             if exec then map_option snd (sys_exec k (token tokens 1) s)
             else do {
               c \<leftarrow> rd command 0;
               if c = 0 then Some s
               else user_printf k (str ''Unknown command\<newline>'' @ [0]) [] s } } } } } }"

definition prompt :: "byte list" where
  "prompt = [1] @ str ''[32mUserShell'' @ [1] @ str ''[0m:'' @ [1] @ str ''[34m%s'' @ [1] @ str ''[0m> '' @ [0]"

text \<open>
  One turn of the shell's endless loop. The buffers for the directory and for the command are
  where they were in the turn before, with what was left in them.
\<close>

definition shell_turn ::
  "'s kernel_calls \<Rightarrow> shell_memory \<Rightarrow> byte list \<times> byte list \<times> 's \<Rightarrow> (byte list \<times> byte list \<times> 's) option" where
  "shell_turn k sm = (\<lambda>(dir, command_string, s). do {
     (dir, s) \<leftarrow> sys_getcwd k dir s;
     s \<leftarrow> user_printf k prompt [ArgStr dir] s;
     (_, command_string, s) \<leftarrow> sys_read k 0 command_string (int COMMAND_BUFFER_SIZE) s;
     tokens \<leftarrow> tokenise_command command_string 32;
     s \<leftarrow> run_command k sm tokens s;
     Some (dir, command_string, s) })"

section \<open>Calls of the kernel\<close>

lemma system_call_runs:
  assumes "int_no r = 0x7F" and "unat (eax r) < 7"
  shows "fault_handler (handle_syscall call) m r (fault_count, s) =
    (case call (syscalls ! unat (eax r)) [ebx r, ecx r, edx r, esi r, edi r] s of
       None \<Rightarrow> None | Some (ret, s') \<Rightarrow> Some (fault_count, Resumes (r\<lparr>eax := ret\<rparr>) s'))"
proof -
  have "\<not> NUM_SYSCALLS \<le> eax r" "rd syscalls (unat (eax r)) = Some (syscalls ! unat (eax r))"
    using assms(2) by (simp_all add: NUM_SYSCALLS_def syscalls_def word_le_nat_alt rd_def)
  then show ?thesis using assms(1)
    by (auto simp: fault_handler_def handle_syscall_def SYSCALL_VECTOR_def split: option.splits)
qed

text \<open>
  C38: A system call of a program reaches the kernel function it is named after, with the arguments in
  the order the program gave them, and what the function returns is what the program finds in
  \<open>eax\<close>; the other registers it gets back as they were.
\<close>

theorem system_calls_reach_kernel:
  "let run = (\<lambda>f args r. case call f (args @ [esi r, edi r]) s of
          None \<Rightarrow> None | Some (ret, s') \<Rightarrow> Some (fault_count, Resumes (r\<lparr>eax := ret\<rparr>) s'));
       kernel = (\<lambda>r. fault_handler (handle_syscall call) m r (fault_count, s))
   in kernel (sys_write_regs p1 p2 p3 r) = run Sys_write [p1, p2, p3] (sys_write_regs p1 p2 p3 r) \<and>
      kernel (sys_read_regs p1 p2 p3 r) = run Sys_read [p1, p2, p3] (sys_read_regs p1 p2 p3 r) \<and>
      kernel (sys_list_dir_regs p1 p2 p3 r) = run Sys_list_dir [p1, p2, p3] (sys_list_dir_regs p1 p2 p3 r) \<and>
      kernel (sys_exec_regs p1 r) = run Sys_exec [p1, ecx r, edx r] (sys_exec_regs p1 r) \<and>
      kernel (sys_getcwd_regs p1 r) = run Sys_getcwd [p1, ecx r, edx r] (sys_getcwd_regs p1 r) \<and>
      kernel (sys_chdir_regs p1 r) = run Sys_chdir [p1, ecx r, edx r] (sys_chdir_regs p1 r) \<and>
      kernel (sys_open_regs p1 r) = run Sys_open_file [p1, ecx r, edx r] (sys_open_regs p1 r)"
  by (simp add: Let_def sys_write_regs_def sys_read_regs_def sys_list_dir_regs_def sys_exec_regs_def
    sys_getcwd_regs_def sys_chdir_regs_def sys_open_regs_def sys_call1_def sys_call3_def trap_def
    system_call_runs syscalls_def)

section \<open>Tokens\<close>

definition token_row :: "byte list \<Rightarrow> byte list" where
  "token_row w = w @ replicate (256 - length w) 0"

definition token_table :: "byte list list \<Rightarrow> byte list" where
  "token_table ws = concat (map token_row ws) @ replicate (256 * (16 - length ws)) 0"

text \<open>A word and the byte that ends it.\<close>

definition piece_ok :: "byte \<Rightarrow> byte list \<times> byte \<Rightarrow> bool" where
  "piece_ok sep = (\<lambda>(w, t). sep \<notin> set w \<and> 0 \<notin> set w \<and> length w < 256 \<and> (t = sep \<or> t = 0 \<and> w \<noteq> []))"

definition piece_bytes :: "(byte list \<times> byte) list \<Rightarrow> byte list" where
  "piece_bytes ps = concat (map (\<lambda>(w, t). w @ [t]) ps)"

lemma token_chars_word:
  assumes "sep \<notin> set w" and "0 \<notin> set w" and "t = sep \<or> t = 0"
    and "256 * k + i + length w \<le> length tokens"
  shows "token_chars sep (w @ t # rest) k i tokens =
    Some (t # rest, take (256 * k + i) tokens @ w @ drop (256 * k + i + length w) tokens)"
  using assms
proof (induction w arbitrary: i tokens)
  case Nil
  then show ?case by (auto simp: token_chars.simps)
next
  case (Cons c w)
  then have "256 * k + i < length tokens" by simp
  with Cons.prems Cons.IH [of "i + 1" "tokens[256 * k + i := c]"] show ?case
    by (auto simp: token_chars.simps COMMAND_BUFFER_SIZE_def take_update_swap drop_update_cancel take_Suc_conv_app_nth
      simp del: take_update_swap)
qed

lemma length_rows: "\<forall>w \<in> set ws. length w < 256 \<Longrightarrow> length (concat (map token_row ws)) = 256 * length ws"
  by (induction ws) (simp_all add: token_row_def)

lemma token_table_snoc:
  assumes "\<forall>w \<in> set ws. length w < 256" and "length w < 256" and "length ws < 16"
  shows "take (256 * length ws) (token_table ws) @ w @ drop (256 * length ws + length w) (token_table ws) =
    token_table (ws @ [w])"
proof -
  define k where "k = 15 - length ws"
  with assms(3) have k: "16 - length ws = Suc k" "15 - length ws = k" by simp_all
  have "256 + 256 * k - length w = (256 - length w) + 256 * k" using assms(2) by simp
  then show ?thesis
    using assms(2) by (simp add: token_table_def length_rows [OF assms(1)] token_row_def k replicate_add)
qed

lemma tokens_loop_pieces:
  assumes "\<forall>p \<in> set ps. piece_ok sep p" and "\<forall>w \<in> set ws. length w < 256" and "length ws + length ps \<le> 16"
    and "sep \<noteq> 0"
  shows "tokens_loop sep (piece_bytes ps @ 0 # r) (length ws) (token_table ws) = Some (token_table (ws @ map fst ps))"
  using assms
proof (induction ps arbitrary: ws)
  case Nil
  then show ?case by (simp add: tokens_loop.simps piece_bytes_def)
next
  case (Cons p ps)
  obtain w t where p: "p = (w, t)" by force
  have ok: "sep \<notin> set w" "0 \<notin> set w" "t = sep \<or> t = 0" "length w < 256" "w \<noteq> [] \<or> t = sep"
    using Cons.prems(1) by (auto simp: p piece_ok_def)
  have len: "length (token_table ws) = 4096"
    using Cons.prems(3) by (simp add: token_table_def length_rows [OF Cons.prems(2)])
  have "token_chars sep (w @ t # piece_bytes ps @ 0 # r) (length ws) 0 (token_table ws) =
      Some (t # piece_bytes ps @ 0 # r, token_table (ws @ [w]))"
    using token_chars_word [OF ok(1-3), of "length ws" 0 "token_table ws"] ok(4) len Cons.prems(3)
      token_table_snoc [OF Cons.prems(2) ok(4)] by simp
  moreover have "piece_bytes (p # ps) @ 0 # r = w @ t # piece_bytes ps @ 0 # r"
    by (simp add: piece_bytes_def p)
  moreover obtain c xs where "w @ t # piece_bytes ps @ 0 # r = c # xs" "c \<noteq> 0"
    using ok Cons.prems(4) by (cases w) auto
  ultimately have "tokens_loop sep (piece_bytes (p # ps) @ 0 # r) (length ws) (token_table ws) =
      tokens_loop sep (piece_bytes ps @ 0 # r) (length (ws @ [w])) (token_table (ws @ [w]))"
    by (simp add: tokens_loop.simps [of sep "c # xs"])
  also have "\<dots> = Some (token_table ((ws @ [w]) @ map fst ps))"
    using Cons.prems ok(4) by (intro Cons.IH) auto
  finally show ?case by (simp add: p)
qed

lemma tokenise_pieces:
  assumes "\<forall>p \<in> set ps. piece_ok sep p" and "length ps \<le> MAX_TOKENS" and "sep \<noteq> 0"
  shows "tokenise_command (piece_bytes ps @ 0 # r) sep = Some (token_table (map fst ps))"
proof -
  have "replicate 4096 0 = token_table []" by (simp add: token_table_def)
  then show ?thesis using tokens_loop_pieces [of ps sep "[]" r] assms
    by (simp add: tokenise_command_def MAX_TOKENS_def COMMAND_BUFFER_SIZE_def)
qed

text \<open>
  C39: \<open>tokenise_command\<close> puts the words of a line into the rows of its table, in their order, each
  padded with zeros. A word ends at the separator and at a zero byte alike, and the loop ends only
  at a zero byte where a word would begin: the bytes behind the terminator of the line, which an
  earlier, longer line has left in the buffer, are taken for further words.
\<close>

theorem tokenise_splits_words:
  assumes "\<forall>p \<in> set ps. piece_ok sep p" and "length ps \<le> MAX_TOKENS" and "sep \<noteq> 0"
  shows "tokenise_command (piece_bytes ps @ 0 # r) sep = Some (token_table (map fst ps))"
  using assms by (rule tokenise_pieces)

theorem tokenise_splits_words_witness:
  "tokenise_command (str ''cat'' @ [0] @ str ''fd0/readme.txt'' @ [0, 0]) 32 =
    Some (token_table [str ''cat'', str ''fd0/readme.txt''])"
  using tokenise_splits_words [of "[(str ''cat'', 0), (str ''fd0/readme.txt'', 0)]" 32 "[]"]
  by (simp add: piece_ok_def piece_bytes_def str_def MAX_TOKENS_def)

section \<open>Commands\<close>

definition word_at :: "byte list list \<Rightarrow> nat \<Rightarrow> byte list" where
  "word_at ws i = (if i < length ws then ws ! i else [])"

lemma token_row_at:
  assumes "\<forall>w \<in> set ws. length w < 256" and "length ws \<le> 16" and "i < 16"
  shows "\<exists>r. token (token_table ws) i = word_at ws i @ 0 # r"
proof (cases "i < length ws")
  case True
  have "\<forall>w \<in> set (take i ws). length w < 256" using assms(1) by (auto dest: in_set_takeD)
  from length_rows [OF this] True have len: "length (concat (map token_row (take i ws))) = 256 * i" by simp
  have "token_table ws = concat (map token_row (take i ws)) @ token_row (ws ! i) @
      concat (map token_row (drop (Suc i) ws)) @ replicate (256 * (16 - length ws)) 0"
    unfolding token_table_def by (subst id_take_nth_drop [OF True]) simp
  then have "token (token_table ws) i = token_row (ws ! i) @ concat (map token_row (drop (Suc i) ws)) @
      replicate (256 * (16 - length ws)) 0"
    by (simp add: token_def COMMAND_BUFFER_SIZE_def len)
  moreover obtain k where "256 - length (ws ! i) = Suc k"
    using assms(1) True by (metis Suc_diff_Suc nth_mem)
  ultimately show ?thesis using True by (simp add: token_row_def word_at_def)
next
  case False
  have "\<exists>r. token (token_table ws) i = 0 # r"
  proof -
    have "0 < 256 * (16 - length ws) - (256 * i - 256 * length ws)"
      using False assms(2,3) by (simp add: diff_mult_distrib2)
    then obtain k where "256 * (16 - length ws) - (256 * i - 256 * length ws) = Suc k" by (metis gr0_conv_Suc)
    moreover have "drop (256 * i) (concat (map token_row ws)) = []"
      using False by (simp add: length_rows [OF assms(1)])
    ultimately show ?thesis
      by (simp add: token_def token_table_def COMMAND_BUFFER_SIZE_def length_rows [OF assms(1)])
  qed
  with False show ?thesis by (simp add: word_at_def)
qed

text \<open>
  What the shell does depends on the first word of the line alone, compared as a whole with the
  five commands; a line without a first word does nothing, any other is answered with a message.
  The argument the kernel is given is the second word, or an empty string when there is none.
\<close>

theorem shell_obeys_first_word:
  assumes "\<forall>w \<in> set ws. is_cstr w \<and> length w < 256" and "length ws \<le> MAX_TOKENS"
  shows "run_command k sm (token_table ws) s =
      (let cmd = word_at ws 0; arg = token (token_table ws) 1
       in if cmd = str ''sayhi'' then user_printf k (str ''Hi!\<newline>'' @ [0]) [] s
          else if cmd = str ''dir'' then print_directory_listing k (dir_buffer sm) (num_entries sm) s
          else if cmd = str ''cd'' then map_option snd (sys_chdir k arg s)
          else if cmd = str ''cat'' then cat_file k (cat_buffer sm) arg s
          else if cmd = str ''exec'' then map_option snd (sys_exec k arg s)
          else if cmd = [] then Some s
          else user_printf k (str ''Unknown command\<newline>'' @ [0]) [] s) \<and>
    holds (token (token_table ws) 1) (word_at ws 1)"
proof -
  have len: "\<forall>w \<in> set ws. length w < 256" "length ws \<le> 16" using assms by (auto simp: MAX_TOKENS_def)
  have cstr: "is_cstr (word_at ws i)" for i using assms(1) by (auto simp: word_at_def is_cstr_def)
  obtain r where r: "token (token_table ws) 0 = word_at ws 0 @ 0 # r" using token_row_at [OF len, of 0] by auto
  have same: "strcmp (token (token_table ws) 0) (str t @ [0]) = Some (word_at ws 0 = str t)"
    if "is_cstr (str t)" and "length t < 256" for t
  proof (rule strcmp_of_holds)
    have "length (word_at ws 0) < 256" using len(1) by (auto simp: word_at_def)
    then show "length (word_at ws 0) < UINT32_T_MAX" by (simp add: UINT32_T_MAX_def)
    show "length (str t) < UINT32_T_MAX" using that(2) by (simp add: UINT32_T_MAX_def)
  qed (use r cstr that(1) in \<open>auto simp: holds_def\<close>)
  have first: "rd (token (token_table ws) 0) 0 = Some (if word_at ws 0 = [] then 0 else hd (word_at ws 0))"
    "word_at ws 0 \<noteq> [] \<Longrightarrow> hd (word_at ws 0) \<noteq> 0"
    using r cstr [of 0] by (cases "word_at ws 0"; simp)+
  have names: "is_cstr (str ''sayhi'')" "is_cstr (str ''dir'')" "is_cstr (str ''cd'')" "is_cstr (str ''cat'')"
    "is_cstr (str ''exec'')"
    by (simp_all add: is_cstr_def str_def)
  show ?thesis
    using token_row_at [OF len, of 1] cstr [of 1] first
    by (auto simp: run_command_def Let_def same names)
qed

theorem shell_obeys_first_word_witness:
  "\<forall>k sm s. run_command k sm (token_table [str ''cd'', str ''fd0'']) s =
      map_option snd (sys_chdir k (token (token_table [str ''cd'', str ''fd0'']) 1) s) \<and>
    holds (token (token_table [str ''cd'', str ''fd0'']) 1) (str ''fd0'')"
proof (intro allI)
  fix k sm s
  show "run_command k sm (token_table [str ''cd'', str ''fd0'']) s =
      map_option snd (sys_chdir k (token (token_table [str ''cd'', str ''fd0'']) 1) s) \<and>
    holds (token (token_table [str ''cd'', str ''fd0'']) 1) (str ''fd0'')"
    using shell_obeys_first_word [of "[str ''cd'', str ''fd0'']" k sm s]
    by (simp add: is_cstr_def str_def MAX_TOKENS_def word_at_def)
qed

end
