(* ===== verification/Messages.thy ===== *)
theory Messages
  imports Vfs Format Console Serial CString
begin

text \<open>
  The messages of the kernel: the \<open>printf\<close> family of \<open>core/stream.c\<close>, the dumps of
  \<open>core/memory.c\<close> and \<open>core/debug.c\<close>, on top of the formatter and of the table of open files.

  The streams are a parameter (\<open>services\<close>); \<open>output_stream\<close> is what the two stream devices
  of the kernel do with a text, the screen console and the first serial port. The local array of
  1024 characters starts with zeroes: no byte behind the terminator is read.
\<close>

section \<open>Streams\<close>

definition stdin :: nat where "stdin = 0"
definition stdout :: nat where "stdout = 1"
definition stderr :: nat where "stderr = 2"
definition stddebug :: nat where "stddebug = 3"

definition output_stream ::
  "byte list \<Rightarrow> device \<Rightarrow> stream_device \<Rightarrow> byte list \<Rightarrow> int \<Rightarrow> console \<times> history \<Rightarrow> (console \<times> history) option" where
  "output_stream font io d data len s =
     (case d of
        Screen_Console \<Rightarrow> map_option (\<lambda>c. (c, snd s)) (console_write font data len (fst s))
      | Com1 \<Rightarrow> map_option (Pair (fst s)) (write_serial io data len (snd s)))"

section \<open>The printf family\<close>

definition vfprintf ::
  "('i, 'h) services \<Rightarrow> nat \<Rightarrow> byte list \<Rightarrow> vararg list \<Rightarrow> 'i vfs \<Rightarrow> 'h \<Rightarrow> 'h option" where
  "vfprintf sv fp string args st h = do {
     buffer \<leftarrow> vsprintf (replicate 1024 0) string args;
     len \<leftarrow> strlen buffer;
     (_, h) \<leftarrow> write_handle sv fp buffer (int len) st h;
     Some h }"

definition fprintf ::
  "('i, 'h) services \<Rightarrow> nat \<Rightarrow> byte list \<Rightarrow> vararg list \<Rightarrow> 'i vfs \<Rightarrow> 'h \<Rightarrow> 'h option" where
  "fprintf sv fp string args st h = vfprintf sv fp string args st h"

definition printf :: "('i, 'h) services \<Rightarrow> byte list \<Rightarrow> vararg list \<Rightarrow> 'i vfs \<Rightarrow> 'h \<Rightarrow> 'h option" where
  "printf sv string args st h = vfprintf sv stdout string args st h"

definition sprintf :: "byte list \<Rightarrow> byte list \<Rightarrow> vararg list \<Rightarrow> byte list option" where
  "sprintf buffer string args = vsprintf buffer string args"

section \<open>Messages with a level\<close>

definition LOG_ERROR :: byte where "LOG_ERROR = 3"
definition LOG_WARN :: byte where "LOG_WARN = 4"
definition LOG_INFO :: byte where "LOG_INFO = 6"
definition LOG_DEBUG :: byte where "LOG_DEBUG = 7"
definition LOG_TRACE :: byte where "LOG_TRACE = 8"

text \<open>The formats by level; a level without one has a null pointer, and a level from 32 on no entry.\<close>

definition colored_prefix :: "string \<Rightarrow> byte list" where
  "colored_prefix col = [1] @ str col @ str ''[%6d]'' @ [1] @ str ''[0m '' @ [1] @ str ''[34m%s'' @ [1] @ str ''[0m %s'' @ [0]"

definition pattern_prefix :: "byte list option list" where
  "pattern_prefix =
     [None, None, None,
      Some (colored_prefix ''[31m''), Some (colored_prefix ''[33m''),
      None,
      Some (colored_prefix ''[32m''), Some (colored_prefix ''[32m''), Some (colored_prefix ''[32m'')] @
     replicate 23 None"

definition kprintf ::
  "('i, 'h) services \<Rightarrow> byte \<Rightarrow> u32 \<Rightarrow> byte \<Rightarrow> byte list option \<Rightarrow> byte list \<Rightarrow> vararg list \<Rightarrow> 'i vfs \<Rightarrow> 'h \<Rightarrow> 'h option" where
  "kprintf sv log_level timer_ticks level prefix string args st h = do {
     let debug_level = LOG_DEBUG;
     buffer \<leftarrow> vsprintf (replicate 1024 0) string args;
     h \<leftarrow> (if level \<le> log_level then
             (case prefix of
                Some p \<Rightarrow> do {
                  pattern \<leftarrow> rd pattern_prefix (unat level);
                  pattern \<leftarrow> pattern;
                  fprintf sv stdout pattern [ArgInt timer_ticks, ArgStr p, ArgStr buffer] st h }
              | None \<Rightarrow>
                  fprintf sv stdout ([1] @ str ''[32m[%6d]'' @ [1] @ str ''[0m %s'' @ [0])
                    [ArgInt timer_ticks, ArgStr buffer] st h)
           else Some h);
     if level \<le> debug_level then
       (case prefix of
          Some p \<Rightarrow> fprintf sv stddebug (str ''[%6d] [%s] %s'' @ [0]) [ArgInt timer_ticks, ArgStr p, ArgStr buffer] st h
        | None \<Rightarrow> fprintf sv stddebug (str ''[%6d] %s'' @ [0]) [ArgInt timer_ticks, ArgStr buffer] st h)
     else Some h }"

section \<open>Dumps\<close>

text \<open>
  The dumps get the address of the buffer, which they print, and its contents. Offsets are read
  as the loops read them, byte by byte and in words of 32 bits.
\<close>

definition dump_mem8 ::
  "('i, 'h) services \<Rightarrow> nat \<Rightarrow> byte list \<Rightarrow> u32 \<Rightarrow> byte list \<Rightarrow> int \<Rightarrow> 'i vfs \<Rightarrow> 'h \<Rightarrow> 'h option" where
  "dump_mem8 sv fp prefix address buffer bytes st h = do {
     let bytes_per_block = 8;
     let bytes_per_line = 16;
     h \<leftarrow> fprintf sv fp (str ''Dumping %d bytes from 0x%08x'' @ [0]) [ArgInt (of_int bytes), ArgInt address] st h;
     h \<leftarrow> for_loop (\<lambda>i h. do {
         b \<leftarrow> rd buffer i;
         h \<leftarrow> (if i mod bytes_per_line = 0 then fprintf sv fp ([10] @ str ''%s'' @ [0]) [ArgStr prefix] st h
              else if i mod bytes_per_block = 0 then fprintf sv fp (str ''  '' @ [0]) [] st h
              else Some h);
         fprintf sv fp (str ''%02x '' @ [0]) [ArgInt (ucast b)] st h }) [0..<nat bytes] h;
     fprintf sv fp [10, 0] [] st h }"

definition dump_mem32 ::
  "('i, 'h) services \<Rightarrow> nat \<Rightarrow> byte list \<Rightarrow> u32 \<Rightarrow> u32 list \<Rightarrow> int \<Rightarrow> 'i vfs \<Rightarrow> 'h \<Rightarrow> 'h option" where
  "dump_mem32 sv fp prefix address buffer bytes st h = do {
     let lines1 = nat (bytes sdiv 4);
     h \<leftarrow> fprintf sv fp (str ''Dumping %d bytes from 0x%08x'' @ [10, 0]) [ArgInt (of_int bytes), ArgInt address] st h;
     for_loop (\<lambda>line h. do {
         d \<leftarrow> rd buffer line;
         fprintf sv fp (str ''%s %08x: %08x'' @ [10, 0])
           [ArgStr prefix, ArgInt (address + 4 * of_nat line), ArgInt d] st h }) [0..<lines1] h }"

text \<open>\<open>print_mem_info\<close> prints the address of its own local variable, \<open>stack\<close>, and the
  start of the free memory, \<open>kheap\<close>.\<close>

definition print_mem_info :: "('i, 'h) services \<Rightarrow> u32 \<Rightarrow> u32 \<Rightarrow> 'i vfs \<Rightarrow> 'h \<Rightarrow> 'h option" where
  "print_mem_info sv stack kheap st h =
     fprintf sv stdout (str ''Stack: %x, KHeap: %x'' @ [10, 0]) [ArgInt stack, ArgInt kheap] st h"

text \<open>\<open>get_char\<close> waits for a key and is a parameter of \<open>pause\<close>, which drops its answer.\<close>

definition pause :: "('i, 'h) services \<Rightarrow> ('h \<Rightarrow> (byte \<times> 'h) option) \<Rightarrow> 'i vfs \<Rightarrow> 'h \<Rightarrow> 'h option" where
  "pause sv get_char1 st h = do {
     h \<leftarrow> printf sv (str ''Press any key to continue...'' @ [10, 0]) [] st h;
     (_, h) \<leftarrow> get_char1 h;
     Some h }"

section \<open>The text that arrives\<close>

lemma render_cstr: "list_all item_ok its \<Longrightarrow> render its args = Some out \<Longrightarrow> is_cstr out"
proof (induction its args arbitrary: out rule: render.induct)
  case (2 c its args)
  then show ?case by (auto simp: is_cstr_def)
next
  case (3 its args)
  then show ?case by (auto simp: is_cstr_def)
next
  case (4 its s args)
  then show ?case by (auto simp: is_cstr_def split: if_splits dest: set_takeWhileD)
next
  case (5 ds hex its i args)
  then show ?case using numeral_text_cstr [of "if hex then 16 else 10" "unat i"]
    by (auto simp: is_cstr_def padded_def split: if_splits)
qed (simp_all add: is_cstr_def)

text \<open>A formatted text in the array of 1024 characters, and the array as the string it holds.\<close>

definition in_buffer :: "byte list \<Rightarrow> byte list" where
  "in_buffer s = s @ replicate (1024 - length s) 0"

lemma in_buffer_holds: "is_cstr s \<Longrightarrow> length s < 1024 \<Longrightarrow> holds (in_buffer s) s"
  by (cases "1024 - length s") (auto simp: in_buffer_def intro: holds_intro)

lemma in_buffer_text:
  assumes "is_cstr s" and "length s < 1024"
  shows "0 \<in> set (in_buffer s)" "takeWhile (\<lambda>c. c \<noteq> 0) (in_buffer s) = s"
  using assms by (auto simp: in_buffer_def is_cstr_def takeWhile_append)

lemma vsprintf_in_buffer:
  assumes "list_all item_ok its" and "render its args = Some out" and "length out < 1024"
  shows "vsprintf (replicate 1024 0) (concat (map unparse its) @ [0]) args = Some (in_buffer out)"
proof -
  have "vsprintf (replicate 1024 0) (concat (map unparse its) @ [0]) args =
      Some (out @ 0 # drop (Suc (length out)) (replicate 1024 0))"
    using vsprintf_loop_render [OF assms(1,2), of 0 "replicate 1024 0"] assms(3) by (simp add: vsprintf_def)
  moreover have "Suc (1023 - length out) = 1024 - length out" using assms(3) by simp
  ultimately show ?thesis by (simp add: in_buffer_def replicate_Suc [symmetric] del: replicate_Suc)
qed

lemma fprintf_renders:
  assumes "list_all item_ok its" and "render its args = Some out" and "length out < 1024"
  shows "fprintf sv fp (concat (map unparse its) @ [0]) args st h =
    map_option snd (write_handle sv fp (in_buffer out) (int (length out)) st h)"
  using vsprintf_in_buffer [OF assms] strlen_of_holds [OF in_buffer_holds [OF render_cstr [OF assms(1,2)] assms(3)]]
  by (auto simp: fprintf_def vfprintf_def split: option.splits Option.bind_splits)

text \<open>The formats of \<open>kprintf\<close> as items, and the lines they stand for.\<close>

lemma unparse_lits: "concat (map unparse (map Lit s)) = s"
  by (induction s) simp_all

lemma render_lits: "render (map Lit s @ its) args = map_option ((@) s) (render its args)"
  by (induction s) (simp_all add: option.map_comp comp_def map_option_idI)

lemma lits_ok: "list_all item_ok (map Lit s) = (\<forall>c \<in> set s. c \<noteq> 0 \<and> c \<noteq> 37)"
  by (auto simp: list_all_iff)

definition clock :: "u32 \<Rightarrow> byte list" where
  "clock ticks = padded [54] (numeral_text 10 (unat ticks))"

definition colored_items :: "string \<Rightarrow> item list" where
  "colored_items col = map Lit ([1] @ str col @ [91]) @ Num [54] False #
     map Lit ([93, 1] @ str ''[0m '' @ [1] @ str ''[34m'') @ Str # map Lit ([1] @ str ''[0m '') @ [Str]"

definition colored_line :: "string \<Rightarrow> u32 \<Rightarrow> byte list \<Rightarrow> byte list \<Rightarrow> byte list" where
  "colored_line col ticks p body = ([1] @ str col @ [91]) @ clock ticks @
     ([93, 1] @ str ''[0m '' @ [1] @ str ''[34m'') @ p @ ([1] @ str ''[0m '') @ body"

definition debug_items :: "item list" where
  "debug_items = map Lit [91] @ Num [54] False # map Lit [93, 32, 91] @ Str # map Lit [93, 32] @ [Str]"

definition debug_line :: "u32 \<Rightarrow> byte list \<Rightarrow> byte list \<Rightarrow> byte list" where
  "debug_line ticks p body = [91] @ clock ticks @ [93, 32, 91] @ p @ [93, 32] @ body"

lemma clock_length: "length (clock ticks) \<le> 10"
proof -
  have "length (numeral_text 10 (unat ticks)) \<le> 10"
    by (rule length_numeral_text) (auto intro: less_trans [OF unat_u32_lt])
  then show ?thesis by (simp add: clock_def padded_def)
qed

lemma colored_prefix_items: "colored_prefix col = concat (map unparse (colored_items col)) @ [0]"
proof -
  have "concat (map unparse (colored_items col)) = ([1] @ str col @ [91]) @ [37, 54, 100] @
      ([93, 1] @ str ''[0m '' @ [1] @ str ''[34m'') @ [37, 115] @ ([1] @ str ''[0m '') @ [37, 115]"
    by (simp add: colored_items_def unparse_lits del: map_map)
  then show ?thesis by (simp add: colored_prefix_def str_def)
qed

lemma debug_items_format: "str ''[%6d] [%s] %s'' @ [0] = concat (map unparse debug_items) @ [0]"
  by (simp add: debug_items_def str_def)

lemma colored_items_ok: "col \<in> {''[31m'', ''[32m'', ''[33m''} \<Longrightarrow> list_all item_ok (colored_items col)"
  by (auto simp: colored_items_def is_digit_def str_def)

lemma debug_items_ok: "list_all item_ok debug_items"
  by (simp add: debug_items_def is_digit_def)

lemma string_arg: "holds ob p \<Longrightarrow> 0 \<in> set ob \<and> takeWhile (\<lambda>c. c \<noteq> 0) ob = p"
  by (auto simp: holds_def is_cstr_def takeWhile_append)

text \<open>The three arguments of a line: the clock, the prefix and the text of the message.\<close>

lemma render_colored:
  assumes "holds ob p" and "is_cstr body" and "length body < 1024"
  shows "render (colored_items col) [ArgInt ticks, ArgStr ob, ArgStr (in_buffer body)] = Some (colored_line col ticks p body)"
  using in_buffer_text [OF assms(2,3)] string_arg [OF assms(1)]
  by (simp add: colored_items_def colored_line_def render_lits clock_def del: list.map append_Cons append_Nil)

lemma render_debug:
  assumes "holds ob p" and "is_cstr body" and "length body < 1024"
  shows "render debug_items [ArgInt ticks, ArgStr ob, ArgStr (in_buffer body)] = Some (debug_line ticks p body)"
  using in_buffer_text [OF assms(2,3)] string_arg [OF assms(1)]
  by (simp add: debug_items_def debug_line_def render_lits clock_def del: list.map append_Cons append_Nil)

section \<open>Where a message goes\<close>

definition level_color :: "byte \<Rightarrow> nat" where
  "level_color level = (if level = LOG_ERROR then 1 else if level = LOG_WARN then 3 else 2)"

definition color_name :: "nat \<Rightarrow> string" where
  "color_name k = (if k = 1 then ''[31m'' else if k = 3 then ''[33m'' else ''[32m'')"

lemma pattern_of_level:
  assumes "level \<in> {LOG_ERROR, LOG_WARN, LOG_INFO, LOG_DEBUG, LOG_TRACE}"
  shows "rd pattern_prefix (unat level) = Some (Some (colored_prefix (color_name (level_color level))))"
  using assms
  by (elim insertE) (simp_all add: pattern_prefix_def level_color_def color_name_def LOG_ERROR_def LOG_WARN_def
      LOG_INFO_def LOG_DEBUG_def LOG_TRACE_def)

definition put_line ::
  "('i, 'h) services \<Rightarrow> nat \<Rightarrow> byte list \<Rightarrow> 'i vfs \<Rightarrow> 'h \<Rightarrow> 'h option" where
  "put_line sv fp line st h = map_option snd (write_handle sv fp (in_buffer line) (int (length line)) st h)"

lemma length_debug_line: "length (debug_line ticks p body) \<le> 16 + length p + length body"
  using clock_length [of ticks] by (simp add: debug_line_def)

lemma length_colored_line: "length (colored_line (color_name k) ticks p body) \<le> 32 + length p + length body"
  using clock_length [of ticks] by (simp add: colored_line_def color_name_def)

lemma kprintf_lines:
  assumes its: "list_all item_ok items" "render items args = Some body"
    and p: "holds ob p" "length p + length body < 992"
    and level: "level \<in> {LOG_ERROR, LOG_WARN, LOG_INFO, LOG_DEBUG, LOG_TRACE}"
  shows "kprintf sv log_level ticks level (Some ob) (concat (map unparse items) @ [0]) args st h = do {
     h \<leftarrow> (if level \<le> log_level
          then put_line sv stdout (colored_line (color_name (level_color level)) ticks p body) st h else Some h);
     if level \<le> LOG_DEBUG then put_line sv stddebug (debug_line ticks p body) st h else Some h }"
proof -
  have len: "length body < 1024" using p(2) by simp
  have body: "is_cstr body" by (rule render_cstr [OF its])
  have "color_name k \<in> {''[31m'', ''[32m'', ''[33m''}" for k by (simp add: color_name_def)
  moreover have "length (colored_line (color_name k) ticks p body) < 1024" for k
    using p(2) length_colored_line [of k ticks p body] by linarith
  ultimately have out: "fprintf sv stdout (colored_prefix (color_name k)) [ArgInt ticks, ArgStr ob, ArgStr (in_buffer body)] st h =
      put_line sv stdout (colored_line (color_name k) ticks p body) st h" for k h
    unfolding put_line_def colored_prefix_items
    by (intro fprintf_renders colored_items_ok render_colored [OF p(1) body len])
  have "length (debug_line ticks p body) < 1024"
    using p(2) length_debug_line [of ticks p body] by linarith
  then have debug: "fprintf sv stddebug (str ''[%6d] [%s] %s'' @ [0]) [ArgInt ticks, ArgStr ob, ArgStr (in_buffer body)] st h =
      put_line sv stddebug (debug_line ticks p body) st h" for h
    unfolding put_line_def debug_items_format
    by (intro fprintf_renders debug_items_ok render_debug [OF p(1) body len])
  show ?thesis
    by (simp add: kprintf_def vsprintf_in_buffer [OF its len] pattern_of_level [OF level] out debug)
qed

text \<open>The line on the screen as characters with colours.\<close>

definition report :: "nat \<Rightarrow> u32 \<Rightarrow> byte list \<Rightarrow> byte list \<Rightarrow> styled list" where
  "report k ticks p body = (Some (Some k), 91) # plain (clock ticks @ [93]) @
     (Some None, 32) # (Some (Some 4), hd p) # plain (tl p) @ (Some None, 32) # plain body"

definition printable :: "byte list \<Rightarrow> bool" where
  "printable s \<longleftrightarrow> (\<forall>c \<in> set s. unat c < 128 \<and> c \<noteq> 1)"

lemma styled_bytes_plain: "styled_bytes (plain bs) = bs"
  by (induction bs) (simp_all add: styled_bytes_def plain_def)

lemma styled_bytes_append: "styled_bytes (ts @ us) = styled_bytes ts @ styled_bytes us"
  by (simp add: styled_bytes_def)

lemma styled_bytes_Cons: "styled_bytes ((e, c) # ts) = escape_bytes e @ c # styled_bytes ts"
  by (simp add: styled_bytes_def)

lemma report_bytes:
  "k \<in> {1, 2, 3} \<Longrightarrow> p \<noteq> [] \<Longrightarrow> styled_bytes (report k ticks p body) = colored_line (color_name k) ticks p body"
  by (auto simp: report_def styled_bytes_Cons styled_bytes_append styled_bytes_plain colored_line_def color_name_def str_def)

lemma digits_printable: "printable (digits 10 i)"
proof (induction i rule: less_induct)
  case (less i)
  show ?case
  proof (cases "i = 0")
    case False
    have "i mod 10 < 10" by simp
    then have "unat (bchars ! (i mod 10)) < 128 \<and> bchars ! (i mod 10) \<noteq> 1"
      by (drule_tac less_10_cases) (auto simp: bchars_eq)
    with less [of "i div 10"] False show ?thesis by (simp add: digits_step printable_def)
  qed (simp add: printable_def)
qed

lemma clock_printable: "printable (clock ticks)"
  using digits_printable [of "unat ticks"] by (auto simp: clock_def padded_def numeral_text_def printable_def)

lemma plain_ok: "printable s \<Longrightarrow> \<forall>t \<in> set (plain s). styled_ok t"
  by (auto simp: printable_def plain_def styled_ok_def)

lemma report_ok:
  assumes "k < 8" and "p \<noteq> []" and "printable p" and "printable body"
  shows "\<forall>t \<in> set (report k ticks p body). styled_ok t"
proof -
  have "printable (clock ticks @ [93])" "printable (tl p)" "unat (hd p) < 128"
    using clock_printable [of ticks] assms(2,3) by (auto simp: printable_def dest: list.set_sel(2))
  with plain_ok [of "clock ticks @ [93]"] plain_ok [of "tl p"] plain_ok [OF assms(4)] assms(1) show ?thesis
    by (auto simp: report_def styled_ok_def)
qed

text \<open>The console reads only as much of the array as it is told.\<close>

lemma rd_append: "rd xs i = Some x \<Longrightarrow> rd (xs @ ys) i = Some x"
  by (auto simp: rd_Some_iff nth_append)

lemma ansi_escape_append:
  assumes "ansi_escape data i c = Some r"
  shows "ansi_escape (data @ junk) i c = Some r"
proof -
  obtain d where d: "rd data (i + 2) = Some d" using assms by (auto simp: ansi_escape_def bind_eq_Some_conv)
  show ?thesis
  proof (cases "d = 0x30")
    case True
    with assms d rd_append [OF d, of junk] show ?thesis by (simp add: ansi_escape_def)
  next
    case False
    with assms d obtain k where k: "rd data (i + 3) = Some k" by (auto simp: ansi_escape_def bind_eq_Some_conv)
    from assms d k False rd_append [OF d, of junk] rd_append [OF k, of junk] show ?thesis by (simp add: ansi_escape_def)
  qed
qed

lemma console_write_loop_append:
  "console_write_loop font data len i c = Some c' \<Longrightarrow> console_write_loop font (data @ junk) len i c = Some c'"
proof (induction font data len i c rule: console_write_loop.induct)
  case (1 font data len i c)
  show ?case
  proof (cases "int i < len")
    case True
    let ?esc = "\<lambda>data. do { d \<leftarrow> rd data i; if d = 1 then ansi_escape data i c else Some (i, c) }"
    from 1(2) True obtain j d ch e where e: "?esc data = Some (j, d)" "rd data j = Some ch"
      "console_write_char font ch d = Some e" "console_write_loop font data len (j + 1) e = Some c'"
      by (subst (asm) console_write_loop.simps) (auto simp: bind_eq_Some_conv simp del: bind_eq_Some_conv split: option.splits prod.splits Option.bind_splits)
    obtain b where b: "rd data i = Some b" "(if b = 1 then ansi_escape data i c else Some (i, c)) = Some (j, d)"
      using e(1) unfolding bind_eq_Some_conv by blast
    then have "?esc (data @ junk) = Some (j, d)"
      using rd_append [OF b(1), of junk] ansi_escape_append [of data i c "(j, d)" junk] by (simp split: if_splits)
    moreover have "console_write_loop font (data @ junk) len (j + 1) e = Some c'"
      using 1(1) [OF True e(1) refl e(2,3,4)] .
    ultimately show ?thesis using True rd_append [OF e(2)] e(3) by (subst console_write_loop.simps) simp
  next
    case False
    with 1(2) show ?thesis by (subst (asm) console_write_loop.simps, subst console_write_loop.simps) simp
  qed
qed

text \<open>
  \<open>displays font ts c c'\<close>: the text \<open>ts\<close> has gone to the terminal of the console, and the screen
  shows it if it showed the terminal before.
\<close>

definition displays :: "byte list \<Rightarrow> styled list \<Rightarrow> console \<Rightarrow> console \<Rightarrow> bool" where
  "displays font ts c c' \<longleftrightarrow> console_ok c' \<and> console_cols c' = console_cols c \<and>
     (current_color c', tty_of c') = tty_text (nat (console_cols c)) ts (current_color c) (tty_of c) \<and>
     (shown font c \<longrightarrow> shown font c')"

lemma displays_append: "displays font ts c c' \<Longrightarrow> displays font us c' c'' \<Longrightarrow> displays font (ts @ us) c c''"
  by (auto simp: displays_def tty_text_append split: prod.splits)

lemma console_write_displays:
  assumes "font_ok font" and "console_ok c" and "\<forall>t \<in> set ts. styled_ok t"
    and "take (length (styled_bytes ts)) data = styled_bytes ts"
  shows "\<exists>c'. console_write font data (int (length (styled_bytes ts))) c = Some c' \<and> displays font ts c c'"
proof -
  let ?d = "styled_bytes ts"
  have data: "data = ?d @ drop (length ?d) data" by (metis append_take_drop_id assms(4))
  obtain c1 where c1: "console_write_loop font ?d (int (length ?d)) 0 c = Some c1" "console_ok c1"
    "console_cols c1 = console_cols c" "shown font c \<longrightarrow> shown font c1"
    "(current_color c1, tty_of c1) = tty_text (nat (console_cols c)) ts (current_color c) (tty_of c)"
    using write_loop_text [OF assms(1-3), of 0 ?d] by auto
  have "console_write_loop font data (int (length ?d)) 0 c = Some c1"
    by (subst data) (rule console_write_loop_append [OF c1(1)])
  with c1(2-5) show ?thesis
    by (intro exI [of _ "c1\<lparr>screen := vesa_copy_buffer (screen c1)\<rparr>"])
      (simp add: console_write_def displays_def tty_of_def copied_ok)
qed

section \<open>Properties\<close>

text \<open>Standard output on the screen console, debug output on the serial port, as the kernel opens them.\<close>

definition streams_open :: "'i vfs \<Rightarrow> bool" where
  "streams_open st \<longleftrightarrow> stddebug < length (open_files st) \<and>
     handle_type (open_files st ! stdout) = STREAM \<and> stream_device (open_files st ! stdout) = Screen_Console \<and>
     handle_type (open_files st ! stddebug) = STREAM \<and> stream_device (open_files st ! stddebug) = Com1"

lemma put_line_stdout:
  assumes "streams_open st" and "stream_write sv = output_stream font io" and "font_ok font" and "console_ok c"
    and "\<forall>t \<in> set ts. styled_ok t"
  shows "\<exists>c'. put_line sv stdout (styled_bytes ts) st (c, h) = Some (c', h) \<and> displays font ts c c'"
proof -
  obtain c' where "console_write font (in_buffer (styled_bytes ts)) (int (length (styled_bytes ts))) c = Some c'" "displays font ts c c'"
    using console_write_displays [OF assms(3-5), of "in_buffer (styled_bytes ts)"] by (auto simp: in_buffer_def)
  then show ?thesis
    using assms(1,2) by (simp add: put_line_def write_handle_def streams_open_def output_stream_def stdout_def stddebug_def)
qed

lemma put_line_stddebug:
  assumes "streams_open st" and "stream_write sv = output_stream font io" and "line_ready io"
  shows "\<exists>h'. put_line sv stddebug line st (c, h) = Some (c, h') \<and> sent PORT h' = sent PORT h @ line_text line"
proof -
  obtain h' where "write_serial io (in_buffer line) (int (length line)) h = Some h'"
    "sent PORT h' = sent PORT h @ line_text (take (length line) (in_buffer line))"
    using write_serial_sends [OF assms(3), of "int (length line)" "in_buffer line" h] by (auto simp: in_buffer_def)
  then show ?thesis
    using assms(1,2) by (simp add: put_line_def write_handle_def streams_open_def output_stream_def in_buffer_def)
qed

text \<open>
  C9: a message of the kernel with a prefix comes back and is reported twice: on the screen,
  when its level is at most the log level, as the time in brackets in the colour of the level, the
  prefix in blue and the text in the default colour; and on the serial port, when its level is at
  most DEBUG, as the same line without colours, a carriage return after every line feed. This is so
  when standard output and the debug stream are open, the serial line becomes ready again after
  every character, the prefix is not empty, prefix and text are ASCII without the escape
  character 1, the arguments fit the conversions of the format, and prefix and text together are shorter than 992
  characters: the line is put together in buffers of 1024 bytes, which a longer one overflows.
\<close>

theorem kprintf_reports:
  assumes "streams_open st" and "stream_write sv = output_stream font io"
    and "font_ok font" and "console_ok c" and "line_ready io"
    and "list_all item_ok items" and "render items args = Some body" and "printable body"
    and "holds prefix p" and "p \<noteq> []" and "printable p" and "length p + length body < 992"
    and "level \<in> {LOG_ERROR, LOG_WARN, LOG_INFO, LOG_DEBUG, LOG_TRACE}"
  shows "\<exists>c' h'. kprintf sv log_level ticks level (Some prefix) (concat (map unparse items) @ [0]) args st (c, h) = Some (c', h') \<and>
    (current_color c', tty_of c') =
      (if level \<le> log_level
       then tty_text (nat (console_cols c)) (report (level_color level) ticks p body) (current_color c) (tty_of c)
       else (current_color c, tty_of c)) \<and>
    (shown font c \<longrightarrow> shown font c') \<and>
    sent PORT h' = sent PORT h @ (if level \<le> LOG_DEBUG then line_text (debug_line ticks p body) else [])"
proof -
  have k: "level_color level \<in> {1, 2, 3}" "level_color level < 8" by (simp_all add: level_color_def)
  note ok = report_ok [OF k(2) assms(10,11,8), of ticks]
  obtain c' where c': "(if level \<le> log_level
      then put_line sv stdout (colored_line (color_name (level_color level)) ticks p body) st (c, h) else Some (c, h)) = Some (c', h)"
    "(current_color c', tty_of c') =
      (if level \<le> log_level
       then tty_text (nat (console_cols c)) (report (level_color level) ticks p body) (current_color c) (tty_of c)
       else (current_color c, tty_of c))" "shown font c \<longrightarrow> shown font c'"
    using put_line_stdout [OF assms(1-4) ok, of h] unfolding report_bytes [OF k(1) assms(10)] displays_def
    by (cases "level \<le> log_level") auto
  obtain h' where h': "(if level \<le> LOG_DEBUG then put_line sv stddebug (debug_line ticks p body) st (c', h) else Some (c', h)) = Some (c', h')"
    "sent PORT h' = sent PORT h @ (if level \<le> LOG_DEBUG then line_text (debug_line ticks p body) else [])"
    using put_line_stddebug [OF assms(1,2,5), of "debug_line ticks p body" c' h] by (cases "level \<le> LOG_DEBUG") auto
  show ?thesis
    using kprintf_lines [OF assms(6,7,9,12,13), of sv log_level ticks st "(c, h)"] c' h' by auto
qed

text \<open>The open files as the kernel starts: nothing but the streams.\<close>

definition stream_handle :: "stream_device \<Rightarrow> file_handle" where
  "stream_handle d = \<lparr>handle_type = STREAM, hpath = replicate 256 0, filesystem = 0, hlocation = 0, hsize = 0,
     block_device = 0, cursor = 0, stream_device = d\<rparr>"

definition start_vfs :: "nat vfs" where
  "start_vfs = \<lparr>block_devices = [], block_devices_count = 0, fs_mounts = [], fs_mounts_count = 0,
     cwd = replicate 256 0,
     open_files = [stream_handle Screen_Console, stream_handle Screen_Console, stream_handle Screen_Console, stream_handle Com1]\<rparr>"

theorem kprintf_reports_witness:
  "\<forall>sv. \<exists>c' h'. kprintf (sv\<lparr>stream_write := output_stream tiny_font ready_line\<rparr>) 6 100 LOG_ERROR (Some (str ''ATA'' @ [0]))
      (str ''slot %d'' @ [10, 0]) [ArgInt 2] start_vfs (tiny_console, []) = Some (c', h') \<and>
    sent PORT h' = str ''[000100] [ATA] slot 2'' @ [10, 13]"
proof
  fix sv :: "(nat, console \<times> history) services"
  let ?sv = "sv\<lparr>stream_write := output_stream tiny_font ready_line\<rparr>"
  let ?items = "map Lit (str ''slot '') @ [Num [] False, Lit 10]"
  have 1: "streams_open start_vfs" "stream_write ?sv = output_stream tiny_font ready_line"
    by (simp_all add: streams_open_def start_vfs_def stream_handle_def stdout_def stddebug_def)
  have 2: "list_all item_ok ?items" by (simp add: str_def)
  have 3: "render ?items [ArgInt 2] = Some (str ''slot 2'' @ [10])" by code_simp
  have 4: "printable (str ''slot 2'' @ [10])" "printable (str ''ATA'')" by (simp_all add: printable_def str_def)
  have 5: "holds (str ''ATA'' @ [0]) (str ''ATA'')" "str ''ATA'' \<noteq> []" by (simp_all add: str_def)
  have 6: "length (str ''ATA'') + length (str ''slot 2'' @ [10]) < 992" by simp
  have 7: "LOG_ERROR \<in> {LOG_ERROR, LOG_WARN, LOG_INFO, LOG_DEBUG, LOG_TRACE}" by simp
  have f: "concat (map unparse ?items) @ [0] = str ''slot %d'' @ [10, 0]" by (simp add: str_def)
  have line: "line_text (debug_line 100 (str ''ATA'') (str ''slot 2'' @ [10])) = str ''[000100] [ATA] slot 2'' @ [10, 13]"
    by code_simp
  have "LOG_ERROR \<le> LOG_DEBUG" by (simp add: LOG_ERROR_def LOG_DEBUG_def)
  moreover obtain c' h' where "kprintf ?sv 6 100 LOG_ERROR (Some (str ''ATA'' @ [0]))
      (str ''slot %d'' @ [10, 0]) [ArgInt 2] start_vfs (tiny_console, []) = Some (c', h')"
    and "sent PORT h' = sent PORT [] @
      (if LOG_ERROR \<le> LOG_DEBUG then str ''[000100] [ATA] slot 2'' @ [10, 13] else [])"
    using kprintf_reports [OF 1 tiny_ok(2,1) ready_line_ready 2 3 4(1) 5(1,2) 4(2) 6 7, of 6 100 "[]", unfolded f line]
    by blast
  ultimately show "\<exists>c' h'. kprintf ?sv 6 100 LOG_ERROR (Some (str ''ATA'' @ [0]))
      (str ''slot %d'' @ [10, 0]) [ArgInt 2] start_vfs (tiny_console, []) = Some (c', h') \<and>
    sent PORT h' = str ''[000100] [ATA] slot 2'' @ [10, 13]"
    by (intro exI [of _ c'] exI [of _ h']) simp
qed

end
