(* ===== verification/UsbReport.thy ===== *)
theory UsbReport
  imports Messages Uhci CString
begin

text \<open>
  The print-outs of transfer descriptors at the end of \<open>uhci.c\<close>: a heading, a line for each of
  the first ten descriptors, and, when there are more, the number left out and the last one.
  The descriptors are read from the memory they are shared in with the host controller.
\<close>

section \<open>Transfer descriptors as text\<close>

definition print_td_header :: "('i, 'h) services \<Rightarrow> nat \<Rightarrow> byte list \<Rightarrow> 'i vfs \<Rightarrow> 'h \<Rightarrow> 'h option" where
  "print_td_header sv fp prefix st h =
     fprintf sv fp (str ''%s: LinkPtr  Vf Q T    SPD ERR LS IOS IOC Status ActLen    MaxLen D EndPt Addr PID    TD Buffer'' @ [10, 0])
       [ArgStr prefix] st h"

definition flag :: "bool \<Rightarrow> vararg" where
  "flag b = ArgInt (of_bool b)"

definition td_args :: "transfer_descriptor \<Rightarrow> vararg list" where
  "td_args td =
     [ArgInt (push_bit 4 (ucast (link_pointer td))), flag (depth_first td), flag (qh_td_select td), flag (terminate td),
      flag (short_packet_detect td), ArgInt (ucast (error_count td)), flag (low_speed_device td),
      flag (isochronous_select td), flag (interrupt_on_complete td), flag (status_active td),
      ArgInt (ucast (actual_length td)), ArgInt (ucast (max_length td)), flag (data_toggle td),
      ArgInt (ucast (td_endpoint td)), ArgInt (ucast (device_address td)), ArgInt (ucast (packet_identification td)),
      ArgInt (buffer_pointer td)]"

definition print_td ::
  "('i, 'h) services \<Rightarrow> nat \<Rightarrow> byte list \<Rightarrow> transfer_descriptor \<Rightarrow> 'i vfs \<Rightarrow> 'h \<Rightarrow> 'h option" where
  "print_td sv fp prefix td st h =
     fprintf sv fp (str ''%s: %08x %x  %x %x    %x   %x   %x  %x   %x   %02x     %3x       %3x    %x %x     %02x   %02x     %08x'' @ [10, 0])
       (ArgStr prefix # td_args td) st h"

definition print_tds ::
  "('i, 'h) services \<Rightarrow> memory \<Rightarrow> nat \<Rightarrow> byte list \<Rightarrow> u32 \<Rightarrow> u16 \<Rightarrow> 'i vfs \<Rightarrow> 'h \<Rightarrow> 'h option" where
  "print_tds sv m fp prefix tds count1 st h = do {
     h \<leftarrow> print_td_header sv fp prefix st h;
     let start_count = (if count1 > 10 then 10 else unat count1);
     h \<leftarrow> for_loop (\<lambda>i h. print_td sv fp prefix (load_td m (td_at tds i)) st h) [0..<start_count] h;
     if unat count1 > start_count then do {
       h \<leftarrow> fprintf sv fp (str ''Omitted %d TDs'' @ [10, 0]) [ArgInt (ucast count1 - of_nat start_count)] st h;
       print_td sv fp prefix (load_td m (td_at tds (unat count1 - 1))) st h }
     else Some h }"

end
