(* ===== verification/Kernel.thy ===== *)
theory Kernel
  imports Console Messages Serial Timer Keyboard Floppy UsbStorage VfsFiles
begin

text \<open>
  \<open>core/kernel.c\<close>: the order in which the kernel brings up its streams and drivers, finds its disks, mounts their
  file systems and starts the shell.
\<close>

section \<open>Output, interrupts, buses and drives\<close>

text \<open>The functions that are handed to the interrupt table and to the timer.\<close>

datatype irq_routine = Timer_Handler | Keyboard_Handler | Floppy_Routine

datatype timer_routine = Motor_Off_If_Idle

text \<open>
  What the start of the kernel relies on from outside: the ports, the host controllers, the floppy
  controller, the addresses of the assembler stubs, and what local variables hold before they are
  written.
\<close>

record 'd platform =
  io :: device
  usb :: "'d usb_hw"
  fdc :: fdc_env
  isr_stub :: "nat \<Rightarrow> u32"
  irq_stub :: "nat \<Rightarrow> u32"
  idt_address :: u32
  mode_info_width :: u16
  mode_info_height :: u16
  screen_junk :: "nat \<Rightarrow> u16"
  usb_locals :: storage_locals
  endpoint_junk :: "nat \<Rightarrow> u32 \<times> u32"

record 'd boot =
  io_hist :: history
  handles :: "file_handle list"
  screen :: graphics
  text_console :: console
  idts :: idt_state
  routines :: "irq_routine irq_routines"
  system_timer :: "timer_routine timer"
  pci :: pci_state
  ehci :: "ehci_controller list \<times> nat"
  storage :: "'d storage_state"
  floppy_drive :: floppy

definition open_stream :: "nat \<Rightarrow> stream_device \<Rightarrow> file_handle list \<Rightarrow> file_handle list option" where
  "open_stream fp d hs = do {
     e \<leftarrow> rd hs fp;
     wr hs fp (e\<lparr>handle_type := STREAM, stream_device := d\<rparr>) }"

text \<open>
  The serial port and the screen, and the streams that lead to them. The lowest 20 lines of the
  screen are kept for the status line.
\<close>

definition init_output :: "'d platform \<Rightarrow> 'd boot \<Rightarrow> 'd boot option" where
  "init_output w s = do {
     (_, h) \<leftarrow> init_serial (io w) 115200 (io_hist s);
     hs \<leftarrow> open_stream stddebug Com1 (handles s);
     let g = vesa_init (mode_info_width w) (mode_info_height w) (screen_junk w) (screen s);
     let u = usb_state (storage s);
     let hp1 = snd (memalign 4 (ucast (screen_width g) * ucast (screen_height g) * 2) (hp u));
     let g = vesa_clear_screen g;
     let c = console_init 0 0 (int (unat (screen_width g))) (int (unat (screen_height g)) - 20) (text_console s);
     let hp2 = snd (malloc (of_int (console_rows c * console_cols c) * 4) hp1);
     hs \<leftarrow> open_stream stdin Screen_Console hs;
     hs \<leftarrow> open_stream stdout Screen_Console hs;
     hs \<leftarrow> open_stream stderr Screen_Console hs;
     Some (s\<lparr>io_hist := h, handles := hs, screen := g, text_console := c,
             storage := storage s\<lparr>usb_state := u\<lparr>hp := hp2\<rparr>\<rparr>\<rparr>) }"

definition install_interrupts :: "'d platform \<Rightarrow> 'd boot \<Rightarrow> 'd boot option" where
  "install_interrupts w s = do {
     i \<leftarrow> idt_install (isr_stub w) (idt_address w) (idts s);
     (i, rs, h) \<leftarrow> irq_install (irq_stub w) i (routines s) (io_hist s);
     (t, rs, h) \<leftarrow> timer_install Timer_Handler (system_timer s, rs, h);
     rs \<leftarrow> irq_install_handler 1 Keyboard_Handler rs;
     h \<leftarrow> ps2_keyboard_install Some (io w) h;
     Some (s\<lparr>io_hist := h, idts := i, routines := rs, system_timer := t\<rparr>) }"

definition install_buses :: "'d platform \<Rightarrow> 'd boot \<Rightarrow> 'd boot option" where
  "install_buses w s = do {
     (_, p) \<leftarrow> pci_init (io w) (pci s\<lparr>pci_hist := io_hist s\<rparr>);
     let u = (usb_state (storage s))\<lparr>usb_state.ports := pci_hist p\<rparr>;
     (_, cs, n, u) \<leftarrow> usb_ehci_init (usb w) (pci_devices p) (pci_device_count p) (fst (ehci s)) u;
     (_, u) \<leftarrow> usb_uhci_init (usb w) (pci_devices p) (pci_device_count p) u;
     st \<leftarrow> usb_storage_init (usb w) (usb_locals w) (endpoint_junk w) (storage s\<lparr>usb_state := u\<rparr>);
     Some (s\<lparr>io_hist := usb_state.ports (usb_state st), pci := p, ehci := (cs, n), storage := st\<rparr>) }"

text \<open>\<open>install_floppy\<close>, with the two functions it registers when there is a drive.\<close>

definition install_drives :: "'d platform \<Rightarrow> 'd boot \<Rightarrow> 'd boot option" where
  "install_drives w s = do {
     let (drives, _) = inb (fdc w) 0x71 (outb (fdc w) 0x70 0x10 (floppy_drive s\<lparr>hist := io_hist s\<rparr>));
     rs \<leftarrow> (if drives = 0 then Some (routines s) else irq_install_handler 6 Floppy_Routine (routines s));
     t \<leftarrow> (if drives = 0 then Some (system_timer s)
           else map_option snd (timer_register_callback Motor_Off_If_Idle (system_timer s)));
     (f, bt) \<leftarrow> install_floppy (fdc w) (floppy_drive s\<lparr>hist := io_hist s\<rparr>, block_devs (storage s));
     Some (s\<lparr>io_hist := hist f, routines := rs, system_timer := t, floppy_drive := f,
             storage := storage s\<lparr>block_devs := bt\<rparr>\<rparr>) }"

definition init_hardware :: "'d platform \<Rightarrow> 'd boot \<Rightarrow> 'd boot option" where
  "init_hardware w s = do {
     s \<leftarrow> init_output w s;
     s \<leftarrow> install_interrupts w s;
     s \<leftarrow> install_buses w s;
     install_drives w s }"

section \<open>Partitions and file systems\<close>

text \<open>The number of devices grows while the loop runs; the partitions it finds are not searched again.\<close>

function find_all_partitions ::
  "'h read_sectors \<Rightarrow> byte list \<Rightarrow> nat \<Rightarrow> block_table \<Rightarrow> 'h \<Rightarrow> (block_table \<times> 'h) option" where
  "find_all_partitions drv stack i bt h =
     (if \<not> i < block_devices_count bt then Some (bt, h)
      else if MAX_BLOCK_DEVICES \<le> i then None
      else do {
        e \<leftarrow> rd (block_devices bt) i;
        (bt, h) \<leftarrow> (if dev_type (dev e) = HARD_DISK \<and> partition (dev e) = RAW_DEVICE
                   then map_option snd (find_partitions drv stack i bt h) else Some (bt, h));
        find_all_partitions drv stack (i + 1) bt h })"
  by pat_completeness auto
termination
  by (relation "measure (\<lambda>(drv, stack, i, bt, h). MAX_BLOCK_DEVICES - i)") auto

declare find_all_partitions.simps [simp del]

text \<open>
  The file system of one device. \<open>fs0\<close> is what \<open>malloc\<close> returned for it: a floppy whose
  \<open>init\<close> fails is mounted with that.
\<close>

definition mount_device ::
  "'h read_sectors \<Rightarrow> byte list \<Rightarrow> (nat \<Rightarrow> byte) \<Rightarrow> fat_instance file_system \<Rightarrow> nat \<Rightarrow>
     fat_instance vfs \<times> 'h \<Rightarrow> (fat_instance vfs \<times> 'h) option" where
  "mount_device drv stack junk fs0 i = (\<lambda>(st, h). do {
     e \<leftarrow> rd (block_devices st) i;
     if dev_type (dev e) = FLOPPY then do {
       (_, filesys, h) \<leftarrow> fat12_init drv stack junk (dev e) fs0 h;
       (_, st) \<leftarrow> mount_fs filesys (str ''fd'' @ [0]) st;
       Some (st, h) }
     else if dev_type (dev e) = HARD_DISK \<and> partition (dev e) > 0 then do {
       (r, filesys, h) \<leftarrow> fat12_init drv stack junk (dev e) fs0 h;
       if r = SUCCESS then do { (_, st) \<leftarrow> mount_fs filesys (str ''hd'' @ [0]) st; Some (st, h) }
       else Some (st, h) }
     else Some (st, h) })"

definition mount_devices ::
  "'h read_sectors \<Rightarrow> byte list \<Rightarrow> (nat \<Rightarrow> byte) \<Rightarrow> fat_instance file_system \<Rightarrow> fat_instance vfs \<Rightarrow> 'h \<Rightarrow>
     (fat_instance vfs \<times> 'h) option" where
  "mount_devices drv stack junk fs0 st h =
     for_loop (mount_device drv stack junk fs0) [0..<block_devices_count st] (st, h)"

text \<open>The working directory becomes the first mount.\<close>

definition set_first_directory :: "'i vfs \<Rightarrow> 'i vfs option" where
  "set_first_directory st = do {
     m \<leftarrow> rd (fs_mounts st) 0;
     d \<leftarrow> strcpy (str ''/'' @ [0]) (cwd st);
     d \<leftarrow> strcat d (mount_point m);
     Some (st\<lparr>cwd := d\<rparr>) }"

section \<open>Running a program\<close>

text \<open>
  \<open>program\<close> is the program read to address 0x100000, given the contents of the buffer there. It
  returns with what it has left in memory, in the file system and on the disks. \<open>dirs\<close>,
  \<open>num\<close>, \<open>clusters\<close> and \<open>len\<close> are locals that nothing has written yet.
\<close>

definition exec_program ::
  "('i, 'h) services \<Rightarrow> dir_entry list \<Rightarrow> u16 \<Rightarrow> u32 \<Rightarrow> u16 \<Rightarrow>
     (byte list \<Rightarrow> 'i vfs \<Rightarrow> 'h \<Rightarrow> (byte list \<times> 'i vfs \<times> 'h) option) \<Rightarrow>
     byte list \<Rightarrow> byte list \<Rightarrow> 'i vfs \<Rightarrow> 'h \<Rightarrow> (int \<times> byte list \<times> 'i vfs \<times> 'h) option" where
  "exec_program sv dirs num clusters len program fname buffer st h = do {
     (r, buffer, len, st, h) \<leftarrow> read_file sv dirs num clusters fname buffer len st h;
     if r < 0 then Some (FAILURE, buffer, st, h)
     else do {
       (buffer, st, h) \<leftarrow> program buffer st h;
       (_, buffer, len, st, h) \<leftarrow> read_file sv dirs num clusters (str ''shell.exe'' @ [0]) buffer len st h;
       Some (SUCCESS, buffer, st, h) } }"

section \<open>From the drives to the shell\<close>

text \<open>
  \<open>main\<close> does not return: it ends in the echo loop of \<open>loopback\<close>, with no drive, with no file
  system, or when the shell has come back or could not be loaded.
\<close>

datatype ('i, 'h) boot_end =
    No_drives block_table
  | No_file_systems "'i vfs" 'h
  | Shell_ended int "byte list" "'i vfs" 'h

definition start_shell ::
  "'h read_sectors \<Rightarrow> byte list \<Rightarrow> (nat \<Rightarrow> byte) \<Rightarrow> fat_instance file_system \<Rightarrow> (fat_instance, 'h) services \<Rightarrow>
     dir_entry list \<Rightarrow> u16 \<Rightarrow> u32 \<Rightarrow> u16 \<Rightarrow>
     (byte list \<Rightarrow> fat_instance vfs \<Rightarrow> 'h \<Rightarrow> (byte list \<times> fat_instance vfs \<times> 'h) option) \<Rightarrow> byte list \<Rightarrow>
     block_table \<Rightarrow> fat_instance vfs \<Rightarrow> 'h \<Rightarrow> (fat_instance, 'h) boot_end option" where
  "start_shell drv stack junk fs0 sv dirs num clusters len program memory_at_100000 bt st h =
     (if block_devices_count bt = 0 then Some (No_drives bt)
      else do {
        (bt, h) \<leftarrow> find_all_partitions drv stack 0 bt h;
        let st = st\<lparr>block_devices := block_devices bt, block_devices_count := block_devices_count bt\<rparr>;
        (st, h) \<leftarrow> mount_devices drv stack junk fs0 st h;
        if fs_mounts_count st = 0 then Some (No_file_systems st h)
        else do {
          st \<leftarrow> set_first_directory st;
          (r, buffer, st, h) \<leftarrow> exec_program sv dirs num clusters len program (str ''shell.exe'' @ [0])
            memory_at_100000 st h;
          Some (Shell_ended r buffer st h) } })"

text \<open>One turn of the echo loop: a line, and the USB controllers once more when it says so.\<close>

definition loopback_turn ::
  "'d platform \<Rightarrow> pci_device list \<Rightarrow> nat \<Rightarrow> (byte list \<Rightarrow> 'k \<Rightarrow> (byte list \<times> 'k) option) \<Rightarrow> byte list \<Rightarrow>
     'k \<Rightarrow> 'd usb_state \<Rightarrow> (byte list \<times> 'k \<times> 'd usb_state) option" where
  "loopback_turn w pds count read_line buffer k u = do {
     (buffer, k) \<leftarrow> read_line buffer k;
     again \<leftarrow> strcmp buffer (str ''loadusb'' @ [0]);
     u \<leftarrow> (if again then map_option snd (usb_uhci_init (usb w) pds count u) else Some u);
     Some (buffer, k, u) }"

text \<open>\<open>die\<close> prints and hangs.\<close>

definition die :: "byte list \<Rightarrow> 's \<Rightarrow> 's option" where
  "die message s = None"

section \<open>The first file system is home\<close>

lemma first_directory:
  assumes "mounts_ok st" and "0 < fs_mounts_count st" and "component_ok (mount_names st ! 0)"
    and "66 \<le> length (cwd st)"
  shows "\<exists>d. set_first_directory st = Some (st\<lparr>cwd := d\<rparr>) \<and> holds d (47 # mount_names st ! 0) \<and> length d = length (cwd st)"
proof -
  let ?m = "fs_mounts st ! 0" and ?n = "mount_names st ! 0"
  have m: "rd (fs_mounts st) 0 = Some ?m" "holds (mount_point ?m) ?n"
    using mount_holds [OF assms(1,2)] by simp_all
  have n: "length ?n < 64" "is_cstr ?n" using assms(3) by (simp_all add: component_ok_def MOUNTPOINT_LENGTH_def)
  have slash: "holds (str ''/'' @ [0]) [47]" by (simp add: str_def)
  let ?d = "[47] @ 0 # drop 2 (cwd st)"
  have "strcpy (str ''/'' @ [0]) (cwd st) = Some ?d"
    using strcpy_of_holds [OF slash, of "cwd st"] assms(4) by (simp add: numeral_2_eq_2)
  moreover have d: "holds ?d [47]" "length ?d = length (cwd st)" using assms(4) by simp_all
  have "strcat ?d (mount_point ?m) = Some ([47] @ ?n @ 0 # drop (Suc (length [47 :: byte] + length ?n)) ?d)"
    using n(1) assms(4) by (intro strcat_of_holds [OF d(1) m(2)]) simp
  moreover have "holds ([47] @ ?n @ 0 # x) (47 # ?n)" for x using n(2) by simp (auto simp: holds_def)
  ultimately show ?thesis using n(1) assms(4) m(1)
    by (intro exI [of _ "47 # ?n @ 0 # drop (Suc (Suc (length ?n))) (cwd st)"]) (simp add: set_first_directory_def)
qed

lemma relative_path_first_mount:
  assumes "mounts_ok st" and "distinct (mount_names st)" and "0 < fs_mounts_count st"
    and "component_ok (mount_names st ! 0)" and "holds (cwd st) (47 # mount_names st ! 0)"
    and "holds path p" and "p \<noteq> []" and "hd p \<noteq> 47" and "length p < 190"
  shows "\<exists>ob r. normalise_path path (replicate 256 0) st = Some ob \<and>
    get_fs_for_path ob st = Some (Some (0, p @ 0 # r))"
proof -
  let ?w = "47 # mount_names st ! 0"
  have len: "length ?w < 65" using assms(4) by (simp add: component_ok_def MOUNTPOINT_LENGTH_def)
  have abs: "absolute ?w p = 47 # mount_names st ! 0 @ 47 # p" using assms(7,8) by (simp add: absolute_def)
  have "length (absolute ?w p) < length (replicate 256 (0 :: byte))" "length ?w < 256"
    using len assms(9) unfolding abs by simp_all
  from normalise_path_eq [OF assms(6,5) this] obtain ob where
    ob: "normalise_path path (replicate 256 0) st = Some ob" "holds ob (absolute ?w p)" by blast
  then obtain r where "ob = 47 # mount_names st ! 0 @ 47 # (p @ 0 # r)" by (auto simp: abs holds_def)
  with ob(1) get_fs_for_path_mount [OF assms(1-4), of "p @ 0 # r"] show ?thesis by auto
qed

text \<open>
  C14: Started from a single floppy, the kernel mounts its file system as \<open>/fd0\<close> and makes that its
  working directory: from then on a relative path means the file of that name on the floppy. The
  floppy is mounted whatever \<open>init\<close> has answered, also when it has failed.
\<close>

theorem floppy_becomes_home:
  assumes "mounts_ok st" and "fs_mounts_count st = 0" and "66 \<le> length (cwd st)"
    and "block_devices st = e # others" and "block_devices_count st = 1" and "dev_type (dev e) = FLOPPY"
    and "fat12_init drv stack junk (dev e) fs0 h = Some (r, filesys, h')"
  shows "\<exists>st1 st2. mount_devices drv stack junk fs0 st h = Some (st1, h') \<and> set_first_directory st1 = Some st2 \<and>
    fs_mounts_count st2 = 1 \<and> mfs (fs_mounts st2 ! 0) = filesys \<and> holds (cwd st2) (str ''/fd0'') \<and>
    (\<forall>path p. holds path p \<longrightarrow> p \<noteq> [] \<longrightarrow> hd p \<noteq> 47 \<longrightarrow> length p < 190 \<longrightarrow>
      (\<exists>ob r. normalise_path path (replicate 256 0) st2 = Some ob \<and> get_fs_for_path ob st2 = Some (Some (0, p @ 0 # r))))"
proof -
  let ?t = "str ''fd''" and ?st1 = "add_mount filesys (str ''fd'') st"
  have t: "holds (?t @ [0]) ?t" "is_cstr ?t" "length ?t \<le> 62" by (simp_all add: str_def is_cstr_def)
  have room: "fs_mounts_count st < MAX_MOUNTPOINTS" using assms(2) by (simp add: MAX_MOUNTPOINTS_def)
  have mount: "mount_devices drv stack junk fs0 st h = Some (?st1, h')"
    using mount_fs_eq [OF assms(1) t(1,3) room, of filesys] assms(4-7)
    by (simp add: mount_devices_def mount_device_def rd_def)
  have ok: "mounts_ok ?st1" by (rule add_mount_ok [OF assms(1) t(2,3) room])
  have "mount_names st = []" using length_mount_names [OF assms(1)] assms(2) by simp
  then have names: "mount_names ?st1 = [str ''fd0'']"
    using add_mount_names [OF assms(1) t(2) room, of filesys] assms(2) by (simp add: numbered_def digit_def str_def)
  have nm: "mount_names ?st1 ! 0 = str ''fd0''" by (simp only: names nth_Cons_0)
  have comp: "component_ok (mount_names ?st1 ! 0)"
    unfolding nm by (simp add: component_ok_def MOUNTPOINT_LENGTH_def str_def is_cstr_def)
  have n: "0 < length (fs_mounts st)" using assms(1) by (simp add: mounts_ok_def MAX_MOUNTPOINTS_def)
  have frame: "cwd ?st1 = cwd st" "fs_mounts_count ?st1 = 1" using assms(2) by (simp_all add: add_mount_def)
  obtain d where d: "set_first_directory ?st1 = Some (?st1\<lparr>cwd := d\<rparr>)" "holds d (47 # mount_names ?st1 ! 0)"
    using first_directory [OF ok _ comp] assms(3) frame by auto
  let ?st2 = "?st1\<lparr>cwd := d\<rparr>"
  have same: "mount_names ?st2 = mount_names ?st1" "mounts_ok ?st2"
    using ok by (simp_all add: mount_names_def mounts_ok_def)
  have "\<exists>ob r. normalise_path path (replicate 256 0) ?st2 = Some ob \<and> get_fs_for_path ob ?st2 = Some (Some (0, p @ 0 # r))"
    if "holds path p" "p \<noteq> []" "hd p \<noteq> 47" "length p < 190" for path p
    using relative_path_first_mount [of ?st2 path p] same comp d(2) that frame by (simp add: names)
  moreover have "mfs (fs_mounts ?st2 ! 0) = filesys" using n assms(2) by (simp add: add_mount_def)
  moreover have "47 # mount_names ?st1 ! 0 = str ''/fd0''" unfolding nm by (simp add: str_def)
  ultimately show ?thesis using mount d frame(2) by (intro exI [of _ ?st1] exI [of _ ?st2]) auto
qed

lemma boot_floppy:
  "\<exists>f. fat12_init (image_driver boot_disk) (replicate 512 0) (\<lambda>_. 0) floppy0 (small_fs 9) () = Some (SUCCESS, f, ())"
proof -
  obtain d where d: "parse_volume FAT12 boot_sector = Some (Some d)" "fi_num_reserved_sectors d = 1"
    "fi_sectors_per_fat d = 1"
    using boot_volume(2) by auto
  have s0: "sectors_of boot_disk 0 1 = boot_sector" by (simp add: sectors_of_def boot_disk_def)
  have l: "length boot_disk = 7" by (simp add: boot_disk_def)
  have rd: "image_driver boot_disk floppy0 0 1 (replicate 512 0) () = Some (SUCCESS, boot_sector, ())"
    using s0 l by (simp add: image_driver_def)
  have "\<exists>f. fat12_read_fat (image_driver boot_disk) floppy0 d (map (\<lambda>_. 0) [0..<512]) () = Some (SUCCESS, f, ())"
    using d l by (simp add: fat12_read_fat_def read_sectors_lba_def floppy0_def image_driver_def)
  then show ?thesis
    using d parse_volume_fields [OF d(1)] by (auto simp: fat12_init_def rd boot_volume(1) Let_def)
qed

definition one_floppy :: block_device_file where
  "one_floppy = \<lparr>device_name = str ''floppy0'' @ replicate 57 0, dev = floppy0\<rparr>"

theorem floppy_becomes_home_witness:
  "\<exists>st1 st2. mount_devices (image_driver boot_disk) (replicate 512 0) (\<lambda>_. 0) (small_fs 9)
      ((empty_vfs (small_fs 9) (replicate 256 0))\<lparr>block_devices := [one_floppy], block_devices_count := 1\<rparr>) () = Some (st1, ()) \<and>
    set_first_directory st1 = Some st2 \<and> holds (cwd st2) (str ''/fd0'') \<and>
    (\<exists>ob r. normalise_path (str ''shell.exe'' @ [0]) (replicate 256 0) st2 = Some ob \<and>
      get_fs_for_path ob st2 = Some (Some (0, str ''shell.exe'' @ 0 # r)))"
proof -
  let ?st = "(empty_vfs (small_fs 9) (replicate 256 0))\<lparr>block_devices := [one_floppy], block_devices_count := 1\<rparr>"
  have st: "mounts_ok ?st" "fs_mounts_count ?st = 0" "66 \<le> length (cwd ?st)" "block_devices ?st = one_floppy # []"
    "block_devices_count ?st = 1" "dev_type (dev one_floppy) = FLOPPY"
    using empty_vfs_ok(1,3) [of "small_fs 9" "replicate 256 0"]
    by (simp_all add: mounts_ok_def mount_names_def one_floppy_def floppy0_def) (simp add: empty_vfs_def)
  obtain f where "fat12_init (image_driver boot_disk) (replicate 512 0) (\<lambda>_. 0) (dev one_floppy) (small_fs 9) () = Some (SUCCESS, f, ())"
    using boot_floppy by (auto simp: one_floppy_def)
  from floppy_becomes_home [OF st this] obtain st1 st2 where
    a: "mount_devices (image_driver boot_disk) (replicate 512 0) (\<lambda>_. 0) (small_fs 9) ?st () = Some (st1, ())"
    "set_first_directory st1 = Some st2" "holds (cwd st2) (str ''/fd0'')" and
    b: "\<forall>path p. holds path p \<longrightarrow> p \<noteq> [] \<longrightarrow> hd p \<noteq> 47 \<longrightarrow> length p < 190 \<longrightarrow>
      (\<exists>ob r. normalise_path path (replicate 256 0) st2 = Some ob \<and> get_fs_for_path ob st2 = Some (Some (0, p @ 0 # r)))"
    by blast
  have "holds (str ''shell.exe'' @ [0]) (str ''shell.exe'')" "str ''shell.exe'' \<noteq> []" "hd (str ''shell.exe'') \<noteq> 47"
    "length (str ''shell.exe'') < 190"
    by (simp_all add: str_def)
  with a b show ?thesis by blast
qed

section \<open>The program that runs\<close>

text \<open>
  C37: From a FAT12 or FAT16 volume with one sector per cluster, as on a floppy disk, and a root
  directory of fewer than sixteen entries whose names end inside their fields, \<open>exec\<close> runs a program
  on exactly the contents of its file: the clusters of the chain of its directory entry, one after
  the other, lie at the start of the program's memory when it is called, with all file handles as
  they were before. When the program has returned, the shell is read again to the same place. The
  driver delivers every sector, the memory of programs holds the chain, and the size in the entry is
  not 0xFFFFFFFF. With more sectors per cluster the loaded program would be damaged, as
  \<open>read_file_chain\<close> tells.
\<close>

theorem exec_runs_file:
  assumes "files_ok st" and "free_handle st = Some i" and "i \<noteq> 0"
    and "reachable_mount st k" and "on_mount st path k f"
    and "filesys = mfs (fs_mounts st ! k)" and "volume disk filesys entries rest" and "serves drv (FsDriver.device filesys) disk"
    and "length dirs = 16" and "list_all entry_shape dirs"
    and "entry_named entries (map upcase f) = Some j" and "r_size (entries ! j) \<noteq> - 1"
    and "cluster_size filesys = 1" and "chain filesys (ucast (r_low (entries ! j)) # clusters)"
    and "list_all (on_disk disk filesys) (ucast (r_low (entries ! j)) # clusters)"
    and "512 * Suc (length clusters) \<le> length buffer"
  shows "\<exists>st' h'. handle_types st' = handle_types st \<and> fs_mounts st' = fs_mounts st \<and>
    exec_program (fat_services drv junk sr sw) dirs num cl len program path buffer st h =
      (case program (concat (map (cluster_data disk filesys) (ucast (r_low (entries ! j)) # clusters)) @
          drop (512 * Suc (length clusters)) buffer) st' h' of
         None \<Rightarrow> None
       | Some (b, s, g) \<Rightarrow> map_option (\<lambda>(_, b, _, s, g). (SUCCESS, b, s, g))
           (read_file (fat_services drv junk sr sw) dirs num cl (str ''shell.exe'' @ [0]) b (ucast (r_size (entries ! j))) s g))"
proof -
  obtain st' h' where "read_file (fat_services drv junk sr sw) dirs num cl path buffer len st h =
      Some (SUCCESS, concat (map (cluster_data disk filesys) (ucast (r_low (entries ! j)) # clusters)) @
          drop (512 * Suc (length clusters)) buffer, ucast (r_size (entries ! j)), st', h')"
    and "handle_types st' = handle_types st" "fs_mounts st' = fs_mounts st"
    using read_file_from_fat [OF assms] by blast
  then show ?thesis
    by (intro exI [of _ st'] exI [of _ h']) (auto simp: exec_program_def split: option.splits Option.bind_splits prod.splits)
qed

text \<open>A program that does not return when its first sector is that of the file, and returns at once else.\<close>

theorem exec_runs_file_witness:
  "exec_program (fat_services (image_driver letter_disk) (\<lambda>_. 0) (\<lambda>_ _ _ _. None) (\<lambda>_ _ _ _. None))
      (replicate 16 blank_entry) 0 0 0 (\<lambda>b s g. if take 512 b = replicate 512 3 then None else Some (b, s, g))
      (str ''letter.txt'' @ [0]) (replicate 2000 9) letter_vfs () = None"
proof -
  have low: "ucast (r_low ([readme, letter] ! 1)) = (2 :: u32)" "r_size ([readme, letter] ! 1) = 700"
    by (simp_all add: letter_def readme_def)
  have data: "concat (map (cluster_data letter_disk (small_fs 1)) [2, 3]) = replicate 512 3 @ replicate 512 4"
    by (simp add: cluster_data_def small_fs_sectors sectors_of_def letter_disk_def)
  let ?p = "\<lambda>b s g. if take 512 b = replicate 512 3 then None else Some (b, s, g)"
  have ran: "\<exists>st' h'. handle_types st' = handle_types letter_vfs \<and> fs_mounts st' = fs_mounts letter_vfs \<and>
    exec_program (fat_services (image_driver letter_disk) (\<lambda>_. 0) (\<lambda>_ _ _ _. None) (\<lambda>_ _ _ _. None))
      (replicate 16 blank_entry) 0 0 0 ?p (str ''letter.txt'' @ [0]) (replicate 2000 9) letter_vfs () =
      (case ?p (concat (map (cluster_data letter_disk (small_fs 1)) (ucast (r_low ([readme, letter] ! 1)) # [3])) @
          drop (512 * Suc (length [3 :: u32])) (replicate 2000 9)) st' h' of
         None \<Rightarrow> None
       | Some (b, s, g) \<Rightarrow> map_option (\<lambda>(_, b, _, s, g). (SUCCESS, b, s, g))
           (read_file (fat_services (image_driver letter_disk) (\<lambda>_. 0) (\<lambda>_ _ _ _. None) (\<lambda>_ _ _ _. None))
             (replicate 16 blank_entry) 0 0 (str ''shell.exe'' @ [0]) b (ucast (r_size ([readme, letter] ! 1))) s g))"
  proof (rule exec_runs_file [OF letter_vfs_parts(1,2) _ letter_vfs_parts(3,4) letter_vfs_parts(5) [symmetric]
      letter_volume letter_serves _ _ letter_named])
    show "chain (small_fs 1) (ucast (r_low ([readme, letter] ! 1)) # [3])" unfolding low by (rule small_fs_chain)
    show "list_all (on_disk letter_disk (small_fs 1)) (ucast (r_low ([readme, letter] ! 1)) # [3])"
      unfolding low by (simp add: on_disk_def small_fs_sectors letter_disk_ok)
    show "list_all entry_shape (replicate 16 blank_entry)" using blank_shape by (simp add: list_all_iff)
    show "r_size ([readme, letter] ! 1) \<noteq> - 1" unfolding low by simp
  qed (simp_all add: small_fs_sectors)
  have first: "take 512 ((replicate 512 3 @ replicate 512 4) @ x) = replicate 512 (3 :: byte)" for x by simp
  from ran show ?thesis unfolding low data by (auto simp only: first if_True option.case simp_thms)
qed

end
