(* ===== verification/VfsTypes.thy ===== *)
theory VfsTypes
  imports Kernel VfsFiles CString
begin

text \<open>
  The types of the file system's state. A C array has a fixed size, and a pointer to a mounted
  file system or to a device leads to an entry that is in use; in the model, where arrays are lists
  and such pointers are indices, this is the predicate \<open>vfs_conforms\<close>. Every operation that
  returns keeps it (preservation), and on a state that has it every operation whose arguments fit
  comes back, so that it stays inside all arrays (progress).
\<close>

section \<open>Conforming states\<close>

definition handle_conforms :: "'i vfs \<Rightarrow> file_handle \<Rightarrow> bool" where
  "handle_conforms st e \<longleftrightarrow> length (hpath e) = 256 \<and>
     (handle_type e = FILE \<longrightarrow> filesystem e < fs_mounts_count st) \<and>
     (handle_type e = BLOCK \<longrightarrow> block_device e < block_devices_count st)"

definition table_conforms :: "'a block_table_scheme \<Rightarrow> bool" where
  "table_conforms st \<longleftrightarrow> length (block_devices st) = MAX_BLOCK_DEVICES \<and> block_devices_count st \<le> MAX_BLOCK_DEVICES \<and>
     (\<forall>e \<in> set (block_devices st). length (device_name e) = 64 \<and> 0 \<in> set (device_name e))"

definition mounts_conform :: "'i vfs \<Rightarrow> bool" where
  "mounts_conform st \<longleftrightarrow> length (fs_mounts st) = MAX_MOUNTPOINTS \<and> fs_mounts_count st \<le> MAX_MOUNTPOINTS \<and>
     (\<forall>m \<in> set (fs_mounts st). length (mount_point m) = MOUNTPOINT_LENGTH \<and> 0 \<in> set (mount_point m))"

definition files_conform :: "'i vfs \<Rightarrow> bool" where
  "files_conform st \<longleftrightarrow> length (open_files st) = MAX_FILES \<and> (\<forall>e \<in> set (open_files st). handle_conforms st e)"

definition vfs_conforms :: "'i vfs \<Rightarrow> bool" where
  "vfs_conforms st \<longleftrightarrow> table_conforms st \<and> mounts_conform st \<and> files_conform st \<and> length (cwd st) = 256 \<and> 0 \<in> set (cwd st)"

section \<open>Preservation\<close>

lemma strcpy_ends: "strcpy a b = Some c \<Longrightarrow> 0 \<in> set c"
  by (auto simp: strcpy_Some_iff)

lemma strcat_ends: "strcat a b = Some c \<Longrightarrow> 0 \<in> set c"
  by (auto simp: strcat_def bind_eq_Some_conv dest!: strcpy_ends)

lemma name_ends: "Suc n < length xs \<Longrightarrow> 0 \<in> set (xs[n := x, Suc n := 0])"
  by (metis length_list_update set_update_memI)

lemma in_update_cases: "x \<in> set (xs[i := y]) \<Longrightarrow> x = y \<or> x \<in> set xs"
  using set_update_subset_insert [of xs i y] by blast

lemma register_conforms:
  assumes "register_block_device d type bt = Some (r, bt')" and "table_conforms bt"
  shows "table_conforms bt' \<and> block_devices_count bt \<le> block_devices_count bt'"
proof -
  let ?n = "block_devices_count bt" and ?e = "block_devices bt ! block_devices_count bt"
  from assms(1) obtain len name where n: "?n < length (block_devices bt)" and name: "strcpy type (device_name ?e) = Some name"
    and ways: "bt' = bt\<lparr>block_devices := (block_devices bt)[?n := ?e\<lparr>dev := d, device_name := name\<rparr>]\<rparr> \<or>
      (\<exists>k. bt' = bt\<lparr>block_devices := (block_devices bt)[?n := ?e\<lparr>dev := d, device_name := (name[len := digit k])[len + 1 := 0]\<rparr>],
        block_devices_count := ?n + 1\<rparr> \<and> Suc len < length name)"
    unfolding register_block_device_def Let_def
    by (auto simp: bind_eq_Some_conv rd_Some_iff wr_Some_iff split: if_splits)
  have "?e \<in> set (block_devices bt)" using n by simp
  then have "length name = 64" using strcpy_length [OF name] assms(2) by (simp add: table_conforms_def)
  with ways n assms(2) strcpy_ends [OF name] show ?thesis
    by (auto simp: table_conforms_def name_ends dest!: in_update_cases)
qed

lemma mount_conforms:
  assumes "mount_fs filesys name st = Some (r, st')" and "mounts_conform st"
  shows "mounts_conform st' \<and> fs_mounts_count st \<le> fs_mounts_count st' \<and>
    (\<exists>ms n. st' = st\<lparr>fs_mounts := ms, fs_mounts_count := n\<rparr>)"
proof -
  let ?n = "fs_mounts_count st" and ?e = "fs_mounts st ! fs_mounts_count st"
  from assms(1) obtain len p where n: "?n < length (fs_mounts st)" and p: "strcpy name (mount_point ?e) = Some p"
    and ways: "st' = st\<lparr>fs_mounts := (fs_mounts st)[?n := ?e\<lparr>mfs := filesys, mount_point := p\<rparr>]\<rparr> \<or>
      (\<exists>k. st' = st\<lparr>fs_mounts := (fs_mounts st)[?n := ?e\<lparr>mfs := filesys, mount_point := (p[len := digit k])[len + 1 := 0]\<rparr>],
        fs_mounts_count := ?n + 1\<rparr> \<and> Suc len < length p)"
    unfolding mount_fs_def Let_def
    by (auto simp: bind_eq_Some_conv rd_Some_iff wr_Some_iff split: if_splits)
  have "?e \<in> set (fs_mounts st)" using n by simp
  then have "length p = MOUNTPOINT_LENGTH" using strcpy_length [OF p] assms(2) by (simp add: mounts_conform_def)
  then have "mounts_conform st' \<and> fs_mounts_count st \<le> fs_mounts_count st'"
    using ways n assms(2) strcpy_ends [OF p] by (auto simp: mounts_conform_def name_ends dest!: in_update_cases)
  moreover have "st\<lparr>fs_mounts := ms\<rparr> = st\<lparr>fs_mounts := ms, fs_mounts_count := ?n\<rparr>" for ms by simp
  ultimately show ?thesis using ways by metis
qed

lemma find_mount_bound: "find_mount name is st = Some (Some i) \<Longrightarrow> i \<in> set is"
  by (induction "is") (auto simp: bind_eq_Some_conv split: if_splits)

lemma find_block_bound: "find_block name is st = Some (Some i) \<Longrightarrow> i \<in> set is"
  by (induction "is") (auto simp: bind_eq_Some_conv split: if_splits)

lemma get_fs_bound: "get_fs_for_path path st = Some (Some (i, rest)) \<Longrightarrow> i < fs_mounts_count st"
  by (auto simp: get_fs_for_path_def bind_eq_Some_conv split: if_splits option.splits dest!: find_mount_bound)

text \<open>The entry \<open>open_file\<close> writes refers to a mount or a device that is in use.\<close>

lemma put_handle_conforms:
  assumes "put_handle fp upd path st = Some st'" and "vfs_conforms st"
    and "\<And>e. length (hpath e) = 256 \<Longrightarrow> handle_conforms st (upd e)"
  shows "vfs_conforms st'"
proof -
  obtain p where fp: "nat fp < length (open_files st)" and p: "strcpy path (hpath (open_files st ! nat fp)) = Some p"
    and st': "st' = st\<lparr>open_files := (open_files st)[nat fp := upd (open_files st ! nat fp)\<lparr>hpath := p\<rparr>]\<rparr>"
    using assms(1) by (auto simp: put_handle_def bind_eq_Some_conv rd_Some_iff wr_Some_iff split: if_splits)
  have e: "length (hpath (open_files st ! nat fp)) = 256"
    using assms(2) fp by (auto simp: vfs_conforms_def files_conform_def handle_conforms_def)
  then have "length p = 256" using strcpy_length [OF p] by simp
  moreover have same: "handle_conforms st' = handle_conforms st" by (simp add: st' handle_conforms_def fun_eq_iff)
  ultimately have "handle_conforms st' (upd (open_files st ! nat fp)\<lparr>hpath := p\<rparr>)"
    using assms(3) [OF e] by (simp add: handle_conforms_def)
  with assms(2) same show ?thesis
    by (simp add: vfs_conforms_def files_conform_def table_conforms_def mounts_conform_def st')
      (auto dest!: in_update_cases)
qed

lemma open_conforms:
  assumes "open_file sv dirs num path st h = Some (fp, st', h')" and "vfs_conforms st"
  shows "vfs_conforms st'"
proof -
  let ?block = "\<lambda>i e. e\<lparr>handle_type := BLOCK, block_device := i, file_handle.cursor := 0\<rparr>"
  let ?file = "\<lambda>i (d :: dir_entry) e. e\<lparr>handle_type := FILE, filesystem := i, hlocation := location_on_disk d, hsize := file_size d\<rparr>"
  consider "st' = st"
    | i where "i < block_devices_count st" "put_handle fp (?block i) path st = Some st'"
    | i d where "i < fs_mounts_count st" "put_handle fp (?file i d) path st = Some st'"
    using assms(1)
    by (fastforce simp: open_file_def bind_eq_Some_conv split: if_splits option.splits
        dest!: find_block_bound get_fs_bound)
  then show ?thesis
    by cases (use assms(2) in \<open>auto elim!: put_handle_conforms simp: handle_conforms_def\<close>)
qed

lemma close_conforms:
  assumes "close_file fd st = Some st'" and "vfs_conforms st"
  shows "vfs_conforms st'"
proof -
  obtain i where fd: "fd < length (open_files st)"
    and st': "st' = st\<lparr>open_files := (open_files st)[fd := (open_files st ! fd)\<lparr>handle_type := NULL\<rparr>]\<rparr>"
    using assms(1) by (auto simp: close_file_def bind_eq_Some_conv rd_Some_iff wr_Some_iff)
  have "handle_conforms st (open_files st ! fd)"
    using assms(2) fd by (simp add: vfs_conforms_def files_conform_def)
  then have "handle_conforms st ((open_files st ! fd)\<lparr>handle_type := NULL\<rparr>)" by (simp add: handle_conforms_def)
  moreover have "handle_conforms st' = handle_conforms st" by (simp add: st' handle_conforms_def fun_eq_iff)
  ultimately show ?thesis
    using assms(2)
    by (simp add: vfs_conforms_def files_conform_def table_conforms_def mounts_conform_def st')
      (auto dest!: in_update_cases)
qed

text \<open>More mounts and more devices leave every handle conforming.\<close>

lemma conforms_grow:
  assumes "vfs_conforms st" and "table_conforms st'" and "mounts_conform st'" and "cwd st' = cwd st"
    and "open_files st' = open_files st" and "block_devices_count st \<le> block_devices_count st'"
    and "fs_mounts_count st \<le> fs_mounts_count st'"
  shows "vfs_conforms st'"
  using assms by (auto simp: vfs_conforms_def files_conform_def handle_conforms_def)

lemma strcat_length: "strcat a b = Some c \<Longrightarrow> length c = length a"
  by (auto simp: strcat_def bind_eq_Some_conv dest!: strcpy_length)

lemma home_conforms:
  assumes "set_first_directory st = Some st'" and "vfs_conforms st"
  shows "vfs_conforms st'"
proof -
  obtain d m d' where "rd (fs_mounts st) 0 = Some m" and d: "strcpy (str ''/'' @ [0]) (cwd st) = Some d" "strcat d (mount_point m) = Some d'"
    and "st\<lparr>cwd := d'\<rparr> = st'"
    using assms(1) unfolding set_first_directory_def bind_eq_Some_conv option.inject by blast
  then have st': "st' = st\<lparr>cwd := d'\<rparr>" by simp
  have "length d' = 256" "0 \<in> set d'"
    using strcpy_length [OF d(1)] strcat_length [OF d(2)] strcat_ends [OF d(2)] assms(2) by (simp_all add: vfs_conforms_def)
  moreover have "handle_conforms st' = handle_conforms st" by (simp add: st' handle_conforms_def fun_eq_iff)
  ultimately show ?thesis
    using assms(2) by (simp add: vfs_conforms_def files_conform_def table_conforms_def mounts_conform_def st')
qed

lemma chdir_conforms:
  assumes "chdir path (cwd st) = Some (r, d)" and "vfs_conforms st"
  shows "vfs_conforms (st\<lparr>cwd := d\<rparr>)"
proof -
  have d: "strcpy path (cwd st) = Some d" using assms(1) by (simp add: chdir_def bind_eq_Some_conv)
  have "handle_conforms (st\<lparr>cwd := d\<rparr>) = handle_conforms st" by (simp add: handle_conforms_def fun_eq_iff)
  then show ?thesis
    using strcpy_length [OF d] strcpy_ends [OF d] assms(2)
    by (simp add: vfs_conforms_def files_conform_def table_conforms_def mounts_conform_def)
qed

section \<open>Progress\<close>

lemma strcmp_wl_total: "0 \<in> set x \<Longrightarrow> 0 \<in> set y \<Longrightarrow> \<exists>b. strcmp_wl x y n = Some b"
  using strcmp_wl_of_holds [OF holds_cstring_of holds_cstring_of] by blast

lemma strcmp_total: "0 \<in> set x \<Longrightarrow> 0 \<in> set y \<Longrightarrow> \<exists>b. strcmp x y = Some b"
  by (simp add: strcmp_def strcmp_wl_total)

text \<open>The entries of the arrays are strings of their size.\<close>

lemma table_entry:
  assumes "table_conforms st" and "i < MAX_BLOCK_DEVICES"
  shows "i < length (block_devices st)" and "length (device_name (block_devices st ! i)) = 64"
    and "0 \<in> set (device_name (block_devices st ! i))"
  using assms by (auto simp: table_conforms_def)

lemma mount_entry:
  assumes "mounts_conform st" and "i < MAX_MOUNTPOINTS"
  shows "i < length (fs_mounts st)" and "length (mount_point (fs_mounts st ! i)) = 64"
    and "0 \<in> set (mount_point (fs_mounts st ! i))"
  using assms by (auto simp: mounts_conform_def MOUNTPOINT_LENGTH_def)

text \<open>A loop that counts comes to at most the number of its rounds.\<close>

lemma counting_loop:
  assumes "\<And>i. i \<in> set is \<Longrightarrow> \<exists>b. ok i = Some b"
  shows "\<exists>n \<le> k + length is. for_loop (\<lambda>i count. do { b \<leftarrow> ok i; Some (if b then count + 1 else count) }) is k = Some n"
  using assms
proof (induction "is" arbitrary: k)
  case (Cons i "is")
  then obtain b where b: "ok i = Some b" by auto
  show ?case
    using Cons.IH [of "if b then k + 1 else k"] Cons.prems b by (cases b) (auto intro: le_trans)
qed simp

lemma register_progress:
  assumes "table_conforms bt" and "block_devices_count bt < MAX_BLOCK_DEVICES"
    and "0 \<in> set type" and "length (cstring_of type) \<le> 62"
  shows "\<exists>bt'. register_block_device d type bt = Some (SUCCESS, bt')"
proof -
  let ?n = "block_devices_count bt" and ?t = "cstring_of type"
  let ?e = "block_devices bt ! ?n"
  note t = holds_cstring_of [OF assms(3)] and e = table_entry [OF assms(1,2)]
  define name where "name = ?t @ 0 # drop (Suc (length ?t)) (device_name ?e)"
  have name: "strcpy type (device_name ?e) = Some name" "length name = 64" "0 \<in> set name"
    using strcpy_of_holds [OF t, of "device_name ?e"] e(2) assms(4) by (simp_all add: name_def)
  let ?bds = "(block_devices bt)[?n := ?e\<lparr>dev := d, device_name := name\<rparr>]"
  have "\<exists>b. (do { e \<leftarrow> rd ?bds i; strcmp_wl (device_name e) type (length ?t) }) = Some b" if "i < ?n" for i
    using table_entry [OF assms(1), of i] that assms(2,3) e(1) strcmp_wl_total by (auto simp: rd_Some_iff)
  then have "\<exists>k \<le> 0 + length [0..<?n]. for_loop (\<lambda>i count. do {
      b \<leftarrow> do { e \<leftarrow> rd ?bds i; strcmp_wl (device_name e) type (length ?t) };
      Some (if b then count + 1 else count) }) [0..<?n] 0 = Some k"
    by (intro counting_loop) simp
  then obtain k where "k \<le> ?n" "get_next_index_for_block_dev_type type (bt\<lparr>block_devices := ?bds\<rparr>) = Some k"
    by (auto simp: get_next_index_for_block_dev_type_def strlen_of_holds [OF t] bind_assoc)
  then show ?thesis
    using assms(2,4) e(1) name by (simp add: register_block_device_def strlen_of_holds [OF t] Let_def)
qed

lemma mount_progress:
  assumes "mounts_conform st" and "fs_mounts_count st < MAX_MOUNTPOINTS"
    and "0 \<in> set name" and "length (cstring_of name) \<le> 62"
  shows "\<exists>st'. mount_fs filesys name st = Some (SUCCESS, st')"
proof -
  let ?n = "fs_mounts_count st" and ?t = "cstring_of name"
  let ?e = "fs_mounts st ! ?n"
  note t = holds_cstring_of [OF assms(3)] and e = mount_entry [OF assms(1,2)]
  define p where "p = ?t @ 0 # drop (Suc (length ?t)) (mount_point ?e)"
  have p: "strcpy name (mount_point ?e) = Some p" "length p = 64" "0 \<in> set p"
    using strcpy_of_holds [OF t, of "mount_point ?e"] e(2) assms(4) by (simp_all add: p_def)
  let ?ms = "(fs_mounts st)[?n := ?e\<lparr>mfs := filesys, mount_point := p\<rparr>]"
  have "\<exists>b. (do { e \<leftarrow> rd ?ms ?n; strcmp_wl (mount_point e) name (length ?t) }) = Some b" if "i < ?n" for i
    using assms(3) e(1) p(3) strcmp_wl_total by (auto simp: rd_Some_iff)
  then have "\<exists>k \<le> 0 + length [0..<?n]. for_loop (\<lambda>i count. do {
      b \<leftarrow> do { e \<leftarrow> rd ?ms ?n; strcmp_wl (mount_point e) name (length ?t) };
      Some (if b then count + 1 else count) }) [0..<?n] 0 = Some k"
    by (intro counting_loop) simp
  then obtain k where "k \<le> ?n" "get_next_index_for_mount_type name (st\<lparr>fs_mounts := ?ms\<rparr>) = Some k"
    by (auto simp: get_next_index_for_mount_type_def strlen_of_holds [OF t] bind_assoc)
  then show ?thesis
    using assms(2,4) e(1) p by (simp add: mount_fs_def strlen_of_holds [OF t] Let_def)
qed

lemma home_progress:
  assumes "vfs_conforms st"
  shows "\<exists>st'. set_first_directory st = Some st'"
proof -
  have m: "mounts_conform st" and c: "length (cwd st) = 256" using assms by (simp_all add: vfs_conforms_def)
  note e = mount_entry [OF m, of 0] and slash = holds_intro [of "str ''/''" "[]"]
  let ?p = "mount_point (fs_mounts st ! 0)"
  have p: "holds ?p (cstring_of ?p)" using e(3) by (simp add: MAX_MOUNTPOINTS_def holds_cstring_of)
  have "length (cstring_of ?p) < 64" using holds_length [OF p] e(2) by (simp add: MAX_MOUNTPOINTS_def)
  moreover have d: "strcpy (str ''/'' @ [0]) (cwd st) = Some (str ''/'' @ 0 # drop (Suc (Suc 0)) (cwd st))"
    using strcpy_of_holds [OF slash, of "cwd st"] c by (simp add: str_def)
  moreover have "holds (str ''/'' @ 0 # drop (Suc (Suc 0)) (cwd st)) (str ''/'')" by (rule holds_intro) (simp add: str_def)
  ultimately obtain d' where "strcat (str ''/'' @ 0 # drop (Suc (Suc 0)) (cwd st)) ?p = Some d'"
    using strcat_of_holds [OF _ p, of "str ''/'' @ 0 # drop (Suc (Suc 0)) (cwd st)" "str ''/''"] c by (auto simp: str_def)
  then show ?thesis using d e(1) by (simp add: set_first_directory_def MAX_MOUNTPOINTS_def)
qed

text \<open>
  What \<open>open_file\<close> needs: a path that fits into its buffers, joined with the working directory and
  up to the second slash, a handle that is free, and drivers that list the entries of a root
  directory with their names ended.
\<close>

definition path_fits :: "'i vfs \<Rightarrow> byte list \<Rightarrow> bool" where
  "path_fits st path \<longleftrightarrow> 0 \<in> set path \<and> length (cstring_of path) < 256 \<and>
     (let a = absolute (cstring_of (cwd st)) (cstring_of path)
      in length a < 256 \<and> length (takeWhile (\<lambda>c. c \<noteq> 47) (drop 1 a)) < MOUNTPOINT_LENGTH)"

definition lists_entries :: "('i, 'h) services \<Rightarrow> dir_entry list \<Rightarrow> u16 \<Rightarrow> 'i vfs \<Rightarrow> 'h \<Rightarrow> bool" where
  "lists_entries sv dirs num st h \<longleftrightarrow> (\<forall>i < fs_mounts_count st. \<exists>r out n h'.
     list_root_of sv (mfs (fs_mounts st ! i)) dirs num h = Some (r, out, n, h') \<and>
     unat n \<le> length out \<and> (\<forall>j < unat n. 0 \<in> set (filename (out ! j))))"

lemma mount_component_progress:
  assumes "holds s t" and "i + length (takeWhile (\<lambda>c. c \<noteq> 47) t) < length m" and "last m = 0"
  shows "\<exists>r. mount_component s m i = Some r \<and>
    (\<forall>m' s'. r = Some (m', s') \<longrightarrow> 0 \<in> set m' \<and> (\<exists>t'. holds s' t' \<and> length t' \<le> length t))"
  using assms
proof (induction s m i arbitrary: t rule: mount_component.induct)
  case (2 c s m i)
  show ?case
  proof (cases "c = 47 \<or> c = 0")
    case True
    have "0 \<in> set m" using 2(3,4) by (metis last_in_set length_0_conv not_less_zero)
    moreover have "\<exists>t'. holds s t' \<and> length t' \<le> length t" if "c = 47"
    proof -
      obtain t1 where "t = 47 # t1" "holds s t1" using 2(2) \<open>c = 47\<close> by auto
      then show ?thesis by (intro exI [of _ t1]) simp
    qed
    ultimately show ?thesis using True by auto
  next
    case False
    then obtain t1 where t1: "t = c # t1" "holds s t1" using 2(2) by auto
    then have i: "i < length m" "i + 1 + length (takeWhile (\<lambda>c. c \<noteq> 47) t1) < length (m[i := c])" using False 2(3) by auto
    then have "i < length m - 1" "m \<noteq> []" by auto
    then have "last (m[i := c]) = 0" using 2(4) by (simp add: last_list_update)
    have "\<exists>t'. holds s' t' \<and> length t' \<le> length t" if "\<exists>t'. holds s' t' \<and> length t' \<le> length t1" for s'
      using that t1(1) by (metis le_SucI length_Cons)
    with 2(1) [of "m[i := c]" t1] False i t1(2) \<open>last (m[i := c]) = 0\<close> show ?thesis by auto
  qed
qed simp

lemma find_mount_progress:
  assumes "mounts_conform st" and "\<forall>i \<in> set is. i < MAX_MOUNTPOINTS" and "0 \<in> set m"
  shows "\<exists>r. find_mount m is st = Some r"
  using assms(2)
proof (induction "is")
  case (Cons i "is")
  then show ?case using mount_entry [OF assms(1), of i] strcmp_total [of "mount_point (fs_mounts st ! i)" m] assms(3) by auto
qed simp

lemma find_block_progress:
  assumes "table_conforms st" and "\<forall>i \<in> set is. i < MAX_BLOCK_DEVICES" and "0 \<in> set m"
  shows "\<exists>r. find_block m is st = Some r"
  using assms(2)
proof (induction "is")
  case (Cons i "is")
  then show ?case using table_entry [OF assms(1), of i] strcmp_total [of "device_name (block_devices st ! i)" m] assms(3) by auto
qed simp

lemma find_entry_progress:
  assumes "\<forall>i \<in> set is. i < length dirs \<and> 0 \<in> set (filename (dirs ! i))" and "0 \<in> set name"
  shows "\<exists>r. find_entry name is dirs = Some r"
  using assms(1)
proof (induction "is")
  case (Cons i "is")
  then show ?case using strcmp_total [of "filename (dirs ! i)" name] assms(2) by auto
qed simp

lemma get_fs_progress:
  assumes "vfs_conforms st" and "holds s a" and "length (takeWhile (\<lambda>c. c \<noteq> 47) (drop 1 a)) < MOUNTPOINT_LENGTH"
  shows "\<exists>r. get_fs_for_path s st = Some r \<and>
    (\<forall>i s'. r = Some (i, s') \<longrightarrow> i < fs_mounts_count st \<and> (\<exists>t. holds s' t \<and> length t \<le> length a))"
proof -
  obtain c s1 where s: "s = c # s1" using assms(2) by (cases s) auto
  show ?thesis
  proof (cases "c = 47")
    case False
    then show ?thesis by (simp add: get_fs_for_path_def s)
  next
    case True
    then obtain a1 where a: "a = 47 # a1" "holds s1 a1" using assms(2) s by auto
    have m: "mounts_conform st" "fs_mounts_count st \<le> MAX_MOUNTPOINTS" using assms(1) by (simp_all add: vfs_conforms_def mounts_conform_def)
    from mount_component_progress [OF a(2), of 0 "replicate MOUNTPOINT_LENGTH 0"] assms(3) a(1)
    obtain r where r: "mount_component s1 (replicate MOUNTPOINT_LENGTH 0) 0 = Some r"
      "\<forall>m' s'. r = Some (m', s') \<longrightarrow> 0 \<in> set m' \<and> (\<exists>t'. holds s' t' \<and> length t' \<le> length a1)"
      by (auto simp: MOUNTPOINT_LENGTH_def)
    show ?thesis
    proof (cases r)
      case None
      then show ?thesis using r(1) True by (simp add: get_fs_for_path_def s)
    next
      case (Some p)
      obtain m' s' where p: "p = (m', s')" by (cases p)
      with r(2) Some have ok: "0 \<in> set m'" "\<exists>t'. holds s' t' \<and> length t' \<le> length a1" by simp_all
      have "\<forall>i \<in> set [0..<fs_mounts_count st]. i < MAX_MOUNTPOINTS" using m(2) by auto
      from find_mount_progress [OF m(1) this ok(1)] obtain q where q: "find_mount m' [0..<fs_mounts_count st] st = Some q" by blast
      have "\<forall>i. q = Some i \<longrightarrow> i < fs_mounts_count st" using find_mount_bound q by fastforce
      moreover have "\<exists>t. holds s' t \<and> length t \<le> length a" using ok(2) a(1) by auto
      ultimately show ?thesis using r(1) Some p q True by (auto simp: get_fs_for_path_def s)
    qed
  qed
qed

lemma find_file_progress:
  assumes "holds s t" and "length t < 256" and "list_root_of sv filesys dirs num h = Some (r, out, n, h')"
    and "unat n \<le> length out" and "\<forall>j < unat n. 0 \<in> set (filename (out ! j))"
  shows "\<exists>r. find_file sv dirs num filesys s h = Some r"
proof -
  obtain p where p: "strcpy s (replicate 256 0) = Some p" using strcpy_of_holds [OF assms(1), of "replicate 256 0"] assms(2) by auto
  have e: "0 \<in> set p" using strcpy_ends [OF p] .
  from holds_cstring_of [OF this] strupr_of_holds obtain q where q: "strupr p = Some q" by blast
  have "0 \<in> set q" using strupr_holds(1) [OF holds_cstring_of [OF e] q] by (auto simp: holds_def)
  then have "\<exists>r. find_entry (if case_sensitive filesys then p else q) [0..<unat n] out = Some r"
    using e assms(4,5) by (intro find_entry_progress) auto
  then show ?thesis using p q assms(3) by (auto simp: find_file_def)
qed

lemma put_handle_progress:
  assumes "vfs_conforms st" and "0 \<le> fp" and "fp < 16" and "0 \<in> set path" and "length (cstring_of path) < 256"
  shows "\<exists>st'. put_handle fp upd path st = Some st'"
proof -
  have i: "nat fp < length (open_files st)" using assms by (simp add: vfs_conforms_def files_conform_def MAX_FILES_def)
  then have "length (hpath (open_files st ! nat fp)) = 256"
    using assms(1) by (simp add: vfs_conforms_def files_conform_def handle_conforms_def)
  then have "\<exists>p. strcpy path (hpath (open_files st ! nat fp)) = Some p"
    using strcpy_of_holds [OF holds_cstring_of [OF assms(4)]] assms(5) by auto
  then show ?thesis using i assms(2) by (auto simp: put_handle_def)
qed

lemma open_progress:
  assumes "vfs_conforms st" and "path_fits st path" and "\<exists>e \<in> set (open_files st). handle_type e = NULL"
    and "lists_entries sv dirs num st h"
  shows "\<exists>r. open_file sv dirs num path st h = Some r"
proof -
  let ?p = "cstring_of path" and ?w = "cstring_of (cwd st)"
  let ?a = "absolute ?w ?p"
  have p: "holds path ?p" "length ?p < 256" "0 \<in> set path" and a: "length ?a < 256" "length (takeWhile (\<lambda>c. c \<noteq> 47) (drop 1 ?a)) < MOUNTPOINT_LENGTH"
    using assms(2) by (simp_all add: path_fits_def Let_def holds_cstring_of)
  have w: "holds (cwd st) ?w" "length ?w < 256"
    using assms(1) holds_length [OF holds_cstring_of, of "cwd st"] by (simp_all add: vfs_conforms_def holds_cstring_of)
  obtain ob where ob: "normalise_path path (replicate 256 0) st = Some ob" "holds ob ?a" "length ob = 256"
    using normalise_path_eq [OF p(1) w(1), of "replicate 256 0"] a(1) w(2) by auto
  then have o0: "0 \<in> set ob" by (auto simp: holds_def)
  obtain dv where dv: "strcmp_wl ob (str ''/dev/'' @ [0]) 5 = Some dv" using strcmp_wl_total [OF o0, of "str ''/dev/'' @ [0]" 5] by auto
  have files: "length (open_files st) = 16" using assms(1) by (simp add: vfs_conforms_def files_conform_def MAX_FILES_def)
  obtain fp where fp: "next_file_handle st = Some fp" "0 \<le> fp" "fp < 16"
  proof -
    let ?f = "find (\<lambda>i. handle_type (open_files st ! i) = NULL) [0..<16]"
    have "?f \<noteq> None" using assms(3) files by (auto simp: find_None_iff in_set_conv_nth)
    then obtain i where "?f = Some i" by blast
    moreover from this have "i < 16" by (auto simp: find_Some_iff)
    ultimately show thesis
      using that [of "int i"] files by (simp add: next_file_handle_def MAX_FILES_def first_closed_eq del: upt_rec_numeral)
  qed
  have put: "\<exists>st'. put_handle fp upd path st = Some st'" for upd
    by (rule put_handle_progress [OF assms(1) fp(2,3) p(3,2)])
  show ?thesis
  proof (cases dv)
    case True
    have d: "holds (str ''/dev/'' @ [0]) (str ''/dev/'')" "length (str ''/dev/'') = 5" by (simp_all add: str_def)
    from strcmp_wl_prefix [OF ob(2) d(1), unfolded d(2)] dv True have "take 5 ?a = str ''/dev/''" by simp
    then have "length (take 5 ?a) = 5" using d(2) by simp
    then have "0 \<in> set (drop 5 ob)" using ob(2) by (auto simp: holds_def)
    moreover have "table_conforms st" "\<forall>i \<in> set [0..<block_devices_count st]. i < MAX_BLOCK_DEVICES"
      using assms(1) by (auto simp: vfs_conforms_def table_conforms_def)
    ultimately obtain r where r: "find_block (drop 5 ob) [0..<block_devices_count st] st = Some r"
      using find_block_progress by blast
    show ?thesis
    proof (cases r)
      case None
      then show ?thesis using fp ob dv True r by (simp add: open_file_def)
    next
      case (Some i)
      obtain st' where "put_handle fp (\<lambda>e. e\<lparr>handle_type := BLOCK, block_device := i, file_handle.cursor := 0\<rparr>) path st = Some st'"
        using put by blast
      then show ?thesis using fp ob dv True r Some by (simp add: open_file_def)
    qed
  next
    case False
    from get_fs_progress [OF assms(1) ob(2) a(2)] obtain r where r: "get_fs_for_path ob st = Some r"
      "\<forall>i s'. r = Some (i, s') \<longrightarrow> i < fs_mounts_count st \<and> (\<exists>t. holds s' t \<and> length t \<le> length ?a)" by blast
    show ?thesis
    proof (cases r)
      case None
      then show ?thesis using fp ob dv False r(1) by (simp add: open_file_def)
    next
      case (Some q)
      then obtain i s' where q: "q = (i, s')" by (cases q)
      with r(2) Some obtain t where i: "i < fs_mounts_count st" and t: "holds s' t" "length t < 256" using a(1) by fastforce
      have "i < length (fs_mounts st)" using i assms(1) by (simp add: vfs_conforms_def mounts_conform_def)
      moreover obtain f h1 where f: "find_file sv dirs num (mfs (fs_mounts st ! i)) s' h = Some (f, h1)"
        using find_file_progress [OF t] assms(4) i unfolding lists_entries_def by fast
      moreover obtain st' where "put_handle fp (\<lambda>e. e\<lparr>handle_type := FILE, filesystem := i,
          hlocation := location_on_disk (the f), hsize := file_size (the f)\<rparr>) path st = Some st'"
        using put by blast
      ultimately show ?thesis using fp ob dv False r(1) Some q
        by (cases f) (simp_all add: open_file_def)
    qed
  qed
qed

lemma read_handle_progress:
  assumes "vfs_conforms st" and "fp < MAX_FILES"
  shows "read_handle sv clusters fp buffer len st h = None \<longleftrightarrow>
    (let e = open_files st ! fp in
     case handle_type e of
       NULL \<Rightarrow> False
     | STREAM \<Rightarrow> stream_read sv (stream_device e) buffer len h = None
     | FILE \<Rightarrow> read_file_of sv (mfs (fs_mounts st ! filesystem e)) (hlocation e) buffer clusters h = None
     | BLOCK \<Rightarrow> sectors sv (dev (block_devices st ! block_device e)) (file_handle.cursor e div 512) 1 buffer h = None)"
proof -
  let ?e = "open_files st ! fp"
  have fp: "fp < length (open_files st)" using assms by (simp add: vfs_conforms_def files_conform_def)
  then have "handle_conforms st ?e" using assms(1) by (simp add: vfs_conforms_def files_conform_def)
  then have "handle_type ?e = FILE \<Longrightarrow> filesystem ?e < length (fs_mounts st)"
    "handle_type ?e = BLOCK \<Longrightarrow> block_device ?e < length (block_devices st)"
    using assms(1) by (auto simp: handle_conforms_def vfs_conforms_def mounts_conform_def table_conforms_def)
  with fp show ?thesis
    by (cases "handle_type ?e") (auto simp: read_handle_def split: Option.bind_splits)
qed

section \<open>Calls\<close>

text \<open>
  What changes the state: the drivers register devices, the kernel mounts file systems and chooses
  the first working directory, programs change it, and open and close files; between two calls the
  devices may do what they like. A call that runs over an array has no result.
\<close>

datatype ('i, 'h) vfs_call =
  Register_device disk_device "byte list"
| Mount_fs "'i file_system" "byte list"
| First_directory
| Change_directory "byte list"
| Open_path "byte list"
| Close_handle nat
| Devices_to 'h

fun perform :: "('i, 'h) services \<Rightarrow> dir_entry list \<Rightarrow> u16 \<Rightarrow> ('i, 'h) vfs_call \<Rightarrow> 'i vfs \<times> 'h \<Rightarrow> ('i vfs \<times> 'h) option" where
  "perform sv dirs num (Register_device d type) (st, h) = do {
     (_, bt) \<leftarrow> register_block_device d type (block_table.truncate st);
     Some (st\<lparr>block_devices := block_devices bt, block_devices_count := block_devices_count bt\<rparr>, h) }"
| "perform sv dirs num (Mount_fs filesys name) (st, h) = do { (_, st) \<leftarrow> mount_fs filesys name st; Some (st, h) }"
| "perform sv dirs num First_directory (st, h) = do { st \<leftarrow> set_first_directory st; Some (st, h) }"
| "perform sv dirs num (Change_directory path) (st, h) = do { (_, d) \<leftarrow> chdir path (cwd st); Some (st\<lparr>cwd := d\<rparr>, h) }"
| "perform sv dirs num (Open_path path) (st, h) = do { (_, st, h) \<leftarrow> open_file sv dirs num path st h; Some (st, h) }"
| "perform sv dirs num (Close_handle fd) (st, h) = do { st \<leftarrow> close_file fd st; Some (st, h) }"
| "perform sv dirs num (Devices_to h') (st, h) = Some (st, h')"

fun perform_all :: "('i, 'h) services \<Rightarrow> dir_entry list \<Rightarrow> u16 \<Rightarrow> ('i, 'h) vfs_call list \<Rightarrow> 'i vfs \<times> 'h \<Rightarrow> ('i vfs \<times> 'h) option" where
  "perform_all sv dirs num [] s = Some s"
| "perform_all sv dirs num (c # calls) s = do { s \<leftarrow> perform sv dirs num c s; perform_all sv dirs num calls s }"

text \<open>When a call fits the state it is made in.\<close>

fun call_fits :: "('i, 'h) services \<Rightarrow> dir_entry list \<Rightarrow> u16 \<Rightarrow> ('i, 'h) vfs_call \<Rightarrow> 'i vfs \<times> 'h \<Rightarrow> bool" where
  "call_fits sv dirs num (Register_device d type) (st, h) \<longleftrightarrow>
     0 \<in> set type \<and> length (cstring_of type) \<le> 62 \<and> block_devices_count st < MAX_BLOCK_DEVICES"
| "call_fits sv dirs num (Mount_fs filesys name) (st, h) \<longleftrightarrow>
     0 \<in> set name \<and> length (cstring_of name) \<le> 62 \<and> fs_mounts_count st < MAX_MOUNTPOINTS"
| "call_fits sv dirs num First_directory (st, h) \<longleftrightarrow> True"
| "call_fits sv dirs num (Change_directory path) (st, h) \<longleftrightarrow> 0 \<in> set path \<and> length (cstring_of path) < 256"
| "call_fits sv dirs num (Open_path path) (st, h) \<longleftrightarrow>
     path_fits st path \<and> (\<exists>e \<in> set (open_files st). handle_type e = NULL) \<and> lists_entries sv dirs num st h"
| "call_fits sv dirs num (Close_handle fd) (st, h) \<longleftrightarrow> fd < MAX_FILES"
| "call_fits sv dirs num (Devices_to h') (st, h) \<longleftrightarrow> True"

fun calls_fit :: "('i, 'h) services \<Rightarrow> dir_entry list \<Rightarrow> u16 \<Rightarrow> ('i, 'h) vfs_call list \<Rightarrow> 'i vfs \<times> 'h \<Rightarrow> bool" where
  "calls_fit sv dirs num [] s \<longleftrightarrow> True"
| "calls_fit sv dirs num (c # calls) s \<longleftrightarrow> call_fits sv dirs num c s \<and>
     (case perform sv dirs num c s of None \<Rightarrow> True | Some s' \<Rightarrow> calls_fit sv dirs num calls s')"

lemma truncated_table: "vfs_conforms st \<Longrightarrow> table_conforms (block_table.truncate st)"
  by (simp add: vfs_conforms_def table_conforms_def block_table.defs)

lemma call_conforms:
  assumes "perform sv dirs num c (st, h) = Some (st', h')" and "vfs_conforms st"
  shows "vfs_conforms st'"
proof (cases c)
  case (Register_device d type)
  then obtain r bt where bt: "register_block_device d type (block_table.truncate st) = Some (r, bt)"
    and st': "st' = st\<lparr>block_devices := block_devices bt, block_devices_count := block_devices_count bt\<rparr>"
    using assms(1) by (auto simp: bind_eq_Some_conv)
  note ok = register_conforms [OF bt truncated_table [OF assms(2)]]
  show ?thesis unfolding st'
    by (rule conforms_grow [of st])
      (use assms(2) ok in \<open>auto simp: vfs_conforms_def mounts_conform_def table_conforms_def block_table.defs\<close>)
next
  case (Mount_fs filesys name)
  then obtain r where m: "mount_fs filesys name st = Some (r, st')" using assms(1) by (auto simp: bind_eq_Some_conv)
  from mount_conforms [OF m] obtain ms n where
    ok: "mounts_conform st'" "fs_mounts_count st \<le> fs_mounts_count st'" and eq: "st' = st\<lparr>fs_mounts := ms, fs_mounts_count := n\<rparr>"
    using assms(2) by (auto simp: vfs_conforms_def)
  have "cwd st' = cwd st" "open_files st' = open_files st" "block_devices_count st' = block_devices_count st"
    "table_conforms st' = table_conforms st"
    by (simp_all add: eq table_conforms_def)
  note frame = this
  show ?thesis
    by (rule conforms_grow [of st]; use assms(2) ok frame in \<open>simp add: vfs_conforms_def\<close>)
next
  case (Change_directory path)
  then show ?thesis using assms chdir_conforms by (auto simp: bind_eq_Some_conv)
qed (use assms in \<open>auto simp: bind_eq_Some_conv dest: home_conforms open_conforms close_conforms\<close>)

lemma call_progress:
  assumes "call_fits sv dirs num c (st, h)" and "vfs_conforms st"
  shows "\<exists>st' h'. perform sv dirs num c (st, h) = Some (st', h')"
proof (cases c)
  case (Register_device d type)
  have "block_devices_count (block_table.truncate st) = block_devices_count st" by (simp add: block_table.defs)
  with register_progress [OF truncated_table [OF assms(2)], of type d] assms(1) Register_device show ?thesis by auto
next
  case (Mount_fs filesys name)
  with mount_progress [of st name filesys] assms show ?thesis by (auto simp: vfs_conforms_def)
next
  case First_directory
  with home_progress [OF assms(2)] show ?thesis by auto
next
  case (Change_directory path)
  have "holds path (cstring_of path)" using assms(1) Change_directory by (simp add: holds_cstring_of)
  from strcpy_of_holds [OF this, of "cwd st"] assms Change_directory show ?thesis
    by (simp add: chdir_def vfs_conforms_def)
next
  case (Open_path path)
  with open_progress [OF assms(2), of path sv dirs num h] assms(1) show ?thesis by auto
next
  case (Close_handle fd)
  with assms close_file_eq [of fd st] show ?thesis by (simp add: vfs_conforms_def files_conform_def)
qed simp

lemma calls_run:
  assumes "calls_fit sv dirs num calls (st, h)" and "vfs_conforms st"
  shows "\<exists>st' h'. perform_all sv dirs num calls (st, h) = Some (st', h') \<and> vfs_conforms st'"
  using assms
proof (induction calls arbitrary: st h)
  case (Cons c calls)
  then obtain st1 h1 where st1: "perform sv dirs num c (st, h) = Some (st1, h1)" using call_progress by fastforce
  with Cons call_conforms [OF st1] show ?case by simp
qed simp

text \<open>Nothing but the caller keeps a registration or a mount inside its array.\<close>

lemma full_tables:
  assumes "vfs_conforms st"
  shows "block_devices_count st = MAX_BLOCK_DEVICES \<Longrightarrow> perform sv dirs num (Register_device d type) (st, h) = None"
    and "fs_mounts_count st = MAX_MOUNTPOINTS \<Longrightarrow> perform sv dirs num (Mount_fs filesys name) (st, h) = None"
  using assms
  by (auto simp: register_block_device_def mount_fs_def vfs_conforms_def table_conforms_def mounts_conform_def
      block_table.defs Let_def rd_def split: Option.bind_splits)

section \<open>Properties\<close>

text \<open>
  C8: whatever sequence of registrations, mounts, changes of the working directory, opened and closed
  files the kernel and its programs run, if every call fits then every call comes back, so that none
  runs over an array, and the state keeps its type: the arrays keep their sizes and their strings
  an end, the counts stay within them, and an open handle refers to a mount or to a device that is in
  use. So \<open>read\<close> on any handle comes back unless the driver behind it does not. A call fits when its
  strings are ended and not too long (62 characters for a type, 255 for a path alone and joined to
  the working directory, 63 up to the second slash), there is room in the table or a free handle,
  and the mounted drivers list their root directories. The room is up to the caller: a seventeenth
  registration or mount writes behind its array.
\<close>

theorem vfs_type_safety:
  assumes "vfs_conforms st" and "calls_fit sv dirs num calls (st, h)"
  shows "\<exists>st' h'. perform_all sv dirs num calls (st, h) = Some (st', h') \<and> vfs_conforms st' \<and>
    (\<forall>fp < MAX_FILES. read_handle sv clusters fp buffer len st' h' = None \<longleftrightarrow>
      (let e = open_files st' ! fp in
       case handle_type e of
         NULL \<Rightarrow> False
       | STREAM \<Rightarrow> stream_read sv (stream_device e) buffer len h' = None
       | FILE \<Rightarrow> read_file_of sv (mfs (fs_mounts st' ! filesystem e)) (hlocation e) buffer clusters h' = None
       | BLOCK \<Rightarrow> sectors sv (dev (block_devices st' ! block_device e)) (file_handle.cursor e div 512) 1 buffer h' = None)) \<and>
    (block_devices_count st' = MAX_BLOCK_DEVICES \<longrightarrow> perform sv dirs num (Register_device d type) (st', h') = None) \<and>
    (fs_mounts_count st' = MAX_MOUNTPOINTS \<longrightarrow> perform sv dirs num (Mount_fs filesys name) (st', h') = None)"
proof -
  obtain st' h' where run: "perform_all sv dirs num calls (st, h) = Some (st', h')" "vfs_conforms st'"
    using calls_run [OF assms(2,1)] by blast
  show ?thesis
    by (intro exI [of _ st'] exI [of _ h'] conjI run allI impI read_handle_progress [OF run(2)] full_tables [OF run(2)])
qed

text \<open>
  The floppy disk of VfsFiles is mounted, made the working directory, and a file on it is opened and
  closed, all from a state in which nothing is mounted.
\<close>

definition bare_vfs :: "fat_instance vfs" where
  "bare_vfs = (empty_vfs (small_fs 1) (replicate 256 0))
     \<lparr>block_devices := replicate 16 \<lparr>device_name = replicate 64 0, dev = usb_disk\<rparr>,
      open_files := replicate 4 (a_handle STREAM) @ replicate 12 (a_handle NULL)\<rparr>"

definition letter_services :: "(fat_instance, unit) services" where
  "letter_services = fat_services (image_driver letter_disk) (\<lambda>_. 0) (\<lambda>_ _ _ _. None) (\<lambda>_ _ _ _. None)"

definition letter_calls :: "(fat_instance, unit) vfs_call list" where
  "letter_calls = [Mount_fs (small_fs 1) (str ''fd'' @ [0]), Change_directory (str ''/fd0'' @ [0]),
     Open_path (str ''letter.txt'' @ [0]), Close_handle 4]"

lemma bare_vfs_conforms: "vfs_conforms bare_vfs"
  by (simp add: vfs_conforms_def table_conforms_def mounts_conform_def files_conform_def handle_conforms_def
      bare_vfs_def empty_vfs_def a_handle_def MAX_BLOCK_DEVICES_def MAX_MOUNTPOINTS_def MOUNTPOINT_LENGTH_def MAX_FILES_def)

lemma letter_lists:
  assumes "fs_mounts_count st = 1" and "mfs (fs_mounts st ! 0) = small_fs 1"
  shows "lists_entries letter_services (replicate 16 blank_entry) 0 st ()"
proof -
  let ?kind = "fat_type (instance_data (small_fs 1))" and ?es = "[readme, letter]"
  have "list_all entry_shape (replicate 16 blank_entry)" using blank_shape by (simp add: list_all_iff)
  from fat_list_root [OF letter_volume letter_serves _ this, where junk = "\<lambda>_. 0" and n = 0 and h = "()"]
  have "fat12_list_root (image_driver letter_disk) (\<lambda>_. 0) (small_fs 1) (replicate 16 blank_entry) 0 () =
      Some (SUCCESS, listing ?kind ?es (replicate 16 blank_entry), 2, ())" by simp
  moreover have "0 \<in> set (filename (listing ?kind ?es (replicate 16 blank_entry) ! j))" if "j < 2" for j
  proof -
    have "raw_ok (?es ! j)" using that readme_ok letter_raw by (auto simp: less_Suc_eq numeral_2_eq_2)
    from listed_holds [OF this, of ?kind blank_entry] have "0 \<in> set (filename (listed ?kind (?es ! j) blank_entry))"
      by (auto simp: holds_def)
    then show ?thesis using that by simp
  qed
  ultimately show ?thesis using assms by (simp add: lists_entries_def letter_services_def)
qed

lemma letter_calls_fit: "calls_fit letter_services (replicate 16 blank_entry) 0 letter_calls (bare_vfs, ())"
proof -
  let ?st = "add_mount (small_fs 1) (str ''fd'') bare_vfs" and ?cwd = "str ''/fd0'' @ 0 # replicate 251 0"
  have ok: "mounts_ok bare_vfs" "fs_mounts_count bare_vfs = 0" "cwd ?st = replicate 256 0"
    using empty_vfs_ok(1,3) [of "small_fs 1" "replicate 256 0"]
    by (simp_all add: bare_vfs_def mounts_ok_def mount_names_def add_mount_def empty_vfs_def MAX_MOUNTPOINTS_def)
  have m: "mount_fs (small_fs 1) (str ''fd'' @ [0]) bare_vfs = Some (SUCCESS, ?st)"
    using ok by (intro mount_fs_eq) (simp_all add: str_def MAX_MOUNTPOINTS_def)
  have "holds (str ''/fd0'' @ [0]) (str ''/fd0'')" by (rule holds_intro) (simp add: str_def)
  from strcpy_of_holds [OF this, of "replicate 256 0"] have d: "strcpy (str ''/fd0'' @ [0]) (cwd ?st) = Some ?cwd"
    unfolding ok(3) by (simp add: str_def)
  have c: "cstring_of (str ''fd'' @ [0]) = str ''fd''" "cstring_of (str ''/fd0'' @ [0]) = str ''/fd0''"
    "cstring_of (str ''letter.txt'' @ [0]) = str ''letter.txt''" "cstring_of ?cwd = str ''/fd0''"
    by (simp_all add: cstring_of_def str_def)
  have "absolute (str ''/fd0'') (str ''letter.txt'') = str ''/fd0/letter.txt''" by (simp add: absolute_def str_def)
  then have p: "path_fits (?st\<lparr>cwd := ?cwd\<rparr>) (str ''letter.txt'' @ [0])"
    by (simp add: path_fits_def c MOUNTPOINT_LENGTH_def) (simp add: str_def)
  have f: "\<exists>e \<in> set (open_files (?st\<lparr>cwd := ?cwd\<rparr>)). handle_type e = NULL"
    by (simp add: add_mount_def bare_vfs_def a_handle_def)
  have "fs_mounts_count (?st\<lparr>cwd := ?cwd\<rparr>) = 1" "mfs (fs_mounts (?st\<lparr>cwd := ?cwd\<rparr>) ! 0) = small_fs 1"
    using ok(2) by (simp_all add: bare_vfs_def empty_vfs_def)
  note l = letter_lists [OF this]
  show ?thesis
    using p f l by (simp add: letter_calls_def m chdir_def d c ok(2) MAX_MOUNTPOINTS_def MAX_FILES_def split: option.splits)
qed

theorem vfs_type_safety_witness:
  "\<exists>st'. perform_all letter_services (replicate 16 blank_entry) 0 letter_calls (bare_vfs, ()) = Some (st', ()) \<and>
     vfs_conforms st' \<and> (\<forall>fp < MAX_FILES. handle_type (open_files st' ! fp) = NULL \<longrightarrow>
       read_handle letter_services 0 fp (replicate 512 0) 512 st' () \<noteq> None)"
proof -
  obtain st' h' where *: "perform_all letter_services (replicate 16 blank_entry) 0 letter_calls (bare_vfs, ()) = Some (st', h')"
    "vfs_conforms st'" "\<forall>fp < MAX_FILES. read_handle letter_services 0 fp (replicate 512 0) 512 st' h' = None \<longleftrightarrow>
      (let e = open_files st' ! fp in
       case handle_type e of
         NULL \<Rightarrow> False
       | STREAM \<Rightarrow> stream_read letter_services (stream_device e) (replicate 512 0) 512 h' = None
       | FILE \<Rightarrow> read_file_of letter_services (mfs (fs_mounts st' ! filesystem e)) (hlocation e) (replicate 512 0) 0 h' = None
       | BLOCK \<Rightarrow> sectors letter_services (dev (block_devices st' ! block_device e)) (file_handle.cursor e div 512) 1
           (replicate 512 0) h' = None)"
    using vfs_type_safety [OF bare_vfs_conforms letter_calls_fit, of 0 "replicate 512 0" 512] by blast
  have "read_handle letter_services 0 fp (replicate 512 0) 512 st' () \<noteq> None"
    if "fp < MAX_FILES" and "handle_type (open_files st' ! fp) = NULL" for fp
    using *(3) that by (simp add: Let_def del: not_None_eq)
  with *(1,2) show ?thesis by (intro exI [of _ st']) simp
qed

end
