(* ===== verification/Session.thy ===== *)
theory Session
  imports Messages VfsFiles Userland Font
begin

text \<open>
  Programs on the kernel: the system calls of the library (\<open>kernel_calls\<close> of Userland) are answered
  by the kernel's own functions, with the FAT driver below and the screen console at standard
  output. The last part follows a line from the prompt of the shell to the text of a file on the
  screen.
\<close>

section \<open>The system calls\<close>

text \<open>
  The table of \<open>core/syscall.c\<close>. The state of the kernel is its file system state and that of its
  devices. A negative handle indexes in front of the table of open files. \<open>dirs\<close>, \<open>num\<close> and
  \<open>clusters\<close> are locals nothing has written yet, and \<open>exec1\<close> is \<open>exec\<close> with the memory it loads a
  program to.
\<close>

definition calls_of ::
  "('i, 'h) services \<Rightarrow> dir_entry list \<Rightarrow> u16 \<Rightarrow> u32 \<Rightarrow> (byte list \<Rightarrow> 'i vfs \<times> 'h \<Rightarrow> (int \<times> 'i vfs \<times> 'h) option) \<Rightarrow>
     ('i vfs \<times> 'h) kernel_calls" where
  "calls_of sv dirs num clusters exec1 = \<lparr>
     sys_write = (\<lambda>fp buffer len (st, h).
       if fp < 0 then None else map_option (\<lambda>(r, h). (r, st, h)) (write_handle sv (nat fp) buffer len st h)),
     sys_read = (\<lambda>fp buffer len (st, h).
       if fp < 0 then None
       else map_option (\<lambda>(r, b, h). (r, b, st, h)) (read_handle sv clusters (nat fp) buffer len st h)),
     sys_list_dir = (\<lambda>path out n (st, h).
       map_option (\<lambda>(r, out, n, h). (r, out, n, st, h)) (list_dir sv path out n st h)),
     sys_exec = exec1,
     sys_getcwd = (\<lambda>path (st, h). map_option (\<lambda>p. (p, st, h)) (getcwd (cwd st) path)),
     sys_chdir = (\<lambda>path (st, h). map_option (\<lambda>(r, d). (r, st\<lparr>cwd := d\<rparr>, h)) (chdir path (cwd st))),
     sys_open = (\<lambda>path (st, h). open_file sv dirs num path st h)\<rparr>"

section \<open>What the drives leave alone\<close>

text \<open>
  A driver that keeps \<open>P\<close> of the devices; everything that reaches the devices only through it
  keeps \<open>P\<close> too.
\<close>

locale keeping_reader =
  fixes drv :: "'h read_sectors" and P :: "'h \<Rightarrow> bool"
  assumes keeps: "drv d lba n buf h = Some (r, buf', h') \<Longrightarrow> P h \<Longrightarrow> P h'"
begin

lemma floppy_keeps: "read_floppy_sectors drv d lba is buf h = Some (r, buf', h') \<Longrightarrow> P h \<Longrightarrow> P h'"
proof (induction "is" arbitrary: buf h)
  case (Cons i rest)
  then show ?case by (auto simp: bind_eq_Some_conv Let_def split: if_splits dest: keeps)
qed simp

lemma lba_keeps: "read_sectors_lba drv d lba n buf h = Some (r, buf', h') \<Longrightarrow> P h \<Longrightarrow> P h'"
  by (auto simp: read_sectors_lba_def split: if_splits dest: floppy_keeps keeps)

lemma clusters_keep:
  "read_clusters drv filesys cluster k buf h = Some y \<Longrightarrow> drv = drv \<longrightarrow> P h \<longrightarrow> P (snd (snd (snd y)))"
proof (rule read_clusters.raw_induct [where P = "\<lambda>drv' filesys c k buf h y. drv' = drv \<longrightarrow> P h \<longrightarrow> P (snd (snd (snd y)))"])
  fix rec :: "'h read_sectors \<Rightarrow> fat_instance file_system \<Rightarrow> u32 \<Rightarrow> nat \<Rightarrow> byte list \<Rightarrow> 'h \<Rightarrow>
      (int \<times> byte list \<times> nat \<times> 'h) option"
    and drv' :: "'h read_sectors" and filesys :: "fat_instance file_system"
    and c :: u32 and k :: nat and buffer :: "byte list" and h :: 'h and y
  assume IH: "\<And>drv' filesys c k buf h y. rec drv' filesys c k buf h = Some y \<Longrightarrow>
      drv' = drv \<longrightarrow> P h \<longrightarrow> P (snd (snd (snd y)))"
    and step: "do {
     let spc = ucast (fi_sectors_per_cluster (instance_data filesys));
     (r, b, h) \<leftarrow> read_sectors_lba drv' (FsDriver.device filesys) ((c - 2) * spc + first_data_sector filesys) spc
        (drop (512 * k) buffer) h;
     let buffer = take (512 * k) buffer @ b;
     if \<not> c_true r then Some (FAILURE, buffer, k, h)
     else do {
       cluster \<leftarrow> fat12_decode_fat_entry c filesys;
       if cluster_is_end_of_chain cluster filesys then Some (SUCCESS, buffer, k, h)
       else if cluster < 2 then Some (FAILURE, buffer, k, h)
       else rec drv' filesys cluster (k + 1) buffer h } } = Some y"
  show "drv' = drv \<longrightarrow> P h \<longrightarrow> P (snd (snd (snd y)))"
  proof (intro impI)
    assume d: "drv' = drv" and h: "P h"
    obtain r b g where rd: "read_sectors_lba drv (FsDriver.device filesys) ((c - 2) * ucast (fi_sectors_per_cluster
        (instance_data filesys)) + first_data_sector filesys) (ucast (fi_sectors_per_cluster (instance_data filesys)))
        (drop (512 * k) buffer) h = Some (r, b, g)"
      using step d by (auto simp: bind_eq_Some_conv Let_def)
    with h have g: "P g" by (blast intro: lba_keeps)
    show "P (snd (snd (snd y)))"
      using step rd g d by (auto simp: Let_def bind_eq_Some_conv split: if_splits dest!: IH)
  qed
qed simp

lemma clusters_keeps: "read_clusters drv filesys cluster k buf h = Some (r, buf', k', h') \<Longrightarrow> P h \<Longrightarrow> P h'"
  using clusters_keep [of filesys cluster k buf h "(r, buf', k', h')"] by simp

lemma read_file_keeps: "fat12_read_file drv filesys cluster buf n h = Some (r, buf', n', h') \<Longrightarrow> P h \<Longrightarrow> P h'"
  by (auto simp: fat12_read_file_def bind_eq_Some_conv dest: clusters_keeps)

lemma root_sectors_keeps: "list_root_sectors drv filesys is buf k out h = Some (r, k', out', h') \<Longrightarrow> P h \<Longrightarrow> P h'"
proof (induction "is" arbitrary: buf k out h)
  case (Cons i rest)
  then show ?case by (auto simp: bind_eq_Some_conv split: if_splits dest: lba_keeps)
qed simp

lemma list_root_keeps: "fat12_list_root drv junk filesys out n h = Some (r, out', n', h') \<Longrightarrow> P h \<Longrightarrow> P h'"
  by (auto simp: fat12_list_root_def fat12_list_dir_def bind_eq_Some_conv Let_def split: if_splits
      dest: root_sectors_keeps read_file_keeps)

lemma find_file_keeps:
  assumes "find_file (fat_services drv junk sr sw) dirs n filesys path h = Some (found, h')" and "P h"
  shows "P h'"
proof -
  obtain r ds m where "fat12_list_root drv junk filesys dirs n h = Some (r, ds, m, h')"
    using assms(1) by (auto simp: find_file_def bind_eq_Some_conv split: if_splits)
  with assms(2) show ?thesis by (blast intro: list_root_keeps)
qed

lemma open_file_keeps:
  assumes "open_file (fat_services drv junk sr sw) dirs n path st h = Some (fp, st', h')" and "P h"
  shows "P h'"
proof -
  have "h' = h \<or> (\<exists>filesys fs_path found. find_file (fat_services drv junk sr sw) dirs n filesys fs_path h = Some (found, h'))"
    using assms(1) unfolding open_file_def
    by (auto simp: bind_eq_Some_conv Let_def split: if_splits option.splits; blast)
  with assms(2) show ?thesis by (blast intro: find_file_keeps)
qed

lemma read_handle_keeps:
  assumes "read_handle (fat_services drv junk sr sw) clusters fp buf len st h = Some (r, buf', h')"
    and "handle_type (open_files st ! fp) = FILE" and "P h"
  shows "P h'"
proof -
  have "\<exists>filesys loc r n. fat12_read_file drv filesys loc buf clusters h = Some (r, buf', n, h')"
    using assms(1,2) by (auto simp: read_handle_def bind_eq_Some_conv rd_Some_iff)
  with assms(3) show ?thesis by (blast intro: read_file_keeps)
qed

end

text \<open>The drives beside the console: a driver whose devices are not part of the screen.\<close>

definition beside :: "'g read_sectors \<Rightarrow> ('c \<times> 'g) read_sectors" where
  "beside drv d lba n buf = (\<lambda>(c, g). map_option (\<lambda>(r, b, g). (r, b, c, g)) (drv d lba n buf g))"

interpretation beside: keeping_reader "beside drv" "\<lambda>s. fst s = c" for drv :: "'g read_sectors" and c :: 'c
  by unfold_locales (auto simp: beside_def)

lemma floppy_beside:
  "read_floppy_sectors (beside drv) d lba is buf (c, g) =
     map_option (\<lambda>(r, b, g). (r, b, c, g)) (read_floppy_sectors drv d lba is buf g)"
proof (induction "is" arbitrary: buf g)
  case (Cons i rest)
  then show ?case by (auto simp: beside_def Let_def split: option.splits Option.bind_splits)
qed simp

lemma lba_beside: "read_sectors_lba (beside drv) = beside (read_sectors_lba drv)"
  by (simp add: fun_eq_iff read_sectors_lba_def floppy_beside beside_def)

lemma beside_serves: "serves drv d disk \<Longrightarrow> serves (beside drv) d disk"
  unfolding serves_def lba_beside delivers_def beside_def by fastforce

section \<open>Output of a program\<close>

definition screen_stream :: "byte list \<Rightarrow> (stream_device \<Rightarrow> byte list \<Rightarrow> int \<Rightarrow> console \<times> 'g \<Rightarrow> (console \<times> 'g) option) \<Rightarrow> bool" where
  "screen_stream font sw \<longleftrightarrow> (\<forall>data len c g. sw Screen_Console data len (c, g) =
     map_option (\<lambda>c. (c, g)) (console_write font data len c))"

definition stdout_open :: "'i vfs \<Rightarrow> bool" where
  "stdout_open st \<longleftrightarrow> stdout < length (open_files st) \<and> handle_type (open_files st ! stdout) = STREAM \<and>
     stream_device (open_files st ! stdout) = Screen_Console"

lemma stream_write_simps [simp]: "stream_write (fat_services drv junk sr sw) = sw" "stream_read (fat_services drv junk sr sw) = sr"
  by (simp_all add: fat_services_def)

lemma sys_write_displays:
  assumes "stdout_open st" and "screen_stream font (stream_write sv)" and "font_ok font" and "console_ok c"
    and "\<forall>t \<in> set ts. styled_ok t" and "take (length (styled_bytes ts)) data = styled_bytes ts"
  shows "\<exists>c'. sys_write (calls_of sv dirs num clusters ex) 1 data (int (length (styled_bytes ts))) (st, c, g) =
      Some (SUCCESS, st, c', g) \<and> displays font ts c c'"
proof -
  obtain c' where "console_write font data (int (length (styled_bytes ts))) c = Some c'" "displays font ts c c'"
    using console_write_displays [OF assms(3-6)] by blast
  then show ?thesis
    using assms(1,2) by (simp add: calls_of_def write_handle_def stdout_open_def screen_stream_def stdout_def)
qed

lemma user_printf_displays:
  assumes "stdout_open st" and "screen_stream font (stream_write sv)" and "font_ok font" and "console_ok c"
    and its: "list_all user_item_ok its" and args: "list_all small_arg args"
    and out: "render its args = Some (styled_bytes ts)" "length (styled_bytes ts) < 128" and ts: "\<forall>t \<in> set ts. styled_ok t"
  shows "\<exists>c'. user_printf (calls_of sv dirs num clusters ex) (concat (map unparse its) @ [0]) args (st, c, g) =
      Some (st, c', g) \<and> displays font ts c c'"
proof -
  obtain buf where buf: "user_vsprintf (replicate 128 0) (concat (map unparse its) @ [0]) args = Some buf"
    "take (length (styled_bytes ts)) buf = styled_bytes ts" "buf ! length (styled_bytes ts) = 0" "length buf = 128"
    using user_vsprintf_renders [OF its args out] by blast
  have "user_item_ok it \<Longrightarrow> item_ok it" for it by (cases it) simp_all
  then have "list_all item_ok its" using its by (auto simp: list_all_iff)
  then have "is_cstr (styled_bytes ts)" using out(1) by (rule render_cstr)
  moreover have "buf = styled_bytes ts @ 0 # drop (Suc (length (styled_bytes ts))) buf"
    using buf(2-4) out(2) by (metis append_take_drop_id Cons_nth_drop_Suc)
  ultimately have "holds buf (styled_bytes ts)" unfolding holds_def by blast
  then have n: "strlen buf = Some (length (styled_bytes ts))" by (rule strlen_of_holds)
  from sys_write_displays [OF assms(1-4) ts buf(2), of dirs num clusters ex g] buf(1) n show ?thesis
    by (auto simp: user_printf_def)
qed

section \<open>A file on the screen\<close>

text \<open>Everything a file on a mounted FAT volume has to be for the theorems of VfsFiles to read it.\<close>

definition file_there ::
  "byte list list \<Rightarrow> disk_device \<Rightarrow> fat_instance vfs \<Rightarrow> byte list \<Rightarrow> byte list \<Rightarrow> u32 \<Rightarrow> bool" where
  "file_there disk d st path contents size1 \<longleftrightarrow> (\<exists>k f filesys ents rest j ks.
     reachable_mount st k \<and> on_mount st path k f \<and> filesys = mfs (fs_mounts st ! k) \<and>
     volume disk filesys ents rest \<and> FsDriver.device filesys = d \<and>
     entry_named ents (map upcase f) = Some j \<and> size1 = r_size (ents ! j) \<and>
     cluster_size filesys = 1 \<and> chain filesys (ucast (r_low (ents ! j)) # ks) \<and>
     list_all (on_disk disk filesys) (ucast (r_low (ents ! j)) # ks) \<and>
     contents = concat (map (cluster_data disk filesys) (ucast (r_low (ents ! j)) # ks)))"

lemma length_clusters:
  assumes "sectors_512 disk" and "cluster_size filesys = 1" and "list_all (on_disk disk filesys) ks"
  shows "length (concat (map (cluster_data disk filesys) ks)) = 512 * length ks"
  using assms(3)
proof (induction ks)
  case (Cons c ks)
  then have "length (cluster_data disk filesys c) = 512"
    using assms(1,2) length_sectors_of [of disk "cluster_sector filesys c" 1]
    by (simp add: cluster_data_def on_disk_def)
  with Cons show ?case by simp
qed simp

lemma open_and_read:
  assumes "files_ok st" and "free_handle st = Some i" and "i \<noteq> 0" and "file_there disk dv st path contents size1"
    and "length dirs = 16" and "list_all entry_shape dirs" and "length contents \<le> length buffer" and "size1 \<noteq> - 1"
    and "serves drv dv disk"
  shows "\<exists>e h1 h2. open_file (fat_services drv junk sr sw) dirs num path st h =
      Some (int i, st\<lparr>open_files := (open_files st)[i := e]\<rparr>, h1) \<and> i < length (open_files st) \<and>
    handle_type (open_files st ! i) = NULL \<and> handle_type e = FILE \<and>
    read_handle (fat_services drv junk sr sw) clusters i buffer 10000 (st\<lparr>open_files := (open_files st)[i := e]\<rparr>) h1 =
      Some (sint size1, contents @ drop (length contents) buffer, h2)"
proof -
  obtain k f filesys ents rest j ks where f: "reachable_mount st k" "on_mount st path k f" "filesys = mfs (fs_mounts st ! k)"
    "volume disk filesys ents rest" "serves drv (FsDriver.device filesys) disk" "entry_named ents (map upcase f) = Some j"
    "size1 = r_size (ents ! j)" "cluster_size filesys = 1" "chain filesys (ucast (r_low (ents ! j)) # ks)"
    "list_all (on_disk disk filesys) (ucast (r_low (ents ! j)) # ks)"
    "contents = concat (map (cluster_data disk filesys) (ucast (r_low (ents ! j)) # ks))"
    using assms(4,9) unfolding file_there_def by blast
  define d where "d = listed (fat_type (instance_data filesys)) (ents ! j) (dirs ! j)"
  have kind: "fat_type (instance_data filesys) \<noteq> FAT32" "sectors_512 disk" "length disk < 2 ^ 32"
    using f(4) by (simp_all add: volume_def)
  have clen: "length contents = 512 * Suc (length ks)"
    unfolding f(11) using length_clusters [OF kind(2) f(8,10)] by simp
  have loc: "location_on_disk d = ucast (r_low (ents ! j))" "file_size d = size1"
    using kind f(7) by (simp_all add: d_def listed_def)
  obtain e h1 where e: "open_file (fat_services drv junk sr sw) dirs num path st h =
      Some (int i, st\<lparr>open_files := (open_files st)[i := e]\<rparr>, h1)" "i < length (open_files st)"
    "handle_type (open_files st ! i) = NULL" "handle_type e = FILE" "filesystem e = k"
    "hlocation e = location_on_disk d" "hsize e = file_size d"
    using open_file_fat [OF assms(1-3) f(1-5) assms(5,6) f(6) d_def, of junk sr sw num h] by blast
  have "mounts_ok st" "k < fs_mounts_count st" using f(1) by (simp_all add: reachable_mount_def)
  then have mk: "rd (fs_mounts st) k = Some (fs_mounts st ! k)" by (intro rd_in mount_holds(1))
  obtain h2 where rf: "fat12_read_file drv filesys (ucast (r_low (ents ! j))) buffer clusters h1 = Some (SUCCESS,
      contents @ drop (length contents) buffer, of_nat (Suc (length ks)), h2)"
    using read_file_one_sector [OF f(5) kind(2,3) f(8-10), of buffer clusters h1] assms(7) f(11) clen by auto
  have "read_handle (fat_services drv junk sr sw) clusters i buffer 10000 (st\<lparr>open_files := (open_files st)[i := e]\<rparr>) h1 =
      Some (sint size1, contents @ drop (length contents) buffer, h2)"
    using e(2) by (simp add: read_handle_def e(4-7) mk loc rf f(3) [symmetric])
  with e(1-4) show ?thesis by blast
qed

lemma file_there_same:
  "holds path p \<Longrightarrow> holds path' p \<Longrightarrow> file_there disk d st path contents size1 = file_there disk d st path' contents size1"
proof -
  assume "holds path p" and "holds path' p"
  then have "holds path q \<longleftrightarrow> holds path' q" for q by (metis holds_unique)
  then have "on_mount st path = on_mount st path'" by (simp add: on_mount_def fun_eq_iff)
  then show ?thesis by (simp add: file_there_def)
qed

text \<open>The text \<open>cat\<close> puts on the screen: the length of the file, the file, and a line feed.\<close>

definition cat_text :: "u32 \<Rightarrow> styled list \<Rightarrow> styled list" where
  "cat_text size1 ts = plain (str ''Read '' @ numeral_text 10 (unat size1) @ str '' bytes'' @ [10]) @ ts @ plain [10]"

lemma numeral_printable: "printable (numeral_text 10 n)"
  using digits_printable [of n] by (auto simp: numeral_text_def printable_def)

lemma length_numeral_u32: "length (numeral_text 10 (unat (i :: u32))) \<le> 10"
  by (rule length_numeral_text) (auto intro: less_trans [OF unat_u32_lt])

lemma read_message:
  fixes size1 :: u32
  defines "its \<equiv> map Lit (str ''Read '') @ Num [] False # map Lit (str '' bytes'' @ [10])"
  shows "str ''Read %d bytes\<newline>'' @ [0] = concat (map unparse its) @ [0]" "list_all user_item_ok its"
    "render its [ArgInt size1] = Some (styled_bytes (plain (str ''Read '' @ numeral_text 10 (unat size1) @ str '' bytes'' @ [10])))"
    "printable (str ''Read '' @ numeral_text 10 (unat size1) @ str '' bytes'' @ [10])"
    "length (styled_bytes (plain (str ''Read '' @ numeral_text 10 (unat size1) @ str '' bytes'' @ [10]))) < 128"
proof -
  show "str ''Read %d bytes\<newline>'' @ [0] = concat (map unparse its) @ [0]" by (simp add: its_def str_def)
  show "list_all user_item_ok its" by (simp add: its_def str_def)
  show "render its [ArgInt size1] = Some (styled_bytes (plain (str ''Read '' @ numeral_text 10 (unat size1) @ str '' bytes'' @ [10])))"
    by (simp add: its_def str_def styled_bytes_plain padded_def)
  show "printable (str ''Read '' @ numeral_text 10 (unat size1) @ str '' bytes'' @ [10])"
    using numeral_printable [of "unat size1"] by (auto simp: printable_def str_def)
  show "length (styled_bytes (plain (str ''Read '' @ numeral_text 10 (unat size1) @ str '' bytes'' @ [10]))) < 128"
    using length_numeral_u32 [of size1] by (simp add: styled_bytes_plain)
qed

lemma cat_shows_file:
  assumes st: "files_ok st" "free_handle st = Some i" "i \<noteq> 0" "stdout_open st"
    and there: "file_there disk dv st path contents size1" and drv: "serves drv dv disk" and dirs: "length dirs = 16" "list_all entry_shape dirs"
    and room: "length contents \<le> length buffer" and size1: "unat size1 < 2 ^ 31" "unat size1 \<le> length contents"
    and ts: "take (unat size1) contents = styled_bytes ts" "\<forall>t \<in> set ts. styled_ok t"
    and out: "screen_stream font sw" "font_ok font" "console_ok c"
  shows "\<exists>e c' g'. cat_file (calls_of (fat_services (beside drv) junk sr sw) dirs num clusters ex) buffer path (st, c, g) =
      Some (st\<lparr>open_files := (open_files st)[i := e]\<rparr>, c', g') \<and> displays font (cat_text size1 ts) c c'"
proof -
  let ?sv = "fat_services (beside drv) junk sr sw" let ?k = "calls_of ?sv dirs num clusters ex"
  have pos: "size1 \<noteq> - 1" using size1(1) by (auto simp: unsigned_minus_1_eq_mask mask_eq_exp_minus_1)
  obtain e h1 h2 where o: "open_file ?sv dirs num path st (c, g) = Some (int i, st\<lparr>open_files := (open_files st)[i := e]\<rparr>, h1)"
    "i < length (open_files st)" "handle_type (open_files st ! i) = NULL" "handle_type e = FILE"
    "read_handle ?sv clusters i buffer 10000 (st\<lparr>open_files := (open_files st)[i := e]\<rparr>) h1 =
      Some (sint size1, contents @ drop (length contents) buffer, h2)"
    using open_and_read [OF st(1-3) there dirs room pos beside_serves [OF drv]] by blast
  let ?st = "st\<lparr>open_files := (open_files st)[i := e]\<rparr>" and ?data = "contents @ drop (length contents) buffer"
  have i: "i \<noteq> stdout" using o(3) st(4) by (auto simp: stdout_open_def)
  then have so: "stdout_open ?st" using st(4) by (simp add: stdout_open_def)
  have screen: "screen_stream font (stream_write ?sv)" using out(1) by simp
  have "fst h1 = c" by (rule beside.open_file_keeps [OF o(1)]) simp
  then have "fst h2 = c" using o(2,4) by (intro beside.read_handle_keeps [OF o(5)]) auto
  then obtain g2 where h2: "h2 = (c, g2)" by (cases h2) auto
  have size: "sint size1 = int (unat size1)"
  proof -
    have "unat size1 < 2147483648" "int (unat size1) = uint size1" using size1(1) by simp_all
    then have "uint size1 < 2147483648" "- 2147483648 \<le> uint size1" by linarith+
    then show ?thesis by (simp add: sint_uint signed_take_bit_int_eq_self)
  qed
  have len: "length (styled_bytes ts) = unat size1" using ts(1) size1(2) by (metis length_take min.absorb2)
  obtain c1 where c1: "user_printf ?k (str ''Read %d bytes\<newline>'' @ [0]) [ArgInt size1] (?st, c, g2) = Some (?st, c1, g2)"
    "displays font (plain (str ''Read '' @ numeral_text 10 (unat size1) @ str '' bytes'' @ [10])) c c1"
    using user_printf_displays [OF so screen out(2,3) read_message(2) _ read_message(3,5) plain_ok [OF read_message(4)],
      of size1 dirs num clusters ex g2] size1(1) unfolding read_message(1) by auto
  have take: "take (length (styled_bytes ts)) ?data = styled_bytes ts" using len ts(1) size1(2) by simp
  have "console_ok c1" using c1(2) by (simp add: displays_def)
  from sys_write_displays [OF so screen out(2) this ts(2) take, of dirs num clusters ex g2]
  obtain c2 where c2: "sys_write ?k 1 ?data (int (unat size1)) (?st, c1, g2) = Some (SUCCESS, ?st, c2, g2)" "displays font ts c1 c2"
    by (auto simp: len)
  have "console_ok c2" using c2(2) by (simp add: displays_def)
  moreover have "\<forall>t \<in> set (plain [10]). styled_ok t" by (simp add: plain_def styled_ok_def)
  moreover have nl: "str ''\<newline>'' @ [0] = concat (map unparse [Lit 10]) @ [0]" by (simp add: str_def)
  ultimately obtain c3 where c3: "user_printf ?k (str ''\<newline>'' @ [0]) [] (?st, c2, g2) = Some (?st, c3, g2)"
    "displays font (plain [10]) c2 c3"
    using user_printf_displays [OF so screen out(2), of c2 "[Lit 10]" "[]" "plain [10]" dirs num clusters ex g2]
    by (auto simp: styled_bytes_plain)
  have "cat_file ?k buffer path (st, c, g) = Some (?st, c3, g2)"
    using o(1,5) c1(1) c2(1) c3(1) size by (simp add: cat_file_def calls_of_def h2)
  then show ?thesis
    using displays_append [OF c1(2) displays_append [OF c2(2) c3(2)]] by (auto simp: cat_text_def)
qed

text \<open>The program \<open>sayhi\<close> says hi.\<close>

lemma sayhi_displays:
  assumes "stdout_open st" and "screen_stream font (stream_write sv)" and "font_ok font" and "console_ok c"
  shows "\<exists>c'. sayhi_main (calls_of sv dirs num clusters ex) (st, c, g) = Some (st, c', g) \<and>
    displays font (plain (str ''Hi\<newline>'')) c c'"
proof -
  have ok: "\<forall>t \<in> set (plain (str ''Hi\<newline>'')). styled_ok t" by (rule plain_ok) (simp add: printable_def str_def)
  have take: "take (length (styled_bytes (plain (str ''Hi\<newline>'')))) (str ''Hi\<newline>'' @ [0]) = styled_bytes (plain (str ''Hi\<newline>''))"
    by (simp add: styled_bytes_plain)
  from sys_write_displays [OF assms ok take, of dirs num clusters ex g] show ?thesis
    by (auto simp: sayhi_main_def styled_bytes_plain str_def)
qed

section \<open>Properties\<close>

text \<open>
  C1: a line \<open>cat\<close> and a file name, as it lies in the buffer of the shell, puts the file on the
  screen: the line is cut into words, the kernel opens the file by its path, reads the clusters of its
  chain, and the console displays its length and as many bytes as the directory entry says, colour
  escapes included, in the places and colours the text terminal prescribes. The handle stays open.
  The file is on a FAT12 or FAT16 volume with one sector per cluster, as on a floppy disk, whose root
  directory has fewer than sixteen entries with names that end inside their fields (elsewhere the
  driver damages what it reads or misses the name, as \<open>read_file_chain\<close> and
  \<open>parse_directory\<close> tell). The name is shorter than 256 characters and has no blank, the chain fits
  into the buffer of the program, the size is below two gigabytes and at most that of the chain, the
  text is ASCII whose only escapes are the console's own, standard output is open, a handle other
  than the first is free, and the driver delivers every sector of the disk.
\<close>

theorem cat_command_shows_file:
  assumes "files_ok st" and "free_handle st = Some i" and "i \<noteq> 0" and "stdout_open st"
    and "is_cstr name" and "32 \<notin> set name" and "name \<noteq> []" and "length name < 256"
    and "file_there disk dv st (name @ [0]) contents size1" and "serves drv dv disk"
    and "length dirs = 16" and "list_all entry_shape dirs"
    and "length contents \<le> length (cat_buffer sm)" and "unat size1 < 2 ^ 31" and "unat size1 \<le> length contents"
    and "take (unat size1) contents = styled_bytes ts" and "\<forall>t \<in> set ts. styled_ok t"
    and "screen_stream font sw" and "font_ok font" and "console_ok c"
  shows "\<exists>e c' g'. do {
       tokens \<leftarrow> tokenise_command (str ''cat '' @ name @ [0, 0] @ rest) 32;
       run_command (calls_of (fat_services (beside drv) junk sr sw) dirs num clusters ex) sm tokens (st, c, g) } =
     Some (st\<lparr>open_files := (open_files st)[i := e]\<rparr>, c', g') \<and> displays font (cat_text size1 ts) c c'"
proof -
  let ?ws = "[str ''cat'', name]" and ?ps = "[(str ''cat'', 32), (name, 0)]"
  have ok: "\<forall>p \<in> set ?ps. piece_ok 32 p" using assms(5-8) by (auto simp: piece_ok_def str_def is_cstr_def)
  have line: "str ''cat '' @ name @ [0, 0] @ rest = piece_bytes ?ps @ 0 # rest" by (simp add: piece_bytes_def str_def)
  have tokens: "tokenise_command (str ''cat '' @ name @ [0, 0] @ rest) 32 = Some (token_table ?ws)"
    unfolding line using tokenise_pieces [OF ok, of rest] by (simp add: MAX_TOKENS_def)
  have words: "\<forall>w \<in> set ?ws. is_cstr w \<and> length w < 256" "length ?ws \<le> MAX_TOKENS"
    using assms(5,8) by (simp_all add: is_cstr_def str_def MAX_TOKENS_def)
  have "str ''cat'' \<noteq> str ''sayhi''" "str ''cat'' \<noteq> str ''dir''" "str ''cat'' \<noteq> str ''cd''" by (simp_all add: str_def)
  then have cmd: "run_command k sm (token_table ?ws) s = cat_file k (cat_buffer sm) (token (token_table ?ws) 1) s"
    "holds (token (token_table ?ws) 1) name" for k :: "(fat_instance vfs \<times> console \<times> 'a) kernel_calls" and s
    using shell_obeys_first_word [OF words, of k sm s] by (simp_all add: word_at_def Let_def)
  have same: "holds (name @ [0]) name" using assms(5) by (rule holds_intro)
  have "file_there disk dv st (token (token_table ?ws) 1) contents size1"
    unfolding file_there_same [OF cmd(2) same] by (rule assms(9))
  from cat_shows_file [OF assms(1-4) this assms(10-20)] show ?thesis
    unfolding tokens by (simp add: cmd(1))
qed

text \<open>The disk with the letter of VfsFiles, the small console of Console, and the real font.\<close>

lemma letter_there:
  "file_there letter_disk (FsDriver.device (small_fs 1)) letter_vfs (str ''letter.txt'' @ [0]) (replicate 512 3 @ replicate 512 4) 700"
proof -
  have low: "ucast (r_low ([readme, letter] ! 1)) = (2 :: u32)" "r_size ([readme, letter] ! 1) = 700"
    by (simp_all add: letter_def readme_def)
  have data: "concat (map (cluster_data letter_disk (small_fs 1)) [2, 3]) = replicate 512 3 @ replicate 512 4"
    by (simp add: cluster_data_def small_fs_sectors sectors_of_def letter_disk_def)
  have clusters: "list_all (on_disk letter_disk (small_fs 1)) [2, 3]"
    by (simp add: on_disk_def small_fs_sectors letter_disk_ok)
  show ?thesis
    unfolding file_there_def
    by (rule exI [of _ "0 :: nat"], rule exI [of _ "str ''letter.txt''"], rule exI [of _ "small_fs 1"],
        rule exI [of _ "[readme, letter]"], rule exI [of _ "replicate 448 0"], rule exI [of _ "1 :: nat"], rule exI [of _ "[3]"])
      (use low data clusters letter_vfs_parts letter_volume letter_named small_fs_chain [of 1] in \<open>simp add: small_fs_sectors\<close>)
qed

definition letter_shell :: shell_memory where
  "letter_shell = \<lparr>cat_buffer = replicate 10000 9, dir_buffer = [], num_entries = 0\<rparr>"

theorem cat_command_shows_file_witness:
  "\<exists>e c' g'. do {
       tokens \<leftarrow> tokenise_command (str ''cat '' @ str ''letter.txt'' @ [0, 0] @ []) 32;
       run_command (calls_of (fat_services (beside (image_driver letter_disk)) (\<lambda>_. 0)
           (\<lambda>_ _ _ _. None) (\<lambda>_ data len s. map_option (\<lambda>c. (c, snd s)) (console_write zap_vga16_psf data len (fst s))))
         (replicate 16 blank_entry) 0 0 (\<lambda>_ _. None)) letter_shell tokens (letter_vfs, tiny_console, ()) } =
     Some (letter_vfs\<lparr>open_files := (open_files letter_vfs)[4 := e]\<rparr>, c', g') \<and>
     displays zap_vga16_psf (cat_text 700 (plain (replicate 512 3 @ replicate 188 4))) tiny_console c'"
proof (rule cat_command_shows_file)
  show "file_there letter_disk (FsDriver.device (small_fs 1)) letter_vfs (str ''letter.txt'' @ [0]) (replicate 512 3 @ replicate 512 4) 700"
    by (rule letter_there)
  show "serves (image_driver letter_disk) (FsDriver.device (small_fs 1)) letter_disk" by (rule letter_serves)
  show "files_ok letter_vfs" "free_handle letter_vfs = Some 4" by (rule letter_vfs_parts)+
  show "stdout_open letter_vfs" by (simp add: stdout_open_def stdout_def letter_vfs_def a_handle_def nth_append)
  show "list_all entry_shape (replicate 16 blank_entry)" using blank_shape by (simp add: list_all_iff)
  show "take (unat (700 :: u32)) (replicate 512 3 @ replicate 512 4) = styled_bytes (plain (replicate 512 3 @ replicate 188 4))"
    by (simp add: styled_bytes_plain)
  show "\<forall>t \<in> set (plain (replicate 512 3 @ replicate 188 4)). styled_ok t"
    by (rule plain_ok) (auto simp: printable_def)
  show "screen_stream zap_vga16_psf (\<lambda>_ data len s. map_option (\<lambda>c. (c, snd s)) (console_write zap_vga16_psf data len (fst s)))"
    by (simp add: screen_stream_def)
  show "font_ok zap_vga16_psf" by (rule zap_font_ok)
  show "console_ok tiny_console" by (rule tiny_ok(1))
qed (simp_all add: is_cstr_def str_def letter_shell_def)

end
