(* ===== verification/RealMode.thy ===== *)
theory RealMode
  imports Keyboard CString
begin

text \<open>
  The earlier system of \<open>16bit/src\<close>, which runs in real mode on the calls of the BIOS: its
  string routines (\<open>kernel/util/string.c\<close>), its console (\<open>kernel/components/console.c\<close>), the wrappers
  of the BIOS calls (\<open>kernel/bios\<close>) and the clock. It is compiled with Open Watcom, whose \<open>int\<close> has 16
  bits and whose \<open>char\<close> has no sign.
\<close>

section \<open>The BIOS\<close>

text \<open>
  The BIOS is the environment: each call answers from, and changes, the state \<open>'w\<close> of the
  machine. \<open>int16_read_key\<close> is \<open>None\<close> when no key is ever struck again, \<open>int15_power_off\<close> and
  \<open>int19_bootstrap\<close> when the machine does not come back. \<open>int13_read\<close> takes what the registers
  hold (number of sectors, drive, head, sector, cylinder) and answers the status and the bytes it has
  put into the buffer. \<open>poke\<close> is a write into the video memory at segment 0xB800.
\<close>

record 'w bios =
  int10_set_mode :: "byte \<Rightarrow> 'w \<Rightarrow> 'w"
  int10_teletype :: "byte \<Rightarrow> byte \<Rightarrow> byte \<Rightarrow> 'w \<Rightarrow> 'w"
  int13_read :: "byte \<Rightarrow> byte \<Rightarrow> byte \<Rightarrow> byte \<Rightarrow> byte \<Rightarrow> 'w \<Rightarrow> byte \<times> byte list \<times> 'w"
  int15_power_off :: "'w \<Rightarrow> 'w option"
  int16_read_key :: "'w \<Rightarrow> (byte \<times> 'w) option"
  int19_bootstrap :: "'w \<Rightarrow> 'w option"
  int1A_time :: "'w \<Rightarrow> (byte \<times> byte \<times> byte) \<times> 'w"
  poke :: "u16 \<Rightarrow> byte \<Rightarrow> 'w \<Rightarrow> 'w"

definition TEXT_80_25_16 :: byte where "TEXT_80_25_16 = 0x03"
definition COLOR_YELLOW16 :: byte where "COLOR_YELLOW16 = 0x0E"

definition clearScreen :: "'w bios \<Rightarrow> 'w \<Rightarrow> 'w" where
  "clearScreen b w = int10_set_mode b TEXT_80_25_16 w"

definition printChar :: "'w bios \<Rightarrow> byte \<Rightarrow> 'w \<Rightarrow> 'w" where
  "printChar b c w = int10_teletype b c 0 COLOR_YELLOW16 w"

definition getChar :: "'w bios \<Rightarrow> 'w \<Rightarrow> (byte \<times> 'w) option" where
  "getChar b w = int16_read_key b w"

definition shutdown :: "'w bios \<Rightarrow> 'w \<Rightarrow> 'w option" where
  "shutdown b w = int15_power_off b w"

section \<open>Strings\<close>

fun strcmp_wl16 :: "byte list \<Rightarrow> byte list \<Rightarrow> nat \<Rightarrow> bool option" where
  "strcmp_wl16 (a # as) (b # bs) n =
     (if 0 < n then
        (if a = 0 \<and> b = 0 then Some True
         else if a \<noteq> b then Some False
         else strcmp_wl16 as bs (n - 1))
      else Some True)"
| "strcmp_wl16 _ _ n = (if 0 < n then None else Some True)"

definition strcmp16 :: "byte list \<Rightarrow> byte list \<Rightarrow> bool option" where
  "strcmp16 string1 string2 = strcmp_wl16 string1 string2 65535"

fun strlen16 :: "byte list \<Rightarrow> nat option" where
  "strlen16 [] = None"
| "strlen16 (c # cs) = (if c \<noteq> 0 then map_option Suc (strlen16 cs) else Some 0)"

text \<open>
  The digits of a number, the last one first, in a buffer of 16 bytes. Both conversions add the
  digit to the character 0, also the hexadecimal one: it is meant for numbers coded in decimal digits.
\<close>

function places16 :: "int \<Rightarrow> int \<Rightarrow> byte list \<Rightarrow> byte list option" where
  "places16 base number buffer =
     (if 16 \<le> length buffer then None
      else
        let buffer = buffer @ [0x30 + of_int (number smod base)]; number' = number sdiv base
        in if number' > 0 then places16 base number' buffer else Some buffer)"
  by pat_completeness auto
termination
  by (relation "measure (\<lambda>(base, number, buffer). 16 - length buffer)") auto

declare places16.simps [simp del]

definition intToString16 :: "int \<Rightarrow> byte list \<Rightarrow> byte list option" where
  "intToString16 number string = do {
     buffer \<leftarrow> places16 10 number [];
     string \<leftarrow> blit string 0 (rev buffer);
     wr string (length buffer) 0 }"

definition intToStringHex :: "int \<Rightarrow> byte list \<Rightarrow> byte list option" where
  "intToStringHex number string = do {
     buffer \<leftarrow> places16 16 number [];
     let buffer = (if length buffer < 2 then buffer @ [0x30] else buffer);
     string \<leftarrow> blit string 0 (rev buffer);
     wr string (length buffer) 0 }"

text \<open>The copy has no terminator.\<close>

fun copyString :: "byte list \<Rightarrow> byte list \<Rightarrow> nat \<Rightarrow> byte list option" where
  "copyString [] dest destStart = None"
| "copyString (c # source) dest destStart =
     (if c \<noteq> 0 then do { dest \<leftarrow> wr dest destStart c; copyString source dest (destStart + 1) } else Some dest)"

fun trimEnd :: "byte list \<Rightarrow> byte list option" where
  "trimEnd [] = None"
| "trimEnd (c # source) = (if c \<noteq> 0 \<and> c \<noteq> 32 then map_option ((#) c) (trimEnd source) else Some (0 # source))"

definition pad :: "byte list \<Rightarrow> nat \<Rightarrow> byte list option" where
  "pad source n = do {
     currentLength \<leftarrow> strlen16 source;
     source \<leftarrow> for_loop (\<lambda>index s. wr s index 32) [currentLength..<n] source;
     wr source (max currentLength n) 0 }"

section \<open>The console\<close>

fun print :: "'w bios \<Rightarrow> byte list \<Rightarrow> 'w \<Rightarrow> 'w option" where
  "print b [] w = None"
| "print b (c # s) w = (if c \<noteq> 0 then print b s (printChar b c w) else Some w)"

definition printNl :: "'w bios \<Rightarrow> 'w \<Rightarrow> 'w" where
  "printNl b w = printChar b 0x0A (printChar b 0x0D w)"

definition println :: "'w bios \<Rightarrow> byte list \<Rightarrow> 'w \<Rightarrow> 'w option" where
  "println b s w = do { w \<leftarrow> print b s w; Some (printNl b w) }"

fun printRange :: "'w bios \<Rightarrow> byte list \<Rightarrow> nat list \<Rightarrow> byte \<Rightarrow> byte \<Rightarrow> 'w \<Rightarrow> 'w option" where
  "printRange b s [] stopAtNull nullCharacter w = Some w"
| "printRange b s (i # is) stopAtNull nullCharacter w = do {
     c \<leftarrow> rd s i;
     if c = nullCharacter \<and> stopAtNull = 1 then Some w
     else printRange b s is stopAtNull nullCharacter (printChar b c w) }"

definition printInt :: "'w bios \<Rightarrow> byte list \<Rightarrow> int \<Rightarrow> 'w \<Rightarrow> 'w option" where
  "printInt b buffer number w = do { buffer \<leftarrow> intToString16 number buffer; print b buffer w }"

text \<open>\<open>index\<close> counts the characters in \<open>buffer\<close>; nothing keeps it inside the buffer.\<close>

partial_function (option) getString_loop ::
  "'w bios \<Rightarrow> byte \<Rightarrow> byte list \<Rightarrow> nat \<Rightarrow> 'w \<Rightarrow> (byte list \<times> nat \<times> 'w) option" where
  "getString_loop b echo buffer index w = do {
     (c, w) \<leftarrow> getChar b w;
     if c = 0x0D then Some (buffer, index, w)
     else if c = 0x08 \<and> index > 0 then
       getString_loop b echo buffer (index - 1)
         (if echo = 1 then printChar b 0x08 (printChar b 0x20 (printChar b 0x08 w)) else w)
     else if 32 \<le> unat c \<and> unat c \<le> 126 then do {
       let w = (if echo = 1 then printChar b c w else w);
       buffer \<leftarrow> wr buffer index c;
       getString_loop b echo buffer (index + 1) w }
     else getString_loop b echo buffer index w }"

definition getString :: "'w bios \<Rightarrow> byte list \<Rightarrow> byte \<Rightarrow> 'w \<Rightarrow> (byte list \<times> 'w) option" where
  "getString b buffer echo w = do {
     (buffer, index, w) \<leftarrow> getString_loop b echo buffer 0 w;
     let w = (if echo = 1 then printNl b w else w);
     buffer \<leftarrow> wr buffer index 0;
     Some (buffer, w) }"

fun poke_string :: "'w bios \<Rightarrow> u16 \<Rightarrow> byte list \<Rightarrow> 'w \<Rightarrow> 'w option" where
  "poke_string b index [] w = None"
| "poke_string b index (c # s) w = (if c \<noteq> 0 then poke_string b (index + 1) s (poke b (index * 2) c w) else Some w)"

definition printScreenDirect :: "'w bios \<Rightarrow> byte \<Rightarrow> byte \<Rightarrow> byte list \<Rightarrow> 'w \<Rightarrow> 'w option" where
  "printScreenDirect b row col s w = poke_string b (ucast row * 80 + ucast col) s w"

section \<open>The clock\<close>

text \<open>The BIOS answers hour, minute and second in two decimal digits each.\<close>

definition put_time :: "byte \<Rightarrow> byte list \<Rightarrow> byte list \<Rightarrow> nat \<Rightarrow> (byte list \<times> byte list \<times> nat) option" where
  "put_time part temp buffer index = do {
     temp \<leftarrow> intToStringHex (int (unat part)) temp;
     buffer \<leftarrow> copyString temp buffer index;
     n \<leftarrow> strlen16 temp;
     Some (temp, buffer, index + n) }"

definition getTimeString :: "'w bios \<Rightarrow> byte list \<Rightarrow> 'w \<Rightarrow> (byte list \<times> 'w) option" where
  "getTimeString b buffer w = do {
     let ((hour, minute, second), w) = int1A_time b w;
     (temp, buffer, index) \<leftarrow> put_time hour (replicate 16 0) buffer 0;
     buffer \<leftarrow> wr buffer index 0x3A;
     (temp, buffer, index) \<leftarrow> put_time minute temp buffer (index + 1);
     buffer \<leftarrow> wr buffer index 0x3A;
     (temp, buffer, index) \<leftarrow> put_time second temp buffer (index + 1);
     buffer \<leftarrow> wr buffer index 0;
     Some (buffer, w) }"

section \<open>Facts about strings and printing\<close>

lemma strlen16_eq [simp]: "strlen16 s = strlen s"
  by (induction s) auto

lemma strcmp_wl16_eq [simp]: "strcmp_wl16 s t n = strcmp_wl s t n"
  by (induction s t n rule: strcmp_wl16.induct) auto

lemma strcmp16_of_holds [in_bounds]:
  assumes "holds x s" and "holds y t" and "length s < 65535" and "length t < 65535"
  shows "strcmp16 x y = Some (s = t)"
proof -
  have "take 65535 (s @ [0]) = s @ [0]" "take 65535 (t @ [0]) = t @ [0]"
    using assms(3,4) by auto
  with strcmp_wl_of_holds [OF assms(1,2)] show ?thesis by (simp add: strcmp16_def)
qed

lemma print_of_holds [in_bounds]: "holds ob s \<Longrightarrow> print b ob w = Some (fold (printChar b) s w)"
  by (induction ob arbitrary: s w) (auto split: if_splits)

lemma println_of_holds [in_bounds]: "holds ob s \<Longrightarrow> println b ob w = Some (fold (printChar b) (s @ [0x0D, 0x0A]) w)"
  by (simp add: println_def print_of_holds printNl_def)

lemma printRange_all:
  "n \<le> length s \<Longrightarrow> m \<le> n \<Longrightarrow>
     printRange b s [m..<n] 0 0 w = Some (fold (printChar b) (take (n - m) (drop m s)) w)"
proof (induction "n - m" arbitrary: m w)
  case (Suc k)
  then have "[m..<n] = m # [Suc m..<n]" "take (n - m) (drop m s) = s ! m # take (n - Suc m) (drop (Suc m) s)"
    by (simp_all add: upt_conv_Cons take_Suc_conv_app_nth Cons_nth_drop_Suc [symmetric] take_Cons')
  with Suc show ?case by simp
qed simp

lemma copyString_of_holds:
  "holds source s \<Longrightarrow> i + length s \<le> length dest \<Longrightarrow>
     copyString source dest i = Some (take i dest @ s @ drop (i + length s) dest)"
proof (induction source dest i arbitrary: s rule: copyString.induct)
  case (2 c source dest i)
  show ?case
  proof (cases "c = 0")
    case False
    then obtain s' where s': "s = c # s'" "holds source s'" using 2 by auto
    have "i < length dest" using 2 s'(1) by simp
    moreover from this have "take (Suc i) (dest[i := c]) = take i dest @ [c]" by (simp add: take_Suc_conv_app_nth)
    ultimately show ?thesis using 2 False s' by simp
  qed (use 2 in simp)
qed simp

text \<open>A text and its terminator written to the start of a buffer, and one more character behind a text.\<close>

lemma blit_terminated:
  "length t < length s \<Longrightarrow>
     do { s \<leftarrow> blit s 0 t; wr s (length t) 0 } = Some (t @ 0 # drop (Suc (length t)) s)"
  by (simp add: blit_def list_update_append flip: Cons_nth_drop_Suc)

lemma wr_behind:
  "length p = i \<Longrightarrow> i < length s \<Longrightarrow> wr (p @ drop i s) i c = Some ((p @ [c]) @ drop (Suc i) s)"
  by (simp add: list_update_append flip: Cons_nth_drop_Suc)

section \<open>The time of day\<close>

text \<open>A number below 100 in two decimal digits: as the clock codes it in a byte, and as text.\<close>

definition bcd :: "nat \<Rightarrow> byte" where
  "bcd n = of_nat (16 * (n div 10) + n mod 10)"

definition two_digits :: "nat \<Rightarrow> byte list" where
  "two_digits n = [0x30 + of_nat (n div 10), 0x30 + of_nat (n mod 10)]"

lemma unat_bcd: "n < 100 \<Longrightarrow> unat (bcd n) = 16 * (n div 10) + n mod 10"
proof -
  assume "n < 100"
  then have "n div 10 < 10" by simp
  moreover have "n mod 10 < 10" by simp
  ultimately have "16 * (n div 10) + n mod 10 < 256" by linarith
  then show ?thesis unfolding bcd_def unat_of_nat by simp
qed

lemma two_digits_cstr: "n < 100 \<Longrightarrow> is_cstr (two_digits n)"
proof -
  have d: "(0x30 :: byte) + of_nat d \<noteq> 0" if "d < 10" for d
    using less_10_cases [OF that] by auto
  assume "n < 100"
  then have "n div 10 < 10" "n mod 10 < 10" by simp_all
  from d [OF this(1)] d [OF this(2)] show ?thesis by (simp add: two_digits_def)
qed

lemma intToStringHex_bcd:
  assumes "n < 100" and "3 \<le> length string"
  shows "intToStringHex (int (unat (bcd n))) string = Some (two_digits n @ 0 # drop 3 string)"
proof -
  define h l where "h = n div 10" and "l = n mod 10"
  then have hl: "h < 10" "l < 10" and td: "two_digits n = [0x30 + of_nat h, 0x30 + of_nat l]"
    using assms(1) by (simp_all add: two_digits_def)
  have v: "int (unat (bcd n)) = 16 * int h + int l" by (simp add: unat_bcd [OF assms(1)] h_def l_def)
  have dm: "(16 * int h + int l) div 16 = int h" "(16 * int h + int l) mod 16 = int l"
    using hl by (simp_all add: div_mult_self3)
  have sg: "(16 * int h + int l) sdiv 16 = int h" "(16 * int h + int l) smod 16 = int l"
    using dm by (simp_all add: sdiv_nonneg smod_nonneg)
  have small: "int h sdiv 16 = 0" "int h smod 16 = int h" using hl by (simp_all add: sdiv_nonneg smod_nonneg)
  have "(do { buffer \<leftarrow> places16 16 (int (unat (bcd n))) [];
      Some (if length buffer < 2 then buffer @ [0x30] else buffer) }) = Some (rev (two_digits n))"
  proof (cases "h = 0")
    case True
    then show ?thesis unfolding v td using sg
      by (simp add: places16.simps [of 16 "int l"] places16.simps [of 16 "16 * int h + int l"])
  next
    case False
    then have "0 < int h" by simp
    then show ?thesis unfolding v td using sg small
      by (simp add: places16.simps [of 16 "16 * int h + int l"] places16.simps [of 16 "int h"])
  qed
  then obtain buffer where "places16 16 (int (unat (bcd n))) [] = Some buffer"
    and b: "(if length buffer < 2 then buffer @ [0x30] else buffer) = rev (two_digits n)"
    by (auto simp: bind_eq_Some_conv simp del: of_nat_unat)
  then show ?thesis using blit_terminated [of "two_digits n" string] assms(2)
    by (simp add: intToStringHex_def two_digits_def Let_def b numeral_3_eq_3 del: of_nat_unat)
qed

lemma put_time_writes:
  assumes "n < 100" and "3 \<le> length temp" and "i + 2 \<le> length s" and "length p = i"
  shows "put_time (bcd n) temp (p @ drop i s) i =
    Some (two_digits n @ 0 # drop 3 temp, (p @ two_digits n) @ drop (i + 2) s, i + 2)"
proof -
  have h: "holds (two_digits n @ 0 # drop 3 temp) (two_digits n)" using two_digits_cstr [OF assms(1)] by blast
  have l: "length (two_digits n) = 2" by (simp add: two_digits_def)
  have "copyString (two_digits n @ 0 # drop 3 temp) (p @ drop i s) i = Some ((p @ two_digits n) @ drop (i + 2) s)"
    using copyString_of_holds [OF h, of i "p @ drop i s"] assms(3,4) l by (simp add: add.commute)
  then show ?thesis unfolding put_time_def intToStringHex_bcd [OF assms(1,2)]
    using strlen_of_holds [OF h] l by simp
qed

definition time_text :: "nat \<Rightarrow> nat \<Rightarrow> nat \<Rightarrow> byte list" where
  "time_text h m s = (((two_digits h @ [0x3A]) @ two_digits m) @ [0x3A]) @ two_digits s"

lemma getTimeString_text:
  assumes "int1A_time b w = ((bcd h, bcd m, bcd s), w')" and "h < 100" and "m < 100" and "s < 100"
    and "9 \<le> length buffer"
  shows "getTimeString b buffer w = Some (time_text h m s @ 0 # drop 9 buffer, w')"
proof -
  have l: "length (two_digits k) = 2" for k by (simp add: two_digits_def)
  have n: "Suc (2 + 2) = 5" "Suc 2 = 3" "3 + 2 = (5 :: nat)" "Suc 5 = 6" "6 + 2 = (8 :: nat)" "Suc 8 = 9" "0 + 2 = (2 :: nat)"
    "2 + 1 = (3 :: nat)" "5 + 1 = (6 :: nat)" by simp_all
  let ?p1 = "two_digits h" let ?p2 = "?p1 @ [0x3A]" let ?p3 = "?p2 @ two_digits m" let ?p4 = "?p3 @ [0x3A]"
  have a: "put_time (bcd h) (replicate 16 0) buffer 0 =
      Some (two_digits h @ 0 # drop 3 (replicate 16 0), ?p1 @ drop 2 buffer, 2)"
    using put_time_writes [OF assms(2), of "replicate 16 0" 0 buffer "[]"] assms(5) by (simp add: numeral_2_eq_2)
  have b: "wr (?p1 @ drop 2 buffer) 2 0x3A = Some (?p2 @ drop 3 buffer)"
    using wr_behind [of ?p1 2 buffer "0x3A"] assms(5) l by simp
  have c: "put_time (bcd m) (two_digits h @ 0 # t) (?p2 @ drop 3 buffer) 3 =
      Some (two_digits m @ 0 # drop 3 (two_digits h @ 0 # t), ?p3 @ drop 5 buffer, 5)" for t
    using put_time_writes [OF assms(3), of "two_digits h @ 0 # t" 3 buffer ?p2] assms(5) l by simp
  have d: "wr (?p3 @ drop 5 buffer) 5 0x3A = Some (?p4 @ drop 6 buffer)"
    using wr_behind [of ?p3 5 buffer "0x3A"] assms(5) l by simp
  have e: "put_time (bcd s) (two_digits m @ 0 # t) (?p4 @ drop 6 buffer) 6 =
      Some (two_digits s @ 0 # drop 3 (two_digits m @ 0 # t), time_text h m s @ drop 8 buffer, 8)" for t
    using put_time_writes [OF assms(4), of "two_digits m @ 0 # t" 6 buffer ?p4] assms(5) l
    by (simp add: time_text_def)
  have f: "wr (time_text h m s @ drop 8 buffer) 8 0 = Some (time_text h m s @ 0 # drop 9 buffer)"
    using wr_behind [of "time_text h m s" 8 buffer 0] assms(5) l by (simp add: time_text_def)
  show ?thesis unfolding getTimeString_def assms(1) Let_def split_conv a bind.bind_lunit b n c d e f by simp
qed

section \<open>A machine with a keyboard and a screen\<close>

text \<open>
  What the BIOS documents of its keyboard and its screen: \<open>keys\<close> are the keys that are still to
  come, \<open>printed\<close> is what has been written in teletype mode. A key is delivered once and in order, a
  character is written behind the others, and no other call touches either.
\<close>

definition terminal :: "'w bios \<Rightarrow> ('w \<Rightarrow> byte list) \<Rightarrow> ('w \<Rightarrow> byte list) \<Rightarrow> bool" where
  "terminal b keys printed \<longleftrightarrow>
     (\<forall>w c cs. keys w = c # cs \<longrightarrow>
        (\<exists>w'. int16_read_key b w = Some (c, w') \<and> keys w' = cs \<and> printed w' = printed w)) \<and>
     (\<forall>w c p k. keys (int10_teletype b c p k w) = keys w \<and> printed (int10_teletype b c p k w) = printed w @ [c]) \<and>
     (\<forall>w i c. keys (poke b i c w) = keys w \<and> printed (poke b i c w) = printed w) \<and>
     (\<forall>w. keys (snd (int1A_time b w)) = keys w \<and> printed (snd (int1A_time b w)) = printed w) \<and>
     (\<forall>w n d h s c. keys (snd (snd (int13_read b n d h s c w))) = keys w \<and>
        printed (snd (snd (int13_read b n d h s c w))) = printed w)"

lemma terminal_key:
  assumes "terminal b keys printed" and "keys w = c # cs"
  obtains w' where "getChar b w = Some (c, w')" and "keys w' = cs" and "printed w' = printed w"
  using assms unfolding terminal_def getChar_def by blast

lemma terminal_printChar:
  "terminal b keys printed \<Longrightarrow> keys (printChar b c w) = keys w"
  "terminal b keys printed \<Longrightarrow> printed (printChar b c w) = printed w @ [c]"
  by (simp_all add: terminal_def printChar_def)

lemma terminal_poke:
  "terminal b keys printed \<Longrightarrow> keys (poke b i c w) = keys w"
  "terminal b keys printed \<Longrightarrow> printed (poke b i c w) = printed w"
  by (simp_all add: terminal_def)

lemma terminal_print_all:
  assumes "terminal b keys printed"
  shows "keys (fold (printChar b) s w) = keys w" and "printed (fold (printChar b) s w) = printed w @ s"
  by (induction s arbitrary: w) (simp_all add: terminal_printChar [OF assms])

lemma terminal_poke_string:
  assumes "terminal b keys printed"
  shows "poke_string b i s w = Some w' \<Longrightarrow> keys w' = keys w \<and> printed w' = printed w"
  using assms by (induction b i s w rule: poke_string.induct) (auto simp: terminal_def split: if_splits)

lemma poke_string_returns: "holds ob s \<Longrightarrow> \<exists>w'. poke_string b i ob w = Some w'"
  by (induction b i ob w arbitrary: s rule: poke_string.induct) (auto split: if_splits)

text \<open>
  A line is edited as in the 32-bit system (theory Keyboard), but without a limit: what is typed
  has to fit, backspaces included.
\<close>

lemma printable_unsigned: "printable c \<longleftrightarrow> 32 \<le> unat c \<and> unat c \<le> 126"
proof (cases "unat c < 128")
  case True
  then show ?thesis using sint_small_byte [OF True] by (simp add: printable_def del: of_nat_unat)
next
  case False
  then have "\<not> unat c \<le> 126" by simp
  moreover have "\<not> printable c" using printable_byte False by blast
  ultimately show ?thesis by blast
qed

lemma getString_loop_edits:
  assumes t: "terminal b keys printed"
    and "keys w = cs @ 0x0D # rest" and "0x0D \<notin> set cs"
    and "take (length line) buffer = line" and "length line + length cs < length buffer"
    and "length buffer < limit"
  shows "\<exists>buffer' w'. getString_loop b 1 buffer (length line) w =
      Some (buffer', length (edit limit cs line), w') \<and>
    length buffer' = length buffer \<and> length (edit limit cs line) < length buffer \<and>
    take (length (edit limit cs line)) buffer' = edit limit cs line \<and>
    keys w' = rest \<and> printed w' = printed w @ echo_text limit cs line"
  using assms(2-)
proof (induction cs arbitrary: w line buffer)
  case Nil
  then have "keys w = 0x0D # rest" by simp
  from terminal_key [OF t this] obtain w' where "getChar b w = Some (0x0D, w')" "keys w' = rest" "printed w' = printed w" .
  then show ?case using Nil by (subst getString_loop.simps) simp
next
  case (Cons c cs)
  from Cons.prems(1) have "keys w = c # (cs @ 0x0D # rest)" by simp
  from terminal_key [OF t this] obtain w1 where g: "getChar b w = Some (c, w1)" and
    k1: "keys w1 = cs @ 0x0D # rest" "printed w1 = printed w" .
  have c: "c \<noteq> 0x0D" "0x0D \<notin> set cs" using Cons.prems(2) by auto
  have lim: "length line + 1 < limit" using Cons.prems(4,5) by simp
  have "\<exists>buffer1 w2. getString_loop b 1 buffer (length line) w =
      getString_loop b 1 buffer1 (length (edit_step limit c line)) w2 \<and>
      length buffer1 = length buffer \<and> take (length (edit_step limit c line)) buffer1 = edit_step limit c line \<and>
      length (edit_step limit c line) + length cs < length buffer \<and>
      keys w2 = cs @ 0x0D # rest \<and> printed w2 = printed w @ echo_step limit c line"
  proof -
    consider "c = 0x08" "line \<noteq> []" | "\<not> (c = 0x08 \<and> line \<noteq> [])" "printable c"
      | "\<not> (c = 0x08 \<and> line \<noteq> [])" "\<not> printable c" by blast
    then show ?thesis
    proof cases
      case 1
      let ?w = "printChar b 0x08 (printChar b 0x20 (printChar b 0x08 w1))"
      have "getString_loop b 1 buffer (length line) w = getString_loop b 1 buffer (length line - 1) ?w"
        using 1 g by (subst getString_loop.simps) simp
      moreover have "take (length line - 1) buffer = butlast line"
      proof -
        have "take (length line - 1) buffer = take (length line - 1) (take (length line) buffer)" by simp
        then show ?thesis unfolding Cons.prems(3) by (simp add: butlast_conv_take)
      qed
      ultimately show ?thesis using 1 k1 Cons.prems(4)
        by (intro exI [of _ buffer] exI [of _ ?w]) (auto simp: edit_step_def echo_step_def terminal_printChar [OF t])
    next
      case 2
      have i: "length line < length buffer" using Cons.prems(4) by simp
      have "getString_loop b 1 buffer (length line) w =
          getString_loop b 1 (buffer[length line := c]) (length line + 1) (printChar b c w1)"
        using 2 g c(1) i by (subst getString_loop.simps) (auto simp: printable_unsigned)
      moreover have "take (length line + 1) (buffer[length line := c]) = line @ [c]"
        using i Cons.prems(3) by (simp add: take_Suc_conv_app_nth)
      ultimately show ?thesis using 2 k1 lim Cons.prems(4)
        by (intro exI [of _ "buffer[length line := c]"] exI [of _ "printChar b c w1"])
          (auto simp: edit_step_def echo_step_def terminal_printChar [OF t])
    next
      case 3
      have "getString_loop b 1 buffer (length line) w = getString_loop b 1 buffer (length line) w1"
        using 3 g c(1) by (subst getString_loop.simps) (auto simp: printable_unsigned)
      then show ?thesis using 3 k1 Cons.prems(3,4)
        by (intro exI [of _ buffer] exI [of _ w1]) (auto simp: edit_step_def echo_step_def)
    qed
  qed
  then obtain buffer1 w2 where s: "getString_loop b 1 buffer (length line) w =
      getString_loop b 1 buffer1 (length (edit_step limit c line)) w2"
    "length buffer1 = length buffer" "take (length (edit_step limit c line)) buffer1 = edit_step limit c line"
    "length (edit_step limit c line) + length cs < length buffer"
    "keys w2 = cs @ 0x0D # rest" "printed w2 = printed w @ echo_step limit c line" by blast
  from Cons.IH [OF s(5) c(2) s(3)] s(2,4) Cons.prems(5) obtain buffer' w' where
    "getString_loop b 1 buffer1 (length (edit_step limit c line)) w2 =
      Some (buffer', length (edit limit cs (edit_step limit c line)), w')"
    "length buffer' = length buffer1" "length (edit limit cs (edit_step limit c line)) < length buffer1"
    "take (length (edit limit cs (edit_step limit c line))) buffer' = edit limit cs (edit_step limit c line)"
    "keys w' = rest" "printed w' = printed w2 @ echo_text limit cs (edit_step limit c line)" by auto
  then show ?case using s(1,2,6) by simp
qed

lemma getString_line:
  assumes "terminal b keys printed" and "keys w = cs @ 0x0D # rest" and "0x0D \<notin> set cs"
    and "length cs < length buffer"
  shows "\<exists>buffer' w'. getString b buffer 1 w = Some (buffer', w') \<and> length buffer' = length buffer \<and>
    take (length (edit (length buffer + 1) cs []) + 1) buffer' = edit (length buffer + 1) cs [] @ [0] \<and>
    keys w' = rest \<and> printed w' = printed w @ echo_text (length buffer + 1) cs [] @ [0x0D, 0x0A]"
proof -
  let ?l = "edit (length buffer + 1) cs []"
  from getString_loop_edits [OF assms(1-3), of "[]" buffer "length buffer + 1"] assms(4) obtain buffer1 w1 where
    l: "getString_loop b 1 buffer 0 w = Some (buffer1, length ?l, w1)" "length buffer1 = length buffer"
      "length ?l < length buffer" "take (length ?l) buffer1 = ?l" "keys w1 = rest"
      "printed w1 = printed w @ echo_text (length buffer + 1) cs []" by auto
  have "take (length ?l + 1) (buffer1[length ?l := 0]) = ?l @ [0]"
    using l by (simp add: take_Suc_conv_app_nth)
  then show ?thesis using l by (simp add: getString_def printNl_def terminal_printChar [OF assms(1)])
qed

text \<open>What has no control characters but the final Enter is the line itself.\<close>

lemma edit_plain:
  "list_all printable cs \<Longrightarrow> length line + length cs + 1 < limit \<Longrightarrow>
     edit limit cs line = line @ cs \<and> echo_text limit cs line = cs"
proof (induction cs arbitrary: line)
  case (Cons c cs)
  have "edit_step limit c line = line @ [c] \<and> echo_step limit c line = [c]"
    using Cons.prems printable_byte [of c] by (auto simp: edit_step_def echo_step_def)
  then show ?case using Cons by simp
qed simp

end
