(* ===== verification/RealDisk.thy ===== *)
theory RealDisk
  imports RealMode FatFiles
begin

text \<open>
  Disk and files of the earlier system: \<open>kernel/bios/disk.c\<close> and \<open>kernel/components/filesystem.c\<close>,
  which knows one layout of a floppy. A buffer is the rest of the segment it points into, from its
  address on; the \<open>segment\<close> argument of the code says which segment that is.
\<close>

section \<open>Sectors\<close>

text \<open>
  \<open>SECTORS_PER_TRACK\<close> is set by the build, to 9, 15 or 18; it is the argument \<open>spt\<close>. The cylinder
  is a \<open>char\<close>. The BIOS answers its status in AH, and zero is success.
\<close>

definition readSectors ::
  "'w bios \<Rightarrow> byte \<Rightarrow> byte \<Rightarrow> byte \<Rightarrow> byte \<Rightarrow> byte list \<Rightarrow> 'w \<Rightarrow> (byte \<times> byte list \<times> 'w) option" where
  "readSectors b head cylinder sector numSectors buffer w = do {
     let (returnCode, bytes, w) = int13_read b numSectors 0 head sector cylinder w;
     buffer \<leftarrow> blit buffer 0 bytes;
     Some (returnCode, buffer, w) }"

definition readSectorsLBA ::
  "'w bios \<Rightarrow> int \<Rightarrow> int \<Rightarrow> byte \<Rightarrow> byte list \<Rightarrow> 'w \<Rightarrow> (byte \<times> byte list \<times> 'w) option" where
  "readSectorsLBA b spt lba numSectors buffer w =
     (if spt = 0 then None
      else
        let head = of_int ((lba smod (spt * 2)) sdiv spt);
            cylinder = of_int (lba sdiv (spt * 2));
            sector = of_int (lba smod spt + 1)
        in readSectors b head cylinder sector numSectors buffer w)"

section \<open>The layout of the floppy\<close>

definition BYTES_PER_SECTOR :: nat where "BYTES_PER_SECTOR = 512"
definition NUM_RESERVED_SECTORS :: nat where "NUM_RESERVED_SECTORS = 1"
definition NUMBER_OF_FATS :: nat where "NUMBER_OF_FATS = 2"
definition SECTORS_PER_FAT :: nat where "SECTORS_PER_FAT = 9"
definition DIR_ENTRY_SIZE :: nat where "DIR_ENTRY_SIZE = 32"
definition FAT_0_START :: nat where "FAT_0_START = NUM_RESERVED_SECTORS"
definition ROOT_DIR_START :: nat where
  "ROOT_DIR_START = NUM_RESERVED_SECTORS + (NUMBER_OF_FATS * SECTORS_PER_FAT)"

text \<open>\<open>struct DirectoryEntry\<close>: the 32 bytes of an entry, and the fields the code reads.\<close>

definition entry_at :: "byte list \<Rightarrow> nat \<Rightarrow> byte list option" where
  "entry_at dir i =
     (if DIR_ENTRY_SIZE * i + DIR_ENTRY_SIZE \<le> length dir
      then Some (take DIR_ENTRY_SIZE (drop (DIR_ENTRY_SIZE * i) dir)) else None)"

definition startOfFile :: "byte list \<Rightarrow> u16 option" where
  "startOfFile e = rd16 e 26"

definition fileSize :: "byte list \<Rightarrow> u32 option" where
  "fileSize e = rd32 e 28"

definition readRootDirectory :: "'w bios \<Rightarrow> int \<Rightarrow> byte list \<Rightarrow> 'w \<Rightarrow> (byte \<times> byte list \<times> 'w) option" where
  "readRootDirectory b spt buffer w = readSectorsLBA b spt (int ROOT_DIR_START) 1 buffer w"

definition loadFAT :: "'w bios \<Rightarrow> int \<Rightarrow> byte list \<Rightarrow> 'w \<Rightarrow> (byte \<times> byte list \<times> 'w) option" where
  "loadFAT b spt FAT w = readSectorsLBA b spt (int FAT_0_START) (of_nat SECTORS_PER_FAT) FAT w"

section \<open>Names\<close>

text \<open>
  The loops over the characters of the name and of the extension end at a blank or a zero only, so
  they may run into the fields behind. The entry is a copy of 32 bytes on the stack.
\<close>

fun name_chars :: "byte list \<Rightarrow> byte list option" where
  "name_chars [] = None"
| "name_chars (c # cs) = (if c \<noteq> 32 \<and> c \<noteq> 0 then map_option ((#) c) (name_chars cs) else Some [])"

definition getFileName :: "byte list \<Rightarrow> byte list \<Rightarrow> (nat \<times> byte list) option" where
  "getFileName e buffer = do {
     name \<leftarrow> name_chars e;
     extension \<leftarrow> name_chars (drop 8 e);
     buffer \<leftarrow> blit buffer 0 (name @ [0x2E] @ extension @ [0]);
     Some (length name + 1 + length extension, buffer) }"

text \<open>\<open>thisFilename\<close> is what the array of 16 characters holds on the stack.\<close>

fun findFile :: "byte list \<Rightarrow> nat list \<Rightarrow> byte list \<Rightarrow> byte list \<Rightarrow> u16 option" where
  "findFile dir [] fname thisFilename = Some 0xFFFF"
| "findFile dir (i # is) fname thisFilename = do {
     e \<leftarrow> entry_at dir i;
     if e ! 0 = 0 then findFile dir is fname thisFilename
     else do {
       (_, thisFilename) \<leftarrow> getFileName e thisFilename;
       same \<leftarrow> strcmp16 fname thisFilename;
       if same then Some (of_nat i) else findFile dir is fname thisFilename } }"

section \<open>Files\<close>

definition getFATEntry :: "byte list \<Rightarrow> u16 \<Rightarrow> u16 option" where
  "getFATEntry FAT cluster_num =
     (let offset = unat (3 * (cluster_num div 2))
      in if cluster_num mod 2 = 0
         then do {
           b1 \<leftarrow> rd FAT offset;
           b2 \<leftarrow> rd FAT (offset + 1);
           Some (push_bit 8 (0x0f AND ucast b2) OR ucast b1) }
         else do {
           b1 \<leftarrow> rd FAT (offset + 1);
           b2 \<leftarrow> rd FAT (offset + 2);
           Some (push_bit 4 (ucast b2) OR drop_bit 4 (0xf0 AND ucast b1)) })"

text \<open>
  The clusters after the first. The answer is the status of the read that failed, or zero. A chain
  that comes back to itself is followed for ever.
\<close>

partial_function (option) load_rest ::
  "'w bios \<Rightarrow> int \<Rightarrow> byte list \<Rightarrow> u16 \<Rightarrow> nat \<Rightarrow> byte list \<Rightarrow> 'w \<Rightarrow> (byte \<times> byte list \<times> 'w) option" where
  "load_rest b spt FAT cluster clusterIndex buffer w = do {
     cluster \<leftarrow> getFATEntry FAT cluster;
     if cluster = 0xFFF then Some (0, buffer, w)
     else do {
       let at = BYTES_PER_SECTOR * clusterIndex;
       (readResult, rest, w) \<leftarrow> readSectorsLBA b spt (sint (cluster + 31)) 1 (drop at buffer) w;
       let buffer = take at buffer @ rest;
       if readResult \<noteq> 0 then Some (readResult, buffer, w)
       else load_rest b spt FAT cluster (clusterIndex + 1) buffer w } }"

text \<open>The answer is the size of the file, -1 when there is none of that name, or minus the status.\<close>

definition loadFile ::
  "'w bios \<Rightarrow> int \<Rightarrow> byte list \<Rightarrow> byte list \<Rightarrow> nat \<Rightarrow> byte list \<Rightarrow> byte list \<Rightarrow> byte list \<Rightarrow> 'w \<Rightarrow>
     (int \<times> byte list \<times> 'w) option" where
  "loadFile b spt FAT dir directoryLength fname thisFilename buffer w = do {
     fileIndex \<leftarrow> findFile dir [0..<directoryLength] fname thisFilename;
     if fileIndex = 0xFFFF then Some (-1, buffer, w)
     else do {
       e \<leftarrow> entry_at dir (unat fileIndex);
       cluster \<leftarrow> startOfFile e;
       (readResult, buffer, w) \<leftarrow> readSectorsLBA b spt (sint (cluster + 31)) 1 buffer w;
       if readResult \<noteq> 0 then Some (- int (unat readResult), buffer, w)
       else do {
         (readResult, buffer, w) \<leftarrow> load_rest b spt FAT cluster 1 buffer w;
         if readResult \<noteq> 0 then Some (- int (unat readResult), buffer, w)
         else do { n \<leftarrow> fileSize e; Some (sint n, buffer, w) } } } }"

section \<open>The disk behind the BIOS\<close>

text \<open>
  What the BIOS documents of reading: asked for sectors of one track that the disk has, it
  answers status zero and their contents.
\<close>

definition serves_chs :: "'w bios \<Rightarrow> nat \<Rightarrow> byte list list \<Rightarrow> bool" where
  "serves_chs b spt disk \<longleftrightarrow>
     (\<forall>n head sector cylinder w.
        let lba = (2 * unat cylinder + unat head) * spt + (unat sector - 1)
        in unat head < 2 \<longrightarrow> 1 \<le> unat sector \<longrightarrow> unat sector - 1 + unat n \<le> spt \<longrightarrow> lba + unat n \<le> length disk \<longrightarrow>
           (\<exists>w'. int13_read b n 0 head sector cylinder w = (0, sectors_of disk lba (unat n), w')))"

lemma serves_chsD:
  assumes "serves_chs b spt disk" and "unat head < 2" and "1 \<le> unat sector" and "unat sector - 1 + unat n \<le> spt"
    and "(2 * unat cylinder + unat head) * spt + (unat sector - 1) = lba" and "lba + unat n \<le> length disk"
  shows "\<exists>w'. int13_read b n 0 head sector cylinder w = (0, sectors_of disk lba (unat n), w')"
  using assms(1-4,6) unfolding serves_chs_def Let_def assms(5) [symmetric] by blast

lemma chs_of_lba:
  assumes "0 < spt" and "spt < 64" and "lba < 512 * spt"
  shows "unat (of_int ((int lba smod (int spt * 2)) sdiv int spt) :: byte) = lba mod (spt * 2) div spt"
    and "unat (of_int (int lba sdiv (int spt * 2)) :: byte) = lba div (spt * 2)"
    and "unat (of_int (int lba smod int spt + 1) :: byte) = lba mod spt + 1"
    and "(2 * (lba div (spt * 2)) + lba mod (spt * 2) div spt) * spt + lba mod spt = lba"
    and "lba mod (spt * 2) div spt < 2"
proof -
  have i: "int lba smod (int spt * 2) = int (lba mod (spt * 2))" "int lba sdiv (int spt * 2) = int (lba div (spt * 2))"
    "int lba smod int spt = int (lba mod spt)" "int (lba mod (spt * 2)) sdiv int spt = int (lba mod (spt * 2) div spt)"
    using assms(1) by (simp_all add: sdiv_nonneg smod_nonneg zdiv_int zmod_int)
  show h: "lba mod (spt * 2) div spt < 2"
    using assms(1) by (intro div_less_iff_less_mult [THEN iffD2]) (simp_all add: mult.commute)
  have c: "lba div (spt * 2) < 256"
    using assms(1,3) by (intro div_less_iff_less_mult [THEN iffD2]) simp_all
  have s: "lba mod spt + 1 < 256" using mod_less_divisor [OF assms(1), of lba] assms(2) by linarith
  have b: "unat (of_int (int m) :: byte) = m" if "m < 256" for m
    using that unfolding of_int_of_nat_eq unat_of_nat by simp
  show "unat (of_int ((int lba smod (int spt * 2)) sdiv int spt) :: byte) = lba mod (spt * 2) div spt"
    unfolding i by (rule b) (use h in linarith)
  show "unat (of_int (int lba sdiv (int spt * 2)) :: byte) = lba div (spt * 2)" unfolding i by (rule b [OF c])
  have "int lba smod int spt + 1 = int (lba mod spt + 1)" by (simp add: i)
  then show "unat (of_int (int lba smod int spt + 1) :: byte) = lba mod spt + 1" by (simp only: b [OF s])
  have "lba mod (spt * 2) = spt * (lba div spt mod 2) + lba mod spt" by (rule mod_mult2_eq)
  then have "lba mod (spt * 2) div spt = lba div spt mod 2" using assms(1) by simp
  moreover have "lba div (spt * 2) = lba div spt div 2" by (rule div_mult2_eq)
  ultimately have "2 * (lba div (spt * 2)) + lba mod (spt * 2) div spt = lba div spt" by simp
  then show "(2 * (lba div (spt * 2)) + lba mod (spt * 2) div spt) * spt + lba mod spt = lba" by simp
qed

lemma readSectorsLBA_serves:
  assumes "serves_chs b spt disk" and "0 < spt" and "spt < 64" and "sectors_512 disk" and "length disk \<le> 512 * spt"
    and "lba + unat n \<le> length disk" and "lba mod spt + unat n \<le> spt" and "512 * unat n \<le> length buffer" and "0 < unat n"
  shows "\<exists>w'. readSectorsLBA b (int spt) (int lba) n buffer w =
    Some (0, sectors_of disk lba (unat n) @ drop (512 * unat n) buffer, w')"
proof -
  have lt: "lba < 512 * spt" using assms(5,6,9) by linarith
  note chs = chs_of_lba [OF assms(2,3) lt]
  let ?h = "of_int ((int lba smod (int spt * 2)) sdiv int spt) :: byte"
  let ?c = "of_int (int lba sdiv (int spt * 2)) :: byte" and ?s = "of_int (int lba smod int spt + 1) :: byte"
  have l: "(2 * unat ?c + unat ?h) * spt + (unat ?s - 1) = lba" using chs(4) by (simp only: chs(1-3) add_diff_cancel_right')
  have pre: "unat ?h < 2" "1 \<le> unat ?s" "unat ?s - 1 + unat n \<le> spt"
    unfolding chs(1-3) using chs(5) assms(7) by simp_all
  obtain w' where "int13_read b n 0 ?h ?s ?c w = (0, sectors_of disk lba (unat n), w')"
    using serves_chsD [OF assms(1) pre l assms(6)] by blast
  moreover have "length (sectors_of disk lba (unat n)) = 512 * unat n"
    using length_sectors_of [OF assms(4,6)] .
  ultimately show ?thesis using assms(2,8) by (simp add: readSectorsLBA_def readSectors_def blit_def Let_def)
qed

section \<open>The table read by both systems\<close>

lemma unat_ucast_u16 [simp]: "unat (ucast (c :: u16) :: u32) = unat c"
  by (intro unat_ucast_small less_trans [OF unat_u16_lt]) simp

text \<open>
  The 16-bit system and the FAT driver of the 32-bit kernel decode the entries of a table alike.
\<close>

lemma getFATEntry_decodes:
  assumes "fat_type (instance_data fs) = FAT12" and "unat c < 2 ^ 15"
  shows "fat12_decode_fat_entry (ucast c) fs = map_option ucast (getFATEntry (fat (instance_data fs)) c)"
proof -
  have u: "unat (ucast c :: u32) = unat c" by (rule unat_ucast_small) (use assms(2) in simp)
  have d: "unat (c div 2) = unat c div 2" "unat ((ucast c :: u32) div 2) = unat c div 2"
    using u by (simp_all add: unat_div_distrib)
  have off: "unat (3 * (c div 2)) = 3 * (unat c div 2)" "unat (3 * ((ucast c :: u32) div 2)) = 3 * (unat c div 2)"
    using assms(2) by (simp_all add: unat_word_ariths d u)
  have "unat (c mod 2) = unat c mod 2" "unat ((ucast c :: u32) mod 2) = unat c mod 2"
    using u by (simp_all add: unat_mod_distrib)
  then have par: "c mod 2 = 0 \<longleftrightarrow> even (unat c)" "(ucast c :: u32) mod 2 = 0 \<longleftrightarrow> even (unat c)"
    by (metis even_iff_mod_2_eq_zero unat_eq_zero)+
  have g: "(0xf0 :: u16) = push_bit 4 (mask 4)" "(0xf0 :: u32) = push_bit 4 (mask 4)" "(0x0f :: u16) = mask 4" "(0x0f :: u32) = mask 4"
    by (simp_all add: mask_eq_exp_minus_1)
  have e: "(ucast (push_bit 8 (0x0f AND ucast b2) OR ucast b1 :: u16) :: u32) = push_bit 8 (0x0f AND ucast b2) OR ucast b1"
    for b1 b2 :: byte unfolding g by (rule bit_word_eqI) (auto simp: bit_simps dest: bit_imp_le_length)
  have o: "(ucast (push_bit 4 (ucast b2) OR drop_bit 4 (0xf0 AND ucast b1) :: u16) :: u32) =
      push_bit 4 (ucast b2) OR drop_bit 4 (0xf0 AND ucast b1)"
    for b1 b2 :: byte unfolding g by (rule bit_word_eqI) (auto simp: bit_simps dest: bit_imp_le_length)
  show ?thesis using assms(1) e o
    by (auto simp: fat12_decode_fat_entry_def getFATEntry_def Let_def off par rd_def simp del: push_bit_and drop_bit_and)
qed

section \<open>Finding a file\<close>

text \<open>The name an entry shows, and the first entry of a directory that shows a name.\<close>

definition file_name :: "byte list \<Rightarrow> byte list option" where
  "file_name e = do {
     name \<leftarrow> name_chars e;
     extension \<leftarrow> name_chars (drop 8 e);
     Some (name @ [0x2E] @ extension) }"

definition dir_entry_bytes :: "byte list \<Rightarrow> nat \<Rightarrow> byte list" where
  "dir_entry_bytes dir i = take 32 (drop (32 * i) dir)"

definition named_entry :: "byte list \<Rightarrow> nat \<Rightarrow> byte list \<Rightarrow> nat \<Rightarrow> bool" where
  "named_entry dir n t i \<longleftrightarrow> i < n \<and> 32 * n \<le> length dir \<and> length t < 16 \<and>
     dir_entry_bytes dir i ! 0 \<noteq> 0 \<and> file_name (dir_entry_bytes dir i) = Some t \<and>
     (\<forall>j < i. dir_entry_bytes dir j ! 0 = 0 \<or>
        (\<exists>t'. file_name (dir_entry_bytes dir j) = Some t' \<and> length t' < 16 \<and> t' \<noteq> t))"

lemma name_chars_cstr: "name_chars e = Some s \<Longrightarrow> is_cstr s"
  by (induction e arbitrary: s) (auto split: if_splits)

lemma file_name_cstr: "file_name e = Some t \<Longrightarrow> is_cstr t"
  by (auto simp: file_name_def bind_eq_Some_conv dest: name_chars_cstr)

lemma getFileName_text:
  assumes "file_name e = Some t" and "length t < length buffer"
  shows "getFileName e buffer = Some (length t, t @ 0 # drop (Suc (length t)) buffer)"
proof -
  obtain name ext where n: "name_chars e = Some name" "name_chars (drop 8 e) = Some ext" "t = name @ [0x2E] @ ext"
    using assms(1) by (auto simp: file_name_def bind_eq_Some_conv)
  then have "Suc (Suc (length name + length ext)) \<le> length buffer" using assms(2) by simp
  with n show ?thesis by (simp add: getFileName_def blit_def)
qed

lemma entry_at_bytes: "32 * n \<le> length dir \<Longrightarrow> i < n \<Longrightarrow> entry_at dir i = Some (dir_entry_bytes dir i)"
  by (simp add: entry_at_def dir_entry_bytes_def DIR_ENTRY_SIZE_def)

lemma findFile_named:
  assumes "named_entry dir n t i" and "holds fname t"
  shows "m \<le> i \<Longrightarrow> length stack = 16 \<Longrightarrow> findFile dir [m..<n] fname stack = Some (of_nat i)"
proof (induction "i - m" arbitrary: m stack)
  case 0
  then have m: "m = i" by simp
  have i: "i < n" "32 * n \<le> length dir" "length t < 16" "dir_entry_bytes dir i ! 0 \<noteq> 0"
    "file_name (dir_entry_bytes dir i) = Some t" using assms(1) by (simp_all add: named_entry_def)
  have h: "holds (t @ 0 # r) t" for r using file_name_cstr [OF i(5)] by blast
  have "strcmp16 fname (t @ 0 # r) = Some True" for r
    using strcmp16_of_holds [OF assms(2) h] i(3) by simp
  then show ?case using i getFileName_text [OF i(5), of stack] "0.prems" entry_at_bytes [OF i(2,1)]
    by (simp add: m upt_conv_Cons)
next
  case (Suc k)
  have i: "m < i" "i < n" "32 * n \<le> length dir" "length t < 16" using assms(1) Suc.hyps(2) by (simp_all add: named_entry_def)
  then have "m < n" by simp
  note e = entry_at_bytes [OF i(3) this]
  have rest: "findFile dir [Suc m..<n] fname st = Some (of_nat i)" if "length st = 16" for st
    using Suc.hyps(1) [of "Suc m" st] Suc.hyps(2) i(1) that by simp
  consider "dir_entry_bytes dir m ! 0 = 0"
    | t' where "file_name (dir_entry_bytes dir m) = Some t'" "length t' < 16" "t' \<noteq> t"
    using assms(1) i(1) unfolding named_entry_def by blast
  then show ?case
  proof cases
    case 1
    then show ?thesis using e rest [OF Suc.prems(2)] \<open>m < n\<close> by (simp add: upt_conv_Cons)
  next
    case 2
    let ?st = "t' @ 0 # drop (Suc (length t')) stack"
    have h: "holds ?st t'" using file_name_cstr [OF 2(1)] by blast
    have "strcmp16 fname ?st = Some False"
      using strcmp16_of_holds [OF assms(2) h] i(4) 2(2,3) by simp
    then show ?thesis using e rest [OF Suc.prems(2)] rest [of ?st] \<open>m < n\<close> 2 Suc.prems(2) getFileName_text [OF 2(1), of stack]
      by (auto simp: upt_conv_Cons)
  qed
qed

section \<open>Loading a file\<close>

text \<open>A floppy of the layout the code assumes, as the FAT driver of the 32-bit kernel sees it.\<close>

definition floppy_layout :: "fat_instance file_system \<Rightarrow> bool" where
  "floppy_layout fs \<longleftrightarrow> fat_type (instance_data fs) = FAT12 \<and> fi_sectors_per_cluster (instance_data fs) = 1 \<and>
     first_data_sector fs = 33"

lemma floppy_cluster_sector: "floppy_layout fs \<Longrightarrow> cluster_sector fs (ucast (c :: u16)) = unat c + 31"
proof -
  assume f: "floppy_layout fs"
  have "(ucast c - 2) * 1 + 33 = (ucast c + of_nat 31 :: u32)" by simp
  then have "cluster_sector fs (ucast c) = unat (ucast c + of_nat 31 :: u32)"
    using f by (simp only: cluster_sector_def floppy_layout_def) (simp add: add.commute)
  also have "\<dots> = unat (ucast c :: u32) + 31"
    using less_trans [OF unat_u16_lt [of c], of 4294967265] by (intro unat_add_small) simp
  finally show ?thesis by simp
qed

lemma floppy_cluster_size: "floppy_layout fs \<Longrightarrow> cluster_size fs = 1"
  by (simp add: floppy_layout_def cluster_size_def)

lemma read_cluster16:
  fixes c :: u16
  assumes "serves_chs b spt disk" and "0 < spt" and "spt < 64" and "sectors_512 disk" and "length disk \<le> 512 * spt"
    and "floppy_layout fs" and "on_disk disk fs (ucast c)" and "512 * k + 512 \<le> length buffer"
  shows "\<exists>w'. readSectorsLBA b (int spt) (sint (c + 31)) 1 (drop (512 * k) buffer) w =
    Some (0, cluster_data disk fs (ucast c) @ drop (512 * k + 512) buffer, w')"
proof -
  have on: "unat c + 31 + 1 \<le> length disk"
    using assms(7) by (simp add: on_disk_def floppy_cluster_sector [OF assms(6)] floppy_cluster_size [OF assms(6)])
  then have small: "unat c + 31 < 32768" using assms(3,5) by linarith
  then have u: "unat (c + 31) = unat c + 31" using unat_add_small [of c 31] by simp
  have "sint (c + 31) = int (unat (c + 31))"
  proof -
    have "unat (c + 31) < 32768" using u small by linarith
    moreover have "int (unat (c + 31)) = uint (c + 31)" by (rule uint_nat [symmetric])
    ultimately have "unat (c + 31) < 32768" "int (unat (c + 31)) = uint (c + 31)" by simp_all
    then have "uint (c + 31) < 32768" "- 32768 \<le> uint (c + 31)" by linarith+
    then show ?thesis by (simp add: sint_uint signed_take_bit_int_eq_self)
  qed
  then have s: "sint (c + 31) = int (unat c + 31)" unfolding u .
  have "(unat c + 31) mod spt + unat (1 :: byte) \<le> spt" using mod_less_divisor [OF assms(2), of "unat c + 31"] by simp
  then show ?thesis unfolding s
    using readSectorsLBA_serves [OF assms(1-5), of "unat c + 31" 1 "drop (512 * k) buffer" w] on assms(8)
    by (simp add: cluster_data_def floppy_cluster_sector [OF assms(6)] floppy_cluster_size [OF assms(6)] add.commute)
qed

text \<open>The clusters of a file behind its first, up to the mark 0xFFF.\<close>

lemma load_rest_chain:
  assumes srv: "serves_chs b spt disk" "0 < spt" "spt < 64" "sectors_512 disk" "length disk \<le> 512 * spt"
    and fl: "floppy_layout fs" and F: "F = fat (instance_data fs)"
  shows "chain fs (map ucast (c # cs)) \<Longrightarrow> list_all (on_disk disk fs) (map ucast (c # cs)) \<Longrightarrow>
    getFATEntry F (last (c # cs)) = Some 0xFFF \<Longrightarrow> 512 * (k + length cs) \<le> length buffer \<Longrightarrow>
    \<exists>w'. load_rest b (int spt) F c k buffer w = Some (0,
      take (512 * k) buffer @ concat (map (cluster_data disk fs \<circ> ucast) cs) @ drop (512 * (k + length cs)) buffer, w')"
proof (induction cs arbitrary: c k buffer w)
  case Nil
  then show ?case by (subst load_rest.simps) simp
next
  case (Cons d cs)
  have on: "on_disk disk fs (ucast c)" "on_disk disk fs (ucast d)" using Cons.prems(2) by simp_all
  have "unat c < 2 ^ 15"
    using on(1) srv(3,5) by (simp add: on_disk_def floppy_cluster_sector [OF fl] floppy_cluster_size [OF fl])
  then have "fat12_decode_fat_entry (ucast c) fs = map_option ucast (getFATEntry F c)"
    using getFATEntry_decodes fl F by (simp add: floppy_layout_def)
  moreover have ch: "fat12_decode_fat_entry (ucast c) fs = Some (ucast d)" "\<not> cluster_is_end_of_chain (ucast d) fs"
    using Cons.prems(1) by simp_all
  ultimately obtain d' where d': "getFATEntry F c = Some d'" "(ucast d' :: u32) = ucast d"
    by (cases "getFATEntry F c") auto
  from d'(2) have "unat (ucast d' :: u32) = unat (ucast d :: u32)" by simp
  then have "d' = d" by (simp add: word_unat_eq_iff)
  with d' have e: "getFATEntry F c = Some d" by simp
  have ne: "d \<noteq> 0xFFF" using ch(2) fl by (auto simp: cluster_is_end_of_chain_def floppy_layout_def)
  have room: "512 * k + 512 \<le> length buffer" using Cons.prems(4) by simp
  obtain w1 where rd: "readSectorsLBA b (int spt) (sint (d + 31)) 1 (drop (512 * k) buffer) w =
      Some (0, cluster_data disk fs (ucast d) @ drop (512 * k + 512) buffer, w1)"
    using read_cluster16 [OF srv fl on(2) room] by blast
  let ?b = "take (512 * k) buffer @ cluster_data disk fs (ucast d) @ drop (512 * k + 512) buffer"
  have len: "length (cluster_data disk fs (ucast d)) = 512"
    using on(2) length_sectors_of [OF srv(4), of _ 1] by (simp add: cluster_data_def on_disk_def floppy_cluster_size [OF fl])
  have lb: "length ?b = length buffer" using len room by simp
  have p: "chain fs (map ucast (d # cs))" "list_all (on_disk disk fs) (map ucast (d # cs))"
    "getFATEntry F (last (d # cs)) = Some 0xFFF" using Cons.prems(1-3) by simp_all
  have "512 * (k + 1 + length cs) \<le> length ?b" using Cons.prems(4) unfolding lb by simp
  from Cons.IH [OF p this, of w1] obtain w2 where lr: "load_rest b (int spt) F d (k + 1) ?b w1 = Some (0,
      take (512 * (k + 1)) ?b @ concat (map (cluster_data disk fs \<circ> ucast) cs) @ drop (512 * (k + 1 + length cs)) ?b, w2)"
    by blast
  have tk: "take (512 * (k + 1)) ?b = take (512 * k) buffer @ cluster_data disk fs (ucast d)"
    using len room by simp
  have dr: "drop (512 * (k + 1 + length cs)) ?b = drop (512 * (k + length (d # cs))) buffer"
  proof -
    have "512 * (k + 1 + length cs) = (512 * k + 512) + 512 * length cs" by simp
    moreover have "length (take (512 * k) buffer @ cluster_data disk fs (ucast d)) = 512 * k + 512" using len room by simp
    ultimately show ?thesis by (simp add: drop_append add.commute add.left_commute)
  qed
  show ?case using rd e ne lr [unfolded tk dr]
    by (subst load_rest.simps) (simp add: BYTES_PER_SECTOR_def Let_def)
qed

lemma loadFile_chain:
  assumes srv: "serves_chs b spt disk" "0 < spt" "spt < 64" "sectors_512 disk" "length disk \<le> 512 * spt"
    and fl: "floppy_layout fs"
    and "named_entry dir n t i" and "holds fname t" and "n < 65536" and "length stack = 16"
    and "startOfFile (dir_entry_bytes dir i) = Some (hd cs)" and "fileSize (dir_entry_bytes dir i) = Some size1"
    and "chain fs (map ucast cs)" and "list_all (on_disk disk fs) (map ucast cs)"
    and "getFATEntry (fat (instance_data fs)) (last cs) = Some 0xFFF" and "512 * length cs \<le> length buffer"
  shows "\<exists>w'. loadFile b (int spt) (fat (instance_data fs)) dir n fname stack buffer w =
    Some (sint size1, concat (map (cluster_data disk fs \<circ> ucast) cs) @ drop (512 * length cs) buffer, w')"
proof -
  have i: "i < n" "32 * n \<le> length dir" using assms(7) by (simp_all add: named_entry_def)
  then have iu: "unat (of_nat i :: u16) = i" using assms(9) by (simp add: unat_of_nat)
  have nf: "(of_nat i :: u16) \<noteq> 0xFFFF"
  proof
    assume "(of_nat i :: u16) = 0xFFFF"
    then have "i = unat (0xFFFF :: u16)" using iu by metis
    then show False using i(1) assms(9) by simp
  qed
  obtain c cs' where cs: "cs = c # cs'" using assms(13) by (cases cs) auto
  have on: "on_disk disk fs (ucast c)" using assms(14) cs by simp
  obtain w1 where rd: "readSectorsLBA b (int spt) (sint (c + 31)) 1 buffer w =
      Some (0, cluster_data disk fs (ucast c) @ drop 512 buffer, w1)"
    using read_cluster16 [OF srv fl on, of 0 buffer w] assms(16) cs by auto
  let ?b = "cluster_data disk fs (ucast c) @ drop 512 buffer"
  have len: "length (cluster_data disk fs (ucast c)) = 512"
    using on length_sectors_of [OF srv(4), of _ 1] by (simp add: cluster_data_def on_disk_def floppy_cluster_size [OF fl])
  then have "512 * (1 + length cs') \<le> length ?b" using assms(16) cs by simp
  then obtain w2 where "load_rest b (int spt) (fat (instance_data fs)) c 1 ?b w1 = Some (0,
      take (512 * 1) ?b @ concat (map (cluster_data disk fs \<circ> ucast) cs') @ drop (512 * (1 + length cs')) ?b, w2)"
    using load_rest_chain [OF srv fl refl, of c cs' 1 ?b w1] assms(13,14,15) cs by auto
  moreover have "drop (512 * (1 + length cs')) ?b = drop (512 * length cs) buffer"
    using len cs by (simp add: add.commute)
  ultimately show ?thesis
    using findFile_named [OF assms(7,8) _ assms(10), of 0] iu nf entry_at_bytes [OF i(2,1)] assms(11,12) rd len cs
    by (simp add: loadFile_def)
qed

text \<open>Reading leaves the keyboard and what has been printed alone.\<close>

definition quiet :: "('w \<Rightarrow> byte list) \<Rightarrow> ('w \<Rightarrow> byte list) \<Rightarrow> 'w \<Rightarrow> 'w \<Rightarrow> bool" where
  "quiet keys printed w w' \<longleftrightarrow> keys w' = keys w \<and> printed w' = printed w"

lemma readSectorsLBA_quiet [frame]:
  assumes "terminal b keys printed" and "readSectorsLBA b spt lba n buffer w = Some (r, buffer', w')"
  shows "quiet keys printed w w'"
proof -
  have "keys (snd (snd (int13_read b n d h s c w))) = keys w \<and> printed (snd (snd (int13_read b n d h s c w))) = printed w"
    for n d h s c w using assms(1) by (simp add: terminal_def)
  then show ?thesis using assms(2)
    by (auto simp: readSectorsLBA_def readSectors_def Let_def bind_eq_Some_conv quiet_def split: if_splits prod.splits)
      (metis snd_conv)+
qed

lemma load_rest_quiet_step:
  fixes b :: "'w bios"
  shows "load_rest b spt F c k buffer w = Some y \<Longrightarrow> terminal b keys printed \<longrightarrow> quiet keys printed w (snd (snd y))"
proof (rule load_rest.raw_induct [where P = "\<lambda>b spt F c k buffer w y. terminal b keys printed \<longrightarrow> quiet keys printed w (snd (snd y))"])
  fix rec :: "'w bios \<Rightarrow> int \<Rightarrow> byte list \<Rightarrow> u16 \<Rightarrow> nat \<Rightarrow> byte list \<Rightarrow> 'w \<Rightarrow> (byte \<times> byte list \<times> 'w) option"
    and b :: "'w bios" and spt F c k buffer w y
  assume IH: "\<And>b spt F c k buffer w y. rec b spt F c k buffer w = Some y \<Longrightarrow>
      terminal b keys printed \<longrightarrow> quiet keys printed w (snd (snd y))"
  assume step: "do {
     cluster \<leftarrow> getFATEntry F c;
     if cluster = 0xFFF then Some (0, buffer, w)
     else do {
       let at = BYTES_PER_SECTOR * k;
       (readResult, rest, w) \<leftarrow> readSectorsLBA b spt (sint (cluster + 31)) 1 (drop at buffer) w;
       let buffer = take at buffer @ rest;
       if readResult \<noteq> 0 then Some (readResult, buffer, w)
       else rec b spt F cluster (k + 1) buffer w } } = Some y"
  show "terminal b keys printed \<longrightarrow> quiet keys printed w (snd (snd y))"
  proof
    assume t: "terminal b keys printed"
    obtain e where e: "getFATEntry F c = Some e" using step by (auto simp: bind_eq_Some_conv)
    show "quiet keys printed w (snd (snd y))"
    proof (cases "e = 0xFFF")
      case True
      with e step show ?thesis by (auto simp: quiet_def)
    next
      case False
      with e step obtain r rest w1 where r: "readSectorsLBA b spt (sint (e + 31)) 1 (drop (BYTES_PER_SECTOR * k) buffer) w = Some (r, rest, w1)"
        by (auto simp: bind_eq_Some_conv Let_def)
      note q = readSectorsLBA_quiet [OF t r]
      show ?thesis
      proof (cases "r = 0")
        case True
        with e False step r have "rec b spt F e (k + 1) (take (BYTES_PER_SECTOR * k) buffer @ rest) w1 = Some y"
          by (simp add: Let_def)
        with IH [OF this] t q show ?thesis by (simp add: quiet_def)
      next
        case False
        then have "y = (r, take (BYTES_PER_SECTOR * k) buffer @ rest, w1)"
          using e \<open>e \<noteq> 0xFFF\<close> step r by (simp add: Let_def)
        then show ?thesis using q by simp
      qed
    qed
  qed
qed

lemmas load_rest_quiet [frame] = load_rest_quiet_step [rule_format]

lemma loadFile_quiet [frame]:
  assumes "terminal b keys printed" and "loadFile b spt F dir n fname stack buffer w = Some (r, buffer', w')"
  shows "quiet keys printed w w'"
proof -
  note q = readSectorsLBA_quiet [OF assms(1)] load_rest_quiet [OF _ assms(1)]
  obtain i where i: "findFile dir [0..<n] fname stack = Some i" using assms(2) by (auto simp: loadFile_def bind_eq_Some_conv)
  show ?thesis
  proof (cases "i = 0xFFFF")
    case True
    then show ?thesis using assms(2) i by (simp add: loadFile_def quiet_def)
  next
    case False
    then obtain e c r1 b1 w1 where e: "entry_at dir (unat i) = Some e" "startOfFile e = Some c"
      "readSectorsLBA b spt (sint (c + 31)) 1 buffer w = Some (r1, b1, w1)"
      using assms(2) i by (auto simp: loadFile_def bind_eq_Some_conv)
    show ?thesis
    proof (cases "r1 = 0")
      case True
      then obtain r2 b2 w2 where r: "load_rest b spt F c 1 b1 w1 = Some (r2, b2, w2)" "w' = w2"
        using assms(2) i False e by (auto simp: loadFile_def bind_eq_Some_conv split: if_splits)
      then show ?thesis using q(1) [OF e(3)] q(2) [OF r(1)] by (simp add: quiet_def)
    qed (use assms(2) i False e q(1) [OF e(3)] in \<open>simp add: loadFile_def\<close>)
  qed
qed

section \<open>A machine to run on\<close>

text \<open>A BIOS over the contents of a disk, keys that are typed in advance and a clock that stands.\<close>

record pc =
  pc_keys :: "byte list"
  pc_printed :: "byte list"

definition pc_bios :: "byte list list \<Rightarrow> nat \<Rightarrow> pc bios" where
  "pc_bios disk spt = \<lparr>int10_set_mode = (\<lambda>m w. w\<lparr>pc_printed := []\<rparr>),
     int10_teletype = (\<lambda>c p k w. w\<lparr>pc_printed := pc_printed w @ [c]\<rparr>),
     int13_read = (\<lambda>n d h s c w. let lba = (2 * unat c + unat h) * spt + (unat s - 1) in
       if lba + unat n \<le> length disk then (0, sectors_of disk lba (unat n), w) else (4, [], w)),
     int15_power_off = (\<lambda>w. None),
     int16_read_key = (\<lambda>w. case pc_keys w of [] \<Rightarrow> None | c # cs \<Rightarrow> Some (c, w\<lparr>pc_keys := cs\<rparr>)),
     int19_bootstrap = (\<lambda>w. None),
     int1A_time = (\<lambda>w. ((bcd 12, bcd 34, bcd 56), w)),
     poke = (\<lambda>i c w. w)\<rparr>"

lemma pc_bios_serves: "serves_chs (pc_bios disk spt) spt disk"
  by (simp add: serves_chs_def pc_bios_def Let_def)

lemma pc_bios_terminal: "terminal (pc_bios disk spt) pc_keys pc_printed"
  by (simp add: terminal_def pc_bios_def Let_def)

text \<open>A floppy with the file A.TXT of 600 bytes in the clusters 2 and 3.\<close>

definition a_txt :: "byte list" where
  "a_txt = str ''A       TXT'' @ [0x20] @ replicate 14 0 @ [2, 0, 0x58, 0x02, 0, 0]"

definition a_disk :: "byte list list" where
  "a_disk = map (\<lambda>i. if i = 19 then a_txt @ replicate 480 0 else replicate 512 (of_nat i)) [0..<36]"

definition a_fs :: "fat_instance file_system" where
  "a_fs = \<lparr>device = \<lparr>dev_type = HARD_DISK, device_num = 0, partition = 1, offset = 0,
       block_size = 512, driver = Ata_Driver, driver_specific_data = 0\<rparr>,
     case_sensitive = False,
     instance_data = \<lparr>fat = [0xF0, 0xFF, 0xFF, 0x03, 0xF0, 0xFF], fat_type = FAT12,
       fi_sectors_per_cluster = 1, fi_num_reserved_sectors = 1, fi_num_fats = 2,
       fi_sectors_per_fat = 9, fi_max_root_directory_entries = 224, fi_total_sectors = 36,
       fi_root_dir_start = 19, fi_volume_id = 0, fi_partition_volume_label = []\<rparr>\<rparr>"

lemma a_txt_entry:
  "length a_txt = 32" "dir_entry_bytes (a_txt @ r) 0 = a_txt" "a_txt ! 0 \<noteq> 0"
  "file_name a_txt = Some (str ''A.TXT'')" "startOfFile a_txt = Some 2" "fileSize a_txt = Some 600"
proof -
  have r: "replicate 14 (0 :: byte) = [0, 0, 0, 0, 0, 0, 0, 0, 0, 0, 0, 0, 0, 0]" by (simp add: numeral_eq_Suc)
  show "length a_txt = 32" by (simp add: a_txt_def)
  then show "dir_entry_bytes (a_txt @ r) 0 = a_txt" by (simp add: dir_entry_bytes_def)
  show "a_txt ! 0 \<noteq> 0" "file_name a_txt = Some (str ''A.TXT'')" "startOfFile a_txt = Some 2" "fileSize a_txt = Some 600"
    by (simp_all add: a_txt_def r str_def file_name_def startOfFile_def fileSize_def rd16_def rd32_def le16_def le32_def)
qed

lemma a_named: "named_entry (a_txt @ replicate 480 0) 16 (str ''A.TXT'') 0"
  by (simp add: named_entry_def a_txt_entry)

lemma a_disk_sectors:
  "length a_disk = 36" "sectors_512 a_disk" "i < 36 \<Longrightarrow> sectors_of a_disk i 1 = a_disk ! i"
proof -
  show l: "length a_disk = 36" by (simp add: a_disk_def)
  show "sectors_512 a_disk" by (auto simp: sectors_512_def a_disk_def list_all_iff a_txt_entry)
  show "i < 36 \<Longrightarrow> sectors_of a_disk i 1 = a_disk ! i"
    using l by (simp add: sectors_of_def take_Suc_conv_app_nth [of 0 "drop i a_disk", simplified])
qed

lemma a_disk_serves: "serves (image_driver a_disk) d a_disk"
  using a_disk_sectors by (intro image_driver_serves) simp_all

lemma a_volume:
  "floppy_layout a_fs" "chain a_fs [2, 3]" "list_all (on_disk a_disk a_fs) [2, 3]"
  "getFATEntry (fat (instance_data a_fs)) 3 = Some 0xFFF"
  "cluster_data a_disk a_fs 2 = replicate 512 33" "cluster_data a_disk a_fs 3 = replicate 512 34"
proof -
  show f: "floppy_layout a_fs" by (simp add: floppy_layout_def a_fs_def first_data_sector_def Let_def)
  note s = floppy_cluster_sector [OF f, of 2] floppy_cluster_sector [OF f, of 3] floppy_cluster_size [OF f]
  show "chain a_fs [2, 3]"
    by (simp add: a_fs_def fat12_decode_fat_entry_def cluster_is_end_of_chain_def Let_def)
  show "list_all (on_disk a_disk a_fs) [2, 3]" using s by (simp add: on_disk_def a_disk_sectors)
  show "getFATEntry (fat (instance_data a_fs)) 3 = Some 0xFFF" by (simp add: getFATEntry_def a_fs_def Let_def)
  show "cluster_data a_disk a_fs 2 = replicate 512 33" "cluster_data a_disk a_fs 3 = replicate 512 34"
  proof -
    have n: "a_disk ! 33 = replicate 512 33" "a_disk ! 34 = replicate 512 34" by (simp_all add: a_disk_def)
    have s': "cluster_sector a_fs 2 = 33" "cluster_sector a_fs 3 = 34" using s by simp_all
    have e: "sectors_of a_disk 33 1 = replicate 512 33" "sectors_of a_disk 34 1 = replicate 512 34"
      using a_disk_sectors(3) [of 33] a_disk_sectors(3) [of 34] n by simp_all
    show "cluster_data a_disk a_fs 2 = replicate 512 33" "cluster_data a_disk a_fs 3 = replicate 512 34"
      by (simp_all only: cluster_data_def s' s(3) e)
  qed
qed

section \<open>Properties\<close>

text \<open>
  C4: The loader of the 16-bit system and the FAT driver of the 32-bit kernel read the same bytes.
  For a file of a floppy, found by its name in the directory, whose chain in the table ends with the
  mark 0xFFF, \<open>loadFile\<close> finds it, asks the BIOS for each of its clusters by cylinder, head and sector,
  leaves in the buffer exactly what \<open>fat12_read_file\<close> leaves, nothing behind the last cluster
  included, and answers the size in the directory. (The loader takes other end marks, 0xFF8 to
  0xFFE, for clusters; the driver does not.)
\<close>

theorem loader_reads_like_driver:
  assumes "serves_chs b spt disk" and "0 < spt" and "spt < 64" and "sectors_512 disk" and "length disk \<le> 512 * spt"
    and "serves drv (device fs) disk" and "floppy_layout fs"
    and "named_entry dir n t i" and "holds fname t" and "n < 65536" and "length stack = 16"
    and "startOfFile (dir_entry_bytes dir i) = Some (hd cs)" and "fileSize (dir_entry_bytes dir i) = Some size1"
    and "chain fs (map ucast cs)" and "list_all (on_disk disk fs) (map ucast cs)"
    and "getFATEntry (fat (instance_data fs)) (last cs) = Some 0xFFF" and "512 * length cs \<le> length buffer"
  shows "\<exists>bytes w' h'.
    loadFile b (int spt) (fat (instance_data fs)) dir n fname stack buffer w = Some (sint size1, bytes, w') \<and>
    fat12_read_file drv fs (ucast (hd cs)) buffer m h = Some (SUCCESS, bytes, of_nat (length cs), h') \<and>
    bytes = concat (map (cluster_data disk fs \<circ> ucast) cs) @ drop (512 * length cs) buffer"
proof -
  have "cs \<noteq> []" using assms(14) by auto
  then have hd: "hd (map ucast cs) = (ucast (hd cs) :: u32)" by (simp add: list.map_sel(1))
  have "length disk < 2 ^ 32" using assms(3,5) by simp
  from read_file_one_sector [OF assms(6,4) this floppy_cluster_size [OF assms(7)] assms(14,15), of buffer m h] assms(17)
  obtain h' where "fat12_read_file drv fs (ucast (hd cs)) buffer m h = Some (SUCCESS,
      concat (map (cluster_data disk fs \<circ> ucast) cs) @ drop (512 * length cs) buffer, of_nat (length cs), h')"
    by (auto simp: hd)
  with loadFile_chain [OF assms(1-5,7-17), of w] show ?thesis by blast
qed

theorem loader_reads_like_driver_witness:
  "\<forall>w. \<exists>w'. loadFile (pc_bios a_disk 18) 18 (fat (instance_data a_fs)) (a_txt @ replicate 480 0) 16 (str ''A.TXT'' @ [0])
     (replicate 16 0) (replicate 1100 9) w = Some (600, replicate 512 33 @ replicate 512 34 @ replicate 76 9, w')"
proof
  fix w
  let ?cs = "[2, 3] :: u16 list"
  have h: "holds (str ''A.TXT'' @ [0]) (str ''A.TXT'')" by (simp add: str_def)
  have "\<exists>bytes w' h'.
    loadFile (pc_bios a_disk 18) (int 18) (fat (instance_data a_fs)) (a_txt @ replicate 480 0) 16 (str ''A.TXT'' @ [0])
      (replicate 16 0) (replicate 1100 9) w = Some (sint (600 :: u32), bytes, w') \<and>
    fat12_read_file (image_driver a_disk) a_fs (ucast (hd ?cs)) (replicate 1100 9) 0 () =
      Some (SUCCESS, bytes, of_nat (length ?cs), h') \<and>
    bytes = concat (map (cluster_data a_disk a_fs \<circ> ucast) ?cs) @ drop (512 * length ?cs) (replicate 1100 9)"
    by (rule loader_reads_like_driver [OF pc_bios_serves _ _ a_disk_sectors(2) _ a_disk_serves a_volume(1) a_named h])
       (insert a_volume(3), simp_all add: a_disk_sectors a_txt_entry a_volume del: chain.simps)
  then show "\<exists>w'. loadFile (pc_bios a_disk 18) 18 (fat (instance_data a_fs)) (a_txt @ replicate 480 0) 16
      (str ''A.TXT'' @ [0]) (replicate 16 0) (replicate 1100 9) w =
      Some (600, replicate 512 33 @ replicate 512 34 @ replicate 76 9, w')"
    by (auto simp: a_volume)
qed

end
