(* ===== verification/RealShell.thy ===== *)
theory RealShell
  imports RealDisk Format
begin

text \<open>
  The command interpreter of the earlier system, \<open>16bit/src/kernel/kernel.c\<close>, and the two programs
  written in C that it can run.
\<close>

section \<open>The state\<close>

text \<open>
  The static data of the kernel: the allocation table, the line of a command, the text of the clock,
  the sector of the root directory, the buffer of a file, and the segment 0x4000 that programs are
  loaded into. \<open>uninit\<close> is what the arrays of the stack hold.
\<close>

record 'w real_kernel =
  rk_FAT :: "byte list"
  rk_command :: "byte list"
  rk_timeString :: "byte list"
  rk_diskBuffer :: "byte list"
  rk_fileBuffer :: "byte list"
  rk_program :: "byte list"
  rk_world :: 'w

record 'w real_env =
  re_bios :: "'w bios"
  re_spt :: int
  re_uninit :: "byte list"
  re_application :: "byte list \<Rightarrow> 'w \<Rightarrow> (byte list \<times> 'w) option"

definition do_print :: "'w real_env \<Rightarrow> byte list \<Rightarrow> 'w real_kernel \<Rightarrow> 'w real_kernel option" where
  "do_print v s k = do { w \<leftarrow> print (re_bios v) s (rk_world k); Some (k\<lparr>rk_world := w\<rparr>) }"

definition do_println :: "'w real_env \<Rightarrow> byte list \<Rightarrow> 'w real_kernel \<Rightarrow> 'w real_kernel option" where
  "do_println v s k = do { w \<leftarrow> println (re_bios v) s (rk_world k); Some (k\<lparr>rk_world := w\<rparr>) }"

definition updateClock :: "'w real_env \<Rightarrow> 'w real_kernel \<Rightarrow> 'w real_kernel option" where
  "updateClock v k = do {
     (t, w) \<leftarrow> getTimeString (re_bios v) (rk_timeString k) (rk_world k);
     w \<leftarrow> printScreenDirect (re_bios v) 0 70 t w;
     Some (k\<lparr>rk_timeString := t, rk_world := w\<rparr>) }"

section \<open>Commands\<close>

definition read_root :: "'w real_env \<Rightarrow> 'w real_kernel \<Rightarrow> (byte \<times> 'w real_kernel) option" where
  "read_root v k = do {
     (r, buf, w) \<leftarrow> readRootDirectory (re_bios v) (re_spt v) (rk_diskBuffer k) (rk_world k);
     Some (r, k\<lparr>rk_diskBuffer := buf, rk_world := w\<rparr>) }"

text \<open>
  The listing goes on to the first entry whose name starts with a zero; the sector has 16 entries.
  The size is cut to an \<open>int\<close>.
\<close>

function list_entries :: "'w real_env \<Rightarrow> nat \<Rightarrow> byte list \<Rightarrow> 'w real_kernel \<Rightarrow> 'w real_kernel option" where
  "list_entries v dirIndex responseString k =
     (if length (rk_diskBuffer k) < DIR_ENTRY_SIZE * dirIndex + DIR_ENTRY_SIZE then None
      else do {
        e \<leftarrow> entry_at (rk_diskBuffer k) dirIndex;
        if e ! 0 = 0 then Some k
        else do {
          (_, name) \<leftarrow> getFileName e (replicate 16 0);
          name \<leftarrow> pad name 14;
          n \<leftarrow> fileSize e;
          responseString \<leftarrow> intToString16 (sint (ucast n :: u16)) responseString;
          w \<leftarrow> print (re_bios v) name (rk_world k);
          w \<leftarrow> print (re_bios v) responseString w;
          w \<leftarrow> print (re_bios v) (str '' bytes'' @ [0]) w;
          w \<leftarrow> println (re_bios v) [0] w;
          list_entries v (dirIndex + 1) responseString (k\<lparr>rk_world := w\<rparr>) } })"
  by pat_completeness auto
termination
  by (relation "measure (\<lambda>(v, i, r, k). length (rk_diskBuffer k) - i)") (auto simp: DIR_ENTRY_SIZE_def)

declare list_entries.simps [simp del]

definition dir_command :: "'w real_env \<Rightarrow> 'w real_kernel \<Rightarrow> 'w real_kernel option" where
  "dir_command v k = do {
     (responseCode, k) \<leftarrow> read_root v k;
     let responseString = replicate 16 0;
     (responseString, k) \<leftarrow>
       (if responseCode \<noteq> 0 then do {
          responseString \<leftarrow> intToStringHex (int (unat responseCode)) responseString;
          k \<leftarrow> do_print v (str ''Error 0x'' @ [0]) k;
          k \<leftarrow> do_println v responseString k;
          Some (responseString, k) }
        else Some (responseString, k));
     list_entries v 0 responseString k }"

text \<open>
  The length is the answer of \<open>loadFile\<close> as an \<open>int\<close> of 16 bits.
\<close>

definition to_int16 :: "int \<Rightarrow> int" where
  "to_int16 n = sint (of_int n :: u16)"

definition could_not_load :: "'w real_env \<Rightarrow> 'w real_kernel \<Rightarrow> 'w real_kernel option" where
  "could_not_load v k = do_println v (str ''Couldn't load this file'' @ [0]) k"

definition print_command :: "'w real_env \<Rightarrow> byte list \<Rightarrow> 'w real_kernel \<Rightarrow> 'w real_kernel option" where
  "print_command v fname k = do {
     (_, k) \<leftarrow> read_root v k;
     (r, buf, w) \<leftarrow> loadFile (re_bios v) (re_spt v) (rk_FAT k) (rk_diskBuffer k) 16 fname (re_uninit v)
       (rk_fileBuffer k) (rk_world k);
     let k = k\<lparr>rk_fileBuffer := buf, rk_world := w\<rparr>;
     let len = to_int16 r;
     if len < 0 then could_not_load v k
     else do {
       k \<leftarrow> do_print v (str ''Length: '' @ [0]) k;
       w \<leftarrow> printInt (re_bios v) (re_uninit v) len (rk_world k);
       k \<leftarrow> do_println v (str '' bytes'' @ [0]) (k\<lparr>rk_world := w\<rparr>);
       k \<leftarrow> do_println v [0] k;
       w \<leftarrow> printRange (re_bios v) (rk_fileBuffer k) [0..<nat len] 0 0 (rk_world k);
       do_println v [0] (k\<lparr>rk_world := w\<rparr>) } }"

text \<open>A program is loaded to the start of its segment; the second component says whether it was.\<close>

definition load_program :: "'w real_env \<Rightarrow> byte list \<Rightarrow> 'w real_kernel \<Rightarrow> (bool \<times> 'w real_kernel) option" where
  "load_program v fname k = do {
     (_, k) \<leftarrow> read_root v k;
     (r, buf, w) \<leftarrow> loadFile (re_bios v) (re_spt v) (rk_FAT k) (rk_diskBuffer k) 16 fname (re_uninit v)
       (rk_program k) (rk_world k);
     let k = k\<lparr>rk_program := buf, rk_world := w\<rparr>;
     if to_int16 r < 0 then do { k \<leftarrow> could_not_load v k; Some (False, k) } else Some (True, k) }"

definition load_command :: "'w real_env \<Rightarrow> byte list \<Rightarrow> 'w real_kernel \<Rightarrow> 'w real_kernel option" where
  "load_command v fname k = map_option snd (load_program v fname k)"

definition run_command16 :: "'w real_env \<Rightarrow> byte list \<Rightarrow> 'w real_kernel \<Rightarrow> 'w real_kernel option" where
  "run_command16 v fname k = do {
     (loaded, k) \<leftarrow> load_program v fname k;
     if \<not> loaded then Some k
     else do {
       (p, w) \<leftarrow> re_application v (rk_program k) (rk_world k);
       Some (k\<lparr>rk_program := p, rk_world := w\<rparr>) } }"

definition time_command :: "'w real_env \<Rightarrow> 'w real_kernel \<Rightarrow> 'w real_kernel option" where
  "time_command v k = do {
     (t, w) \<leftarrow> getTimeString (re_bios v) (replicate 16 0) (rk_world k);
     do_println v t (k\<lparr>rk_world := w\<rparr>) }"

definition reboot16 :: "'w real_env \<Rightarrow> 'w real_kernel \<Rightarrow> 'w real_kernel option" where
  "reboot16 v k = map_option (\<lambda>w. k\<lparr>rk_world := w\<rparr>) (int19_bootstrap (re_bios v) (rk_world k))"

text \<open>The chain of tests in the loop of \<open>kernelMain\<close>; \<open>halt\<close> loops for ever.\<close>

definition is_command :: "byte list \<Rightarrow> string \<Rightarrow> bool option" where
  "is_command cmd name = strcmp16 cmd (str name @ [0])"

definition has_prefix :: "byte list \<Rightarrow> string \<Rightarrow> bool option" where
  "has_prefix cmd name = strcmp_wl16 cmd (str name @ [0]) (length name)"

definition interpret_command :: "'w real_env \<Rightarrow> byte list \<Rightarrow> 'w real_kernel \<Rightarrow> 'w real_kernel option" where
  "interpret_command v cmd k = do {
     sayhi \<leftarrow> is_command cmd ''sayhi'';
     if sayhi then do_println v (str ''HI!!!'' @ [0]) k else do {
     reboot \<leftarrow> is_command cmd ''reboot'';
     if reboot then reboot16 v k else do {
     time \<leftarrow> is_command cmd ''time'';
     if time then time_command v k else do {
     dir \<leftarrow> is_command cmd ''dir'';
     if dir then dir_command v k else do {
     pr \<leftarrow> has_prefix cmd ''print '';
     if pr then print_command v (drop 6 cmd) k else do {
     ld \<leftarrow> has_prefix cmd ''load '';
     if ld then load_command v (drop 5 cmd) k else do {
     rn \<leftarrow> has_prefix cmd ''run '';
     if rn then run_command16 v (drop 4 cmd) k else do {
     halt \<leftarrow> is_command cmd ''halt'';
     if halt then None else do {
     off \<leftarrow> is_command cmd ''shutdown'';
     if off then map_option (\<lambda>w. k\<lparr>rk_world := w\<rparr>) (shutdown (re_bios v) (rk_world k)) else do {
     test \<leftarrow> is_command cmd ''test'';
     if test then do_println v (str ''Test'' @ [0]) k
     else do_println v (str ''Unknown command'' @ [0]) k } } } } } } } } } }"

section \<open>The kernel\<close>

text \<open>The top row in black on white, with the name of the system and the clock.\<close>

definition draw_header :: "'w real_env \<Rightarrow> 'w real_kernel \<Rightarrow> 'w real_kernel option" where
  "draw_header v k = do {
     let w = fold (\<lambda>i w. poke (re_bios v) (of_nat i * 2 + 1) 0x71 (poke (re_bios v) (of_nat i * 2) 0x20 w)) [0..<80] (rk_world k);
     w \<leftarrow> printScreenDirect (re_bios v) 0 1 (str ''GeorgeOS'' @ [0]) w;
     updateClock v (k\<lparr>rk_world := w\<rparr>) }"

definition kernel_start :: "'w real_env \<Rightarrow> 'w real_kernel \<Rightarrow> 'w real_kernel option" where
  "kernel_start v k = do {
     let w = clearScreen (re_bios v) (rk_world k);
     (_, f, w) \<leftarrow> loadFAT (re_bios v) (re_spt v) (rk_FAT k) w;
     let w = printNl (re_bios v) (printNl (re_bios v) w);
     do_println v (str ''Welcome to GeorgeOS!'' @ [0x0D, 0x0A, 0]) (k\<lparr>rk_FAT := f, rk_world := w\<rparr>) }"

text \<open>One turn of the endless loop.\<close>

definition kernel_turn :: "'w real_env \<Rightarrow> 'w real_kernel \<Rightarrow> 'w real_kernel option" where
  "kernel_turn v k = do {
     k \<leftarrow> draw_header v k;
     k \<leftarrow> do_print v (str ''> '' @ [0]) k;
     (c, w) \<leftarrow> getString (re_bios v) (rk_command k) 1 (rk_world k);
     interpret_command v c (k\<lparr>rk_command := c, rk_world := w\<rparr>) }"

section \<open>Programs\<close>

text \<open>
  \<open>handleCall\<close> is the test of the interrupt; \<open>appMain\<close> of \<open>test.c\<close> and of \<open>myname.c\<close>, whose
  calls go through interrupt 0x21 to the routines of the console of the same names.
\<close>

definition handleCall :: "'w bios \<Rightarrow> 'w \<Rightarrow> 'w option" where
  "handleCall b w = println b (str ''test'' @ [0]) w"

definition test_appMain :: "'w bios \<Rightarrow> 'w \<Rightarrow> 'w option" where
  "test_appMain b w = println b (str ''Hello, GeorgeOS!'' @ [0]) w"

definition myname_appMain :: "'w bios \<Rightarrow> byte list \<Rightarrow> 'w \<Rightarrow> 'w option" where
  "myname_appMain b name w = do {
     w \<leftarrow> println b (str ''Hello, what is your name?'' @ [0]) w;
     w \<leftarrow> print b (str ''Name: '' @ [0]) w;
     (name, w) \<leftarrow> getString b name 1 w;
     w \<leftarrow> print b (str ''Nice to meet you, '' @ [0]) w;
     w \<leftarrow> println b name w;
     println b (str ''Goodbye'' @ [0]) w }"

section \<open>The commands told apart\<close>

lemma is_command_of_holds [in_bounds]:
  assumes "holds cmd text" and "length text < 65535" and "is_cstr (str name)" and "length name < 65535"
  shows "is_command cmd name = Some (text = str name)"
proof -
  have "holds (str name @ [0]) (str name)" using assms(3) by (auto simp: holds_def)
  from strcmp16_of_holds [OF assms(1) this assms(2)] assms(4) show ?thesis by (simp add: is_command_def)
qed

lemma has_prefix_of_holds [in_bounds]:
  assumes "holds cmd text" and "is_cstr (str name)"
  shows "has_prefix cmd name = Some (take (length name) text = str name)"
proof -
  have "holds (str name @ [0]) (str name)" using assms(2) by (auto simp: holds_def)
  from strcmp_wl_prefix [OF assms(1) this] show ?thesis by (simp add: has_prefix_def)
qed

lemma command_names:
  "is_cstr (str ''sayhi'')" "is_cstr (str ''reboot'')" "is_cstr (str ''time'')" "is_cstr (str ''dir'')" "is_cstr (str ''print '')"
  by (simp_all add: str_def)

lemma interpret_print:
  assumes "holds cmd (str ''print '' @ t)" and "length t < 60000"
  shows "interpret_command v cmd k = print_command v (drop 6 cmd) k"
proof -
  have n: "str ''print '' @ t \<noteq> str ''sayhi''" "str ''print '' @ t \<noteq> str ''reboot''" "str ''print '' @ t \<noteq> str ''time''"
    "str ''print '' @ t \<noteq> str ''dir''" by (simp_all add: str_def)
  have l: "length (str ''print '' @ t) < 65535" using assms(2) by simp
  note c = is_command_of_holds [OF assms(1) l]
  have p: "has_prefix cmd ''print '' = Some True"
    using has_prefix_of_holds [OF assms(1) command_names(5)] by simp
  show ?thesis using c [OF command_names(1)] c [OF command_names(2)] c [OF command_names(3)] c [OF command_names(4)] n p
    by (simp add: interpret_command_def)
qed

section \<open>Numbers\<close>

lemma places16_digits:
  "0 < n \<Longrightarrow> n < 10 ^ k \<Longrightarrow> length buffer + k \<le> 16 \<Longrightarrow> places16 10 (int n) buffer = Some (buffer @ digits 10 n)"
proof (induction k arbitrary: n buffer)
  case (Suc k)
  have m: "int n smod 10 = int (n mod 10)" "int n sdiv 10 = int (n div 10)"
    by (simp_all add: sdiv_nonneg smod_nonneg zdiv_int zmod_int)
  have d: "(0x30 :: byte) + of_int (int (n mod 10)) = bchars ! (n mod 10)"
    by (simp only: of_int_of_nat_eq) (simp add: bchars_decimal)
  have step: "digits 10 n = bchars ! (n mod 10) # digits 10 (n div 10)"
    using Suc.prems by (simp add: digits.simps [of 10 n])
  show ?case
  proof (cases "n div 10 = 0")
    case True
    then have "digits 10 (n div 10) = []" by simp
    with True show ?thesis using Suc.prems d step
      by (simp only: places16.simps [of 10 "int n"] Let_def m) simp
  next
    case False
    have "places16 10 (int (n div 10)) (buffer @ [bchars ! (n mod 10)]) =
        Some ((buffer @ [bchars ! (n mod 10)]) @ digits 10 (n div 10))"
      using Suc.prems False by (intro Suc.IH) (auto simp: less_mult_imp_div_less mult.commute)
    then show ?thesis using Suc.prems False d step
      by (simp only: places16.simps [of 10 "int n"] Let_def m) simp
  qed
qed simp

lemma intToString16_digits:
  assumes "n < 10 ^ 5" and "length (numeral_text 10 n) < length string"
  shows "intToString16 (int n) string =
    Some (numeral_text 10 n @ 0 # drop (Suc (length (numeral_text 10 n))) string)"
proof -
  have "\<exists>b. places16 10 (int n) [] = Some b \<and> rev b = numeral_text 10 n"
  proof (cases "n = 0")
    case True
    then show ?thesis by (simp add: places16.simps [of 10 0] sdiv_nonneg smod_nonneg numeral_text_def)
  next
    case False
    then show ?thesis using places16_digits [of n 5 "[]"] assms(1) by (simp add: numeral_text_def)
  qed
  then obtain b where b: "places16 10 (int n) [] = Some b" "rev b = numeral_text 10 n" by blast
  then have "length b = length (numeral_text 10 n)" by (metis length_rev)
  then show ?thesis using blit_terminated [OF assms(2)] b
    by (simp add: intToString16_def)
qed

section \<open>The machine and the kernel on it\<close>

text \<open>
  A machine with a keyboard, a screen, a clock that shows a time of day and a floppy of the assumed
  layout; and a kernel that has read the allocation table of the floppy.
\<close>

definition floppy_machine ::
  "'w real_env \<Rightarrow> ('w \<Rightarrow> byte list) \<Rightarrow> ('w \<Rightarrow> byte list) \<Rightarrow> nat \<Rightarrow> byte list list \<Rightarrow> fat_instance file_system \<Rightarrow> bool" where
  "floppy_machine v keys printed spt disk fs \<longleftrightarrow>
     terminal (re_bios v) keys printed \<and> serves_chs (re_bios v) spt disk \<and> re_spt v = int spt \<and>
     0 < spt \<and> spt < 64 \<and> sectors_512 disk \<and> 20 \<le> length disk \<and> length disk \<le> 512 * spt \<and>
     floppy_layout fs \<and> length (re_uninit v) = 16 \<and>
     (\<forall>w. \<exists>h m s w'. int1A_time (re_bios v) w = ((bcd h, bcd m, bcd s), w') \<and> h < 100 \<and> m < 100 \<and> s < 100)"

definition kernel_ready :: "'w real_kernel \<Rightarrow> fat_instance file_system \<Rightarrow> bool" where
  "kernel_ready k fs \<longleftrightarrow> rk_FAT k = fat (instance_data fs) \<and> length (rk_command k) = 128 \<and>
     length (rk_timeString k) = 16 \<and> length (rk_diskBuffer k) = 512 \<and> length (rk_fileBuffer k) = 8192"

lemma machineD:
  assumes "floppy_machine v keys printed spt disk fs"
  shows "terminal (re_bios v) keys printed" "serves_chs (re_bios v) spt disk" "re_spt v = int spt"
    "0 < spt" "spt < 64" "sectors_512 disk" "20 \<le> length disk" "length disk \<le> 512 * spt"
    "floppy_layout fs" "length (re_uninit v) = 16"
  using assms by (simp_all add: floppy_machine_def)

lemma time_holds: "h < 100 \<Longrightarrow> m < 100 \<Longrightarrow> s < 100 \<Longrightarrow> holds (time_text h m s @ 0 # r) (time_text h m s)"
  by (intro holds_intro) (simp add: time_text_def two_digits_cstr)

lemma updateClock_quiet:
  assumes "floppy_machine v keys printed spt disk fs" and "9 \<le> length (rk_timeString k)"
  shows "\<exists>t w. updateClock v k = Some (k\<lparr>rk_timeString := t, rk_world := w\<rparr>) \<and>
    length t = length (rk_timeString k) \<and> quiet keys printed (rk_world k) w"
proof -
  note t = machineD(1) [OF assms(1)]
  obtain h m s w1 where c: "int1A_time (re_bios v) (rk_world k) = ((bcd h, bcd m, bcd s), w1)" "h < 100" "m < 100" "s < 100"
    using assms(1) unfolding floppy_machine_def by blast
  have q: "quiet keys printed (rk_world k) w1" using t c(1) unfolding terminal_def quiet_def by (metis snd_conv)
  let ?t = "time_text h m s @ 0 # drop 9 (rk_timeString k)"
  obtain w2 where p: "poke_string (re_bios v) (ucast (0 :: byte) * 80 + ucast (70 :: byte)) ?t w1 = Some w2"
    using poke_string_returns [OF time_holds [OF c(2-4)], where b = "re_bios v" and w = w1] by blast
  have "quiet keys printed w1 w2" using terminal_poke_string [OF t p] by (simp add: quiet_def)
  then have "quiet keys printed (rk_world k) w2" using q by (simp add: quiet_def)
  moreover have "length ?t = length (rk_timeString k)" using assms(2) by (simp add: time_text_def two_digits_def)
  moreover have "updateClock v k = Some (k\<lparr>rk_timeString := ?t, rk_world := w2\<rparr>)"
    using getTimeString_text [OF c(1-4) assms(2)] p by (simp only: updateClock_def printScreenDirect_def bind.bind_lunit split_conv)
  ultimately show ?thesis by blast
qed

lemma header_quiet:
  assumes "floppy_machine v keys printed spt disk fs" and "9 \<le> length (rk_timeString k)"
  shows "\<exists>t w. draw_header v k = Some (k\<lparr>rk_timeString := t, rk_world := w\<rparr>) \<and>
    length t = length (rk_timeString k) \<and> quiet keys printed (rk_world k) w"
proof -
  note t = machineD(1) [OF assms(1)]
  let ?f = "\<lambda>i w. poke (re_bios v) (of_nat i * 2 + 1) 0x71 (poke (re_bios v) (of_nat i * 2) 0x20 w)"
  have q: "quiet keys printed w (fold ?f is w)" for "is" :: "nat list" and w
  proof (induction "is" arbitrary: w)
    case (Cons i "is")
    then show ?case using terminal_poke [OF t] by (simp add: quiet_def)
  qed (simp add: quiet_def)
  let ?w = "fold ?f [0..<80] (rk_world k)"
  have "holds (str ''GeorgeOS'' @ [0]) (str ''GeorgeOS'')" by (simp add: str_def)
  then obtain w1 where p: "poke_string (re_bios v) (ucast (0 :: byte) * 80 + ucast (1 :: byte)) (str ''GeorgeOS'' @ [0]) ?w = Some w1"
    using poke_string_returns [where b = "re_bios v" and w = ?w] by blast
  have "quiet keys printed ?w w1" using terminal_poke_string [OF t p] by (simp add: quiet_def)
  moreover obtain t' w2 where "updateClock v (k\<lparr>rk_world := w1\<rparr>) = Some (k\<lparr>rk_world := w1\<rparr>\<lparr>rk_timeString := t', rk_world := w2\<rparr>)"
    "length t' = length (rk_timeString k)" "quiet keys printed w1 w2"
    using updateClock_quiet [OF assms(1), of "k\<lparr>rk_world := w1\<rparr>"] assms(2) by auto
  ultimately have r: "draw_header v k = Some (k\<lparr>rk_timeString := t', rk_world := w2\<rparr>)"
    "quiet keys printed (rk_world k) w2" "length t' = length (rk_timeString k)"
    using p q [of "rk_world k" "[0..<80]"] by (simp_all add: draw_header_def printScreenDirect_def quiet_def)
  then show ?thesis by blast
qed

lemma do_print_text:
  "holds ob s \<Longrightarrow> do_print v ob k = Some (k\<lparr>rk_world := fold (printChar (re_bios v)) s (rk_world k)\<rparr>)"
  "holds ob s \<Longrightarrow> do_println v ob k = Some (k\<lparr>rk_world := fold (printChar (re_bios v)) (s @ [0x0D, 0x0A]) (rk_world k)\<rparr>)"
  by (simp_all add: do_print_def do_println_def print_of_holds println_of_holds)

text \<open>What the command \<open>print\<close> shows of a file.\<close>

definition shown_file :: "nat \<Rightarrow> byte list \<Rightarrow> byte list" where
  "shown_file n contents = str ''Length: '' @ numeral_text 10 n @ str '' bytes'' @ [0x0D, 0x0A] @ [0x0D, 0x0A] @
     take n contents @ [0x0D, 0x0A]"

lemma print_command_shows:
  assumes mc: "floppy_machine v keys printed spt disk fs" and rdy: "kernel_ready k fs"
    and nm: "named_entry (disk ! 19) 16 t i" and h: "holds fname t"
    and st: "startOfFile (dir_entry_bytes (disk ! 19) i) = Some (hd cs)"
      "fileSize (dir_entry_bytes (disk ! 19) i) = Some size1"
    and ch: "chain fs (map ucast cs)" "list_all (on_disk disk fs) (map ucast cs)"
      "getFATEntry (fat (instance_data fs)) (last cs) = Some 0xFFF"
    and len: "length cs \<le> 16" "unat size1 \<le> 512 * length cs"
  shows "\<exists>k'. print_command v fname k = Some k' \<and> keys (rk_world k') = keys (rk_world k) \<and>
    printed (rk_world k') = printed (rk_world k) @
      shown_file (unat size1) (concat (map (cluster_data disk fs \<circ> ucast) cs))"
proof -
  note m = machineD [OF mc]
  have k: "rk_FAT k = fat (instance_data fs)" "length (rk_diskBuffer k) = 512" "length (rk_fileBuffer k) = 8192"
    using rdy by (simp_all add: kernel_ready_def)
  let ?data = "concat (map (cluster_data disk fs \<circ> ucast) cs)" and ?n = "unat size1"
  let ?file = "?data @ drop (512 * length cs) (rk_fileBuffer k)"
  have s19: "sectors_of disk 19 1 = disk ! 19" "length (disk ! 19) = 512"
    using m(6,7) by (simp_all add: sectors_of_def take_Suc_conv_app_nth [of 0 "drop 19 disk", simplified] sectors_512_def list_all_length)
  have "19 mod spt + unat (1 :: byte) \<le> spt" using mod_less_divisor [OF m(4), of 19] by simp
  then obtain w1 where "readSectorsLBA (re_bios v) (int spt) (int 19) 1 (rk_diskBuffer k) (rk_world k) =
      Some (0, sectors_of disk 19 1 @ drop 512 (rk_diskBuffer k), w1)"
    using readSectorsLBA_serves [OF m(2,4,5,6,8), of 19 1 "rk_diskBuffer k" "rk_world k"] m(7) k(2) by auto
  then have root: "readSectorsLBA (re_bios v) (int spt) 19 1 (rk_diskBuffer k) (rk_world k) = Some (0, disk ! 19, w1)"
    using s19 k(2) by simp
  obtain w2 where ld: "loadFile (re_bios v) (int spt) (fat (instance_data fs)) (disk ! 19) 16 fname (re_uninit v) (rk_fileBuffer k) w1 =
      Some (sint size1, ?file, w2)"
    using loadFile_chain [OF m(2,4,5,6,8,9) nm h _ m(10) st ch, of "rk_fileBuffer k" w1] len(1) k(3) by auto
  have q: "quiet keys printed (rk_world k) w2"
    using readSectorsLBA_quiet [OF m(1) root] loadFile_quiet [OF m(1) ld] by (simp add: quiet_def)
  have n: "?n < 32768" using len by linarith
  have size1: "sint size1 = int ?n"
  proof -
    have "int ?n = uint size1" by (rule uint_nat [symmetric])
    with n have "uint size1 < 2147483648" "- 2147483648 \<le> uint size1" by linarith+
    then show ?thesis by (simp add: sint_uint signed_take_bit_int_eq_self)
  qed
  have cut: "to_int16 (int ?n) = int ?n"
  proof -
    define x where "x = (of_nat ?n :: u16)"
    have "unat x = ?n" unfolding x_def using n by (simp only: unat_of_nat) simp
    moreover have "int (unat x) = uint x" by (rule uint_nat [symmetric])
    ultimately have x: "uint x = int ?n" by simp
    then have "uint x < 32768" "- 32768 \<le> uint x" using n by linarith+
    then have "sint x = uint x" by (simp add: sint_uint signed_take_bit_int_eq_self)
    then show ?thesis unfolding to_int16_def of_int_of_nat_eq x_def [symmetric] using x by simp
  qed
  have dig: "length (numeral_text 10 ?n) \<le> 5" using n by (intro length_numeral_text) simp_all
  have nt: "holds (numeral_text 10 ?n @ 0 # r) (numeral_text 10 ?n)" for r by (intro holds_intro numeral_text_cstr) simp
  have pi: "printInt (re_bios v) (re_uninit v) (int ?n) w = Some (fold (printChar (re_bios v)) (numeral_text 10 ?n) w)" for w
    using intToString16_digits [of ?n "re_uninit v"] dig m(10) n print_of_holds [OF nt] by (simp add: printInt_def)
  have "length ?data = 512 * length cs"
    using ch(2) length_sectors_of [OF m(6), of _ 1]
    by (induction cs) (simp_all add: cluster_data_def on_disk_def floppy_cluster_size [OF m(9)])
  then have pr: "printRange (re_bios v) ?file [0..<?n] 0 0 w = Some (fold (printChar (re_bios v)) (take ?n ?data) w)" for w
    using printRange_all [of ?n ?file 0 "re_bios v" w] len(2) k(3) by simp
  have hl: "holds (str ''Length: '' @ [0]) (str ''Length: '')" "holds (str '' bytes'' @ [0]) (str '' bytes'')" "holds [0] []"
    by (simp_all add: str_def)
  have "print_command v fname k = Some (k\<lparr>rk_diskBuffer := disk ! 19, rk_fileBuffer := ?file,
      rk_world := fold (printChar (re_bios v)) (shown_file ?n ?data) w2\<rparr>)"
    using root ld size1 cut pi pr do_print_text(1) [OF hl(1), of v] do_print_text(2) [OF hl(2), of v]
      do_print_text(2) [OF hl(3), of v] m(3) k(1)
    by (simp add: print_command_def read_root_def readRootDirectory_def ROOT_DIR_START_def NUM_RESERVED_SECTORS_def
        NUMBER_OF_FATS_def SECTORS_PER_FAT_def shown_file_def)
  then show ?thesis using q terminal_print_all [OF m(1)] by (simp add: quiet_def)
qed

section \<open>Properties\<close>

text \<open>
  C10: Typed at the prompt of the 16-bit system, \<open>print\<close> and the name of a file show the file: after
  the prompt and the echo of the line come the length of the file in the directory and exactly that
  many bytes of the contents of its clusters, and the rest of what is typed is left for the next
  command. The line, the directory, the allocation table, the geometry of the disk and the
  conversion of the number all take part. The floppy disk has the standard layout with the root
  directory at sector 19; the file is among the sixteen entries of that sector, its name and those
  before it have fewer than 16 characters; it has at most 16 clusters (its buffer has 8192 bytes, and nothing stops a
  longer one from running over it), its chain is ended by the mark 0xFFF (the loader takes no other
  end mark for one), and the size in the directory is at most that of its clusters.
\<close>

theorem print_shows_file:
  assumes "floppy_machine v keys printed spt disk fs" and "kernel_ready k fs"
    and "keys (rk_world k) = str ''print '' @ t @ 0x0D # rest" and "list_all printable t"
    and "named_entry (disk ! 19) 16 t i"
    and "startOfFile (dir_entry_bytes (disk ! 19) i) = Some (hd cs)"
    and "fileSize (dir_entry_bytes (disk ! 19) i) = Some size1"
    and "chain fs (map ucast cs)" and "list_all (on_disk disk fs) (map ucast cs)"
    and "getFATEntry (fat (instance_data fs)) (last cs) = Some 0xFFF"
    and "length cs \<le> 16" and "unat size1 \<le> 512 * length cs"
  shows "\<exists>k'. kernel_turn v k = Some k' \<and> keys (rk_world k') = rest \<and>
    printed (rk_world k') = printed (rk_world k) @ str ''> '' @ str ''print '' @ t @ [0x0D, 0x0A] @
      shown_file (unat size1) (concat (map (cluster_data disk fs \<circ> ucast) cs))"
proof -
  note m = machineD [OF assms(1)]
  have rdy: "length (rk_timeString k) = 16" "length (rk_command k) = 128" using assms(2) by (simp_all add: kernel_ready_def)
  then have "9 \<le> length (rk_timeString k)" by simp
  then obtain tm w1 where hd: "draw_header v k = Some (k\<lparr>rk_timeString := tm, rk_world := w1\<rparr>)"
    "length tm = length (rk_timeString k)" "quiet keys printed (rk_world k) w1"
    using header_quiet [OF assms(1), of k] by blast
  let ?k1 = "k\<lparr>rk_timeString := tm, rk_world := w1\<rparr>"
  have hp: "holds (str ''> '' @ [0]) (str ''> '')" by (simp add: str_def)
  let ?w2 = "fold (printChar (re_bios v)) (str ''> '') w1"
  note w2 = terminal_print_all [OF m(1), of "str ''> ''" w1]
  let ?line = "str ''print '' @ t"
  have pr: "list_all printable ?line" using assms(4) by (simp add: str_def printable_unsigned)
  have lt: "length t < 16" using assms(5) by (simp add: named_entry_def)
  have "keys ?w2 = ?line @ 0x0D # rest" using w2 hd(3) assms(3) by (simp add: quiet_def)
  moreover have "\<not> printable 0x0D" by (simp add: printable_unsigned)
  then have "0x0D \<notin> set ?line" using pr by (auto simp: list_all_iff)
  moreover have "length ?line < length (rk_command k)" using rdy lt by simp
  ultimately have "\<exists>buffer' w'. getString (re_bios v) (rk_command k) 1 ?w2 = Some (buffer', w') \<and> length buffer' = length (rk_command k) \<and>
    take (length (edit (length (rk_command k) + 1) ?line []) + 1) buffer' = edit (length (rk_command k) + 1) ?line [] @ [0] \<and>
    keys w' = rest \<and> printed w' = printed ?w2 @ echo_text (length (rk_command k) + 1) ?line [] @ [0x0D, 0x0A]"
    by (rule getString_line [OF m(1)])
  moreover have "edit (length (rk_command k) + 1) ?line [] = ?line" "echo_text (length (rk_command k) + 1) ?line [] = ?line"
    using edit_plain [OF pr, of "[]"] rdy lt by simp_all
  ultimately obtain c w3 where gs: "getString (re_bios v) (rk_command k) 1 ?w2 = Some (c, w3)" "length c = 128"
    "take (length ?line + 1) c = ?line @ [0]" "keys w3 = rest" "printed w3 = printed ?w2 @ ?line @ [0x0D, 0x0A]"
    unfolding rdy by auto
  have ct: "is_cstr t" using assms(5) file_name_cstr by (auto simp: named_entry_def)
  obtain r where c: "c = str ''print '' @ t @ 0 # r"
    using gs(3) append_take_drop_id [of "length ?line + 1" c] by (metis append.assoc append_Cons append_Nil)
  then have "c = ?line @ 0 # r" by simp
  then have hc: "holds c ?line" using ct command_names(5) by (simp only: holds_intro is_cstr_simps(3))
  have "drop 6 c = t @ 0 # r" by (simp add: c)
  then have hd6: "holds (drop 6 c) t" using ct by (simp only: holds_intro)
  let ?k3 = "?k1\<lparr>rk_command := c, rk_world := w3\<rparr>"
  have "kernel_ready ?k3 fs" using assms(2) hd(2) gs(2) by (simp add: kernel_ready_def)
  from print_command_shows [OF assms(1) this assms(5) hd6 assms(6-12)] obtain k' where
    "print_command v (drop 6 c) ?k3 = Some k'" "keys (rk_world k') = rest"
    "printed (rk_world k') = printed w3 @ shown_file (unat size1) (concat (map (cluster_data disk fs \<circ> ucast) cs))"
    using gs(4) by auto
  moreover from this have "kernel_turn v k = Some k'"
    using hd(1) do_print_text(1) [OF hp, of v ?k1] gs(1) interpret_print [OF hc, of v ?k3] lt by (simp add: kernel_turn_def)
  ultimately show ?thesis using gs(5) w2 hd(3) by (simp add: quiet_def)
qed

definition pc_env :: "pc real_env" where
  "pc_env = \<lparr>re_bios = pc_bios a_disk 18, re_spt = 18, re_uninit = replicate 16 0, re_application = (\<lambda>p w. None)\<rparr>"

definition pc_kernel :: "pc real_kernel" where
  "pc_kernel = \<lparr>rk_FAT = fat (instance_data a_fs), rk_command = replicate 128 0, rk_timeString = replicate 16 0,
     rk_diskBuffer = replicate 512 0, rk_fileBuffer = replicate 8192 0, rk_program = [],
     rk_world = \<lparr>pc_keys = str ''print A.TXT'' @ [0x0D], pc_printed = []\<rparr>\<rparr>"

lemma pc_machine: "floppy_machine pc_env pc_keys pc_printed 18 a_disk a_fs" and pc_ready: "kernel_ready pc_kernel a_fs"
proof -
  have "\<exists>h m s w'. int1A_time (pc_bios a_disk 18) w = ((bcd h, bcd m, bcd s), w') \<and> h < 100 \<and> m < 100 \<and> s < 100" for w
    by (intro exI [of _ 12] exI [of _ 34] exI [of _ 56]) (simp add: pc_bios_def)
  then show "floppy_machine pc_env pc_keys pc_printed 18 a_disk a_fs"
    by (simp add: floppy_machine_def pc_env_def pc_bios_terminal pc_bios_serves a_disk_sectors a_volume)
  show "kernel_ready pc_kernel a_fs" by (simp add: kernel_ready_def pc_kernel_def)
qed

theorem print_shows_file_witness:
  "\<exists>k'. kernel_turn pc_env pc_kernel = Some k' \<and> pc_keys (rk_world k') = [] \<and>
     pc_printed (rk_world k') = str ''> print A.TXT'' @ [0x0D, 0x0A] @
       shown_file 600 (replicate 512 33 @ replicate 512 34)"
proof -
  let ?cs = "[2, 3] :: u16 list"
  have r: "a_disk ! 19 = a_txt @ replicate 480 0" by (simp add: a_disk_def)
  have "\<exists>k'. kernel_turn pc_env pc_kernel = Some k' \<and> pc_keys (rk_world k') = [] \<and>
    pc_printed (rk_world k') = pc_printed (rk_world pc_kernel) @ str ''> '' @ str ''print '' @ str ''A.TXT'' @ [0x0D, 0x0A] @
      shown_file (unat (600 :: u32)) (concat (map (cluster_data a_disk a_fs \<circ> ucast) ?cs))"
  proof (rule print_shows_file [OF pc_machine pc_ready])
    show "named_entry (a_disk ! 19) 16 (str ''A.TXT'') 0" unfolding r by (rule a_named)
    show "startOfFile (dir_entry_bytes (a_disk ! 19) 0) = Some (hd ?cs)" "fileSize (dir_entry_bytes (a_disk ! 19) 0) = Some 600"
      by (simp_all add: r a_txt_entry)
    show "pc_keys (rk_world pc_kernel) = str ''print '' @ str ''A.TXT'' @ 0x0D # []" by (simp add: pc_kernel_def str_def)
    show "list_all printable (str ''A.TXT'')" by (simp add: str_def printable_unsigned)
    show "chain a_fs (map ucast ?cs)" "list_all (on_disk a_disk a_fs) (map ucast ?cs)"
      "getFATEntry (fat (instance_data a_fs)) (last ?cs) = Some 0xFFF"
      using a_volume(2-4) by simp_all
  qed simp_all
  then show ?thesis by (simp add: pc_kernel_def str_def a_volume)
qed

end
