(* ===== verification/Spec2Isabelle.thy ===== *)
theory Spec2Isabelle
  imports Prelude CString Registry BlockDev BlockTable Memory Format FsDriver Fat FatFiles FatDir
    Vfs VfsMounts VfsFiles Graphics Console Font
    PortIO Serial Interrupts Keyboard Timer Floppy Pci Ata
    UsbData Uhci UhciInit UsbStorage UsbRead UserLib Userland Messages UsbReport Kernel VfsTypes Session
    RealMode RealDisk RealShell
begin

text \<open>
  GeorgeOS: the kernel, its drivers and its programs, as functions of HOL.

  The repository holds two operating systems for the PC. The one under \<open>32bit/\<close> is a protected mode
  kernel with a shell as its first user program; the one under \<open>16bit/\<close> is an older system in real
  mode whose kernel is its own shell. The development models the C code of both.

  \<^bold>\<open>The 32-bit kernel, from below.\<close> (\<open>core/\<close>, \<open>drivers/\<close> and \<open>include/\<close> stand for the directories of
  \<open>32bit/src/kernel\<close>.)

  \<^item> Prelude: machine types, return codes, arrays with checked accesses, the loop over an index.
    CString: \<open>core/string.c\<close>. Memory: the watermark allocator and the block operations of
    \<open>core/memory.c\<close>; the locale \<open>allocator\<close> is what a client of \<open>malloc\<close> and \<open>memalign\<close> relies on.
    Format: \<open>int_to_string\<close>, \<open>string_to_int\<close> and \<open>vsprintf\<close> of \<open>core/stream.c\<close>.
  \<^item> PortIO: the port accesses of \<open>core/low_level.c\<close>. A device is a function of the history of
    accesses, so a driver is run against every device there is; endless polls are partial functions.
    Serial: \<open>drivers/serial.c\<close> and \<open>drivers/cmos.c\<close>. Interrupts: \<open>core/interrupts.c\<close>,
    \<open>core/irq.c\<close>, \<open>core/syscall.c\<close>: the descriptor table, the dispatch to registered handlers,
    the acknowledgement at the two controllers, system calls, faults. Timer: \<open>core/timer.c\<close>.
    Keyboard: \<open>drivers/ps2_keyboard.c\<close> and the line editor of \<open>core/console.c\<close>.
  \<^item> BlockDev, Registry, BlockTable: \<open>drivers/block/blockdev.c\<close>: reading sectors through a driver
    (locales \<open>sector_reader\<close> and \<open>block_driver\<close>), the table of devices, partitions. The way
    devices and mounts get the numbers in their names is the locale \<open>numbered_registry\<close>.
    Floppy: \<open>drivers/block/floppy.c\<close>; Ata: \<open>drivers/block/ata.c\<close>; both are interpretations of
    \<open>block_driver\<close>.
  \<^item> Pci: \<open>drivers/bus/pci.c\<close>. UsbData: the descriptors of \<open>usb.h\<close> and \<open>uhci.h\<close> in the layout they
    have in memory. Uhci, UhciInit: \<open>drivers/bus/usb/uhci.c\<close>, transactions and the discovery of
    devices, and \<open>ehci.c\<close>. UsbStorage: \<open>drivers/block/usb_storage.c\<close>, the bulk-only transport and its
    commands; UsbRead: what a read of the drive delivers. UsbReport: the print-outs of \<open>uhci.c\<close>.
  \<^item> FsDriver, Fat, FatFiles, FatDir: the interface of a file system (locale \<open>fs_lister\<close>) and
    \<open>drivers/fs/fat12.c\<close>: the allocation table, files, directories. Vfs, VfsMounts, VfsFiles,
    VfsTypes: \<open>drivers/fs/fs.c\<close> with \<open>read\<close> and \<open>write\<close> of \<open>core/stream.c\<close>: mounts, paths, handles.
  \<^item> Graphics: \<open>drivers/vesa.c\<close> and \<open>core/graphics.c\<close>. Console: \<open>core/screen_console.c\<close>. Font:
    \<open>fonts/zap-vga16.c\<close>, the array of glyphs. Messages: the \<open>printf\<close> family and \<open>kprintf\<close> of
    \<open>core/stream.c\<close>, the dumps, \<open>core/debug.c\<close>.
  \<^item> Kernel: \<open>core/kernel.c\<close>, the start of the system and \<open>exec\<close>. UserLib, Userland: the library and
    the programs under \<open>32bit/src/userland\<close>. Session: a program on the kernel, with the system
    calls answered by the functions above.

  \<^bold>\<open>The 16-bit system.\<close> RealMode: \<open>16bit/src/kernel\<close>, \<open>util/string.c\<close>, \<open>components/console.c\<close> and the
  wrappers of the BIOS calls in \<open>bios/\<close>. RealDisk: \<open>bios/disk.c\<close> and \<open>components/filesystem.c\<close>.
  RealShell: \<open>kernel.c\<close> and the programs. The BIOS is the record \<open>bios\<close> of functions over the state
  of the machine. Open Watcom's \<open>char\<close> is unsigned and its \<open>int\<close> has 16 bits, and the model has too.

  \<^bold>\<open>Conventions.\<close> The result \<open>None\<close> of a function means that the C function does not come back with a
  defined result: it has left an object, divided by zero, called through a null pointer, halted or
  waits for ever. What the code reports with a return code is inside \<open>Some\<close>, the code as an \<open>int\<close>
  (SUCCESS is 1, FAILURE is -1, and both are true). A pointer into an object is the rest of the
  object, so that an access behind its end is visible; a pointer to an entry of a table is its index.
  Only memory that hardware shares with the kernel, in the USB drivers, is a function from 32-bit
  addresses to bytes. Integers are words of the width the code gives them, or integers where the code
  does not reach the limits; conversions are written out. Uninitialised memory is a parameter.
  What is not C of the repository is a parameter too: the devices behind the ports, what a USB host
  controller does in a millisecond, the BIOS, the addresses of assembler stubs, the program that
  \<open>exec\<close> loads. What a theorem assumes of them is a named predicate on the parameter
  (\<open>serves\<close>, what a driver of a disk promises; \<open>line_ready\<close>, a serial line that accepts characters;
  \<open>answering\<close>, a floppy controller that takes each byte in time; \<open>pio_drives\<close>, the transfers of
  an ATA channel; \<open>controller_serves\<close>, a USB controller that works through the schedule in memory, at the speed of the bus
  and the device; \<open>serves_blocks\<close>, \<open>serves_chs\<close>, \<open>terminal\<close>, ...), which a
  witness meets with a concrete function. The font is an argument of the drawing, so that the
  lemmas hold for any.

  \<^bold>\<open>What the lemmas show.\<close> For every component: when its accesses are in bounds and what it leaves
  alone (collections \<open>in_bounds\<close> and \<open>frame\<close>), the invariant of its state, and its result against
  something simpler than the code. Strings against lists (\<open>holds\<close>); the formatter against a rendering
  of parsed formats (\<open>render\<close>); the allocation table against bit fields, files against chains of
  clusters, directories against a list of entries; the console against a text terminal (\<open>tty_text\<close>)
  whose grid the pixels show (\<open>shown\<close>), and show so that it can be read in the font; the routines
  of the programs' library against those of the kernel; the floppy driver against the sequence of bytes
  its controller has to be sent; the ATA driver against a drive as the standard describes it; the boot sector's
  fields against their offsets in the specification (\<open>describes_volume\<close>); the loaders of the two systems against each other; the memory layout of transfer
  descriptors against the specification of the bits; the state of the file system against its
  types (\<open>vfs_conforms\<close>), which sequences of calls keep as long as every call fits, and then they all come back. On top are properties that cross components: a message from \<open>kprintf\<close> to the pixels and the serial line, a file by
  its path from the mounts to the sectors, a \<open>cat\<close> in the shell from the words of the line to
  the characters on the screen, a read of a USB drive from the sector number over wrappers,
  chains of descriptors, toggle bits and the schedule of the controller to the bytes in the buffer, and a file shown with \<open>print\<close>
  in the 16-bit system.

  \<^bold>\<open>Loops.\<close> Structural recursion or a measure wherever the code ends: the rest of the input, the free
  places of a buffer, the remaining tries of a driver's timeout. A loop that ends only if the
  world outside lets it (a port polled for a bit, the timer, a chain of clusters on the disk, the
  line editors) is a \<open>partial_function\<close> whose value \<open>None\<close> is not to return; the theorems about
  them prove that they return, from the contract of the device. No fuel is used, but for the sample controller of a witness.

  \<^bold>\<open>Not modelled.\<close> The boot loaders, interrupt stubs and the switch to protected mode are assembler,
  and so is the clock interrupt of the 16-bit system, which draws the time between two keys. The
  messages that drivers print while they work are left out there (they change no state but the
  screen): Messages has the functions they call. \<open>01_mbronly\<close>, \<open>02_asm\<close> and \<open>youtube\<close> are exercises
  in assembler. Interrupts between two accesses of a driver appear only where the code waits for
  them (timer, keyboard, floppy), not at every instruction. What is left of the headers are
  prototypes, constants that no code uses and the declarations of compiler builtins. Small
  idealisations: a signed overflow in \<open>string_to_int\<close> wraps around, where C leaves it undefined; the cursor that
  the clock draws while \<open>get_char\<close> waits is left out; releasing F12 writes to the reset port and the
  model carries on; the registers of a system call are those the kernel's own convention names, not
  what a compiler makes of the inline assembly.

  \<^bold>\<open>What is left to do.\<close> The set-up of a USB drive is modelled but not proved to find every drive
  that answers; the file system on a USB drive, whose driver fills memory and not a list of bytes,
  is not connected to the theorems about files. For the floppy controller it is proved what it is sent, not that
  the sector comes back: the driver switches the motor off after 37 milliseconds, so that no drive
  with a motor could be relied on.
\<close>

end
